(* ===== verification/Xfrpc_Prelude.thy ===== *)
theory Xfrpc_Prelude
  imports Main "HOL-Library.Word" "HOL-Library.Monad_Syntax"
begin

unbundle bit_operations_syntax

text \<open>
  Shared vocabulary of the development: the machine integers of the target (an ESP32, so a
  32-bit \<open>size_t\<close> and little-endian memory), byte strings, the C heap as far as the modelled
  code needs it, and the generic lemmas the component theories use.

  Conventions used everywhere:
  \<^item> a C function that can reach undefined behaviour (a write past the end of an allocation, a
    dereference of a freed object) returns an \<open>option\<close>, and \<open>None\<close> is the undefined behaviour;
    error codes of the source are ordinary values under \<open>Some\<close>;
  \<^item> \<open>malloc\<close> is an argument (an \<open>allocator\<close>): it returns the indeterminate contents of the block,
    or \<open>None\<close> when the allocation fails, so the out-of-memory branches of the source are branches
    of the model.
\<close>

section \<open>Machine integers and byte strings\<close>

type_synonym u8 = "8 word"
type_synonym u16 = "16 word"
type_synonym u32 = "32 word"
type_synonym u64 = "64 word"
type_synonym bytes = "8 word list"

named_theorems wire_simps \<open>reading and writing integers as bytes\<close>
named_theorems mem_simps \<open>copying into and out of buffers\<close>

definition be16 :: "u16 \<Rightarrow> bytes" where
  "be16 w = [ucast (drop_bit 8 w), ucast w]"

definition be32 :: "u32 \<Rightarrow> bytes" where
  "be32 w = [ucast (drop_bit 24 w), ucast (drop_bit 16 w), ucast (drop_bit 8 w), ucast w]"

definition be64 :: "u64 \<Rightarrow> bytes" where
  "be64 w = [ucast (drop_bit 56 w), ucast (drop_bit 48 w), ucast (drop_bit 40 w),
     ucast (drop_bit 32 w), ucast (drop_bit 24 w), ucast (drop_bit 16 w),
     ucast (drop_bit 8 w), ucast w]"

definition rd16 :: "u8 \<Rightarrow> u8 \<Rightarrow> u16" where
  "rd16 a b = push_bit 8 (ucast a) OR ucast b"

definition rd32 :: "u8 \<Rightarrow> u8 \<Rightarrow> u8 \<Rightarrow> u8 \<Rightarrow> u32" where
  "rd32 a b c d =
     push_bit 24 (ucast a) OR push_bit 16 (ucast b) OR push_bit 8 (ucast c) OR ucast d"

text \<open>The bytes of an integer in the memory of the (little-endian) target.\<close>

definition le16 :: "u16 \<Rightarrow> bytes" where
  "le16 w = rev (be16 w)"

definition le32 :: "u32 \<Rightarrow> bytes" where
  "le32 w = rev (be32 w)"

definition le64 :: "u64 \<Rightarrow> bytes" where
  "le64 w = rev (be64 w)"

lemma length_be [simp]:
  "length (be16 w) = 2" "length (be32 v) = 4" "length (be64 u) = 8"
  by (simp_all add: be16_def be32_def be64_def)

lemma length_le [simp]:
  "length (le16 w) = 2" "length (le32 v) = 4" "length (le64 u) = 8"
  by (simp_all add: le16_def le32_def le64_def)

lemma rd16_be16 [wire_simps]: "rd16 (ucast (drop_bit 8 w)) (ucast w) = w"
  by (rule bit_word_eqI) (auto simp: rd16_def bit_simps)

lemma rd32_be32 [wire_simps]:
  "rd32 (ucast (drop_bit 24 w)) (ucast (drop_bit 16 w)) (ucast (drop_bit 8 w)) (ucast w) = w"
proof (rule bit_word_eqI)
  fix n assume "n < LENGTH(32)"
  then consider "n < 8" | "8 \<le> n" "n < 16" | "16 \<le> n" "n < 24" | "24 \<le> n" "n < 32" by fastforce
  then show "bit (rd32 (ucast (drop_bit 24 w)) (ucast (drop_bit 16 w))
      (ucast (drop_bit 8 w)) (ucast w)) n = bit w n"
    by cases (auto simp: rd32_def bit_simps)
qed

lemma be16_rd16 [wire_simps]: "be16 (rd16 a b) = [a, b]"
  by (auto simp: be16_def rd16_def intro!: bit_word_eqI)
     (auto simp: bit_simps dest: bit_imp_le_length)

lemma be32_rd32 [wire_simps]: "be32 (rd32 a b c d) = [a, b, c, d]"
  by (auto simp: be32_def rd32_def intro!: bit_word_eqI)
     (auto simp: bit_simps dest: bit_imp_le_length)

text \<open>Reading an integer at an offset of a byte string.\<close>

definition rd16_at :: "nat \<Rightarrow> bytes \<Rightarrow> u16" where
  "rd16_at i b = rd16 (b ! i) (b ! (i + 1))"

definition rd32_at :: "nat \<Rightarrow> bytes \<Rightarrow> u32" where
  "rd32_at i b = rd32 (b ! i) (b ! (i + 1)) (b ! (i + 2)) (b ! (i + 3))"

lemma rd16_at_be16 [wire_simps]: "rd16_at 0 (be16 w) = w"
  by (simp add: rd16_at_def be16_def rd16_be16)

lemma rd32_at_be32 [wire_simps]: "rd32_at 0 (be32 w) = w"
  by (simp add: rd32_at_def be32_def rd32_be32)

lemma rd16_at_append [wire_simps]:
  "length a = i \<Longrightarrow> rd16_at i (a @ b) = rd16_at 0 b"
  by (simp add: rd16_at_def nth_append)

lemma rd32_at_append [wire_simps]:
  "length a = i \<Longrightarrow> rd32_at i (a @ b) = rd32_at 0 b"
  by (simp add: rd32_at_def nth_append numeral_2_eq_2)

lemma rd16_at_be16_append [wire_simps]: "rd16_at 0 (be16 w @ b) = w"
  by (simp add: rd16_at_def be16_def rd16_be16)

lemma rd32_at_be32_append [wire_simps]: "rd32_at 0 (be32 w @ b) = w"
  by (simp add: rd32_at_def be32_def rd32_be32)

lemma be16_inject [simp]: "be16 v = be16 w \<longleftrightarrow> v = w"
  by (metis rd16_at_be16)

lemma be32_inject [simp]: "be32 v = be32 w \<longleftrightarrow> v = w"
  by (metis rd32_at_be32)

lemma be64_halves: "be64 (push_bit 32 (ucast (a :: u32)) OR ucast (b :: u32)) = be32 a @ be32 b"
  by (auto simp: be64_def be32_def intro!: bit_word_eqI)
     (auto simp: bit_simps dest: bit_imp_le_length)

lemma low32_mask: "(0xFFFFFFFF :: u64) = mask 32"
  by (simp add: mask_eq_exp_minus_1)

lemma be64_split:
  "be64 w = be32 (ucast (drop_bit 32 w AND 0xFFFFFFFF)) @ be32 (ucast (w AND 0xFFFFFFFF))"
  unfolding low32_mask
  by (auto simp: be64_def be32_def intro!: bit_word_eqI)
     (auto simp: bit_simps dest: bit_imp_le_length)

lemma be64_inject [simp]: "be64 v = be64 w \<longleftrightarrow> v = w"
proof
  assume "be64 v = be64 w"
  then have "be32 (ucast (drop_bit 32 v AND 0xFFFFFFFF)) = be32 (ucast (drop_bit 32 w AND 0xFFFFFFFF))"
    and "be32 (ucast (v AND 0xFFFFFFFF)) = be32 (ucast (w AND 0xFFFFFFFF))"
    by (simp_all add: be64_split)
  then have hi: "ucast (drop_bit 32 v) = (ucast (drop_bit 32 w) :: u32)"
    and lo: "ucast v = (ucast w :: u32)"
    unfolding low32_mask by (simp_all add: bit_eq_iff bit_simps)
  show "v = w"
  proof (rule bit_word_eqI)
    fix n assume n: "n < LENGTH(64)"
    show "bit v n = bit w n"
    proof (cases "n < 32")
      case True
      with lo have "bit (ucast v :: u32) n = bit (ucast w :: u32) n" by simp
      with True show ?thesis by (simp add: bit_simps)
    next
      case False
      from hi have "bit (ucast (drop_bit 32 v) :: u32) (n - 32) = bit (ucast (drop_bit 32 w) :: u32) (n - 32)"
        by simp
      moreover from n have "n - 32 < 32" by simp
      ultimately show ?thesis using False by (simp add: bit_simps)
    qed
  qed
qed simp

section \<open>Buffers\<close>

text \<open>
  \<open>blit off src buf\<close> is \<open>memcpy(buf + off, src, length src)\<close> into an allocation holding \<open>buf\<close>;
  it is undefined (\<open>None\<close>) when the copy does not fit.
\<close>

definition blit :: "nat \<Rightarrow> 'a list \<Rightarrow> 'a list \<Rightarrow> 'a list option" where
  "blit off src buf =
     (if off + length src \<le> length buf
      then Some (take off buf @ src @ drop (off + length src) buf) else None)"

type_synonym allocator = "u32 \<Rightarrow> bytes option"

text \<open>What \<open>malloc\<close> promises: a returned block has the size asked for.\<close>

definition malloc_spec :: "allocator \<Rightarrow> bool" where
  "malloc_spec malloc \<longleftrightarrow> (\<forall>n b. malloc n = Some b \<longrightarrow> length b = unat n)"

lemma malloc_specD: "malloc_spec malloc \<Longrightarrow> malloc n = Some b \<Longrightarrow> length b = unat n"
  by (simp add: malloc_spec_def)

lemma blit_fits [mem_simps]:
  "off + length src \<le> length buf \<Longrightarrow>
     blit off src buf = Some (take off buf @ src @ drop (off + length src) buf)"
  by (simp add: blit_def)

lemma blit_overflow [mem_simps]: "length buf < off + length src \<Longrightarrow> blit off src buf = None"
  by (simp add: blit_def)

lemma blit_length: "blit off src buf = Some buf' \<Longrightarrow> length buf' = length buf"
  by (auto simp: blit_def split: if_splits)

lemma blit_SomeE:
  assumes "blit off src buf = Some buf'"
  obtains "off + length src \<le> length buf"
    and "buf' = take off buf @ src @ drop (off + length src) buf"
  using assms by (auto simp: blit_def split: if_splits)

section \<open>Words and sizes\<close>

lemma unat_add_no_wrap: "unat (a :: u32) + unat b < 2 ^ 32 \<Longrightarrow> unat (a + b) = unat a + unat b"
  by (simp add: unat_word_ariths)

lemma unat_sub_no_wrap: "b \<le> a \<Longrightarrow> unat ((a :: u32) - b) = unat a - unat b"
  by (simp add: unat_sub)

lemma unat_of_nat_u32: "n < 2 ^ 32 \<Longrightarrow> unat (of_nat n :: u32) = n"
  by (simp add: unat_of_nat take_bit_nat_eq_self)

lemma unat_u32_less: "unat (w :: u32) < 2 ^ 32"
  using unsigned_less [of w] by simp

lemma unat_of_nat_u64: "n < 2 ^ 64 \<Longrightarrow> unat (of_nat n :: u64) = n"
  by (simp add: unat_of_nat take_bit_nat_eq_self)

lemma le_u32_iff: "(a :: u32) \<le> b \<longleftrightarrow> unat a \<le> unat b"
  by (rule word_le_nat_alt)

lemma less_u32_iff: "(a :: u32) < b \<longleftrightarrow> unat a < unat b"
  by (rule word_less_nat_alt)

lemma sint_small: "unat (w :: u32) < 2 ^ 31 \<Longrightarrow> sint w = int (unat w)"
proof -
  assume "unat w < 2 ^ 31"
  then have "int (unat w) < int (2 ^ 31)" by (simp only: of_nat_less_iff)
  then have "uint w < 2 ^ 31" by simp
  moreover have "- (2 ^ 31) \<le> uint w" by (rule order.trans [of _ 0]) simp_all
  ultimately have "signed_take_bit 31 (uint w) = uint w"
    by (intro signed_take_bit_int_eq_self)
  then show ?thesis by (simp add: sint_uint)
qed

section \<open>Partial operations\<close>

text \<open>\<open>returns\<close>: the operation is defined and its result satisfies a predicate.\<close>

definition returns :: "('r \<Rightarrow> bool) \<Rightarrow> 'r option \<Rightarrow> bool" where
  "returns P x \<longleftrightarrow> (\<exists>r. x = Some r \<and> P r)"

named_theorems returns_rules

lemma returns_Some [returns_rules, simp]: "returns P (Some r) \<longleftrightarrow> P r"
  by (simp add: returns_def)

lemma returns_bind: "returns Q x \<Longrightarrow> (\<And>r. Q r \<Longrightarrow> returns P (f r)) \<Longrightarrow> returns P (Option.bind x f)"
  by (auto simp: returns_def)

lemma returns_mono: "returns P x \<Longrightarrow> (\<And>r. P r \<Longrightarrow> Q r) \<Longrightarrow> returns Q x"
  by (auto simp: returns_def)

lemma returns_if: "returns P x \<Longrightarrow> returns P y \<Longrightarrow> returns P (if b then x else y)"
  by simp

text \<open>\<open>yields\<close> is the same for an operation that may be undefined.\<close>

definition yields :: "('r \<Rightarrow> bool) \<Rightarrow> 'r option \<Rightarrow> bool" where
  "yields P x \<longleftrightarrow> (\<forall>r. x = Some r \<longrightarrow> P r)"

lemma yields_simps [simp]: "yields P None" "yields P (Some r) \<longleftrightarrow> P r"
  by (simp_all add: yields_def)

lemma returns_yields: "returns P x \<Longrightarrow> yields P x"
  by (auto simp: returns_def yields_def)

lemma yields_bind: "yields Q x \<Longrightarrow> (\<And>r. Q r \<Longrightarrow> yields P (f r)) \<Longrightarrow> yields P (Option.bind x f)"
  by (cases x) auto

lemma yieldsD: "yields P x \<Longrightarrow> x = Some r \<Longrightarrow> P r"
  by (simp add: yields_def)

lemma yields_bind_iff: "yields P (Option.bind x f) \<longleftrightarrow> (\<forall>r. x = Some r \<longrightarrow> yields P (f r))"
  by (cases x) auto

lemma yields_mono: "yields P x \<Longrightarrow> (\<And>r. P r \<Longrightarrow> Q r) \<Longrightarrow> yields Q x"
  by (auto simp: yields_def)

lemma yields_if: "(b \<Longrightarrow> yields P x) \<Longrightarrow> (\<not> b \<Longrightarrow> yields P y) \<Longrightarrow> yields P (if b then x else y)"
  by simp

end
