(* ===== verification/Byte_Order.thy ===== *)
theory Byte_Order
  imports Xfrpc_Prelude
begin

text \<open>
  Byte order: the conversions of \<open>src/common.c\<close> and the C library's \<open>htons\<close>/\<open>htonl\<close> on the
  little-endian target, and the v1 message header \<open>struct msg_hdr\<close> of \<open>src/msg.h\<close>. The lemmas
  show that a converted integer, written from memory, is on the wire in network order.
\<close>

section \<open>Conversions\<close>

text \<open>\<open>htons\<close> and \<open>htonl\<close> of the C library reverse the bytes on this target.\<close>

definition htons :: "u16 \<Rightarrow> u16" where
  "htons w = rd16 (ucast w) (ucast (drop_bit 8 w))"

definition htonl :: "u32 \<Rightarrow> u32" where
  "htonl w = rd32 (ucast w) (ucast (drop_bit 8 w)) (ucast (drop_bit 16 w)) (ucast (drop_bit 24 w))"

definition ntohs :: "u16 \<Rightarrow> u16" where
  "ntohs w = htons w"

definition ntohl :: "u32 \<Rightarrow> u32" where
  "ntohl w = htonl w"

definition hton64 :: "u64 \<Rightarrow> u64" where
  "hton64 input = push_bit 32 (ucast (htonl (ucast (input AND 0xFFFFFFFF)))) OR
     ucast (htonl (ucast (drop_bit 32 input AND 0xFFFFFFFF)))"

definition ntoh64 :: "u64 \<Rightarrow> u64" where
  "ntoh64 input = push_bit 32 (ucast (ntohl (ucast (input AND 0xFFFFFFFF)))) OR
     ucast (ntohl (ucast (drop_bit 32 input AND 0xFFFFFFFF)))"

lemma ntoh64_eq: "ntoh64 = hton64"
  by (rule ext) (simp add: ntoh64_def hton64_def ntohl_def)

lemma be32_htonl: "be32 (htonl w) = rev (be32 w)"
  unfolding htonl_def be32_rd32 by (simp add: be32_def)

lemma be16_htons: "be16 (htons w) = rev (be16 w)"
  unfolding htons_def be16_rd16 by (simp add: be16_def)

lemma htonl_htonl [simp]: "htonl (htonl w) = w"
  by (metis be32_htonl be32_inject rev_rev_ident)

lemma htons_htons [simp]: "htons (htons w) = w"
  by (metis be16_htons be16_inject rev_rev_ident)

lemma le32_htonl [wire_simps]: "le32 (htonl w) = be32 w"
  by (simp add: le32_def be32_htonl)

lemma le16_htons [wire_simps]: "le16 (htons w) = be16 w"
  by (simp add: le16_def be16_htons)

lemma le64_hton64 [wire_simps]: "le64 (hton64 x) = be64 x"
proof -
  have "le64 (hton64 x) = rev (be32 (htonl (ucast (x AND 0xFFFFFFFF))) @
      be32 (htonl (ucast (drop_bit 32 x AND 0xFFFFFFFF))))"
    by (simp only: le64_def hton64_def be64_halves)
  then show ?thesis by (simp add: be32_htonl be64_split [of x])
qed

lemma hton64_hton64 [simp]: "hton64 (hton64 x) = x"
proof -
  have "be64 (hton64 (hton64 x)) = be64 x"
    by (metis le64_def le64_hton64 rev_rev_ident)
  then show ?thesis by simp
qed

lemma ntohl_htonl [simp]: "ntohl (htonl w) = w"
  by (simp add: ntohl_def)

lemma ntohs_htons [simp]: "ntohs (htons w) = w"
  by (simp add: ntohs_def)

end
