(* ===== verification/Grow_Buffer.thy ===== *)
theory Grow_Buffer
  imports Xfrpc_Prelude
begin

text \<open>
  Growable byte buffers. The same idiom appears in \<open>port/mini_event.c\<close> (\<open>struct evbuffer\<close>),
  \<open>src/aead_stream.c\<close> (\<open>buf_append\<close>), \<open>src/control.c\<close> (\<open>v2_buf_append\<close>) and \<open>src/proxy_tcp.c\<close>
  (\<open>socks5_buf_ensure\<close>, \<open>xdpi_buf_ensure\<close>): an allocation of \<open>cap\<close> bytes of which the first
  \<open>len\<close> are live, grown by doubling. The sizes are the target's 32-bit \<open>size_t\<close>, so doubling
  wraps; \<open>grow_loop\<close> then never ends, and \<open>None\<close> stands for that as for undefined behaviour.
  The lemmas show that up to 2 GiB the loop ends and the buffer behaves as a byte list.
  The locale \<open>append_buffer\<close> is the contract the users of such a buffer rely on.
\<close>

section \<open>The doubling loop\<close>

partial_function (option) grow_loop :: "u32 \<Rightarrow> u32 \<Rightarrow> u32 option" where
  "grow_loop cap need = (if cap < need then grow_loop (cap * 2) need else Some cap)"

lemma grow_loop_stop: "need \<le> cap \<Longrightarrow> grow_loop cap need = Some cap"
  by (subst grow_loop.simps) (auto dest: leD)

lemma grow_loop_step: "cap < need \<Longrightarrow> grow_loop cap need = grow_loop (cap * 2) need"
  by (subst grow_loop.simps) simp

lemma pow2_less_31: "(2::nat) ^ k < 2 ^ 31 \<Longrightarrow> k < 31"
  by (rule power_less_imp_less_exp [of 2]) simp_all

lemma grow_loop_bounded:
  assumes "unat cap = 2 ^ k" "k \<le> m" "m \<le> 31" "unat need \<le> 2 ^ m"
  shows "\<exists>j c. k \<le> j \<and> j \<le> m \<and> unat c = 2 ^ j \<and> need \<le> c \<and> grow_loop cap need = Some c"
  using assms
proof (induction "m - k" arbitrary: cap k rule: less_induct)
  case less
  show ?case
  proof (cases "need \<le> cap")
    case True
    with less.prems show ?thesis by (auto simp: grow_loop_stop)
  next
    case False
    then have lt: "cap < need" by simp
    then have "unat cap < unat need" by (simp add: less_u32_iff)
    then have "(2::nat) ^ k < 2 ^ m" using less.prems(1,4) by linarith
    then have k: "k < m" by simp
    then have "(2::nat) ^ k \<le> 2 ^ 30" using less.prems(3) by (intro power_increasing) simp_all
    then have dbl: "unat (cap * 2) = 2 ^ Suc k"
      using less.prems by (simp add: unat_word_ariths)
    have "\<exists>j c. Suc k \<le> j \<and> j \<le> m \<and> unat c = 2 ^ j \<and> need \<le> c \<and>
        grow_loop (cap * 2) need = Some c"
      using k dbl less.prems(3,4) by (intro less.hyps) simp_all
    then show ?thesis using grow_loop_step [OF lt] by (metis Suc_leD)
  qed
qed

lemma grow_loop_pow2:
  assumes "unat cap = 2 ^ k" "k \<le> 31" "unat need \<le> 2 ^ 31"
  shows "\<exists>j c. k \<le> j \<and> j \<le> 31 \<and> unat c = 2 ^ j \<and> need \<le> c \<and> grow_loop cap need = Some c"
  by (rule grow_loop_bounded) (use assms in auto)

section \<open>The buffer\<close>

record gbuf =
  gb_mem :: bytes
  gb_len :: u32
  gb_cap :: u32

definition gb_empty :: gbuf where
  "gb_empty = \<lparr>gb_mem = [], gb_len = 0, gb_cap = 0\<rparr>"

definition content :: "gbuf \<Rightarrow> bytes" where
  "content b = take (unat (gb_len b)) (gb_mem b)"

text \<open>The allocation has the recorded capacity, a power of two, and the length is within it.\<close>

definition gb_ok :: "gbuf \<Rightarrow> bool" where
  "gb_ok b \<longleftrightarrow> length (gb_mem b) = unat (gb_cap b) \<and> gb_len b \<le> gb_cap b \<and>
     (gb_cap b = 0 \<or> (\<exists>k \<le> 31. unat (gb_cap b) = 2 ^ k))"

text \<open>\<open>realloc\<close>: a block of the new size that starts with the old bytes, or failure.\<close>

type_synonym reallocator = "bytes \<Rightarrow> u32 \<Rightarrow> bytes option"

definition realloc_spec :: "reallocator \<Rightarrow> bool" where
  "realloc_spec realloc \<longleftrightarrow>
     (\<forall>old n b. realloc old n = Some b \<longrightarrow>
        length b = unat n \<and> take (min (length old) (unat n)) b = take (unat n) old)"

text \<open>The growing step: double from \<open>start\<close> until \<open>need\<close> fits, then reallocate.\<close>

definition gb_grow :: "reallocator \<Rightarrow> u32 \<Rightarrow> u32 \<Rightarrow> gbuf \<Rightarrow> (int \<times> gbuf) option" where
  "gb_grow realloc start need b = do {
     capn \<leftarrow> grow_loop start need;
     (case realloc (gb_mem b) capn of
        None \<Rightarrow> Some (-1, b)
      | Some nb \<Rightarrow> Some (0, b\<lparr>gb_mem := nb, gb_cap := capn\<rparr>))
   }"

text \<open>The copy: \<open>memcpy(buf + len, p, n); len += n\<close>.\<close>

definition gb_put :: "gbuf \<Rightarrow> bytes \<Rightarrow> gbuf option" where
  "gb_put b p = do {
     m \<leftarrow> blit (unat (gb_len b)) p (gb_mem b);
     Some (b\<lparr>gb_mem := m, gb_len := gb_len b + of_nat (length p)\<rparr>)
   }"

text \<open>\<open>buf_append\<close> of \<open>aead_stream.c\<close> (and its copy \<open>v2_buf_append\<close> in \<open>control.c\<close>).\<close>

definition buf_append :: "reallocator \<Rightarrow> gbuf \<Rightarrow> bytes \<Rightarrow> (int \<times> gbuf) option" where
  "buf_append realloc b p = do {
     (rc, b) \<leftarrow> (if gb_cap b < gb_len b + of_nat (length p)
                then gb_grow realloc (if gb_cap b \<noteq> 0 then gb_cap b * 2 else 4096)
                       (gb_len b + of_nat (length p)) b
                else Some (0, b));
     if rc \<noteq> 0 then Some (-1, b)
     else do { b \<leftarrow> gb_put b p; Some (0, b) }
   }"

text \<open>Dropping a prefix: \<open>memmove(buf, buf + n, len - n); len -= n\<close>.\<close>

definition buf_drop :: "u32 \<Rightarrow> gbuf \<Rightarrow> gbuf option" where
  "buf_drop n b =
     (if gb_len b < n then None
      else do {
        m \<leftarrow> blit 0 (take (unat (gb_len b - n)) (drop (unat n) (gb_mem b))) (gb_mem b);
        Some (b\<lparr>gb_mem := m, gb_len := gb_len b - n\<rparr>)
      })"

lemma gb_ok_empty [simp]: "gb_ok gb_empty" and content_empty [simp]: "content gb_empty = []"
  by (simp_all add: gb_ok_def gb_empty_def content_def)

lemma gb_ok_len: "gb_ok b \<Longrightarrow> unat (gb_len b) \<le> length (gb_mem b)"
  by (simp add: gb_ok_def le_u32_iff)

lemma length_content: "gb_ok b \<Longrightarrow> length (content b) = unat (gb_len b)"
  by (simp add: content_def gb_ok_len)

lemma unat_len_plus:
  "unat (l :: u32) + m \<le> 2 ^ 31 \<Longrightarrow> unat (l + of_nat m) = unat l + m"
  using unat_of_nat_u32 [of m] by (simp add: unat_add_no_wrap)

lemma gb_put_correct:
  assumes ok: "gb_ok b" and room: "length (content b) + length p \<le> unat (gb_cap b)"
    and small: "length (content b) + length p \<le> 2 ^ 31"
  obtains b' where "gb_put b p = Some b'" "gb_ok b'" "content b' = content b @ p"
proof -
  let ?l = "unat (gb_len b)" and ?len = "gb_len b + of_nat (length p)"
  have l: "length (content b) = ?l" using ok by (rule length_content)
  have len: "unat ?len = ?l + length p" using small l unat_len_plus by simp
  have mem: "?l \<le> length (gb_mem b)" "length (gb_mem b) = unat (gb_cap b)"
    using ok gb_ok_len by (auto simp: gb_ok_def)
  let ?m = "take ?l (gb_mem b) @ p @ drop (?l + length p) (gb_mem b)"
  let ?b = "b\<lparr>gb_mem := ?m, gb_len := ?len\<rparr>"
  have "gb_put b p = Some ?b" using room l mem by (simp add: gb_put_def blit_fits)
  moreover have "gb_ok ?b" using ok room l mem len by (auto simp: gb_ok_def le_u32_iff)
  moreover have "content ?b = content b @ p" using len mem by (simp add: content_def)
  ultimately show thesis by (rule that)
qed

lemma gb_cap_positive_pow2:
  "gb_ok b \<Longrightarrow> gb_cap b \<noteq> 0 \<Longrightarrow> \<exists>k \<le> 31. unat (gb_cap b) = 2 ^ k"
  by (auto simp: gb_ok_def)

lemma grow_start_pow2:
  assumes "gb_ok b" "unat (gb_cap b) < 2 ^ 31"
  shows "\<exists>k \<le> 31. unat (if gb_cap b \<noteq> 0 then gb_cap b * 2 else 4096) = 2 ^ k"
proof (cases "gb_cap b = 0")
  case True
  then show ?thesis by (intro exI [of _ 12]) simp
next
  case False
  then obtain k where k: "unat (gb_cap b) = 2 ^ k" using gb_cap_positive_pow2 [OF assms(1)] by blast
  with assms(2) have "k < 31" by (intro pow2_less_31) simp
  then have "(2::nat) ^ k \<le> 2 ^ 30" by (intro power_increasing) simp_all
  then have "unat (gb_cap b * 2) = 2 ^ Suc k" using k by (simp add: unat_word_ariths)
  with False \<open>k < 31\<close> show ?thesis by (intro exI [of _ "Suc k"]) simp
qed

lemma realloc_keeps:
  assumes "realloc_spec realloc" "realloc old n = Some nb" "length old \<le> unat n" "l \<le> length old"
  shows "length nb = unat n" "take l nb = take l old"
proof -
  from assms(1,2) have len: "length nb = unat n"
    and pre: "take (min (length old) (unat n)) nb = take (unat n) old"
    unfolding realloc_spec_def by blast+
  show "length nb = unat n" by (rule len)
  have "take l (take (length old) nb) = take l old"
    using pre assms(3) by (simp add: min_def)
  then show "take l nb = take l old" using assms(4) by (simp add: min_def)
qed

text \<open>Growing: from a power of two, up to 2 GiB, it returns; the contents stay, the capacity is at
  least what was asked for, or the allocation failed and nothing changed.\<close>

lemma gb_grow_bounded:
  assumes ok: "gb_ok b" and re: "realloc_spec realloc"
    and start: "unat start = 2 ^ k" "k \<le> m" "m \<le> 31"
    and need: "unat need \<le> 2 ^ m" "gb_cap b \<le> need"
  obtains (grown) b' where "gb_grow realloc start need b = Some (0, b')" "gb_ok b'"
      "content b' = content b" "need \<le> gb_cap b'" "unat (gb_cap b') \<le> 2 ^ m" "realloc (gb_mem b) (gb_cap b') \<noteq> None"
  | (failed) n where "gb_grow realloc start need b = Some (-1, b)" "unat n \<le> 2 ^ m" "realloc (gb_mem b) n = None"
proof -
  obtain j c where c: "j \<le> m" "unat c = 2 ^ j" "need \<le> c" "grow_loop start need = Some c"
    using grow_loop_bounded [OF start need(1)] by metis
  have cm: "unat c \<le> 2 ^ m" using c(1,2) by (simp add: power_increasing)
  show thesis
  proof (cases "realloc (gb_mem b) c")
    case None
    then show thesis using c(4) cm by (intro failed [of c]) (auto simp: gb_grow_def)
  next
    case (Some nb)
    have "length (gb_mem b) \<le> unat c"
      using ok c(3) need(2) by (simp add: gb_ok_def le_u32_iff)
    note nb = realloc_keeps [OF re Some this gb_ok_len [OF ok]]
    have lc: "gb_len b \<le> c" using ok c(3) need(2) by (auto simp: gb_ok_def)
    let ?b = "b\<lparr>gb_mem := nb, gb_cap := c\<rparr>"
    have "gb_grow realloc start need b = Some (0, ?b)" using c(4) Some by (simp add: gb_grow_def)
    moreover have "gb_ok ?b" using nb(1) c lc start(3) by (auto simp: gb_ok_def)
    moreover have "content ?b = content b" using nb(2) by (simp add: content_def)
    ultimately show thesis using c(3) cm Some by (intro grown [of ?b]) simp_all
  qed
qed

lemma gb_grow_correct:
  assumes "gb_ok b" "realloc_spec realloc" "unat start = 2 ^ k" "k \<le> 31" "unat need \<le> 2 ^ 31" "gb_cap b \<le> need"
  obtains (grown) b' where "gb_grow realloc start need b = Some (0, b')" "gb_ok b'"
      "content b' = content b" "need \<le> gb_cap b'"
  | (failed) "gb_grow realloc start need b = Some (-1, b)" "\<exists>n. realloc (gb_mem b) n = None"
  by (rule gb_grow_bounded [OF assms(1-4) _ assms(5,6)]) (use grown failed in auto)

text \<open>Appending: up to 2 GiB it returns; the bytes are appended, or the allocation failed and
  nothing changed.\<close>

lemma buf_append_correct:
  assumes ok: "gb_ok b" and re: "realloc_spec realloc"
    and fits: "length (content b) + length p \<le> 2 ^ 31"
  obtains (appended) b' where "buf_append realloc b p = Some (0, b')" "gb_ok b'"
      "content b' = content b @ p"
  | (failed) "buf_append realloc b p = Some (-1, b)" "\<exists>n. realloc (gb_mem b) n = None"
proof -
  let ?need = "gb_len b + of_nat (length p)"
  let ?start = "if gb_cap b \<noteq> 0 then gb_cap b * 2 else 4096"
  have need: "unat ?need = length (content b) + length p"
    using fits ok unat_len_plus by (simp add: length_content)
  show thesis
  proof (cases "gb_cap b < ?need")
    case False
    then have "length (content b) + length p \<le> unat (gb_cap b)"
      using need by (simp add: less_u32_iff)
    then obtain b' where "gb_put b p = Some b'" "gb_ok b'" "content b' = content b @ p"
      using gb_put_correct [OF ok _ fits] by blast
    then show thesis using False by (intro appended) (simp_all add: buf_append_def)
  next
    case True
    then have "unat (gb_cap b) < 2 ^ 31" using need fits by (simp add: less_u32_iff)
    then obtain k where k: "unat ?start = 2 ^ k" "k \<le> 31" using grow_start_pow2 [OF ok] by blast
    have n31: "unat ?need \<le> 2 ^ 31" and le: "gb_cap b \<le> ?need" using need fits True by simp_all
    show thesis
    proof (cases rule: gb_grow_correct [OF ok re k n31 le])
      case (1 g)
      then have "length (content g) + length p \<le> unat (gb_cap g)"
        using need by (simp add: le_u32_iff)
      then obtain b' where "gb_put g p = Some b'" "gb_ok b'" "content b' = content b @ p"
        using gb_put_correct [OF 1(2)] 1(3) fits by metis
      then show thesis using True 1(1) by (intro appended) (simp_all add: buf_append_def)
    next
      case 2
      then show thesis using True by (intro failed) (simp_all add: buf_append_def)
    qed
  qed
qed

lemma buf_drop_correct:
  assumes "gb_ok b" "unat n \<le> length (content b)"
  obtains b' where "buf_drop n b = Some b'" "gb_ok b'" "content b' = drop (unat n) (content b)"
proof -
  let ?l = "unat (gb_len b)"
  have l: "length (content b) = ?l" using assms(1) by (rule length_content)
  have le: "n \<le> gb_len b" using assms(2) l by (simp add: le_u32_iff)
  have sub: "unat (gb_len b - n) = ?l - unat n" using le by (rule unat_sub_no_wrap)
  have mem: "?l \<le> length (gb_mem b)" using assms(1) by (rule gb_ok_len)
  let ?src = "take (?l - unat n) (drop (unat n) (gb_mem b))"
  have ls: "length ?src = ?l - unat n" using mem by simp
  let ?b = "b\<lparr>gb_mem := ?src @ drop (?l - unat n) (gb_mem b), gb_len := gb_len b - n\<rparr>"
  have "buf_drop n b = Some ?b"
    using le mem ls by (simp add: buf_drop_def sub blit_fits not_less)
  moreover have "gb_ok ?b"
    using assms(1) mem ls le by (auto simp: gb_ok_def le_u32_iff sub)
  moreover have "content ?b = drop (unat n) (content b)"
    using ls by (simp add: content_def sub drop_take)
  ultimately show thesis by (rule that)
qed

section \<open>The contract of an appendable buffer\<close>

text \<open>
  What the users of a growable buffer rely on: under 2 GiB an append returns, and either the
  bytes are at the end or an allocation failed and the buffer is as before. A sequence of
  appends then collects the chunks in order, up to the first failed allocation.
\<close>

locale append_buffer =
  fixes append :: "reallocator \<Rightarrow> 'b \<Rightarrow> bytes \<Rightarrow> (int \<times> 'b) option"
    and bytes_of :: "'b \<Rightarrow> bytes"
    and ok :: "'b \<Rightarrow> bool"
  assumes append_cases:
    "realloc_spec re \<Longrightarrow> ok b \<Longrightarrow> length (bytes_of b) + length p \<le> 2 ^ 31 \<Longrightarrow>
       (\<exists>b'. append re b p = Some (0, b') \<and> ok b' \<and> bytes_of b' = bytes_of b @ p) \<or>
       append re b p = Some (-1, b)"
begin

fun append_all :: "reallocator \<Rightarrow> 'b \<Rightarrow> bytes list \<Rightarrow> (int \<times> 'b) option" where
  "append_all re b [] = Some (0, b)"
| "append_all re b (p # ps) =
     (case append re b p of
        None \<Rightarrow> None
      | Some (rc, b') \<Rightarrow> if rc = 0 then append_all re b' ps else Some (rc, b'))"

lemma append_all_collects:
  assumes "realloc_spec re" "ok b" "length (bytes_of b) + length (concat ps) \<le> 2 ^ 31"
  shows "\<exists>rc b' k. append_all re b ps = Some (rc, b') \<and> ok b' \<and> k \<le> length ps \<and>
    bytes_of b' = bytes_of b @ concat (take k ps) \<and> (rc = 0 \<longrightarrow> k = length ps)"
  using assms(2,3)
proof (induction ps arbitrary: b)
  case Nil
  then show ?case by auto
next
  case (Cons p ps)
  from Cons.prems have "length (bytes_of b) + length p \<le> 2 ^ 31" by simp
  from append_cases [OF assms(1) Cons.prems(1) this] show ?case
  proof (elim disjE exE conjE)
    fix b' assume b': "append re b p = Some (0, b')" "ok b'" "bytes_of b' = bytes_of b @ p"
    with Cons.prems have "length (bytes_of b') + length (concat ps) \<le> 2 ^ 31" by simp
    from Cons.IH [OF b'(2) this] obtain rc c k where
      "append_all re b' ps = Some (rc, c)" "ok c" "k \<le> length ps"
      "bytes_of c = bytes_of b' @ concat (take k ps)" "rc = 0 \<longrightarrow> k = length ps" by blast
    with b' show ?case by (intro exI [of _ rc] exI [of _ c] exI [of _ "Suc k"]) simp
  next
    assume "append re b p = Some (-1, b)"
    with Cons.prems show ?case by (intro exI [of _ "-1"] exI [of _ b] exI [of _ 0]) simp
  qed
qed

end

interpretation ab: append_buffer buf_append content gb_ok
proof unfold_locales
  fix re b and p :: bytes
  assume a: "realloc_spec re" "gb_ok b" "length (content b) + length p \<le> 2 ^ 31"
  show "(\<exists>b'. buf_append re b p = Some (0, b') \<and> gb_ok b' \<and> content b' = content b @ p) \<or>
      buf_append re b p = Some (-1, b)"
    by (cases rule: buf_append_correct [OF a(2,1,3)]) auto
qed

end
