(* ===== verification/Aead_Stream.thy ===== *)
theory Aead_Stream
  imports Grow_Buffer
begin

text \<open>
  The framed AES-256-GCM stream of protocol v2, \<open>aead_stream.c\<close>: the nonce counter, the key
  derivation, the sealing writer and the incremental reader. HMAC-SHA256 and the EVP cipher calls
  are arguments (\<open>hmac\<close>, \<open>enc\<close>, \<open>dec\<close>): the sources only call them. \<open>gcm_spec\<close> is what an
  authenticated cipher documents. The inductive predicate \<open>sealed\<close> is the format of a stream; the
  writer produces it, and the reader accepts it and nothing else, however the bytes arrive.
\<close>

section \<open>Constants and external calls\<close>

abbreviation (input) AEAD_KEY_SIZE :: nat where "AEAD_KEY_SIZE \<equiv> 32"
abbreviation (input) AEAD_GCM_NONCE_SIZE :: nat where "AEAD_GCM_NONCE_SIZE \<equiv> 12"
abbreviation (input) AEAD_GCM_TAG_SIZE :: nat where "AEAD_GCM_TAG_SIZE \<equiv> 16"
abbreviation (input) AEAD_MAX_PAYLOAD :: nat where "AEAD_MAX_PAYLOAD \<equiv> 65536"

text \<open>Key, nonce, additional data, plaintext to ciphertext and tag; \<open>None\<close>: an EVP call failed.\<close>

type_synonym gcm_enc = "bytes \<Rightarrow> bytes \<Rightarrow> bytes \<Rightarrow> bytes \<Rightarrow> (bytes \<times> bytes) option"
type_synonym gcm_dec = "bytes \<Rightarrow> bytes \<Rightarrow> bytes \<Rightarrow> bytes \<Rightarrow> bytes \<Rightarrow> bytes option"

definition gcm_spec :: "gcm_enc \<Rightarrow> gcm_dec \<Rightarrow> bool" where
  "gcm_spec enc dec \<longleftrightarrow>
     (\<forall>k n a p c t. enc k n a p = Some (c, t) \<longrightarrow> length c = length p \<and> length t = 16) \<and>
     (\<forall>k n a p c t. dec k n a c t = Some p \<longleftrightarrow> enc k n a p = Some (c, t))"

section \<open>Operations\<close>

subsection \<open>The nonce counter\<close>

fun increment_from :: "nat \<Rightarrow> bytes \<Rightarrow> bool \<times> bytes" where
  "increment_from 0 nonce = (False, nonce)"
| "increment_from (Suc i) nonce =
     (let nonce = nonce[i := nonce ! i + 1] in
      if nonce ! i \<noteq> 0 then (True, nonce) else increment_from i nonce)"

definition increment_nonce :: "bytes \<Rightarrow> bool \<times> bytes" where
  "increment_nonce nonce = increment_from (length nonce) nonce"

subsection \<open>Key derivation\<close>

definition hkdf_sha256_32 ::
  "allocator \<Rightarrow> (bytes \<Rightarrow> bytes \<Rightarrow> bytes option) \<Rightarrow> bytes \<Rightarrow> bytes option \<Rightarrow> bytes \<Rightarrow> (int \<times> bytes) option" where
  "hkdf_sha256_32 malloc hmac ikm salt info =
     (let salt = (case salt of None \<Rightarrow> replicate 32 0 | Some s \<Rightarrow> if s = [] then replicate 32 0 else s) in
      case hmac salt ikm of
        None \<Rightarrow> Some (-1, [])
      | Some prk \<Rightarrow>
          (case malloc (of_nat (length info) + 1) of
             None \<Rightarrow> Some (-1, [])
           | Some tmp \<Rightarrow> do {
               tmp \<leftarrow> blit 0 info tmp;
               tmp \<leftarrow> blit (length info) [1] tmp;
               (case hmac prk (take (length info + 1) tmp) of
                  None \<Rightarrow> Some (-1, [])
                | Some out \<Rightarrow> Some (0, out))
             }))"

text \<open>
  \<open>snprintf\<close> into an array of \<open>sz\<close> bytes returns the untruncated length; reading that many bytes
  of the array afterwards is undefined when it is more than \<open>sz\<close>.
\<close>

definition snprintf_read :: "nat \<Rightarrow> bytes \<Rightarrow> bytes option" where
  "snprintf_read sz s =
     (if length s \<le> sz then Some (take (length s) (take (sz - 1) s @ [0])) else None)"

definition v2_key_info :: "bytes \<Rightarrow> string \<Rightarrow> bytes" where
  "v2_key_info algorithm direction =
     map of_char ''frp wire v2 control aead '' @ algorithm @ map of_char direction"

definition derive_v2_control_keys ::
  "allocator \<Rightarrow> (bytes \<Rightarrow> bytes \<Rightarrow> bytes option) \<Rightarrow> bytes \<Rightarrow> bytes \<Rightarrow> bytes \<Rightarrow> (int \<times> bytes \<times> bytes) option" where
  "derive_v2_control_keys malloc hmac token transcript algorithm = do {
     i1 \<leftarrow> snprintf_read 128 (v2_key_info algorithm '' client-to-server'');
     i2 \<leftarrow> snprintf_read 128 (v2_key_info algorithm '' server-to-client'');
     (r1, c2s) \<leftarrow> hkdf_sha256_32 malloc hmac token (Some transcript) i1;
     if r1 \<noteq> 0 then Some (-1, [], [])
     else do {
       (r2, s2c) \<leftarrow> hkdf_sha256_32 malloc hmac token (Some transcript) i2;
       if r2 \<noteq> 0 then Some (-1, c2s, [])
       else Some (0, c2s, s2c)
     }
   }"

subsection \<open>Sealing and opening one frame\<close>

definition gcm_seal :: "gcm_enc \<Rightarrow> bytes \<Rightarrow> bytes \<Rightarrow> bytes \<Rightarrow> bytes \<Rightarrow> bytes \<Rightarrow> (int \<times> bytes \<times> u32) option" where
  "gcm_seal enc key nonce aad pt out =
     (case enc key nonce aad pt of
        None \<Rightarrow> Some (-1, out, 0)
      | Some (ct, tag) \<Rightarrow> do {
          out \<leftarrow> blit 0 ct out;
          out \<leftarrow> blit (length ct) tag out;
          Some (0, out, of_nat (length ct) + 16)
        })"

definition gcm_open :: "gcm_dec \<Rightarrow> bytes \<Rightarrow> bytes \<Rightarrow> bytes \<Rightarrow> bytes \<Rightarrow> bytes \<Rightarrow> (int \<times> bytes \<times> u32) option" where
  "gcm_open dec key nonce aad ct out =
     (if length ct < 16 then Some (-1, out, 0)
      else case dec key nonce aad (take (length ct - 16) ct) (drop (length ct - 16) ct) of
        None \<Rightarrow> Some (-1, out, 0)
      | Some pt \<Rightarrow> do { out \<leftarrow> blit 0 pt out; Some (0, out, of_nat (length pt)) })"

subsection \<open>The writer\<close>

record aead_writer =
  w_key :: bytes
  w_stream_nonce :: bytes
  w_nonce :: bytes
  w_header_sent :: bool
  w_frame_count :: u64

text \<open>\<open>rand\<close> is what \<open>RAND_bytes\<close> delivers for the nonce, \<open>None\<close> when it fails.\<close>

definition aead_writer_init :: "bytes option \<Rightarrow> bytes \<Rightarrow> int \<times> aead_writer" where
  "aead_writer_init rand key =
     (let w = \<lparr>w_key = key, w_stream_nonce = replicate 12 0, w_nonce = replicate 12 0,
               w_header_sent = False, w_frame_count = 0\<rparr> in
      case rand of
        None \<Rightarrow> (-1, w)
      | Some r \<Rightarrow> (0, w\<lparr>w_nonce := r, w_stream_nonce := r\<rparr>))"

definition aead_writer_free :: "aead_writer \<Rightarrow> aead_writer" where
  "aead_writer_free w = \<lparr>w_key = replicate 32 0, w_stream_nonce = replicate 12 0,
     w_nonce = replicate 12 0, w_header_sent = False, w_frame_count = 0\<rparr>"

definition aead_writer_seal ::
  "gcm_enc \<Rightarrow> allocator \<Rightarrow> aead_writer \<Rightarrow> bytes \<Rightarrow> (int \<times> bytes \<times> aead_writer) option" where
  "aead_writer_seal enc malloc w pt =
     (if pt = [] \<or> AEAD_MAX_PAYLOAD < length pt then Some (-1, [], w)
      else
        let prefix = (if w_header_sent w then 0 else 12 :: u32);
            ct_len_field = of_nat (length pt) + 16 :: u32;
            header = be32 ct_len_field;
            aad = w_stream_nonce w @ header in
        case malloc (of_nat (length pt) + 16) of
          None \<Rightarrow> Some (-1, [], w)
        | Some ct \<Rightarrow> do {
            (rc, ct, clen) \<leftarrow> gcm_seal enc (w_key w) (w_nonce w) aad pt ct;
            if rc \<noteq> 0 then Some (-1, [], w)
            else case malloc (prefix + 4 + clen) of
              None \<Rightarrow> Some (-1, [], w)
            | Some buf \<Rightarrow> do {
                (buf, off, w) \<leftarrow> (if \<not> w_header_sent w
                  then do { buf \<leftarrow> blit 0 (w_nonce w) buf; Some (buf, 12, w\<lparr>w_header_sent := True\<rparr>) }
                  else Some (buf, 0, w));
                buf \<leftarrow> blit off header buf;
                buf \<leftarrow> blit (off + 4) (take (unat clen) ct) buf;
                (let (inc, nonce) = increment_nonce (w_nonce w); w = w\<lparr>w_nonce := nonce\<rparr> in
                 if \<not> inc then Some (-1, [], w)
                 else Some (0, buf, w\<lparr>w_frame_count := w_frame_count w + 1\<rparr>))
              }
          })"

subsection \<open>The reader\<close>

record aead_reader =
  r_key :: bytes
  r_stream_nonce :: bytes
  r_nonce :: bytes
  r_header_read :: bool
  r_frame_count :: u64
  r_ct :: gbuf
  r_pt :: gbuf

definition aead_reader_init :: "bytes \<Rightarrow> int \<times> aead_reader" where
  "aead_reader_init key = (0, \<lparr>r_key = key, r_stream_nonce = replicate 12 0, r_nonce = replicate 12 0,
     r_header_read = False, r_frame_count = 0, r_ct = gb_empty, r_pt = gb_empty\<rparr>)"

definition aead_reader_free :: "aead_reader \<Rightarrow> aead_reader" where
  "aead_reader_free r = \<lparr>r_key = replicate 32 0, r_stream_nonce = replicate 12 0,
     r_nonce = replicate 12 0, r_header_read = False, r_frame_count = 0,
     r_ct = gb_empty, r_pt = gb_empty\<rparr>"

text \<open>The nonce header; \<open>None\<close> inside: not enough bytes yet.\<close>

definition reader_header :: "aead_reader \<Rightarrow> aead_reader option option" where
  "reader_header r =
     (if r_header_read r then Some (Some r)
      else if gb_len (r_ct r) < 12 then Some None
      else do {
        ct \<leftarrow> buf_drop 12 (r_ct r);
        (let n = take 12 (gb_mem (r_ct r)) in
         Some (Some (r\<lparr>r_nonce := n, r_stream_nonce := n, r_ct := ct, r_header_read := True\<rparr>)))
      })"

text \<open>One iteration of the frame loop: a return code, or go on.\<close>

datatype 'a loop_step = Return int 'a | Continue 'a

definition reader_frame ::
  "gcm_dec \<Rightarrow> allocator \<Rightarrow> reallocator \<Rightarrow> aead_reader \<Rightarrow> aead_reader loop_step option" where
  "reader_frame dec malloc realloc r =
     (if gb_len (r_ct r) < 4 then Some (Return 0 r)
      else let clen = rd32_at 0 (gb_mem (r_ct r)) in
      if clen < 16 \<or> 65536 + 16 < clen then Some (Return (-1) r)
      else if gb_len (r_ct r) < 4 + clen then Some (Return 0 r)
      else let aad = r_stream_nonce r @ take 4 (gb_mem (r_ct r)) in
      case malloc clen of
        None \<Rightarrow> Some (Return (-1) r)
      | Some pt \<Rightarrow> do {
          (rc, pt, pt_len) \<leftarrow> gcm_open dec (r_key r) (r_nonce r) aad
             (take (unat clen) (drop 4 (gb_mem (r_ct r)))) pt;
          if rc \<noteq> 0 then Some (Return (-1) r)
          else do {
            ct \<leftarrow> buf_drop (4 + clen) (r_ct r);
            (let r = r\<lparr>r_ct := ct\<rparr> in do {
              (rc, ptb) \<leftarrow> buf_append realloc (r_pt r) (take (unat pt_len) pt);
              (let r = r\<lparr>r_pt := ptb\<rparr> in
               if rc \<noteq> 0 then Some (Return (-1) r)
               else let (inc, nonce) = increment_nonce (r_nonce r); r = r\<lparr>r_nonce := nonce\<rparr> in
               if \<not> inc then Some (Return (-1) r)
               else Some (Continue (r\<lparr>r_frame_count := r_frame_count r + 1\<rparr>)))
            })
          }
        })"

lemma buf_drop_gb_len: "buf_drop n b = Some b' \<Longrightarrow> n \<le> gb_len b \<and> gb_len b' = gb_len b - n"
  by (auto simp: buf_drop_def bind_eq_Some_conv split: if_splits)

lemma reader_frame_shrinks:
  assumes "reader_frame dec malloc realloc r = Some (Continue r')"
  shows "unat (gb_len (r_ct r')) < unat (gb_len (r_ct r))"
proof -
  let ?clen = "rd32_at 0 (gb_mem (r_ct r))"
  from assms obtain ct where ct: "buf_drop (4 + ?clen) (r_ct r) = Some ct" "r_ct r' = ct"
    and le: "?clen \<le> 65552"
    by (auto simp: reader_frame_def Let_def bind_eq_Some_conv split: if_splits option.splits prod.splits)
  from le have "unat ?clen \<le> 65552" by (simp add: le_u32_iff)
  then have "unat (4 + ?clen) = 4 + unat ?clen"
    using unat_add_no_wrap [of 4 ?clen] by simp
  with buf_drop_gb_len [OF ct(1)] ct(2) show ?thesis
    by (simp add: unat_sub_no_wrap le_u32_iff)
qed

lemma reader_header_shrinks:
  "reader_header r = Some (Some r') \<Longrightarrow> unat (gb_len (r_ct r')) \<le> unat (gb_len (r_ct r))"
  by (auto simp: reader_header_def bind_eq_Some_conv Let_def unat_sub_no_wrap
      dest!: buf_drop_gb_len split: if_splits)

function reader_loop ::
  "gcm_dec \<Rightarrow> allocator \<Rightarrow> reallocator \<Rightarrow> aead_reader \<Rightarrow> (int \<times> aead_reader) option" where
  "reader_loop dec malloc realloc r =
     (case reader_header r of
        None \<Rightarrow> None
      | Some None \<Rightarrow> Some (0, r)
      | Some (Some r) \<Rightarrow>
          (case reader_frame dec malloc realloc r of
             None \<Rightarrow> None
           | Some (Return rc r) \<Rightarrow> Some (rc, r)
           | Some (Continue r) \<Rightarrow> reader_loop dec malloc realloc r))"
  by pat_completeness auto

termination
  by (relation "measure (\<lambda>(_, _, _, r). unat (gb_len (r_ct r)))")
     (auto dest!: reader_header_shrinks reader_frame_shrinks)

declare reader_loop.simps [simp del]

definition aead_reader_feed ::
  "gcm_dec \<Rightarrow> allocator \<Rightarrow> reallocator \<Rightarrow> aead_reader \<Rightarrow> bytes \<Rightarrow> (int \<times> aead_reader) option" where
  "aead_reader_feed dec malloc realloc r ct = do {
     (rc, ctb) \<leftarrow> (if ct \<noteq> [] then buf_append realloc (r_ct r) ct else Some (0, r_ct r));
     if rc \<noteq> 0 then Some (-1, r\<lparr>r_ct := ctb\<rparr>)
     else reader_loop dec malloc realloc (r\<lparr>r_ct := ctb\<rparr>)
   }"

section \<open>The nonce counter counts\<close>

primrec be_val :: "bytes \<Rightarrow> nat" where
  "be_val [] = 0"
| "be_val (x # xs) = unat x * 256 ^ length xs + be_val xs"

lemma be_val_snoc: "be_val (xs @ [x]) = be_val xs * 256 + unat x"
  by (induction xs) (simp_all add: algebra_simps)

lemma be_val_zeros: "be_val (replicate n 0) = 0"
  by (induction n) simp_all

lemma be_val_bound: "be_val xs < 256 ^ length xs"
proof (induction xs rule: rev_induct)
  case (snoc x xs)
  have "unat x < 256" using unsigned_less [of x] by simp
  with snoc show ?case by (simp add: be_val_snoc)
qed simp

lemma u8_inc:
  obtains "x + 1 = (0 :: u8)" "unat x = 255"
  | "x + 1 \<noteq> 0" "unat (x + 1) = unat x + 1" "unat x < 255"
proof -
  have m: "unat (x + 1) = (unat x + 1) mod 256" by (simp add: unat_word_ariths)
  have "unat x < 256" using unsigned_less [of x] by simp
  then consider "unat x = 255" | "unat x < 255" by linarith
  then show thesis
  proof cases
    case 1
    with m have "unat (x + 1) = 0" by simp
    then have "x + 1 = 0" by (simp only: unat_eq_zero)
    with 1 show thesis by (intro that(1))
  next
    case 2
    with m have u: "unat (x + 1) = unat x + 1" by simp
    then have "x + 1 \<noteq> 0" by auto
    with 2 u show thesis by (intro that(2))
  qed
qed

lemma increment_from_append:
  "increment_from (length a) (a @ c) = (fst (increment_nonce a), snd (increment_nonce a) @ c)"
proof (induction a arbitrary: c rule: rev_induct)
  case (snoc x a)
  show ?case
    using snoc [of "0 # c"] snoc [of "[0]"]
    by (simp add: increment_nonce_def [of "a @ [x]"] Let_def nth_append)
qed (simp add: increment_nonce_def)

lemma increment_nonce_snoc:
  "increment_nonce (a @ [x]) =
     (if x + 1 \<noteq> 0 then (True, a @ [x + 1])
      else (fst (increment_nonce a), snd (increment_nonce a) @ [0]))"
  using increment_from_append [of a "[0]"] by (simp add: increment_nonce_def [of "a @ [x]"] Let_def nth_append)

lemma length_increment [simp]: "length (snd (increment_nonce n)) = length n"
  by (induction n rule: rev_induct) (simp_all add: increment_nonce_snoc, simp add: increment_nonce_def)

lemma increment_val:
  "fst (increment_nonce n) = (be_val n + 1 < 256 ^ length n) \<and>
   be_val (snd (increment_nonce n)) = (be_val n + 1) mod 256 ^ length n"
proof (induction n rule: rev_induct)
  case (snoc x n)
  show ?case
  proof (cases rule: u8_inc [of x])
    case 1
    then have v: "be_val (n @ [x]) + 1 = (be_val n + 1) * 256" by (simp add: be_val_snoc)
    have "(be_val n + 1) * 256 mod (256 ^ length n * 256) = (be_val n + 1) mod 256 ^ length n * 256"
      by (rule mod_mult_mult2)
    moreover have "(be_val n + 1) * 256 < 256 ^ length n * 256 \<longleftrightarrow> be_val n + 1 < 256 ^ length n"
      by (rule mult_less_cancel2 [THEN trans]) simp
    moreover have "increment_nonce (n @ [x]) = (fst (increment_nonce n), snd (increment_nonce n) @ [0])"
      using 1 by (simp add: increment_nonce_snoc)
    ultimately show ?thesis unfolding v using snoc
      by (simp add: be_val_snoc mult.commute [of 256])
  next
    case 2
    have "(be_val n + 1) * 256 \<le> 256 ^ length n * 256" using be_val_bound [of n] by simp
    then have lt: "be_val (n @ [x]) + 1 < 256 ^ length (n @ [x])"
      using 2 by (simp add: be_val_snoc)
    with 2 show ?thesis by (simp add: increment_nonce_snoc be_val_snoc)
  qed
qed (simp add: increment_nonce_def)

lemma be_val_inject: "length a = length b \<Longrightarrow> be_val a = be_val b \<Longrightarrow> a = b"
proof (induction a b rule: rev_induct2)
  case (4 x xs y ys)
  have lt: "unat x < 256" "unat y < 256" using unsigned_less [of x] unsigned_less [of y] by simp_all
  from 4 have eq: "be_val xs * 256 + unat x = be_val ys * 256 + unat y" by (simp add: be_val_snoc)
  from arg_cong [OF eq, of "\<lambda>v. v div 256"] lt have "be_val xs = be_val ys" by simp
  moreover from this eq have "unat x = unat y" by simp
  ultimately have "be_val xs = be_val ys" "x = y" by (simp_all add: word_unat_eq_iff)
  with 4 show ?case by simp
qed simp_all

section \<open>The writer\<close>

text \<open>
  A stream of sealed frames: under one key and stream nonce, the frame for a plaintext is its
  ciphertext length, its ciphertext and its tag, made with the current nonce, and the next frame
  uses the incremented nonce.
\<close>

definition frame_header :: "bytes \<Rightarrow> bytes" where
  "frame_header p = be32 (of_nat (length p) + 16)"

inductive sealed :: "gcm_enc \<Rightarrow> bytes \<Rightarrow> bytes \<Rightarrow> bytes \<Rightarrow> bytes list \<Rightarrow> bytes \<Rightarrow> bool"
  for enc key n0 where
  sealed_Nil: "sealed enc key n0 n [] []"
| sealed_Cons: "\<lbrakk>enc key n (n0 @ frame_header p) p = Some (c, t); length p \<le> 65536;
     fst (increment_nonce n); sealed enc key n0 (snd (increment_nonce n)) ps s\<rbrakk>
   \<Longrightarrow> sealed enc key n0 n (p # ps) (frame_header p @ c @ t @ s)"

inductive_cases sealed_ConsE: "sealed enc key n0 n (p # ps) s"
inductive_simps sealed_Nil_iff [simp]: "sealed enc key n0 n [] s"

lemma gcm_spec_length:
  "gcm_spec enc dec \<Longrightarrow> enc k n a p = Some (c, t) \<Longrightarrow> length c = length p \<and> length t = 16"
  by (simp add: gcm_spec_def)

lemma gcm_spec_dec: "gcm_spec enc dec \<Longrightarrow> dec k n a c t = Some p \<longleftrightarrow> enc k n a p = Some (c, t)"
  by (simp add: gcm_spec_def)

lemma unat_frame_len: "length p \<le> 65536 \<Longrightarrow> unat (of_nat (length p) + 16 :: u32) = length p + 16"
  using unat_of_nat_u32 [of "length p"] by (simp add: unat_add_no_wrap)

lemma gcm_seal_fits:
  assumes "gcm_spec enc dec" "enc key nonce aad pt = Some (c, t)" "length out = length pt + 16"
  shows "gcm_seal enc key nonce aad pt out = Some (0, c @ t, of_nat (length pt) + 16)"
proof -
  have l: "length c = length pt" "length t = 16" using gcm_spec_length [OF assms(1,2)] by simp_all
  then show ?thesis using assms by (simp add: gcm_seal_def blit_fits)
qed

text \<open>What a call of the writer can do: emit the frame and advance, refuse and change nothing, or
  run out of nonces.\<close>

lemma seal_cases:
  assumes gcm: "gcm_spec enc dec" and ma: "malloc_spec malloc" and n12: "length (w_nonce w) = 12"
  obtains (emitted) c t where
      "enc (w_key w) (w_nonce w) (w_stream_nonce w @ frame_header pt) pt = Some (c, t)"
      "pt \<noteq> []" "length pt \<le> 65536" "fst (increment_nonce (w_nonce w))"
      "aead_writer_seal enc malloc w pt =
         Some (0, (if w_header_sent w then [] else w_nonce w) @ frame_header pt @ c @ t,
           w\<lparr>w_header_sent := True, w_nonce := snd (increment_nonce (w_nonce w)),
             w_frame_count := w_frame_count w + 1\<rparr>)"
  | (refused) "aead_writer_seal enc malloc w pt = Some (-1, [], w)"
  | (exhausted) "\<not> fst (increment_nonce (w_nonce w))"
      "aead_writer_seal enc malloc w pt = Some (-1, [],
         w\<lparr>w_header_sent := True, w_nonce := snd (increment_nonce (w_nonce w))\<rparr>)"
proof (cases "pt = [] \<or> 65536 < length pt")
  case True
  then show thesis by (intro refused) (simp add: aead_writer_seal_def)
next
  case False
  then have le: "length pt \<le> 65536" by simp
  let ?clen = "of_nat (length pt) + 16 :: u32"
  let ?aad = "w_stream_nonce w @ frame_header pt"
  let ?pre = "if w_header_sent w then 0 else 12 :: u32"
  show thesis
  proof (cases "malloc ?clen")
    case None
    with False show thesis by (intro refused) (simp add: aead_writer_seal_def)
  next
    case ct: (Some ct)
    then have lct: "length ct = length pt + 16" using ma le by (simp add: malloc_specD unat_frame_len)
    show thesis
    proof (cases "enc (w_key w) (w_nonce w) ?aad pt")
      case None
      with False ct show thesis
        by (intro refused) (simp add: aead_writer_seal_def gcm_seal_def frame_header_def)
    next
      case (Some z)
      then obtain c t where z: "enc (w_key w) (w_nonce w) ?aad pt = Some (c, t)" by (cases z) auto
      note seal = gcm_seal_fits [OF gcm z lct]
      note lens = gcm_spec_length [OF gcm z]
      show thesis
      proof (cases "malloc (?pre + 4 + ?clen)")
        case None
        with False ct seal show thesis
          by (intro refused) (simp add: aead_writer_seal_def frame_header_def add.assoc)
      next
        case buf: (Some buf)
        have "unat (?pre + 4 + ?clen) = unat ?pre + 4 + (length pt + 16)"
          using le by (simp add: unat_add_no_wrap unat_of_nat_u32)
        then have lb: "length buf = (if w_header_sent w then 0 else 12) + 4 + (length pt + 16)"
          using malloc_specD [OF ma buf] by simp
        let ?w = "w\<lparr>w_header_sent := True, w_nonce := snd (increment_nonce (w_nonce w))\<rparr>"
        have "aead_writer_seal enc malloc w pt =
           (if \<not> fst (increment_nonce (w_nonce w)) then Some (-1, [], ?w)
            else Some (0, (if w_header_sent w then [] else w_nonce w) @ frame_header pt @ c @ t,
              ?w\<lparr>w_frame_count := w_frame_count w + 1\<rparr>))"
          using False ct seal buf lb lens n12 le
          by (cases "w_header_sent w"; cases "increment_nonce (w_nonce w)")
             (simp_all add: aead_writer_seal_def frame_header_def blit_fits unat_frame_len Let_def add.assoc)
        then show thesis using emitted [OF z] exhausted False le
          by (cases "fst (increment_nonce (w_nonce w))") simp_all
      qed
    qed
  qed
qed

text \<open>A sequence of calls, each with the allocator it meets: what was emitted (nonce, plaintext,
  bytes) and the final writer.\<close>

fun seal_run :: "gcm_enc \<Rightarrow> (allocator \<times> bytes) list \<Rightarrow> aead_writer \<Rightarrow>
    ((bytes \<times> bytes \<times> bytes) list \<times> aead_writer) option" where
  "seal_run enc [] w = Some ([], w)"
| "seal_run enc ((malloc, p) # js) w = do {
     (rc, out, w') \<leftarrow> aead_writer_seal enc malloc w p;
     (es, w'') \<leftarrow> seal_run enc js w';
     Some (if rc = 0 then (w_nonce w, p, out) # es else es, w'')
   }"


lemma seal_run_sealed:
  assumes gcm: "gcm_spec enc dec"
  shows "length (w_nonce w) = 12 \<Longrightarrow> \<forall>(m, p) \<in> set js. malloc_spec m \<Longrightarrow>
    be_val (w_nonce w) + length js < 256 ^ 12 \<Longrightarrow> seal_run enc js w = Some (es, w') \<Longrightarrow>
    \<exists>s. sealed enc (w_key w) (w_stream_nonce w) (w_nonce w) (map (\<lambda>e. fst (snd e)) es) s \<and>
      concat (map (\<lambda>e. snd (snd e)) es) = (if w_header_sent w \<or> es = [] then [] else w_nonce w) @ s"
proof (induction js arbitrary: w es)
  case Nil
  then show ?case by auto
next
  case (Cons j js)
  obtain m p where j: "j = (m, p)" by force
  with Cons.prems have m: "malloc_spec m" and js: "\<forall>(m, p) \<in> set js. malloc_spec m" by auto
  let ?v = "be_val (w_nonce w)" and ?n = "snd (increment_nonce (w_nonce w))"
  have v: "be_val ?n = ?v + 1" "length ?n = 12" "fst (increment_nonce (w_nonce w))"
    using increment_val [of "w_nonce w"] Cons.prems(1,3) by simp_all
  show ?case
  proof (cases rule: seal_cases [OF gcm m Cons.prems(1), of p])
    case (1 c t)
    let ?w = "w\<lparr>w_header_sent := True, w_nonce := ?n, w_frame_count := w_frame_count w + 1\<rparr>"
    from Cons.prems(4) j 1(5) obtain es1 where es1: "seal_run enc js ?w = Some (es1, w')"
      "es = (w_nonce w, p, (if w_header_sent w then [] else w_nonce w) @ frame_header p @ c @ t) # es1"
      by (auto simp: bind_eq_Some_conv)
    from Cons.IH [of ?w es1] es1(1) js v Cons.prems(3) obtain s where
      s: "sealed enc (w_key w) (w_stream_nonce w) ?n (map (\<lambda>e. fst (snd e)) es1) s" "concat (map (\<lambda>e. snd (snd e)) es1) = s"
      by auto
    from sealed_Cons [OF 1(1,3,4) s(1)] s(2) es1(2) show ?thesis by auto
  next
    case 2
    with Cons.prems j js show ?thesis by (intro Cons.IH) (auto simp: bind_eq_Some_conv)
  qed (use v in simp)
qed

section \<open>The reader\<close>

text \<open>Reading at the front of a buffer sees its contents.\<close>

lemma take_mem: "n \<le> length (content b) \<Longrightarrow> take n (gb_mem b) = take n (content b)"
  by (auto simp: content_def)

lemma take_drop_mem:
  "k + n \<le> length (content b) \<Longrightarrow> take n (drop k (gb_mem b)) = take n (drop k (content b))"
  by (auto simp: content_def drop_take min_def split: if_splits)

lemma rd32_at_take4: "4 \<le> length b \<Longrightarrow> rd32_at 0 b = rd32_at 0 (take 4 b)"
  by (simp add: rd32_at_def)

lemma rd32_mem:
  "4 \<le> length (content b) \<Longrightarrow> rd32_at 0 (gb_mem b) = rd32_at 0 (take 4 (content b))"
  using take_mem [of 4 b] rd32_at_take4 [of "gb_mem b"] by (simp add: content_def)

lemma be32_rd32_at: "length b = 4 \<Longrightarrow> be32 (rd32_at 0 b) = b"
  by (auto simp: rd32_at_def be32_rd32 numeral_eq_Suc length_Suc_conv)

lemma rd32_frame_header: "rd32_at 0 (frame_header p) = of_nat (length p) + 16"
  by (simp add: frame_header_def rd32_at_be32)

lemma length_frame_header [simp]: "length (frame_header p) = 4"
  by (simp add: frame_header_def)

lemma unat_4_plus: "unat (c :: u32) \<le> 65552 \<Longrightarrow> unat (4 + c) = 4 + unat c"
  using unat_add_no_wrap [of 4 c] by simp

definition reader_ok :: "aead_reader \<Rightarrow> bool" where
  "reader_ok r \<longleftrightarrow> gb_ok (r_ct r) \<and> gb_ok (r_pt r)"

text \<open>The reader after it has accepted the frame of \<open>p\<close>.\<close>

definition frame_accepted :: "aead_reader \<Rightarrow> bytes \<Rightarrow> aead_reader \<Rightarrow> bool" where
  "frame_accepted r p r' \<longleftrightarrow> reader_ok r' \<and> r_header_read r' = r_header_read r \<and>
     r_key r' = r_key r \<and> r_stream_nonce r' = r_stream_nonce r \<and>
     r_nonce r' = snd (increment_nonce (r_nonce r)) \<and>
     content (r_pt r') = content (r_pt r) @ p \<and> r_frame_count r' = r_frame_count r + 1"

lemma gcm_dec_length: "gcm_spec enc dec \<Longrightarrow> dec k n a c t = Some p \<Longrightarrow> length p = length c \<and> length t = 16"
  using gcm_spec_length [of enc dec k n a p c t] by (simp add: gcm_spec_dec)

lemma gcm_open_eq:
  assumes "gcm_spec enc dec" "16 \<le> length f" "length m = length f"
  shows "gcm_open dec k n a f m =
    (case dec k n a (take (length f - 16) f) (drop (length f - 16) f) of
       None \<Rightarrow> Some (-1, m, 0)
     | Some p \<Rightarrow> Some (0, p @ drop (length p) m, of_nat (length p)))"
proof (cases "dec k n a (take (length f - 16) f) (drop (length f - 16) f)")
  case None
  with assms show ?thesis by (simp add: gcm_open_def)
next
  case (Some p)
  with gcm_dec_length [OF assms(1) Some] assms show ?thesis by (simp add: gcm_open_def blit_fits)
qed

text \<open>One iteration on a complete frame, in terms of the contents: \<open>f\<close> is the body of the frame.\<close>

lemma reader_frame_full:
  assumes gcm: "gcm_spec enc dec" and ma: "malloc_spec malloc" and ok: "gb_ok (r_ct r)"
    and ct: "content (r_ct r) = h @ f @ s" and h: "length h = 4"
    and f: "length f = unat (rd32_at 0 h)" "16 \<le> length f" "length f \<le> 65552"
  shows "reader_frame dec malloc realloc r =
    (case malloc (rd32_at 0 h) of
       None \<Rightarrow> Some (Return (-1) r)
     | Some m \<Rightarrow>
         (case dec (r_key r) (r_nonce r) (r_stream_nonce r @ h)
                 (take (length f - 16) f) (drop (length f - 16) f) of
            None \<Rightarrow> Some (Return (-1) r)
          | Some p \<Rightarrow> do {
              ct \<leftarrow> buf_drop (4 + rd32_at 0 h) (r_ct r);
              (rc, ptb) \<leftarrow> buf_append realloc (r_pt r) p;
              if rc \<noteq> 0 then Some (Return (-1) (r\<lparr>r_ct := ct, r_pt := ptb\<rparr>))
              else let (inc, nonce) = increment_nonce (r_nonce r);
                       r = r\<lparr>r_ct := ct, r_pt := ptb, r_nonce := nonce\<rparr> in
                if \<not> inc then Some (Return (-1) r)
                else Some (Continue (r\<lparr>r_frame_count := r_frame_count r + 1\<rparr>))
            }))"
proof -
  let ?b = "r_ct r" and ?clen = "rd32_at 0 h"
  have len: "unat (gb_len ?b) = 4 + length f + length s" using length_content [OF ok] ct h by simp
  have clen: "rd32_at 0 (gb_mem ?b) = ?clen" "take 4 (gb_mem ?b) = h"
    using rd32_mem [of ?b] take_mem [of 4 ?b] ct h by simp_all
  have fr: "take (unat ?clen) (drop 4 (gb_mem ?b)) = f"
    using take_drop_mem [of 4 "unat ?clen" ?b] ct h f(1) by simp
  have guards: "\<not> gb_len ?b < 4" "\<not> ?clen < 16" "\<not> 65552 < ?clen" "\<not> gb_len ?b < 4 + ?clen"
    using len f unat_4_plus [of ?clen] by (simp_all add: less_u32_iff)
  show ?thesis
  proof (cases "malloc ?clen")
    case None
    then show ?thesis unfolding reader_frame_def clen Let_def using guards by simp
  next
    case m: (Some m)
    have "length m = length f" using malloc_specD [OF ma m] f(1) by simp
    note eq = gcm_open_eq [OF gcm f(2) this]
    show ?thesis
    proof (cases "dec (r_key r) (r_nonce r) (r_stream_nonce r @ h) (take (length f - 16) f) (drop (length f - 16) f)")
      case None
      then show ?thesis unfolding reader_frame_def clen fr Let_def using guards m by (simp add: eq)
    next
      case (Some p)
      have "length p \<le> length f" using gcm_dec_length [OF gcm Some] by simp
      then have "unat (of_nat (length p) :: u32) = length p" using f(3) by (intro unat_of_nat_u32) simp
      with Some have "gcm_open dec (r_key r) (r_nonce r) (r_stream_nonce r @ h) f m =
          Some (0, p @ drop (length p) m, of_nat (length p))"
        "take (unat (of_nat (length p) :: u32)) (p @ drop (length p) m) = p" by (simp_all add: eq)
      with Some show ?thesis unfolding reader_frame_def clen fr Let_def using guards m
        by (simp cong: if_cong)
    qed
  qed
qed

definition realloc_total :: "reallocator \<Rightarrow> bool" where
  "realloc_total realloc \<longleftrightarrow> realloc_spec realloc \<and> (\<forall>old n. realloc old n \<noteq> None)"

definition malloc_total :: "allocator \<Rightarrow> bool" where
  "malloc_total malloc \<longleftrightarrow> malloc_spec malloc \<and> (\<forall>n. malloc n \<noteq> None)"

lemma buf_append_total:
  assumes "realloc_total realloc" "gb_ok b" "length (content b) + length p \<le> 2 ^ 31"
  obtains b' where "buf_append realloc b p = Some (0, b')" "gb_ok b'" "content b' = content b @ p"
proof -
  have re: "realloc_spec realloc" using assms(1) by (simp add: realloc_total_def)
  show thesis
    using buf_append_correct [OF assms(2) re assms(3)] that assms(1)
    by (metis realloc_total_def)
qed

lemma reader_frame_accepts:
  assumes gcm: "gcm_spec enc dec" and ma: "malloc_total malloc" and re: "realloc_total realloc"
    and ok: "reader_ok r" and room: "length (content (r_pt r)) + length p \<le> 2 ^ 31"
    and enc: "enc (r_key r) (r_nonce r) (r_stream_nonce r @ frame_header p) p = Some (c, t)"
    and p: "length p \<le> 65536" and inc: "fst (increment_nonce (r_nonce r))"
    and ct: "content (r_ct r) = frame_header p @ c @ t @ s"
  obtains r' where "reader_frame dec malloc realloc r = Some (Continue r')"
    "frame_accepted r p r'" "content (r_ct r') = s"
proof -
  note len = gcm_spec_length [OF gcm enc]
  have okb: "gb_ok (r_ct r)" "gb_ok (r_pt r)" using ok by (simp_all add: reader_ok_def)
  have clen: "unat (rd32_at 0 (frame_header p)) = length p + 16"
    using p by (simp add: rd32_frame_header unat_frame_len)
  have ma': "malloc_spec malloc" using ma by (simp add: malloc_total_def)
  obtain m where m: "malloc (rd32_at 0 (frame_header p)) = Some m" using ma by (auto simp: malloc_total_def)
  from buf_append_total [OF re okb(2) room] obtain ptb where
    ptb: "buf_append realloc (r_pt r) p = Some (0, ptb)" "gb_ok ptb" "content ptb = content (r_pt r) @ p" .
  have "unat (4 + rd32_at 0 (frame_header p)) = 4 + (length p + 16)" using clen p by (subst unat_4_plus) simp_all
  with ct len buf_drop_correct [OF okb(1), of "4 + rd32_at 0 (frame_header p)"] obtain cb where
    cb: "buf_drop (4 + rd32_at 0 (frame_header p)) (r_ct r) = Some cb" "gb_ok cb" "content cb = s"
    by auto
  have d: "dec (r_key r) (r_nonce r) (r_stream_nonce r @ frame_header p) c t = Some p"
    using enc by (simp add: gcm_spec_dec [OF gcm])
  let ?r = "r\<lparr>r_ct := cb, r_pt := ptb, r_nonce := snd (increment_nonce (r_nonce r)),
      r_frame_count := r_frame_count r + 1\<rparr>"
  have "reader_frame dec malloc realloc r = Some (Continue ?r)"
    using d len m ptb(1) cb(1) inc
    by (subst reader_frame_full [OF gcm ma' okb(1), of "frame_header p" "c @ t" s])
       (use ct clen len p in \<open>simp_all add: Let_def split_beta\<close>)
  moreover have "frame_accepted r p ?r" using ptb cb by (simp add: frame_accepted_def reader_ok_def)
  ultimately show thesis using cb(3) by (intro that [of ?r]) simp_all
qed

lemma reader_frame_waits:
  assumes ok: "reader_ok r" and p: "length p \<le> 65536"
    and ct: "content (r_ct r) @ u = frame_header p @ x" and short: "length (content (r_ct r)) < 4 + (length p + 16)"
  shows "reader_frame dec malloc realloc r = Some (Return 0 r)"
proof (cases "length (content (r_ct r)) < 4")
  case True
  then show ?thesis using ok length_content [of "r_ct r"]
    by (simp add: reader_frame_def reader_ok_def less_u32_iff)
next
  case False
  have okb: "gb_ok (r_ct r)" using ok by (simp add: reader_ok_def)
  have "take 4 (content (r_ct r) @ u) = frame_header p" unfolding ct by simp
  then have "rd32_at 0 (gb_mem (r_ct r)) = of_nat (length p) + 16"
    using False rd32_mem [of "r_ct r"] rd32_frame_header [of p] by simp
  moreover have "unat (of_nat (length p) + 16 :: u32) = length p + 16" using p by (rule unat_frame_len)
  moreover from this have "unat (4 + (of_nat (length p) + 16 :: u32)) = 4 + (length p + 16)"
    using p unat_4_plus [of "of_nat (length p) + 16"] by simp
  ultimately show ?thesis using False p short okb
    by (auto simp: reader_frame_def Let_def less_u32_iff length_content)
qed

lemma reader_frame_sound:
  assumes gcm: "gcm_spec enc dec" and ma: "malloc_spec malloc" and re: "realloc_spec realloc"
    and ok: "reader_ok r" and room: "length (content (r_pt r)) + length (content (r_ct r)) \<le> 2 ^ 31"
    and run: "reader_frame dec malloc realloc r = Some (Continue r')"
  obtains p c t where
    "enc (r_key r) (r_nonce r) (r_stream_nonce r @ frame_header p) p = Some (c, t)"
    "length p \<le> 65536" "fst (increment_nonce (r_nonce r))"
    "content (r_ct r) = frame_header p @ c @ t @ content (r_ct r')" "frame_accepted r p r'"
proof -
  let ?ct = "content (r_ct r)" and ?clen = "rd32_at 0 (gb_mem (r_ct r))"
  have okb: "gb_ok (r_ct r)" "gb_ok (r_pt r)" using ok by (simp_all add: reader_ok_def)
  from run have guard: "\<not> gb_len (r_ct r) < 4" "\<not> (?clen < 16 \<or> 65536 + 16 < ?clen)"
      "\<not> gb_len (r_ct r) < 4 + ?clen"
    by (auto simp: reader_frame_def Let_def split: if_splits)
  then have u: "4 \<le> length ?ct" "16 \<le> unat ?clen" "unat ?clen \<le> 65552" "4 + unat ?clen \<le> length ?ct"
    using unat_4_plus [of ?clen] by (simp_all add: length_content [OF okb(1)] less_u32_iff)
  define h f s where hfs: "h = take 4 ?ct" "f = take (unat ?clen) (drop 4 ?ct)" "s = drop (4 + unat ?clen) ?ct"
  let ?c = "take (length f - 16) f" and ?t = "drop (length f - 16) f"
  have ct: "?ct = h @ f @ s" unfolding hfs by (metis add.commute append_take_drop_id drop_drop)
  have lens: "length h = 4" "length f = unat ?clen" using u by (simp_all add: hfs)
  have hc: "rd32_at 0 h = ?clen" using rd32_mem [OF u(1)] by (simp add: hfs)
  have f2: "length f = unat (rd32_at 0 h)" "16 \<le> length f" "length f \<le> 65552" using lens u by (simp_all add: hc)
  from run [unfolded reader_frame_full [OF gcm ma okb(1) ct lens(1) f2]] obtain p cb ptb where
    p: "dec (r_key r) (r_nonce r) (r_stream_nonce r @ h) ?c ?t = Some p"
    and cb: "buf_drop (4 + ?clen) (r_ct r) = Some cb" and ptb: "buf_append realloc (r_pt r) p = Some (0, ptb)"
    and inc: "fst (increment_nonce (r_nonce r))"
    and r': "r' = r\<lparr>r_ct := cb, r_pt := ptb, r_nonce := snd (increment_nonce (r_nonce r)),
        r_frame_count := r_frame_count r + 1\<rparr>"
    by (auto simp: hc bind_eq_Some_conv split_beta Let_def split: option.splits if_splits)
  have lp: "length p = unat ?clen - 16" using gcm_dec_length [OF gcm p] lens by simp
  then have "unat (of_nat (length p) + 16 :: u32) = unat ?clen" using u by (subst unat_frame_len) simp_all
  then have "of_nat (length p) + 16 = ?clen" by (simp only: word_unat_eq_iff)
  then have fh: "frame_header p = h"
    using be32_rd32_at [OF lens(1)] hc by (simp add: frame_header_def)
  have "unat (4 + ?clen) = 4 + unat ?clen" using u by (intro unat_4_plus)
  with u buf_drop_correct [OF okb(1), of "4 + ?clen"] cb have cb2: "gb_ok cb" "content cb = s"
    by (auto simp: hfs)
  have "length (content (r_pt r)) + length p \<le> 2 ^ 31" using room lp u by simp
  from buf_append_correct [OF okb(2) re this] ptb have "gb_ok ptb" "content ptb = content (r_pt r) @ p"
    by auto
  with cb2 r' have acc: "frame_accepted r p r'" by (simp add: frame_accepted_def reader_ok_def)
  from p have "enc (r_key r) (r_nonce r) (r_stream_nonce r @ frame_header p) p = Some (?c, ?t)"
    by (simp add: fh gcm_spec_dec [OF gcm])
  moreover have "?ct = frame_header p @ ?c @ ?t @ content (r_ct r')" by (simp add: ct fh r' cb2)
  moreover have "length p \<le> 65536" using lp u by simp
  ultimately show thesis using inc acc by (intro that [of p ?c ?t])
qed

lemma reader_loop_read:
  "r_header_read r \<Longrightarrow> reader_loop dec malloc realloc r =
     (case reader_frame dec malloc realloc r of
        None \<Rightarrow> None
      | Some (Return rc r) \<Rightarrow> Some (rc, r)
      | Some (Continue r) \<Rightarrow> reader_loop dec malloc realloc r)"
  by (subst reader_loop.simps) (simp add: reader_header_def)

text \<open>The reader \<open>r\<close> is part of the way through a well-formed stream: what it holds followed by
  \<open>u\<close> is the encoding of the plaintexts \<open>ps\<close>.\<close>

definition reader_expects :: "gcm_enc \<Rightarrow> bytes list \<Rightarrow> bytes \<Rightarrow> aead_reader \<Rightarrow> bool" where
  "reader_expects enc ps u r \<longleftrightarrow> reader_ok r \<and> length (content (r_ct r) @ u) \<le> 2 ^ 31 \<and>
     length (content (r_pt r)) + length (concat ps) \<le> 2 ^ 31 \<and>
     (if r_header_read r
      then sealed enc (r_key r) (r_stream_nonce r) (r_nonce r) ps (content (r_ct r) @ u)
      else \<exists>n0 s. length n0 = 12 \<and> content (r_ct r) @ u = n0 @ s \<and> sealed enc (r_key r) n0 n0 ps s)"

text \<open>It got through \<open>ps1\<close>, still expects \<open>ps2\<close>, and expects nothing when nothing is left.\<close>

definition reader_progress :: "gcm_enc \<Rightarrow> bytes list \<Rightarrow> bytes \<Rightarrow> aead_reader \<Rightarrow> aead_reader \<Rightarrow> bool" where
  "reader_progress enc ps u r r' \<longleftrightarrow> (\<exists>ps1 ps2. ps = ps1 @ ps2 \<and> reader_expects enc ps2 u r' \<and>
     content (r_pt r') = content (r_pt r) @ concat ps1 \<and> (u = [] \<longrightarrow> ps2 = []))"

lemma reader_progress_step:
  assumes "frame_accepted r p r1" "reader_progress enc ps u r1 r'"
  shows "reader_progress enc (p # ps) u r r'"
proof -
  from assms(2) obtain ps1 ps2 where "ps = ps1 @ ps2" "reader_expects enc ps2 u r'"
    "content (r_pt r') = content (r_pt r1) @ concat ps1" "u = [] \<longrightarrow> ps2 = []"
    unfolding reader_progress_def by blast
  with assms(1) show ?thesis
    unfolding reader_progress_def frame_accepted_def by (intro exI [of _ "p # ps1"] exI [of _ ps2]) simp
qed

lemma reader_progress_none:
  "reader_expects enc ps u r \<Longrightarrow> (u = [] \<longrightarrow> ps = []) \<Longrightarrow> reader_progress enc ps u r r"
  unfolding reader_progress_def by (intro exI [of _ "[]"] exI [of _ ps]) simp

lemma reader_loop_complete:
  assumes gcm: "gcm_spec enc dec" and ma: "malloc_total malloc" and re: "realloc_total realloc"
  shows "sealed enc key n0 n ps x \<Longrightarrow> x = content (r_ct r) @ u \<Longrightarrow> r_header_read r \<Longrightarrow> r_key r = key \<Longrightarrow>
    r_stream_nonce r = n0 \<Longrightarrow> r_nonce r = n \<Longrightarrow> reader_expects enc ps u r \<Longrightarrow>
    \<exists>r'. reader_loop dec malloc realloc r = Some (0, r') \<and> reader_progress enc ps u r r'"
proof (induction arbitrary: r rule: sealed.induct)
  case (sealed_Nil n)
  then have "gb_len (r_ct r) = 0"
    using length_content [of "r_ct r"] by (simp add: reader_expects_def reader_ok_def unat_eq_zero)
  then have "reader_loop dec malloc realloc r = Some (0, r)"
    using sealed_Nil by (simp add: reader_loop_read reader_frame_def)
  then show ?case using sealed_Nil reader_progress_none by blast
next
  case (sealed_Cons n p c t ps s)
  have ok: "reader_ok r" using sealed_Cons.prems by (simp add: reader_expects_def)
  note len = gcm_spec_length [OF gcm sealed_Cons.hyps(1)]
  have split: "content (r_ct r) @ u = frame_header p @ c @ t @ s" using sealed_Cons.prems by simp
  show ?case
  proof (cases "length (content (r_ct r)) < 4 + (length p + 16)")
    case True
    then have "reader_loop dec malloc realloc r = Some (0, r)"
      using sealed_Cons.prems reader_frame_waits [OF ok sealed_Cons.hyps(2) split]
      by (simp add: reader_loop_read)
    moreover have "u \<noteq> []" using arg_cong [OF split, of length] len True by auto
    ultimately show ?thesis using sealed_Cons.prems reader_progress_none by blast
  next
    case False
    let ?f = "frame_header p @ c @ t"
    have "content (r_ct r) = take (length ?f) (content (r_ct r) @ u) @ drop (length ?f) (content (r_ct r))"
      using False len by simp
    also have "take (length ?f) (content (r_ct r) @ u) = ?f" unfolding split by simp
    finally obtain s1 where s1: "content (r_ct r) = frame_header p @ c @ t @ s1" by simp
    with split have s: "s = s1 @ u" by simp
    have room: "length (content (r_pt r)) + length p \<le> 2 ^ 31"
      using sealed_Cons.prems by (simp add: reader_expects_def)
    obtain r1 where r1: "reader_frame dec malloc realloc r = Some (Continue r1)"
      "frame_accepted r p r1" "content (r_ct r1) = s1"
      by (rule reader_frame_accepts [OF gcm ma re ok room _ sealed_Cons.hyps(2) _ s1])
         (use sealed_Cons in simp_all)
    have "reader_expects enc ps u r1"
      using sealed_Cons.prems sealed_Cons.hyps(4) r1(2,3) s s1
      by (simp add: reader_expects_def frame_accepted_def)
    then obtain r' where "reader_loop dec malloc realloc r1 = Some (0, r')" "reader_progress enc ps u r1 r'"
      using sealed_Cons.IH [of r1] sealed_Cons.prems r1 s by (auto simp: frame_accepted_def)
    with r1 sealed_Cons.prems reader_progress_step show ?thesis by (auto simp: reader_loop_read)
  qed
qed

lemma reader_header_reads:
  assumes "reader_ok r" "\<not> r_header_read r" "12 \<le> length (content (r_ct r))"
  obtains ct where "reader_header r = Some (Some (r\<lparr>r_nonce := take 12 (content (r_ct r)),
      r_stream_nonce := take 12 (content (r_ct r)), r_ct := ct, r_header_read := True\<rparr>))"
    "gb_ok ct" "content ct = drop 12 (content (r_ct r))"
proof -
  have ok: "gb_ok (r_ct r)" using assms(1) by (simp add: reader_ok_def)
  from buf_drop_correct [OF ok, of 12] assms(3) obtain ct where
    "buf_drop 12 (r_ct r) = Some ct" "gb_ok ct" "content ct = drop 12 (content (r_ct r))" by auto
  moreover have "\<not> gb_len (r_ct r) < 12" using assms(3) length_content [OF ok] by (simp add: less_u32_iff)
  ultimately show thesis using that [of ct] assms take_mem [of 12 "r_ct r"]
    by (simp add: reader_header_def Let_def)
qed

lemma reader_header_waits:
  "reader_ok r \<Longrightarrow> \<not> r_header_read r \<Longrightarrow> length (content (r_ct r)) < 12 \<Longrightarrow> reader_header r = Some None"
  using length_content [of "r_ct r"] by (simp add: reader_header_def reader_ok_def less_u32_iff)

lemma reader_loop_after_header:
  "reader_header r = Some (Some r1) \<Longrightarrow> r_header_read r1 \<Longrightarrow>
     reader_loop dec malloc realloc r = reader_loop dec malloc realloc r1"
  by (subst reader_loop.simps) (simp add: reader_loop_read)

lemma reader_loop_expects:
  assumes gcm: "gcm_spec enc dec" and ma: "malloc_total malloc" and re: "realloc_total realloc"
    and ex: "reader_expects enc ps u r"
  shows "\<exists>r'. reader_loop dec malloc realloc r = Some (0, r') \<and> reader_progress enc ps u r r'"
proof (cases "r_header_read r")
  case True
  with ex have "sealed enc (r_key r) (r_stream_nonce r) (r_nonce r) ps (content (r_ct r) @ u)"
    by (simp add: reader_expects_def)
  with True ex show ?thesis by (intro reader_loop_complete [OF gcm ma re]) simp_all
next
  case False
  with ex obtain n0 s where s: "length n0 = 12" "content (r_ct r) @ u = n0 @ s" "sealed enc (r_key r) n0 n0 ps s"
    by (auto simp: reader_expects_def)
  have ok: "reader_ok r" using ex by (simp add: reader_expects_def)
  show ?thesis
  proof (cases "length (content (r_ct r)) < 12")
    case True
    then have "reader_loop dec malloc realloc r = Some (0, r)"
      using reader_header_waits [OF ok False] by (subst reader_loop.simps) simp
    moreover have "u \<noteq> []" using arg_cong [OF s(2), of length] s(1) True by auto
    ultimately show ?thesis using ex reader_progress_none by blast
  next
    case long: False
    have n0: "take 12 (content (r_ct r)) = n0"
      using arg_cong [OF s(2), of "take 12"] long s(1) by simp
    have s1: "drop 12 (content (r_ct r)) @ u = s"
      using arg_cong [OF s(2), of "drop 12"] long s(1) by simp
    obtain ct where ct: "reader_header r = Some (Some (r\<lparr>r_nonce := n0, r_stream_nonce := n0, r_ct := ct,
        r_header_read := True\<rparr>))" (is "_ = Some (Some ?r)")
      "gb_ok ct" "content ct = drop 12 (content (r_ct r))"
      using reader_header_reads [OF ok False] long n0 by (metis not_less)
    have "reader_expects enc ps u ?r" using ex ok ct s1 s(3) by (auto simp: reader_expects_def reader_ok_def)
    then obtain r' where "reader_loop dec malloc realloc ?r = Some (0, r')" "reader_progress enc ps u ?r r'"
      using reader_loop_complete [OF gcm ma re s(3), of ?r u] s1 ct by auto
    with reader_loop_after_header [OF ct(1)] show ?thesis
      by (auto simp: reader_progress_def)
  qed
qed

lemma feed_expects:
  assumes gcm: "gcm_spec enc dec" and ma: "malloc_total malloc" and re: "realloc_total realloc"
    and ex: "reader_expects enc ps (chunk @ u) r"
  shows "\<exists>r'. aead_reader_feed dec malloc realloc r chunk = Some (0, r') \<and> reader_progress enc ps u r r'"
proof -
  have ok: "gb_ok (r_ct r)" and room: "length (content (r_ct r)) + length chunk \<le> 2 ^ 31"
    using ex by (simp_all add: reader_expects_def reader_ok_def)
  obtain c0 where c0: "buf_append realloc (r_ct r) chunk = Some (0, c0)" "gb_ok c0"
    "content c0 = content (r_ct r) @ chunk"
    by (rule buf_append_total [OF re ok room])
  then obtain ct where ct: "(if chunk \<noteq> [] then buf_append realloc (r_ct r) chunk else Some (0, r_ct r)) = Some (0, ct)"
    "gb_ok ct" "content ct = content (r_ct r) @ chunk"
    using ok by (cases "chunk = []") auto
  have "reader_expects enc ps u (r\<lparr>r_ct := ct\<rparr>)"
    using ex ct by (auto simp: reader_expects_def reader_ok_def split: if_splits)
  from reader_loop_expects [OF gcm ma re this] ct(1) show ?thesis
    by (simp add: aead_reader_feed_def reader_progress_def)
qed

fun feed_all :: "gcm_dec \<Rightarrow> allocator \<Rightarrow> reallocator \<Rightarrow> aead_reader \<Rightarrow> bytes list \<Rightarrow> (int \<times> aead_reader) option" where
  "feed_all dec malloc realloc r [] = Some (0, r)"
| "feed_all dec malloc realloc r (c # cs) =
     (case aead_reader_feed dec malloc realloc r c of
        None \<Rightarrow> None
      | Some (rc, r') \<Rightarrow> if rc \<noteq> 0 then Some (rc, r') else feed_all dec malloc realloc r' cs)"

lemma feed_all_expects:
  assumes gcm: "gcm_spec enc dec" and ma: "malloc_total malloc" and re: "realloc_total realloc"
  shows "reader_expects enc ps (concat cs) r \<Longrightarrow> cs \<noteq> [] \<Longrightarrow>
    \<exists>r'. feed_all dec malloc realloc r cs = Some (0, r') \<and>
      content (r_pt r') = content (r_pt r) @ concat ps"
proof (induction cs arbitrary: r ps)
  case (Cons c cs)
  from Cons.prems(1) have "reader_expects enc ps (c @ concat cs) r" by simp
  from feed_expects [OF gcm ma re this] obtain r1 where
    r1: "aead_reader_feed dec malloc realloc r c = Some (0, r1)" "reader_progress enc ps (concat cs) r r1" by blast
  then obtain ps1 ps2 where ps: "ps = ps1 @ ps2" "reader_expects enc ps2 (concat cs) r1"
    "content (r_pt r1) = content (r_pt r) @ concat ps1" "concat cs = [] \<longrightarrow> ps2 = []"
    unfolding reader_progress_def by blast
  show ?case
  proof (cases "cs = []")
    case True
    with r1 ps show ?thesis by simp
  next
    case False
    from Cons.IH [OF ps(2) False] r1(1) ps(1,3) show ?thesis by auto
  qed
qed simp

section \<open>Only sealed streams are accepted\<close>

primrec nonce_after :: "bytes \<Rightarrow> nat \<Rightarrow> bytes" where
  "nonce_after n 0 = n"
| "nonce_after n (Suc k) = nonce_after (snd (increment_nonce n)) k"

lemma nonce_after_inc: "snd (increment_nonce (nonce_after n k)) = nonce_after n (Suc k)"
  by (induction k arbitrary: n) simp_all

lemma sealed_snoc:
  assumes "sealed enc key n0 n ps s"
    and "enc key (nonce_after n (length ps)) (n0 @ frame_header p) p = Some (c, t)" "length p \<le> 65536"
    and "fst (increment_nonce (nonce_after n (length ps)))"
  shows "sealed enc key n0 n (ps @ [p]) (s @ frame_header p @ c @ t)"
  using assms
proof (induction rule: sealed.induct)
  case (sealed_Nil n)
  with sealed.sealed_Cons [of enc key n n0 p c t "[]" "[]"] show ?case by (simp add: sealed.sealed_Nil)
next
  case (sealed_Cons n q c' t' ps s)
  with sealed.sealed_Cons [of enc key n n0 q c' t'] show ?case by simp
qed

lemma sealed_length: "gcm_spec enc dec \<Longrightarrow> sealed enc key n0 n ps s \<Longrightarrow> length (concat ps) \<le> length s"
  by (rotate_tac, induction rule: sealed.induct) (auto dest: gcm_spec_length)

text \<open>The reader has been fed exactly the bytes \<open>d\<close>.\<close>

definition reader_at :: "gcm_enc \<Rightarrow> bytes \<Rightarrow> aead_reader \<Rightarrow> bool" where
  "reader_at enc d r \<longleftrightarrow> reader_ok r \<and>
     (if r_header_read r
      then length (r_stream_nonce r) = 12 \<and> (\<exists>ps s. d = r_stream_nonce r @ s @ content (r_ct r) \<and>
        sealed enc (r_key r) (r_stream_nonce r) (r_stream_nonce r) ps s \<and>
        content (r_pt r) = concat ps \<and> r_nonce r = nonce_after (r_stream_nonce r) (length ps))
      else d = content (r_ct r) \<and> content (r_pt r) = [])"

lemma reader_at_room:
  assumes "gcm_spec enc dec" "reader_at enc d r" "length d \<le> 2 ^ 31"
  shows "length (content (r_pt r)) + length (content (r_ct r)) \<le> 2 ^ 31"
  using assms(2,3) sealed_length [OF assms(1)]
  by (fastforce simp: reader_at_def split: if_splits)

lemma reader_header_at:
  assumes "reader_at enc d r" "reader_header r = Some (Some r1)"
  shows "reader_at enc d r1 \<and> r_header_read r1 \<and> r_key r1 = r_key r"
proof (cases "r_header_read r")
  case True
  with assms show ?thesis by (auto simp: reader_header_def)
next
  case False
  have ok: "reader_ok r" using assms(1) by (simp add: reader_at_def)
  have long: "12 \<le> length (content (r_ct r))"
    using reader_header_waits [OF ok False] assms(2) by (metis not_less option.distinct(1) option.inject)
  obtain ct where ct: "reader_header r = Some (Some (r\<lparr>r_nonce := take 12 (content (r_ct r)),
      r_stream_nonce := take 12 (content (r_ct r)), r_ct := ct, r_header_read := True\<rparr>))"
    "gb_ok ct" "content ct = drop 12 (content (r_ct r))"
    by (rule reader_header_reads [OF ok False long])
  have "reader_at enc d r1"
    using assms ct False ok long
    by (auto simp: reader_at_def reader_ok_def intro!: exI [of _ "[]"] sealed_Nil)
  with ct assms(2) show ?thesis by simp
qed

lemma reader_frame_at:
  assumes gcm: "gcm_spec enc dec" and ma: "malloc_spec malloc" and re: "realloc_spec realloc"
    and at: "reader_at enc d r" "r_header_read r" and d: "length d \<le> 2 ^ 31"
    and run: "reader_frame dec malloc realloc r = Some (Continue r1)"
  shows "reader_at enc d r1 \<and> r_header_read r1 \<and> r_key r1 = r_key r"
proof -
  have ok: "reader_ok r" using at(1) by (simp add: reader_at_def)
  obtain p c t where f: "enc (r_key r) (r_nonce r) (r_stream_nonce r @ frame_header p) p = Some (c, t)"
    "length p \<le> 65536" "fst (increment_nonce (r_nonce r))"
    "content (r_ct r) = frame_header p @ c @ t @ content (r_ct r1)" "frame_accepted r p r1"
    by (rule reader_frame_sound [OF gcm ma re ok reader_at_room [OF gcm at(1) d] run])
  from at obtain ps s where s: "d = r_stream_nonce r @ s @ content (r_ct r)"
    "sealed enc (r_key r) (r_stream_nonce r) (r_stream_nonce r) ps s" "content (r_pt r) = concat ps"
    "r_nonce r = nonce_after (r_stream_nonce r) (length ps)" "length (r_stream_nonce r) = 12"
    by (auto simp: reader_at_def)
  have "sealed enc (r_key r) (r_stream_nonce r) (r_stream_nonce r) (ps @ [p]) (s @ frame_header p @ c @ t)"
    using f s by (intro sealed_snoc) simp_all
  moreover have "r_nonce r1 = nonce_after (r_stream_nonce r) (length (ps @ [p]))"
    using f(5) s(4) nonce_after_inc by (simp add: frame_accepted_def)
  moreover have "d = r_stream_nonce r @ (s @ frame_header p @ c @ t) @ content (r_ct r1)"
    using s(1) f(4) by simp
  moreover have "content (r_pt r1) = concat (ps @ [p])" using f(5) s(3) by (simp add: frame_accepted_def)
  ultimately have "\<exists>ps s. d = r_stream_nonce r @ s @ content (r_ct r1) \<and>
      sealed enc (r_key r) (r_stream_nonce r) (r_stream_nonce r) ps s \<and>
      content (r_pt r1) = concat ps \<and> r_nonce r1 = nonce_after (r_stream_nonce r) (length ps)" by blast
  with f(5) at(2) s(5) show ?thesis unfolding reader_at_def frame_accepted_def by simp
qed

lemma reader_frame_returns_same:
  "reader_frame dec malloc realloc r = Some (Return 0 r1) \<Longrightarrow> r1 = r"
  by (auto simp: reader_frame_def Let_def bind_eq_Some_conv split: if_splits option.splits prod.splits)

lemma reader_loop_at:
  assumes gcm: "gcm_spec enc dec" and ma: "malloc_spec malloc" and re: "realloc_spec realloc"
    and d: "length d \<le> 2 ^ 31"
  shows "reader_at enc d r \<Longrightarrow> reader_loop dec malloc realloc r = Some (0, r') \<Longrightarrow>
    reader_at enc d r' \<and> r_key r' = r_key r \<and> (r_header_read r' \<or> length d < 12)"
proof (induction "unat (gb_len (r_ct r))" arbitrary: r rule: less_induct)
  case less
  note unf = reader_loop.simps [of dec malloc realloc r]
  consider "reader_header r = None" | "reader_header r = Some None"
    | r1 where "reader_header r = Some (Some r1)" by (cases "reader_header r") auto
  then show ?case
  proof cases
    case 1
    with less.prems show ?thesis by (simp add: unf)
  next
    case 2
    then have short: "\<not> r_header_read r" "gb_len (r_ct r) < 12"
      by (auto simp: reader_header_def bind_eq_Some_conv Let_def split: if_splits)
    with less.prems(1) have "length d < 12"
      using length_content [of "r_ct r"] by (simp add: reader_at_def reader_ok_def less_u32_iff)
    moreover have "r' = r" using 2 less.prems(2) by (simp add: unf)
    ultimately show ?thesis using less.prems(1) by simp
  next
    case (3 r1)
    note at1 = reader_header_at [OF less.prems(1) 3]
    show ?thesis
    proof (cases "reader_frame dec malloc realloc r1")
      case None
      with 3 less.prems(2) show ?thesis by (simp add: unf)
    next
      case (Some st)
      show ?thesis
      proof (cases st)
        case (Return rc r2)
        with 3 Some less.prems(2) have "rc = 0" "r' = r2" by (simp_all add: unf)
        with reader_frame_returns_same [of dec malloc realloc r1 r2] Some Return have "r' = r1" by simp
        with at1 show ?thesis by simp
      next
        case (Continue r2)
        with Some have fr: "reader_frame dec malloc realloc r1 = Some (Continue r2)" by simp
        note at2 = reader_frame_at [OF gcm ma re conjunct1 [OF at1] _ d fr]
        have "unat (gb_len (r_ct r2)) < unat (gb_len (r_ct r))"
          using reader_frame_shrinks [OF fr] reader_header_shrinks [OF 3] by simp
        from less.hyps [OF this] at1 at2 3 fr less.prems(2) show ?thesis by (simp add: unf)
      qed
    qed
  qed
qed

lemma feed_at:
  assumes gcm: "gcm_spec enc dec" and ma: "malloc_spec malloc" and re: "realloc_spec realloc"
    and at: "reader_at enc d r" and d: "length (d @ c) \<le> 2 ^ 31"
    and run: "aead_reader_feed dec malloc realloc r c = Some (0, r')"
  shows "reader_at enc (d @ c) r' \<and> r_key r' = r_key r \<and> (r_header_read r' \<or> length (d @ c) < 12)"
proof -
  have ok: "gb_ok (r_ct r)" using at by (simp add: reader_at_def reader_ok_def)
  have "length (content (r_ct r)) \<le> length d" using at by (auto simp: reader_at_def split: if_splits)
  with d have room: "length (content (r_ct r)) + length c \<le> 2 ^ 31" by simp
  from run obtain ct where ct: "(if c \<noteq> [] then buf_append realloc (r_ct r) c else Some (0, r_ct r)) = Some (0, ct)"
    and loop: "reader_loop dec malloc realloc (r\<lparr>r_ct := ct\<rparr>) = Some (0, r')"
    by (auto simp: aead_reader_feed_def bind_eq_Some_conv split: if_splits)
  have "gb_ok ct \<and> content ct = content (r_ct r) @ c"
  proof (cases "c = []")
    case True
    with ct ok show ?thesis by simp
  next
    case False
    show ?thesis by (rule buf_append_correct [OF ok re room]) (use ct False in auto)
  qed
  with at have "reader_at enc (d @ c) (r\<lparr>r_ct := ct\<rparr>)"
    by (fastforce simp: reader_at_def reader_ok_def split: if_splits)
  from reader_loop_at [OF gcm ma re d this loop] show ?thesis by simp
qed

lemma feed_all_at:
  assumes gcm: "gcm_spec enc dec" and ma: "malloc_spec malloc" and re: "realloc_spec realloc"
  shows "reader_at enc d r \<Longrightarrow> length (d @ concat cs) \<le> 2 ^ 31 \<Longrightarrow> r_header_read r \<or> length d < 12 \<Longrightarrow>
    feed_all dec malloc realloc r cs = Some (0, r') \<Longrightarrow>
    reader_at enc (d @ concat cs) r' \<and> r_key r' = r_key r \<and> (r_header_read r' \<or> length (d @ concat cs) < 12)"
proof (induction cs arbitrary: d r)
  case (Cons c cs)
  from Cons.prems(4) obtain r1 where r1: "aead_reader_feed dec malloc realloc r c = Some (0, r1)"
    "feed_all dec malloc realloc r1 cs = Some (0, r')"
    by (auto split: option.splits if_splits)
  have len: "length (d @ c) \<le> 2 ^ 31" using Cons.prems(2) by simp
  note at = feed_at [OF gcm ma re Cons.prems(1) len r1(1)]
  from Cons.IH [of "d @ c" r1] at r1(2) Cons.prems(2) show ?case by simp
qed simp

text \<open>Concrete instances of the parameters for the witnesses: a cipher that appends a constant tag,
  and allocations that always succeed.\<close>

definition plain_enc :: gcm_enc where
  "plain_enc k n a p = Some (p, replicate 16 0)"

definition plain_dec :: gcm_dec where
  "plain_dec k n a c t = (if t = replicate 16 0 then Some c else None)"

definition zero_malloc :: allocator where
  "zero_malloc n = Some (replicate (unat n) 0)"

definition zero_realloc :: reallocator where
  "zero_realloc old n = Some (take (unat n) (old @ replicate (unat n) 0))"

lemma plain_gcm: "gcm_spec plain_enc plain_dec"
  by (auto simp: gcm_spec_def plain_enc_def plain_dec_def)

lemma zero_alloc_total [simp]: "malloc_total zero_malloc" "realloc_total zero_realloc"
  by (auto simp: malloc_total_def malloc_spec_def zero_malloc_def realloc_total_def realloc_spec_def
      zero_realloc_def min_def)

lemma zero_alloc_spec [simp]: "malloc_spec zero_malloc" "realloc_spec zero_realloc"
  using zero_alloc_total unfolding malloc_total_def realloc_total_def by blast+

section \<open>Properties of the stream\<close>

lemma sealed_total_length:
  "gcm_spec enc dec \<Longrightarrow> sealed enc key n0 n ps s \<Longrightarrow> length s = length (concat ps) + 20 * length ps"
  by (rotate_tac, induction rule: sealed.induct) (auto dest: gcm_spec_length)

lemma seal_accepted:
  assumes "gcm_spec enc dec" "malloc_total malloc" "length (w_nonce w) = 12" "fst (increment_nonce (w_nonce w))"
    and "p \<noteq> []" "length p \<le> 65536" "\<forall>k n a p. enc k n a p \<noteq> None"
  shows "\<exists>out w'. aead_writer_seal enc malloc w p = Some (0, out, w') \<and>
    w_nonce w' = snd (increment_nonce (w_nonce w))"
proof -
  have ma: "malloc_spec malloc" using assms(2) by (simp add: malloc_total_def)
  have ne: "aead_writer_seal enc malloc w p \<noteq> Some (-1, [], w)"
  proof -
    obtain ct where ct: "malloc (of_nat (length p) + 16) = Some ct" using assms(2) by (auto simp: malloc_total_def)
    obtain c t where ct2: "enc (w_key w) (w_nonce w) (w_stream_nonce w @ be32 (of_nat (length p) + 16)) p = Some (c, t)"
      using assms(7) by fastforce
    have lct: "length ct = length p + 16" using malloc_specD [OF ma ct] assms(6) by (simp add: unat_frame_len)
    define f where "f n = the (malloc n)" for n
    have f: "malloc n = Some (f n)" for n using assms(2) by (simp add: malloc_total_def f_def)
    from ct have "f (of_nat (length p) + 16) = ct" by (simp add: f)
    with assms(4-6) gcm_seal_fits [OF assms(1) ct2 lct] show ?thesis
      by (auto simp: f aead_writer_seal_def Let_def bind_eq_Some_conv split_beta split: option.splits if_splits)
  qed
  show ?thesis
    by (cases rule: seal_cases [OF assms(1) ma assms(3), of p]) (use ne assms(4) in auto)
qed

lemma seal_run_all:
  assumes gcm: "gcm_spec enc dec" and enc: "\<forall>k n a p. enc k n a p \<noteq> None"
  shows "length (w_nonce w) = 12 \<Longrightarrow> be_val (w_nonce w) + length js < 256 ^ 12 \<Longrightarrow>
    \<forall>(m, p) \<in> set js. malloc_total m \<and> p \<noteq> [] \<and> length p \<le> 65536 \<Longrightarrow>
    \<exists>es w'. seal_run enc js w = Some (es, w') \<and> map (\<lambda>e. fst (snd e)) es = map snd js"
proof (induction js arbitrary: w)
  case (Cons j js)
  obtain m p where j: "j = (m, p)" by force
  have inc: "fst (increment_nonce (w_nonce w))"
    "be_val (snd (increment_nonce (w_nonce w))) = be_val (w_nonce w) + 1"
    using increment_val [of "w_nonce w"] Cons.prems(1,2) by simp_all
  have mp: "malloc_total m" "p \<noteq> []" "length p \<le> 65536" using Cons.prems(3) j by auto
  from seal_accepted [OF gcm mp(1) Cons.prems(1) inc(1) mp(2,3) enc] obtain out w1 where
    w1: "aead_writer_seal enc m w p = Some (0, out, w1)" "w_nonce w1 = snd (increment_nonce (w_nonce w))"
    by blast
  then have "\<exists>es w'. seal_run enc js w1 = Some (es, w') \<and> map (\<lambda>e. fst (snd e)) es = map snd js"
    using Cons.prems inc j by (intro Cons.IH) simp_all
  with w1 j show ?case by auto
qed simp


text \<open>C6. End to end, the AEAD stream delivers: seal any plaintexts of 1 to 65536 bytes with a
  fresh writer, cut the emitted bytes into chunks in any way at all, and feed the chunks to a fresh
  reader with the same key; every call succeeds and the reader holds the plaintexts in order. (For a
  cipher that meets \<open>gcm_spec\<close>, successful allocations, below 2 GiB and below nonce exhaustion.)\<close>

theorem aead_stream_delivers:
  assumes "gcm_spec enc dec" "\<forall>k n a p. enc k n a p \<noteq> None"
    and "length rand = 12" "be_val rand + length js < 256 ^ 12" "js \<noteq> []"
    and "\<forall>(m, p) \<in> set js. malloc_total m \<and> p \<noteq> [] \<and> length p \<le> 65536"
    and "malloc_total malloc" "realloc_total realloc"
    and "length (concat (map snd js)) + 20 * length js + 12 \<le> 2 ^ 31"
  shows "\<exists>es w'. seal_run enc js (snd (aead_writer_init (Some rand) key)) = Some (es, w') \<and>
    (\<forall>chunks. concat chunks = concat (map (\<lambda>e. snd (snd e)) es) \<longrightarrow>
      (\<exists>r. feed_all dec malloc realloc (snd (aead_reader_init key)) chunks = Some (0, r) \<and>
         content (r_pt r) = concat (map snd js)))"
proof -
  let ?w = "snd (aead_writer_init (Some rand) key)" and ?r = "snd (aead_reader_init key)"
  have w: "w_nonce ?w = rand" "w_stream_nonce ?w = rand" "w_key ?w = key" "\<not> w_header_sent ?w"
    by (simp_all add: aead_writer_init_def Let_def)
  from seal_run_all [OF assms(1,2), of ?w js] assms(3,4,6) w obtain es w' where
    es: "seal_run enc js ?w = Some (es, w')" "map (\<lambda>e. fst (snd e)) es = map snd js" by auto
  have ne: "es \<noteq> []" using es(2) assms(5) by auto
  have ma: "\<forall>(m, p) \<in> set js. malloc_spec m" using assms(6) by (auto simp: malloc_total_def)
  obtain s where s: "sealed enc key rand rand (map snd js) s"
    "concat (map (\<lambda>e. snd (snd e)) es) = rand @ s"
    using seal_run_sealed [OF assms(1) _ ma _ es(1)] assms(3,4) w ne es(2) by auto
  have "\<exists>r. feed_all dec malloc realloc ?r chunks = Some (0, r) \<and> content (r_pt r) = concat (map snd js)"
    if c: "concat chunks = concat (map (\<lambda>e. snd (snd e)) es)" for chunks
  proof -
    have "length (concat chunks) = 12 + length (concat (map snd js)) + 20 * length js"
      using c s sealed_total_length [OF assms(1) s(1)] assms(3) by simp
    then have "reader_expects enc (map snd js) (concat chunks) ?r"
      using assms(3,9) s c by (auto simp: reader_expects_def reader_ok_def aead_reader_init_def)
    moreover have "chunks \<noteq> []" using c s(2) assms(3) by auto
    ultimately show ?thesis
      using feed_all_expects [OF assms(1,7,8), of "map snd js" chunks ?r] by (simp add: aead_reader_init_def)
  qed
  with es(1) show ?thesis by blast
qed

theorem aead_stream_delivers_witness:
  "\<exists>es w' r. seal_run plain_enc [(zero_malloc, [1, 2]), (zero_malloc, [3])]
       (snd (aead_writer_init (Some (replicate 12 0)) [7])) = Some (es, w') \<and>
     feed_all plain_dec zero_malloc zero_realloc (snd (aead_reader_init [7]))
       (map (\<lambda>e. snd (snd e)) es) = Some (0, r) \<and> content (r_pt r) = [1, 2, 3]"
proof -
  let ?js = "[(zero_malloc, [1, 2 :: u8]), (zero_malloc, [3])]"
  have "be_val (replicate 12 0) = 0" by (rule be_val_zeros)
  then have nonce: "be_val (replicate 12 0) + length ?js < 256 ^ 12" by simp
  have enc: "\<forall>k n a p. plain_enc k n a p \<noteq> None" by (simp add: plain_enc_def)
  have jobs: "\<forall>(m, p) \<in> set ?js. malloc_total m \<and> p \<noteq> [] \<and> length p \<le> 65536" by simp
  have len: "length (replicate 12 (0 :: u8)) = 12" "?js \<noteq> []"
    "length (concat (map snd ?js)) + 20 * length ?js + 12 \<le> 2 ^ 31" by simp_all
  note d = aead_stream_delivers [OF plain_gcm enc len(1) nonce len(2) jobs zero_alloc_total len(3), of "[7]"]
  then obtain es w' where es: "seal_run plain_enc ?js (snd (aead_writer_init (Some (replicate 12 0)) [7])) = Some (es, w')"
    and all: "\<And>chunks. concat chunks = concat (map (\<lambda>e. snd (snd e)) es) \<Longrightarrow>
      \<exists>r. feed_all plain_dec zero_malloc zero_realloc (snd (aead_reader_init [7])) chunks = Some (0, r) \<and>
         content (r_pt r) = concat (map snd ?js)"
    by blast
  from all [OF refl] obtain r where
    "feed_all plain_dec zero_malloc zero_realloc (snd (aead_reader_init [7])) (map (\<lambda>e. snd (snd e)) es) = Some (0, r)"
    "content (r_pt r) = [1, 2, 3]" by auto
  with es show ?thesis by blast
qed

text \<open>C18. The reader accepts nothing but sealed streams: when every feed of a fresh reader has
  succeeded, the bytes received are a 12-byte nonce, then a sealed stream of frames under the reader's
  key and consecutive nonces, then an incomplete rest, and the plaintext delivered is that of these
  frames and nothing else; or fewer than 12 bytes have arrived and nothing was delivered.\<close>

theorem aead_reader_integrity:
  assumes "gcm_spec enc dec" "malloc_spec malloc" "realloc_spec realloc" "length (concat chunks) \<le> 2 ^ 31"
    and "feed_all dec malloc realloc (snd (aead_reader_init key)) chunks = Some (0, r)"
  shows "(length (concat chunks) < 12 \<and> content (r_pt r) = []) \<or>
    (\<exists>n0 ps s rest. concat chunks = n0 @ s @ rest \<and> length n0 = 12 \<and> sealed enc key n0 n0 ps s \<and>
       content (r_pt r) = concat ps)"
proof -
  have "reader_at enc [] (snd (aead_reader_init key))" by (simp add: reader_at_def reader_ok_def aead_reader_init_def)
  from feed_all_at [OF assms(1-3) this _ _ assms(5)] assms(4)
  have "reader_at enc (concat chunks) r" "r_key r = key" "r_header_read r \<or> length (concat chunks) < 12"
    by (simp_all add: aead_reader_init_def)
  then show ?thesis by (cases "r_header_read r") (auto simp: reader_at_def)
qed

theorem aead_reader_integrity_witness:
  "feed_all plain_dec zero_malloc zero_realloc (snd (aead_reader_init [7])) [[1, 2]] =
     Some (0, (snd (aead_reader_init [7]))\<lparr>r_ct := \<lparr>gb_mem = [1, 2] @ replicate 4094 0, gb_len = 2, gb_cap = 4096\<rparr>\<rparr>) \<and>
   length [1, 2 :: u8] < 12"
proof -
  let ?r = "(snd (aead_reader_init [7]))\<lparr>r_ct := \<lparr>gb_mem = [1, 2] @ replicate 4094 0, gb_len = 2, gb_cap = 4096\<rparr>\<rparr>"
  have run: "feed_all plain_dec zero_malloc zero_realloc (snd (aead_reader_init [7])) [[1, 2]] = Some (0, ?r)"
    by (simp add: aead_reader_init_def aead_reader_feed_def buf_append_def gb_empty_def gb_grow_def
        grow_loop_stop zero_realloc_def gb_put_def blit_def reader_loop.simps reader_header_def)
  from aead_reader_integrity [OF plain_gcm zero_alloc_spec _ run] run show ?thesis by simp
qed



text \<open>C30. The control keys are HKDF outputs bound to the handshake: for an algorithm name of at
  most 85 characters the two directions' keys are HMACs under the same extracted key (token and
  transcript) of two different labels that name the algorithm and the direction; any longer name
  than 86 characters makes the derivation read past its label array.\<close>

theorem control_keys_derivation:
  assumes "malloc_total malloc" "transcript \<noteq> []" "hmac transcript token = Some prk"
    and "hmac prk (v2_key_info alg '' client-to-server'' @ [1]) = Some k1"
    and "hmac prk (v2_key_info alg '' server-to-client'' @ [1]) = Some k2"
  shows "(length alg \<le> 85 \<longrightarrow> derive_v2_control_keys malloc hmac token transcript alg = Some (0, k1, k2)) \<and>
    (86 < length alg \<longrightarrow> derive_v2_control_keys malloc hmac token transcript alg = None) \<and>
    v2_key_info alg '' client-to-server'' \<noteq> v2_key_info alg '' server-to-client''"
proof -
  let ?c = "v2_key_info alg '' client-to-server''" and ?s = "v2_key_info alg '' server-to-client''"
  have len: "length ?c = length alg + 42" "length ?s = length alg + 42" by (simp_all add: v2_key_info_def)
  have hkdf: "hkdf_sha256_32 malloc hmac token (Some transcript) info = Some (0, k)"
    if "hmac prk (info @ [1]) = Some k" "length info \<le> 127" for info k
  proof -
    obtain tmp where tmp: "malloc (of_nat (length info) + 1) = Some tmp"
      using assms(1) by (auto simp: malloc_total_def)
    have "unat (of_nat (length info) + 1 :: u32) = length info + 1"
      using that(2) unat_of_nat_u32 [of "length info"] unat_add_no_wrap [of "of_nat (length info)" 1] by simp
    then have "length tmp = length info + 1"
      using malloc_specD [of malloc] assms(1) tmp by (simp add: malloc_total_def)
    then show ?thesis using assms(2,3) tmp that by (simp add: hkdf_sha256_32_def Let_def blit_fits)
  qed
  have "derive_v2_control_keys malloc hmac token transcript alg = Some (0, k1, k2)" if "length alg \<le> 85"
    using that len hkdf [OF assms(4)] hkdf [OF assms(5)]
    by (simp add: derive_v2_control_keys_def snprintf_read_def)
  moreover have "derive_v2_control_keys malloc hmac token transcript alg = None" if "86 < length alg"
    using that len by (simp add: derive_v2_control_keys_def snprintf_read_def)
  moreover have "?c \<noteq> ?s" by (simp add: v2_key_info_def)
  ultimately show ?thesis by blast
qed

theorem control_keys_derivation_witness:
  "derive_v2_control_keys zero_malloc (\<lambda>k d. Some (k @ d)) [1] [2] [65] =
     Some (0, [2, 1] @ v2_key_info [65] '' client-to-server'' @ [1],
       [2, 1] @ v2_key_info [65] '' server-to-client'' @ [1])"
  using control_keys_derivation [of zero_malloc "[2]" "\<lambda>k d. Some (k @ d)" "[1]" "[2, 1]" "[65]"]
  by simp

end
