(* ===== verification/Evp_Compat.thy ===== *)
theory Evp_Compat
  imports Aead_Stream
begin

text \<open>
  The OpenSSL layer of the port, \<open>port/openssl_compat.c\<close>: the EVP cipher context on top of mbedtls.
  mbedtls is not part of the repository; the record \<open>mbedtls\<close> has its operations as fields and
  \<open>mbedtls_spec\<close> what its documentation says of them. Every call may fail (\<open>mb_fails\<close>). The EVP
  functions return \<open>None\<close> for the return value 0; a context passed to a failing call is unchanged.
  \<open>gcm_seal_evp\<close> and \<open>gcm_open_evp\<close> are the call sequences of \<open>aead_stream.c\<close> on this layer.
\<close>

section \<open>mbedtls\<close>

datatype mb_call = Aes_setkey | Aes_cfb | Gcm_setkey | Gcm_starts | Gcm_update_ad | Gcm_update
  | Gcm_finish | Md_hmac | Pkcs5_pbkdf2

datatype md_type = MD_SHA1 | MD_SHA256 | MD_MD5

text \<open>
  \<open>mb_cfb encrypt key (iv, off) input\<close> is \<open>mbedtls_aes_crypt_cfb128\<close> (the updated vector and offset,
  and the output). GCM is a counter-mode stream and a tag: in mode \<open>MBEDTLS_ENCRYPT\<close> mbedtls
  authenticates its output, in mode \<open>MBEDTLS_DECRYPT\<close> its input (the ciphertext in both cases, when
  the mode is the right one).
\<close>

record mbedtls =
  mb_fails :: "mb_call \<Rightarrow> bool"
  mb_cfb :: "bool \<Rightarrow> bytes \<Rightarrow> bytes \<times> nat \<Rightarrow> bytes \<Rightarrow> (bytes \<times> nat) \<times> bytes"
  mb_ctr :: "bytes \<Rightarrow> bytes \<Rightarrow> bytes \<Rightarrow> bytes"
  mb_tag :: "bytes \<Rightarrow> bytes \<Rightarrow> bytes \<Rightarrow> bytes \<Rightarrow> bytes"
  mb_hmac :: "md_type \<Rightarrow> bytes \<Rightarrow> bytes \<Rightarrow> bytes"
  mb_pbkdf2 :: "md_type \<Rightarrow> bytes \<Rightarrow> bytes \<Rightarrow> nat \<Rightarrow> nat \<Rightarrow> bytes"

definition mbedtls_spec :: "mbedtls \<Rightarrow> bool" where
  "mbedtls_spec m \<longleftrightarrow>
     (\<forall>k n p. length (mb_ctr m k n p) = length p \<and> mb_ctr m k n (mb_ctr m k n p) = p) \<and>
     (\<forall>k n a c. length (mb_tag m k n a c) = 16) \<and>
     (\<forall>e k s p. length (snd (mb_cfb m e k s p)) = length p) \<and>
     (\<forall>e k s p q. mb_cfb m e k s (p @ q) =
        (let (s', c) = mb_cfb m e k s p; (s'', d) = mb_cfb m e k s' q in (s'', c @ d))) \<and>
     (\<forall>k s p. mb_cfb m False k s (snd (mb_cfb m True k s p)) = (fst (mb_cfb m True k s p), p))"

section \<open>The cipher context\<close>

datatype evp_cipher = AES_128_CFB | AES_256_GCM

record evp_ctx =
  cipher_id :: "evp_cipher option"
  direction :: bool
  finished :: bool
  aes_key :: bytes
  cfb_iv :: bytes
  cfb_iv_off :: nat
  g_key :: bytes
  g_decrypt :: bool
  g_iv :: bytes
  g_ad :: bytes
  g_in :: bytes
  g_out :: bytes
  gcm_tag :: bytes
  gcm_tag_set :: bool
  gcm_started :: bool

definition EVP_CIPHER_CTX_new :: evp_ctx where
  "EVP_CIPHER_CTX_new = \<lparr>cipher_id = None, direction = False, finished = False, aes_key = [],
     cfb_iv = replicate 16 0, cfb_iv_off = 0, g_key = [], g_decrypt = False, g_iv = [], g_ad = [],
     g_in = [], g_out = [], gcm_tag = replicate 16 0, gcm_tag_set = False, gcm_started = False\<rparr>"

definition evp_cfb_init :: "mbedtls \<Rightarrow> evp_ctx \<Rightarrow> bool \<Rightarrow> bytes option \<Rightarrow> bytes option \<Rightarrow> evp_ctx option" where
  "evp_cfb_init m ctx dir key iv =
     (case (key, iv) of
        (Some key, Some iv) \<Rightarrow>
          if mb_fails m Aes_setkey then None
          else Some (ctx\<lparr>aes_key := key, cfb_iv := take 16 iv, cfb_iv_off := 0, direction := dir\<rparr>)
      | _ \<Rightarrow> None)"

text \<open>\<open>mbedtls_gcm_starts(..., direction ? MBEDTLS_DECRYPT : MBEDTLS_ENCRYPT, ...)\<close> with
  \<open>direction\<close> 1 for encryption.\<close>

definition evp_gcm_init :: "mbedtls \<Rightarrow> evp_ctx \<Rightarrow> bool \<Rightarrow> bytes option \<Rightarrow> bytes option \<Rightarrow> evp_ctx option" where
  "evp_gcm_init m ctx dir key iv =
     (case (key, iv) of
        (Some key, Some iv) \<Rightarrow>
          if mb_fails m Gcm_setkey then None
          else if mb_fails m Gcm_starts then None
          else Some (ctx\<lparr>g_key := key, g_decrypt := dir, g_iv := take 12 iv, g_ad := [], g_in := [],
                 g_out := [], gcm_started := True, direction := dir\<rparr>)
      | (None, None) \<Rightarrow> Some ctx
      | _ \<Rightarrow> None)"

definition evp_init ::
  "mbedtls \<Rightarrow> evp_ctx \<Rightarrow> bool \<Rightarrow> evp_cipher option \<Rightarrow> bytes option \<Rightarrow> bytes option \<Rightarrow> evp_ctx option" where
  "evp_init m ctx dir cipher key iv = do {
     ctx \<leftarrow> (case cipher of
        None \<Rightarrow> Some ctx
      | Some c \<Rightarrow>
          if cipher_id ctx \<noteq> None \<and> cipher_id ctx \<noteq> Some c then None
          else Some (ctx\<lparr>cipher_id := Some c, finished := False, gcm_tag_set := False,
                 gcm_started := False\<rparr>));
     if key = None \<and> iv = None then Some ctx
     else case cipher_id ctx of
       Some AES_128_CFB \<Rightarrow> evp_cfb_init m ctx dir key iv
     | Some AES_256_GCM \<Rightarrow> evp_gcm_init m ctx dir key iv
     | None \<Rightarrow> None
   }"

definition EVP_EncryptInit_ex ::
  "mbedtls \<Rightarrow> evp_ctx \<Rightarrow> evp_cipher option \<Rightarrow> bytes option \<Rightarrow> bytes option \<Rightarrow> evp_ctx option" where
  "EVP_EncryptInit_ex m ctx cipher key iv = evp_init m ctx True cipher key iv"

definition EVP_DecryptInit_ex ::
  "mbedtls \<Rightarrow> evp_ctx \<Rightarrow> evp_cipher option \<Rightarrow> bytes option \<Rightarrow> bytes option \<Rightarrow> evp_ctx option" where
  "EVP_DecryptInit_ex m ctx cipher key iv = evp_init m ctx False cipher key iv"

text \<open>The \<open>int\<close> length a \<open>size_t\<close> argument is converted to.\<close>

definition int_len :: "bytes \<Rightarrow> int" where
  "int_len b = sint (of_nat (length b) :: u32)"

text \<open>\<open>out_null\<close>: the output pointer is NULL (the call passes additional data). The second
  component of the result is what is written to \<open>out\<close>, and its length is \<open>*outl\<close>.\<close>

definition evp_gcm_update :: "mbedtls \<Rightarrow> evp_ctx \<Rightarrow> bool \<Rightarrow> bytes \<Rightarrow> (evp_ctx \<times> bytes) option" where
  "evp_gcm_update m ctx out_null inp =
     (if out_null then
        (if inp = [] then Some (ctx, [])
         else if mb_fails m Gcm_update_ad then None
         else Some (ctx\<lparr>g_ad := g_ad ctx @ inp\<rparr>, []))
      else if inp = [] then Some (ctx, [])
      else if mb_fails m Gcm_update then None
      else let out = drop (length (g_in ctx)) (mb_ctr m (g_key ctx) (g_iv ctx) (g_in ctx @ inp)) in
        Some (ctx\<lparr>g_in := g_in ctx @ inp, g_out := g_out ctx @ out\<rparr>, out))"

definition evp_cfb_update :: "mbedtls \<Rightarrow> bool \<Rightarrow> evp_ctx \<Rightarrow> bool \<Rightarrow> bytes \<Rightarrow> (evp_ctx \<times> bytes) option" where
  "evp_cfb_update m encrypt ctx out_null inp =
     (if out_null then None
      else if inp = [] then Some (ctx, [])
      else if mb_fails m Aes_cfb then None
      else let ((iv, off), out) = mb_cfb m encrypt (aes_key ctx) (cfb_iv ctx, cfb_iv_off ctx) inp in
        Some (ctx\<lparr>cfb_iv := iv, cfb_iv_off := off\<rparr>, out))"

definition EVP_EncryptUpdate :: "mbedtls \<Rightarrow> evp_ctx \<Rightarrow> bool \<Rightarrow> bytes \<Rightarrow> (evp_ctx \<times> bytes) option" where
  "EVP_EncryptUpdate m ctx out_null inp =
     (if int_len inp < 0 then None
      else case cipher_id ctx of
        Some AES_128_CFB \<Rightarrow> evp_cfb_update m True ctx out_null inp
      | Some AES_256_GCM \<Rightarrow> evp_gcm_update m ctx out_null inp
      | None \<Rightarrow> None)"

definition EVP_DecryptUpdate :: "mbedtls \<Rightarrow> evp_ctx \<Rightarrow> bool \<Rightarrow> bytes \<Rightarrow> (evp_ctx \<times> bytes) option" where
  "EVP_DecryptUpdate m ctx out_null inp =
     (if int_len inp < 0 then None
      else case cipher_id ctx of
        Some AES_128_CFB \<Rightarrow> evp_cfb_update m False ctx out_null inp
      | Some AES_256_GCM \<Rightarrow> EVP_EncryptUpdate m ctx out_null inp
      | None \<Rightarrow> None)"

text \<open>The tag \<open>mbedtls_gcm_finish\<close> computes.\<close>

definition gcm_finish :: "mbedtls \<Rightarrow> evp_ctx \<Rightarrow> bytes" where
  "gcm_finish m ctx =
     mb_tag m (g_key ctx) (g_iv ctx) (g_ad ctx) (if g_decrypt ctx then g_in ctx else g_out ctx)"

definition EVP_EncryptFinal_ex :: "mbedtls \<Rightarrow> evp_ctx \<Rightarrow> evp_ctx option" where
  "EVP_EncryptFinal_ex m ctx =
     (if cipher_id ctx = Some AES_256_GCM \<and> \<not> finished ctx then
        (if mb_fails m Gcm_finish then None
         else Some (ctx\<lparr>gcm_tag := gcm_finish m ctx, finished := True\<rparr>))
      else Some ctx)"

definition EVP_DecryptFinal_ex :: "mbedtls \<Rightarrow> evp_ctx \<Rightarrow> evp_ctx option" where
  "EVP_DecryptFinal_ex m ctx =
     (if cipher_id ctx = Some AES_256_GCM \<and> \<not> finished ctx then
        (if mb_fails m Gcm_finish then None
         else if \<not> gcm_tag_set ctx \<or> gcm_finish m ctx \<noteq> gcm_tag ctx then None
         else Some (ctx\<lparr>finished := True\<rparr>))
      else Some ctx)"

definition EVP_CTRL_GCM_SET_IVLEN :: "evp_ctx \<Rightarrow> int \<Rightarrow> evp_ctx option" where
  "EVP_CTRL_GCM_SET_IVLEN ctx arg = (if arg = 12 then Some ctx else None)"

definition EVP_CTRL_GCM_GET_TAG :: "evp_ctx \<Rightarrow> int \<Rightarrow> bytes option" where
  "EVP_CTRL_GCM_GET_TAG ctx arg = (if arg \<noteq> 16 \<or> \<not> finished ctx then None else Some (gcm_tag ctx))"

definition EVP_CTRL_GCM_SET_TAG :: "evp_ctx \<Rightarrow> int \<Rightarrow> bytes \<Rightarrow> evp_ctx option" where
  "EVP_CTRL_GCM_SET_TAG ctx arg p =
     (if arg \<noteq> 16 then None else Some (ctx\<lparr>gcm_tag := take 16 p, gcm_tag_set := True\<rparr>))"

section \<open>Digests and key derivation\<close>

definition HMAC :: "mbedtls \<Rightarrow> md_type \<Rightarrow> bytes \<Rightarrow> bytes \<Rightarrow> bytes option" where
  "HMAC m md key data =
     (if int_len key < 0 then None
      else if mb_fails m Md_hmac then None
      else Some (mb_hmac m md key data))"

definition hmac_sha256 :: "mbedtls \<Rightarrow> bytes \<Rightarrow> bytes \<Rightarrow> bytes option" where
  "hmac_sha256 m key data = HMAC m MD_SHA256 key data"

definition PKCS5_PBKDF2_HMAC :: "mbedtls \<Rightarrow> bytes \<Rightarrow> bytes \<Rightarrow> int \<Rightarrow> md_type \<Rightarrow> int \<Rightarrow> bytes option" where
  "PKCS5_PBKDF2_HMAC m pass salt iter md keylen =
     (if int_len pass < 0 \<or> int_len salt < 0 \<or> keylen \<le> 0 \<or> iter \<le> 0 then None
      else if mb_fails m Pkcs5_pbkdf2 then None
      else Some (mb_pbkdf2 m md pass salt (nat iter) (nat keylen)))"

section \<open>The call sequences of the AEAD stream\<close>

text \<open>\<open>ctx0\<close> is what \<open>EVP_CIPHER_CTX_new\<close> returned, \<open>None\<close> for NULL.\<close>

definition gcm_seal_evp :: "mbedtls \<Rightarrow> evp_ctx option \<Rightarrow> bytes \<Rightarrow> bytes \<Rightarrow> bytes \<Rightarrow> bytes \<Rightarrow> bytes \<Rightarrow>
    (int \<times> bytes \<times> u32) option" where
  "gcm_seal_evp m ctx0 key nonce aad pt out =
     (case do {
        ctx \<leftarrow> ctx0;
        ctx \<leftarrow> EVP_EncryptInit_ex m ctx (Some AES_256_GCM) None None;
        ctx \<leftarrow> EVP_CTRL_GCM_SET_IVLEN ctx 12;
        ctx \<leftarrow> EVP_EncryptInit_ex m ctx None (Some key) (Some nonce);
        ctx \<leftarrow> (if aad \<noteq> [] then map_option fst (EVP_EncryptUpdate m ctx True aad) else Some ctx);
        (if pt \<noteq> [] then EVP_EncryptUpdate m ctx False pt else Some (ctx, []))
      } of
        None \<Rightarrow> Some (-1, out, 0)
      | Some (ctx, ct) \<Rightarrow> do {
          out \<leftarrow> blit 0 ct out;
          (case EVP_EncryptFinal_ex m ctx of
             None \<Rightarrow> Some (-1, out, 0)
           | Some ctx \<Rightarrow>
               (case EVP_CTRL_GCM_GET_TAG ctx 16 of
                  None \<Rightarrow> Some (-1, out, 0)
                | Some tag \<Rightarrow> do {
                    out \<leftarrow> blit (length ct) tag out;
                    Some (0, out, of_nat (length ct) + 16)
                  }))
        })"

definition gcm_open_evp :: "mbedtls \<Rightarrow> evp_ctx option \<Rightarrow> bytes \<Rightarrow> bytes \<Rightarrow> bytes \<Rightarrow> bytes \<Rightarrow> bytes \<Rightarrow>
    (int \<times> bytes \<times> u32) option" where
  "gcm_open_evp m ctx0 key nonce aad ct out =
     (if length ct < 16 then Some (-1, out, 0)
      else case do {
        ctx \<leftarrow> ctx0;
        ctx \<leftarrow> EVP_DecryptInit_ex m ctx (Some AES_256_GCM) None None;
        ctx \<leftarrow> EVP_CTRL_GCM_SET_IVLEN ctx 12;
        ctx \<leftarrow> EVP_DecryptInit_ex m ctx None (Some key) (Some nonce);
        ctx \<leftarrow> (if aad \<noteq> [] then map_option fst (EVP_DecryptUpdate m ctx True aad) else Some ctx);
        EVP_DecryptUpdate m ctx False (take (length ct - 16) ct)
      } of
        None \<Rightarrow> Some (-1, out, 0)
      | Some (ctx, pt) \<Rightarrow> do {
          out \<leftarrow> blit 0 pt out;
          (case do {
             ctx \<leftarrow> EVP_CTRL_GCM_SET_TAG ctx 16 (drop (length ct - 16) ct);
             EVP_DecryptFinal_ex m ctx
           } of
             None \<Rightarrow> Some (-1, out, 0)
           | Some ctx \<Rightarrow> Some (0, out, of_nat (length pt)))
        })"

section \<open>What the EVP layer computes\<close>

text \<open>The cipher the layer implements, as one function in each direction. The tag is computed over the
  plaintext: the mode passed to mbedtls is the opposite of the direction.\<close>

definition evp_gcm_fails :: "mbedtls \<Rightarrow> bytes \<Rightarrow> bytes \<Rightarrow> bool" where
  "evp_gcm_fails m a p \<longleftrightarrow> mb_fails m Gcm_setkey \<or> mb_fails m Gcm_starts \<or> mb_fails m Gcm_finish \<or>
     (a \<noteq> [] \<and> (int_len a < 0 \<or> mb_fails m Gcm_update_ad)) \<or>
     (p \<noteq> [] \<and> (int_len p < 0 \<or> mb_fails m Gcm_update))"

definition evp_gcm_enc :: "mbedtls \<Rightarrow> gcm_enc" where
  "evp_gcm_enc m k n a p =
     (if evp_gcm_fails m a p then None
      else Some (mb_ctr m k (take 12 n) p, mb_tag m k (take 12 n) a p))"

definition evp_gcm_dec :: "mbedtls \<Rightarrow> gcm_dec" where
  "evp_gcm_dec m k n a c t =
     (if evp_gcm_fails m a c \<or> mb_tag m k (take 12 n) a (mb_ctr m k (take 12 n) c) \<noteq> t then None
      else Some (mb_ctr m k (take 12 n) c))"

lemma mbedtls_ctr [simp]:
  "mbedtls_spec m \<Longrightarrow> length (mb_ctr m k n p) = length p"
  "mbedtls_spec m \<Longrightarrow> mb_ctr m k n (mb_ctr m k n p) = p"
  unfolding mbedtls_spec_def by blast+

lemma mbedtls_tag [simp]: "mbedtls_spec m \<Longrightarrow> length (mb_tag m k n a c) = 16"
  unfolding mbedtls_spec_def by blast

lemma mbedtls_ctr_Nil [simp]: "mbedtls_spec m \<Longrightarrow> mb_ctr m k n [] = []"
  using mbedtls_ctr(1) [of m k n "[]"] by (simp del: mbedtls_ctr)

lemma int_len_Nil [simp]: "int_len [] = 0"
  by (simp add: int_len_def)

lemma fails_cong: "length p = length q \<Longrightarrow> evp_gcm_fails m a p = evp_gcm_fails m a q"
  by (cases p; cases q) (simp_all add: evp_gcm_fails_def int_len_def)

lemma evp_gcm_is_gcm_spec: "mbedtls_spec m \<Longrightarrow> gcm_spec (evp_gcm_enc m) (evp_gcm_dec m)"
  unfolding gcm_spec_def evp_gcm_enc_def evp_gcm_dec_def
  using fails_cong [of "mb_ctr m k n p" p m for k n p] by (auto split: if_splits)

lemmas evp_defs = EVP_CIPHER_CTX_new_def EVP_EncryptInit_ex_def EVP_DecryptInit_ex_def evp_init_def
  evp_gcm_init_def EVP_CTRL_GCM_SET_IVLEN_def EVP_EncryptUpdate_def EVP_DecryptUpdate_def
  evp_gcm_update_def EVP_EncryptFinal_ex_def EVP_DecryptFinal_ex_def EVP_CTRL_GCM_GET_TAG_def
  EVP_CTRL_GCM_SET_TAG_def gcm_finish_def

text \<open>The return code, and on success the output, of a call; on failure the output buffer is freed
  by the callers.\<close>

definition visible :: "(int \<times> bytes \<times> u32) option \<Rightarrow> (int \<times> bytes \<times> u32) option" where
  "visible r = map_option (\<lambda>(rc, out, len). if rc = 0 then (rc, out, len) else (rc, [], 0)) r"

lemma gcm_seal_evp_refines:
  assumes "mbedtls_spec m" "length out = length pt + 16"
  shows "visible (gcm_seal_evp m (Some EVP_CIPHER_CTX_new) key nonce aad pt out) =
    visible (gcm_seal (evp_gcm_enc m) key nonce aad pt out)"
  using assms
  by (cases "pt = []"; cases "aad = []")
     (auto simp: gcm_seal_evp_def gcm_seal_def evp_gcm_enc_def evp_gcm_fails_def evp_defs visible_def
        Let_def blit_fits split: option.splits if_splits)

lemma gcm_open_evp_refines:
  assumes "mbedtls_spec m" "length out = length ct"
  shows "visible (gcm_open_evp m (Some EVP_CIPHER_CTX_new) key nonce aad ct out) =
    visible (gcm_open (evp_gcm_dec m) key nonce aad ct out)"
  using assms
  by (cases "take (length ct - 16) ct = []"; cases "aad = []")
     (auto simp: gcm_open_evp_def gcm_open_def evp_gcm_dec_def evp_gcm_fails_def evp_defs visible_def
        Let_def blit_fits split: option.splits if_splits)

lemma visible_success: "visible r = Some (0, out, len) \<longleftrightarrow> r = Some (0, out, len)"
  by (auto simp: visible_def split: if_splits)

lemma visible_failure: "visible r = Some (-1, [], 0) \<Longrightarrow> \<exists>out len. r = Some (-1, out, len)"
  by (auto simp: visible_def split: if_splits)

text \<open>Concrete parameters for the witnesses: a stream that inverts every byte, and a tag that repeats
  the first byte authenticated.\<close>

definition toy_mbedtls :: mbedtls where
  "toy_mbedtls = \<lparr>mb_fails = \<lambda>c. False, mb_cfb = \<lambda>e k s p. (s, p),
     mb_ctr = \<lambda>k n p. map (\<lambda>x. 255 - x) p, mb_tag = \<lambda>k n a c. replicate 16 (case c of [] \<Rightarrow> 0 | x # _ \<Rightarrow> x),
     mb_hmac = \<lambda>t k d. k @ d, mb_pbkdf2 = \<lambda>t p s i n. replicate n 0\<rparr>"

lemma toy_mbedtls_simps: "mb_fails toy_mbedtls c = False" "mb_cfb toy_mbedtls e k s p = (s, p)"
  by (simp_all add: toy_mbedtls_def)

lemma toy_mbedtls_spec: "mbedtls_spec toy_mbedtls"
  unfolding mbedtls_spec_def by (simp add: toy_mbedtls_def comp_def)

section \<open>Properties of the EVP layer\<close>

text \<open>C31. What the AEAD stream seals through the port's EVP layer, it opens again: for every
  plaintext, if sealing succeeds then opening the result with the same key, nonce and additional data
  succeeds and gives the plaintext back. No call is undefined when the buffers have the sizes the
  stream code allocates.\<close>

theorem evp_seal_open:
  assumes "mbedtls_spec m" "length out = length pt + 16"
    and "gcm_seal_evp m (Some EVP_CIPHER_CTX_new) key nonce aad pt out = Some (0, ct, len)"
    and "length out2 = length ct"
  shows "gcm_open_evp m (Some EVP_CIPHER_CTX_new) key nonce aad ct out2 =
    Some (0, pt @ drop (length pt) out2, of_nat (length pt))"
proof -
  have "visible (gcm_seal (evp_gcm_enc m) key nonce aad pt out) = Some (0, ct, len)"
    using gcm_seal_evp_refines [OF assms(1,2)] visible_success assms(3) by metis
  then have seal: "gcm_seal (evp_gcm_enc m) key nonce aad pt out = Some (0, ct, len)"
    by (simp only: visible_success)
  then obtain c t where enc: "evp_gcm_enc m key nonce aad pt = Some (c, t)"
    by (auto simp: gcm_seal_def split: option.splits)
  note spec = evp_gcm_is_gcm_spec [OF assms(1)]
  note lens = gcm_spec_length [OF spec enc]
  have ct: "ct = c @ t" using gcm_seal_fits [OF spec enc assms(2)] seal by simp
  have dec: "evp_gcm_dec m key nonce aad c t = Some pt" using enc gcm_spec_dec [OF spec] by simp
  have "gcm_open (evp_gcm_dec m) key nonce aad ct out2 = Some (0, pt @ drop (length pt) out2, of_nat (length pt))"
    using gcm_open_eq [OF spec, of ct out2] assms(4) lens dec by (simp add: ct)
  then show ?thesis
    using gcm_open_evp_refines [OF assms(1,4)] visible_success by metis
qed

theorem evp_seal_open_witness:
  "gcm_open_evp toy_mbedtls (Some EVP_CIPHER_CTX_new) [] (replicate 12 0) [1]
     ([247, 248] @ replicate 16 8) (replicate 18 0) = Some (0, [8, 7] @ replicate 16 0, 2)"
proof -
  have s: "gcm_seal_evp toy_mbedtls (Some EVP_CIPHER_CTX_new) [] (replicate 12 0) [1] [8, 7] (replicate 18 0) =
      Some (0, [247, 248] @ replicate 16 8, 18)"
    by (simp add: gcm_seal_evp_def evp_defs toy_mbedtls_def int_len_def blit_def Let_def)
  show ?thesis
    using evp_seal_open [OF toy_mbedtls_spec _ s, of "replicate 18 0"] by simp
qed

text \<open>The EVP layer does not compute standard AES-GCM: \<open>evp_gcm_init\<close> starts mbedtls in
  decryption mode to encrypt and in encryption mode to decrypt, so the tag covers the plaintext. A
  ciphertext sealed by a standard implementation (the tag covers the ciphertext) is therefore refused,
  unless its tag happens to equal the tag of the plaintext.\<close>

theorem evp_refuses_standard_gcm:
  assumes "mbedtls_spec m" "\<And>c. \<not> mb_fails m c" "length nonce = 12"
    and "length aad < 2 ^ 31" "length pt < 2 ^ 31"
    and "mb_tag m key nonce aad pt \<noteq> mb_tag m key nonce aad (mb_ctr m key nonce pt)"
    and "length out = length pt + 16"
  shows "\<exists>out' len. gcm_open_evp m (Some EVP_CIPHER_CTX_new) key nonce aad
    (mb_ctr m key nonce pt @ mb_tag m key nonce aad (mb_ctr m key nonce pt)) out = Some (-1, out', len)"
proof -
  let ?c = "mb_ctr m key nonce pt"
  let ?ct = "?c @ mb_tag m key nonce aad ?c"
  have "evp_gcm_dec m key nonce aad ?c (mb_tag m key nonce aad ?c) = None"
    using assms(1,3,6) by (simp add: evp_gcm_dec_def)
  then have "gcm_open (evp_gcm_dec m) key nonce aad ?ct out = Some (-1, out, 0)"
    using assms(1) by (simp add: gcm_open_def)
  then have "visible (gcm_open_evp m (Some EVP_CIPHER_CTX_new) key nonce aad ?ct out) = Some (-1, [], 0)"
    using gcm_open_evp_refines [OF assms(1), of out ?ct] assms(1,7) by (simp add: visible_def)
  then show ?thesis by (rule visible_failure)
qed

theorem evp_refuses_standard_gcm_witness:
  "\<exists>out' len. gcm_open_evp toy_mbedtls (Some EVP_CIPHER_CTX_new) [] (replicate 12 0) [1]
     ([247, 248] @ replicate 16 247) (replicate 18 0) = Some (-1, out', len)"
  using evp_refuses_standard_gcm [OF toy_mbedtls_spec, of "replicate 12 0" "[1]" "[8, 7]" "[]" "replicate 18 0"]
  by (simp add: toy_mbedtls_def)

end
