(* ===== verification/Crypto_Stream.thy ===== *)
theory Crypto_Stream
  imports Evp_Compat
begin

text \<open>
  Encryption and compression of proxy data, \<open>crypto_stream.c\<close>: AES-128-CFB contexts for writing and
  reading on the EVP layer, and the Snappy wrappers. Snappy is vendored code and an argument here.
  The locale \<open>byte_channel\<close> is the contract of an encrypting stream and its decrypting peer; it is
  interpreted on the contexts of this file, and again on the main coder of the control channel.
\<close>

section \<open>A stream cipher and its peer\<close>

text \<open>
  \<open>send\<close> turns a plaintext into bytes, \<open>recv\<close> turns bytes into plaintext; \<open>plain r b\<close> is what the
  reader \<open>r\<close> makes of \<open>b\<close>. Receiving works on any non-empty piece; what it yields does not depend on
  how the bytes are cut.
\<close>

locale byte_channel =
  fixes send :: "'w \<Rightarrow> bytes \<Rightarrow> ('w \<times> bytes) option"
    and recv :: "'r \<Rightarrow> bytes \<Rightarrow> ('r \<times> bytes) option"
    and plain :: "'r \<Rightarrow> bytes \<Rightarrow> bytes"
    and ready :: "'r \<Rightarrow> bool"
    and sync :: "'w \<Rightarrow> 'r \<Rightarrow> bool"
  assumes recv_ready: "ready r \<Longrightarrow> c \<noteq> [] \<Longrightarrow> length c < 2 ^ 31 \<Longrightarrow> recv r c \<noteq> None"
    and recv_step: "ready r \<Longrightarrow> recv r c = Some (r', p) \<Longrightarrow> ready r' \<and> plain r (c @ d) = p @ plain r' d"
    and plain_Nil: "ready r \<Longrightarrow> plain r [] = []"
    and send_step: "sync w r \<Longrightarrow> send w p = Some (w', c) \<Longrightarrow>
       \<exists>r'. sync w' r' \<and> (\<forall>d. plain r (c @ d) = p @ plain r' d)"
    and sync_ready: "sync w r \<Longrightarrow> ready r"
begin

fun send_all :: "'w \<Rightarrow> bytes list \<Rightarrow> ('w \<times> bytes list) option" where
  "send_all w [] = Some (w, [])"
| "send_all w (p # ps) = do { (w, c) \<leftarrow> send w p; (w, cs) \<leftarrow> send_all w ps; Some (w, c # cs) }"

fun recv_all :: "'r \<Rightarrow> bytes list \<Rightarrow> ('r \<times> bytes list) option" where
  "recv_all r [] = Some (r, [])"
| "recv_all r (c # cs) = do { (r, p) \<leftarrow> recv r c; (r, ps) \<leftarrow> recv_all r cs; Some (r, p # ps) }"

lemma send_all_plain:
  "sync w r \<Longrightarrow> send_all w ps = Some (w', cs) \<Longrightarrow> plain r (concat cs) = concat ps"
proof (induction ps arbitrary: w r cs)
  case Nil
  then show ?case by (auto simp: plain_Nil sync_ready)
next
  case (Cons p ps)
  from Cons.prems obtain w1 c cs1 where s: "send w p = Some (w1, c)" "send_all w1 ps = Some (w', cs1)" "cs = c # cs1"
    by (auto simp: bind_eq_Some_conv)
  obtain r1 where "sync w1 r1" "\<forall>d. plain r (c @ d) = p @ plain r1 d"
    using send_step [OF Cons.prems(1) s(1)] by blast
  with Cons.IH s show ?case by simp
qed

lemma recv_all_plain:
  "ready r \<Longrightarrow> \<forall>c \<in> set cs. c \<noteq> [] \<and> length c < 2 ^ 31 \<Longrightarrow>
     \<exists>r' ps. recv_all r cs = Some (r', ps) \<and> concat ps = plain r (concat cs)"
proof (induction cs arbitrary: r)
  case Nil
  then show ?case by (simp add: plain_Nil)
next
  case (Cons c cs)
  then obtain r1 p where c: "recv r c = Some (r1, p)" using recv_ready [of r c] by auto
  with Cons.IH [of r1] recv_step [OF Cons.prems(1) c] Cons.prems obtain r' ps where
    "recv_all r1 cs = Some (r', ps)" "concat ps = plain r1 (concat cs)" by auto
  with c recv_step [OF Cons.prems(1) c] show ?case by simp
qed

theorem delivers:
  assumes "sync w r" "send_all w ps = Some (w', cs)" "concat ds = concat cs"
    and "\<forall>d \<in> set ds. d \<noteq> [] \<and> length d < 2 ^ 31"
  shows "\<exists>r' qs. recv_all r ds = Some (r', qs) \<and> concat qs = concat ps"
  using recv_all_plain [OF sync_ready [OF assms(1)] assms(4)] send_all_plain [OF assms(1,2)] assms(3)
  by simp

end

section \<open>Encryption contexts\<close>

record crypto_ctx =
  cc_cipher :: evp_ctx
  cc_key :: bytes
  cc_iv :: bytes
  cc_iv_sent :: bool
  cc_iv_received :: bool
  cc_is_writer :: bool

definition crypto_derive_key :: "mbedtls \<Rightarrow> bytes option \<Rightarrow> bytes option" where
  "crypto_derive_key m token =
     (case token of
        None \<Rightarrow> None
      | Some t \<Rightarrow> PKCS5_PBKDF2_HMAC m t (map of_char ''frp'') 64 MD_SHA1 16)"

text \<open>\<open>mem\<close>: \<open>calloc\<close> of the context succeeds; \<open>evp\<close>: what \<open>EVP_CIPHER_CTX_new\<close> returns; \<open>rand\<close>: what
  \<open>RAND_bytes\<close> delivers.\<close>

definition crypto_ctx_new_writer ::
  "mbedtls \<Rightarrow> bool \<Rightarrow> evp_ctx option \<Rightarrow> bytes option \<Rightarrow> bytes \<Rightarrow> crypto_ctx option" where
  "crypto_ctx_new_writer m mem evp rand key =
     (if \<not> mem then None
      else do {
        evp \<leftarrow> evp;
        iv \<leftarrow> rand;
        evp \<leftarrow> EVP_EncryptInit_ex m evp (Some AES_128_CFB) (Some key) (Some iv);
        Some \<lparr>cc_cipher = evp, cc_key = key, cc_iv = iv, cc_iv_sent = False,
           cc_iv_received = False, cc_is_writer = True\<rparr>
      })"

definition crypto_ctx_new_reader :: "bool \<Rightarrow> evp_ctx option \<Rightarrow> bytes \<Rightarrow> crypto_ctx option" where
  "crypto_ctx_new_reader mem evp key =
     (if \<not> mem then None
      else do {
        evp \<leftarrow> evp;
        Some \<lparr>cc_cipher = evp, cc_key = key, cc_iv = replicate 16 0, cc_iv_sent = False,
           cc_iv_received = False, cc_is_writer = False\<rparr>
      })"

definition crypto_get_iv :: "crypto_ctx \<Rightarrow> bytes option" where
  "crypto_get_iv ctx = (if \<not> cc_is_writer ctx then None else Some (cc_iv ctx))"

definition crypto_set_iv :: "mbedtls \<Rightarrow> crypto_ctx \<Rightarrow> bytes \<Rightarrow> int \<times> crypto_ctx" where
  "crypto_set_iv m ctx iv =
     (if cc_is_writer ctx then (-1, ctx)
      else case EVP_DecryptInit_ex m (cc_cipher ctx) (Some AES_128_CFB) (Some (cc_key ctx)) (Some iv) of
        None \<Rightarrow> (-1, ctx)
      | Some c \<Rightarrow> (0, ctx\<lparr>cc_cipher := c, cc_iv_received := True\<rparr>))"

definition crypto_writer_iv_sent :: "crypto_ctx \<Rightarrow> bool" where
  "crypto_writer_iv_sent ctx = cc_iv_sent ctx"

definition crypto_writer_set_iv_sent :: "crypto_ctx \<Rightarrow> crypto_ctx" where
  "crypto_writer_set_iv_sent ctx = ctx\<lparr>cc_iv_sent := True\<rparr>"

definition crypto_reader_iv_received :: "crypto_ctx \<Rightarrow> bool" where
  "crypto_reader_iv_received ctx = cc_iv_received ctx"

definition crypto_reader_set_iv_received :: "crypto_ctx \<Rightarrow> crypto_ctx" where
  "crypto_reader_set_iv_received ctx = ctx\<lparr>cc_iv_received := True\<rparr>"

text \<open>In place: the result has the return code, the context and the data buffer afterwards.\<close>

definition crypto_encrypt :: "mbedtls \<Rightarrow> crypto_ctx \<Rightarrow> bytes \<Rightarrow> int \<times> crypto_ctx \<times> bytes" where
  "crypto_encrypt m ctx data =
     (if \<not> cc_is_writer ctx \<or> data = [] then (-1, ctx, data)
      else case EVP_EncryptUpdate m (cc_cipher ctx) False data of
        None \<Rightarrow> (-1, ctx, data)
      | Some (c, out) \<Rightarrow> (0, ctx\<lparr>cc_cipher := c\<rparr>, out))"

definition crypto_decrypt :: "mbedtls \<Rightarrow> crypto_ctx \<Rightarrow> bytes \<Rightarrow> int \<times> crypto_ctx \<times> bytes" where
  "crypto_decrypt m ctx data =
     (if cc_is_writer ctx \<or> data = [] then (-1, ctx, data)
      else case EVP_DecryptUpdate m (cc_cipher ctx) False data of
        None \<Rightarrow> (-1, ctx, data)
      | Some (c, out) \<Rightarrow> (0, ctx\<lparr>cc_cipher := c\<rparr>, out))"

section \<open>Compression\<close>

text \<open>The Snappy entry points: bound on the compressed size, compression, the uncompressed size a
  block announces, decompression.\<close>

record snappy =
  sn_max :: "u32 \<Rightarrow> u32"
  sn_compress :: "bytes \<Rightarrow> bytes option"
  sn_length :: "bytes \<Rightarrow> u32 option"
  sn_uncompress :: "bytes \<Rightarrow> bytes option"

text \<open>\<open>None\<close> for the library: compression is not compiled in. \<open>env\<close>: \<open>snappy_init_env\<close> succeeds.\<close>

definition xfrpc_max_compressed_length :: "snappy option \<Rightarrow> u32 \<Rightarrow> u32" where
  "xfrpc_max_compressed_length sn n = (case sn of None \<Rightarrow> 0 | Some s \<Rightarrow> sn_max s n)"

definition xfrpc_compress :: "snappy option \<Rightarrow> bool \<Rightarrow> bytes \<Rightarrow> bytes \<Rightarrow> (int \<times> bytes \<times> u32) option" where
  "xfrpc_compress sn env inp out =
     (case sn of
        None \<Rightarrow> Some (-1, out, 0)
      | Some s \<Rightarrow>
          if inp = [] then Some (-1, out, 0)
          else if \<not> env then Some (-1, out, 0)
          else case sn_compress s inp of
            None \<Rightarrow> Some (-1, out, 0)
          | Some c \<Rightarrow> do { out \<leftarrow> blit 0 c out; Some (0, out, of_nat (length c)) })"

definition xfrpc_decompress :: "snappy option \<Rightarrow> bytes \<Rightarrow> bytes \<Rightarrow> (int \<times> bytes \<times> u32) option" where
  "xfrpc_decompress sn inp out =
     (case sn of
        None \<Rightarrow> Some (-1, out, 0)
      | Some s \<Rightarrow>
          if inp = [] then Some (-1, out, 0)
          else case sn_length s inp of
            None \<Rightarrow> Some (-1, out, 0)
          | Some n \<Rightarrow>
              if of_nat (length out) < n then Some (-1, out, 0)
              else case sn_uncompress s inp of
                None \<Rightarrow> Some (-1, out, 0)
              | Some p \<Rightarrow> do { out \<leftarrow> blit 0 p out; Some (0, out, n) })"

section \<open>The CFB stream\<close>

text \<open>The CFB position of an EVP context.\<close>

definition cfb_state :: "evp_ctx \<Rightarrow> bytes \<times> nat" where
  "cfb_state c = (cfb_iv c, cfb_iv_off c)"

lemma cfb_update_eq:
  assumes "cipher_id c = Some AES_128_CFB" "p \<noteq> []"
  shows "evp_cfb_update m e c False p =
    (if mb_fails m Aes_cfb then None
     else Some (c\<lparr>cfb_iv := fst (fst (mb_cfb m e (aes_key c) (cfb_state c) p)),
                  cfb_iv_off := snd (fst (mb_cfb m e (aes_key c) (cfb_state c) p))\<rparr>,
                snd (mb_cfb m e (aes_key c) (cfb_state c) p)))"
  using assms by (simp add: evp_cfb_update_def cfb_state_def split_beta)

lemma cfb_law_append:
  "mbedtls_spec m \<Longrightarrow> snd (mb_cfb m e k s (p @ q)) =
     snd (mb_cfb m e k s p) @ snd (mb_cfb m e k (fst (mb_cfb m e k s p)) q)"
  unfolding mbedtls_spec_def by (cases s) (simp add: split_beta)

lemma cfb_law_length: "mbedtls_spec m \<Longrightarrow> length (snd (mb_cfb m e k s p)) = length p"
  unfolding mbedtls_spec_def by blast

lemma cfb_law_inverse:
  "mbedtls_spec m \<Longrightarrow> mb_cfb m False k s (snd (mb_cfb m True k s p)) = (fst (mb_cfb m True k s p), p)"
  unfolding mbedtls_spec_def by blast

lemma cfb_law_Nil: "mbedtls_spec m \<Longrightarrow> snd (mb_cfb m e k s []) = []"
  using cfb_law_length [of m e k s "[]"] by simp

lemma int_len_small: "length b < 2 ^ 31 \<Longrightarrow> int_len b = int (length b)"
proof -
  assume l: "length b < 2 ^ 31"
  then have "unat (of_nat (length b) :: u32) = length b" by (intro unat_of_nat_u32) simp
  with l show ?thesis using sint_small [of "of_nat (length b)"] by (simp add: int_len_def)
qed

text \<open>The encrypting side: a writer on the EVP layer, with the library it runs on.\<close>

definition stream_send :: "mbedtls \<times> crypto_ctx \<Rightarrow> bytes \<Rightarrow> ((mbedtls \<times> crypto_ctx) \<times> bytes) option" where
  "stream_send w p =
     (case crypto_encrypt (fst w) (snd w) p of (rc, ctx, out) \<Rightarrow>
        if rc = 0 then Some ((fst w, ctx), out) else None)"

definition stream_recv :: "mbedtls \<times> crypto_ctx \<Rightarrow> bytes \<Rightarrow> ((mbedtls \<times> crypto_ctx) \<times> bytes) option" where
  "stream_recv r c =
     (case crypto_decrypt (fst r) (snd r) c of (rc, ctx, out) \<Rightarrow>
        if rc = 0 then Some ((fst r, ctx), out) else None)"

definition stream_plain :: "mbedtls \<times> crypto_ctx \<Rightarrow> bytes \<Rightarrow> bytes" where
  "stream_plain r c = snd (mb_cfb (fst r) False (aes_key (cc_cipher (snd r))) (cfb_state (cc_cipher (snd r))) c)"

definition stream_ready :: "mbedtls \<times> crypto_ctx \<Rightarrow> bool" where
  "stream_ready r \<longleftrightarrow> mbedtls_spec (fst r) \<and> \<not> mb_fails (fst r) Aes_cfb \<and> \<not> cc_is_writer (snd r) \<and>
     cipher_id (cc_cipher (snd r)) = Some AES_128_CFB"

definition stream_sync :: "mbedtls \<times> crypto_ctx \<Rightarrow> mbedtls \<times> crypto_ctx \<Rightarrow> bool" where
  "stream_sync w r \<longleftrightarrow> stream_ready r \<and> fst w = fst r \<and> cc_is_writer (snd w) \<and>
     cipher_id (cc_cipher (snd w)) = Some AES_128_CFB \<and>
     aes_key (cc_cipher (snd w)) = aes_key (cc_cipher (snd r)) \<and>
     cfb_state (cc_cipher (snd w)) = cfb_state (cc_cipher (snd r))"

interpretation cs: byte_channel stream_send stream_recv stream_plain stream_ready stream_sync
proof unfold_locales
  fix r and c :: bytes assume "stream_ready r" "c \<noteq> []" "length c < 2 ^ 31"
  then show "stream_recv r c \<noteq> None"
    by (simp add: stream_ready_def stream_recv_def crypto_decrypt_def EVP_DecryptUpdate_def int_len_small
        cfb_update_eq)
next
  fix r c r' p and d :: bytes assume r: "stream_ready r" "stream_recv r c = Some (r', p)"
  then show "stream_ready r' \<and> stream_plain r (c @ d) = p @ stream_plain r' d"
    by (auto simp: stream_ready_def stream_recv_def crypto_decrypt_def EVP_DecryptUpdate_def
        cfb_update_eq stream_plain_def cfb_law_append cfb_state_def split: if_splits)
next
  fix r assume "stream_ready r"
  then show "stream_plain r [] = []" by (simp add: stream_ready_def stream_plain_def cfb_law_Nil)
next
  fix w r p w' c assume sy: "stream_sync w r" and se: "stream_send w p = Some (w', c)"
  let ?wc = "cc_cipher (snd w)" and ?m = "fst w"
  let ?out = "mb_cfb ?m True (aes_key ?wc) (cfb_state ?wc) p"
  let ?r' = "(?m, (snd r)\<lparr>cc_cipher := (cc_cipher (snd r))\<lparr>cfb_iv := fst (fst ?out), cfb_iv_off := snd (fst ?out)\<rparr>\<rparr>)"
  have m: "mbedtls_spec ?m" using sy by (auto simp: stream_sync_def stream_ready_def)
  have c: "c = snd ?out" "p \<noteq> []" "w' = (?m, (snd w)\<lparr>cc_cipher := ?wc\<lparr>cfb_iv := fst (fst ?out), cfb_iv_off := snd (fst ?out)\<rparr>\<rparr>)"
    using sy se by (auto simp: stream_sync_def stream_ready_def stream_send_def crypto_encrypt_def
        EVP_EncryptUpdate_def cfb_update_eq split: if_splits)
  have "stream_sync w' ?r'" using sy c by (auto simp: stream_sync_def stream_ready_def cfb_state_def)
  moreover have "stream_plain r (c @ d) = p @ stream_plain ?r' d" for d
    using sy m cfb_law_inverse [OF m, of "aes_key ?wc" "cfb_state ?wc" p]
    by (simp add: c(1) stream_plain_def stream_sync_def cfb_law_append cfb_state_def)
  ultimately show "\<exists>r'. stream_sync w' r' \<and> (\<forall>d. stream_plain r (c @ d) = p @ stream_plain r' d)" by blast
next
  fix w r assume "stream_sync w r" then show "stream_ready r" by (simp add: stream_sync_def)
qed

text \<open>A new writer and a new reader that got the writer's IV are in step.\<close>

lemma fresh_contexts_sync:
  assumes "mbedtls_spec m" "\<not> mb_fails m Aes_cfb" "length iv = 16"
    and "crypto_ctx_new_writer m mem evp1 (Some iv) key = Some w" "evp1 = Some EVP_CIPHER_CTX_new"
    and "crypto_ctx_new_reader mem evp2 key = Some r0" "evp2 = Some EVP_CIPHER_CTX_new"
    and "crypto_get_iv w = Some v" "crypto_set_iv m r0 v = (0, r)"
  shows "stream_sync (m, w) (m, r)"
  using assms
  by (auto simp: stream_sync_def stream_ready_def cfb_state_def crypto_ctx_new_writer_def crypto_ctx_new_reader_def
      crypto_get_iv_def crypto_set_iv_def EVP_EncryptInit_ex_def EVP_DecryptInit_ex_def evp_init_def
      evp_cfb_init_def EVP_CIPHER_CTX_new_def bind_eq_Some_conv split: if_splits option.splits)

section \<open>Properties\<close>

text \<open>C15. Encrypted proxy data arrives: a writer context and a reader context that was given the
  writer's IV and the same key form a stream. Encrypting any sequence of chunks and decrypting the
  bytes, cut in any other way into non-empty pieces, succeeds and gives the data back in order.\<close>

theorem crypto_stream_delivers:
  assumes "mbedtls_spec m" "\<not> mb_fails m Aes_cfb" "length iv = 16"
    and "crypto_ctx_new_writer m mem evp1 (Some iv) key = Some w" "evp1 = Some EVP_CIPHER_CTX_new"
    and "crypto_ctx_new_reader mem evp2 key = Some r0" "evp2 = Some EVP_CIPHER_CTX_new"
    and "crypto_get_iv w = Some v" "crypto_set_iv m r0 v = (0, r)"
    and "cs.send_all (m, w) ps = Some (w', cs)" "concat ds = concat cs"
    and "\<forall>d \<in> set ds. d \<noteq> [] \<and> length d < 2 ^ 31"
  shows "\<exists>r' qs. cs.recv_all (m, r) ds = Some (r', qs) \<and> concat qs = concat ps"
  by (rule cs.delivers [OF fresh_contexts_sync [OF assms(1-9)] assms(10-12)])

theorem crypto_stream_delivers_witness:
  "\<exists>w r r' qs ws cs. crypto_ctx_new_writer toy_mbedtls True (Some EVP_CIPHER_CTX_new) (Some (replicate 16 3)) [7] = Some w \<and>
     crypto_set_iv toy_mbedtls r (replicate 16 3) = (0, r') \<and>
     cs.send_all (toy_mbedtls, w) [[1], [2, 3]] = Some (ws, cs) \<and>
     cs.recv_all (toy_mbedtls, r') [[1, 2], [3]] = Some qs \<and> concat (snd qs) = [1, 2, 3]"
proof -
  let ?new = "EVP_CIPHER_CTX_new"
  obtain w where w: "crypto_ctx_new_writer toy_mbedtls True (Some ?new) (Some (replicate 16 3)) [7] = Some w"
    by (auto simp: crypto_ctx_new_writer_def EVP_EncryptInit_ex_def evp_init_def evp_cfb_init_def
        EVP_CIPHER_CTX_new_def toy_mbedtls_def)
  then have iv: "crypto_get_iv w = Some (replicate 16 3)"
    by (auto simp: crypto_ctx_new_writer_def crypto_get_iv_def bind_eq_Some_conv)
  obtain r0 where r0: "crypto_ctx_new_reader True (Some ?new) [7] = Some r0"
    by (simp add: crypto_ctx_new_reader_def)
  then obtain r where r: "crypto_set_iv toy_mbedtls r0 (replicate 16 3) = (0, r)"
    by (auto simp: crypto_ctx_new_reader_def crypto_set_iv_def EVP_DecryptInit_ex_def evp_init_def evp_cfb_init_def
        EVP_CIPHER_CTX_new_def toy_mbedtls_def)
  obtain ws where s: "cs.send_all (toy_mbedtls, w) [[1], [2, 3]] = Some (ws, [[1], [2, 3]])"
    using w by (auto simp: crypto_ctx_new_writer_def EVP_EncryptInit_ex_def evp_init_def evp_cfb_init_def
        EVP_CIPHER_CTX_new_def toy_mbedtls_def stream_send_def crypto_encrypt_def EVP_EncryptUpdate_def
        evp_cfb_update_def int_len_def)
  have nf: "\<not> mb_fails toy_mbedtls Aes_cfb" by (simp add: toy_mbedtls_def)
  have "\<exists>r' qs. cs.recv_all (toy_mbedtls, r) [[1, 2], [3]] = Some (r', qs) \<and> concat qs = concat [[1], [2, 3]]"
    by (rule crypto_stream_delivers [OF toy_mbedtls_spec nf _ w refl r0 refl iv r s]) simp_all
  then obtain r' qs where "cs.recv_all (toy_mbedtls, r) [[1, 2], [3]] = Some (r', qs)" "concat qs = [1, 2, 3]" by auto
  with w r s show ?thesis by (metis snd_conv)
qed

end
