(* ===== verification/Main_Coder.thy ===== *)
theory Main_Coder
  imports Crypto_Stream
begin

text \<open>
  Encryption of the v1 control channel, \<open>crypto.c\<close>: the main encoder and decoder, their persistent EVP
  contexts, and \<open>encrypt_data\<close> and \<open>decrypt_data\<close>. The four static pointers of the file are the record
  \<open>coder_state\<close>. The lemmas show that encoder and decoder are a \<open>byte_channel\<close>.
\<close>

section \<open>State\<close>

record frp_coder =
  fc_key :: bytes
  fc_salt :: bytes
  fc_iv :: bytes
  fc_token :: bytes
  fc_iv_sent :: bool

record coder_state =
  main_encoder :: "frp_coder option"
  main_decoder :: "frp_coder option"
  enc_ctx :: "evp_ctx option"
  dec_ctx :: "evp_ctx option"

definition default_salt :: bytes where
  "default_salt = map of_char ''frp''"

section \<open>Operations\<close>

definition free_all_frp_coders :: "coder_state \<Rightarrow> coder_state" where
  "free_all_frp_coders st = st\<lparr>main_encoder := None, main_decoder := None\<rparr>"

definition free_crypto_resources :: "coder_state \<Rightarrow> coder_state" where
  "free_crypto_resources st = (free_all_frp_coders st)\<lparr>enc_ctx := None, dec_ctx := None\<rparr>"

text \<open>The result of the derivation is not checked: on failure the key array stays as it was.\<close>

definition encrypt_key :: "mbedtls \<Rightarrow> bytes \<Rightarrow> bytes \<Rightarrow> bytes \<Rightarrow> bytes" where
  "encrypt_key m token salt key =
     (case PKCS5_PBKDF2_HMAC m token salt 64 MD_SHA1 16 of None \<Rightarrow> key | Some k \<Rightarrow> k)"

text \<open>\<open>rand\<close> is what \<open>RAND_bytes\<close> delivers.\<close>

definition encrypt_iv :: "bytes option \<Rightarrow> bytes option" where
  "encrypt_iv rand = rand"

text \<open>\<open>mem\<close>: the allocations succeed.\<close>

definition new_coder :: "mbedtls \<Rightarrow> bool \<Rightarrow> bytes option \<Rightarrow> bytes option \<Rightarrow> bytes option \<Rightarrow> frp_coder option" where
  "new_coder m mem rand token salt =
     (if \<not> mem then None
      else do {
        salt \<leftarrow> salt;
        (let token = (case token of None \<Rightarrow> [] | Some t \<Rightarrow> t) in do {
          iv \<leftarrow> encrypt_iv rand;
          Some \<lparr>fc_key = encrypt_key m token salt (replicate 16 0), fc_salt = salt, fc_iv = iv,
             fc_token = token, fc_iv_sent = False\<rparr>
        })
      })"

definition clone_coder :: "bool \<Rightarrow> frp_coder \<Rightarrow> frp_coder option" where
  "clone_coder mem c = (if \<not> mem then None else Some (c\<lparr>fc_iv_sent := False\<rparr>))"

definition init_main_encoder :: "mbedtls \<Rightarrow> bool \<Rightarrow> bytes option \<Rightarrow> bytes option \<Rightarrow> coder_state \<Rightarrow> coder_state" where
  "init_main_encoder m mem rand auth_token st =
     (let enc = (case main_decoder st of
          Some d \<Rightarrow>
            (case clone_coder mem d of
               None \<Rightarrow> None
             | Some e \<Rightarrow>
                 (case encrypt_iv rand of None \<Rightarrow> None | Some iv \<Rightarrow> Some (e\<lparr>fc_iv := iv\<rparr>)))
        | None \<Rightarrow> new_coder m mem rand auth_token (Some default_salt)) in
      st\<lparr>main_encoder := enc, enc_ctx := None\<rparr>)"

text \<open>\<open>conf\<close>: the auth token of the common configuration, if there is one; \<open>None\<close> outside: no
  configuration.\<close>

definition init_main_decoder ::
  "mbedtls \<Rightarrow> bool \<Rightarrow> bytes option \<Rightarrow> bytes option option \<Rightarrow> bytes option \<Rightarrow> coder_state \<Rightarrow> coder_state" where
  "init_main_decoder m mem rand conf iv st =
     (case (conf, iv) of
        (Some auth_token, Some iv) \<Rightarrow>
          (case new_coder m mem rand auth_token (Some default_salt) of
             None \<Rightarrow> st\<lparr>main_decoder := None\<rparr>
           | Some d \<Rightarrow> st\<lparr>main_decoder := Some (d\<lparr>fc_iv := take 16 iv\<rparr>), dec_ctx := None\<rparr>)
      | _ \<Rightarrow> st)"

definition is_encoder_inited :: "coder_state \<Rightarrow> bool" where
  "is_encoder_inited st \<longleftrightarrow> main_encoder st \<noteq> None"

definition is_decoder_inited :: "coder_state \<Rightarrow> bool" where
  "is_decoder_inited st \<longleftrightarrow> main_decoder st \<noteq> None"

text \<open>A context whose initialisation failed: the cipher is selected, the key is not set.\<close>

definition init_or_keyless :: "evp_ctx \<Rightarrow> evp_ctx option \<Rightarrow> evp_ctx" where
  "init_or_keyless evp r = (case r of Some c \<Rightarrow> c | None \<Rightarrow> evp\<lparr>cipher_id := Some AES_128_CFB\<rparr>)"

text \<open>Result: the length, the output buffer (\<open>None\<close>: NULL), the state. \<open>evp\<close> is what
  \<open>EVP_CIPHER_CTX_new\<close> returns if it is called.\<close>

definition encrypt_data ::
  "mbedtls \<Rightarrow> bool \<Rightarrow> evp_ctx option \<Rightarrow> bytes \<Rightarrow> frp_coder option \<Rightarrow> coder_state \<Rightarrow> nat \<times> bytes option \<times> coder_state" where
  "encrypt_data m mem evp src encoder st =
     (case encoder of
        None \<Rightarrow> (0, None, st)
      | Some e \<Rightarrow>
          if \<not> mem then (0, None, st)
          else case (case enc_ctx st of
              Some c \<Rightarrow> Some c
            | None \<Rightarrow> map_option (\<lambda>v. init_or_keyless v
                (EVP_EncryptInit_ex m v (Some AES_128_CFB) (Some (fc_key e)) (Some (fc_iv e)))) evp) of
            None \<Rightarrow> (0, Some (replicate (length src + 1) 0), st)
          | Some c \<Rightarrow>
              (case EVP_EncryptUpdate m c False src of
                 None \<Rightarrow> (0, None, st\<lparr>enc_ctx := Some c\<rparr>)
               | Some (c, out) \<Rightarrow>
                   (case EVP_EncryptFinal_ex m c of
                      None \<Rightarrow> (0, None, st\<lparr>enc_ctx := Some c\<rparr>)
                    | Some c \<Rightarrow> (length out, Some (out @ [0]), st\<lparr>enc_ctx := Some c\<rparr>))))"

definition decrypt_data ::
  "mbedtls \<Rightarrow> bool \<Rightarrow> evp_ctx option \<Rightarrow> bytes \<Rightarrow> frp_coder option \<Rightarrow> coder_state \<Rightarrow> nat \<times> bytes option \<times> coder_state" where
  "decrypt_data m mem evp src decoder st =
     (case decoder of
        None \<Rightarrow> (0, None, st)
      | Some d \<Rightarrow>
          if \<not> mem then (0, None, st)
          else case (case dec_ctx st of
              Some c \<Rightarrow> Some c
            | None \<Rightarrow> map_option (\<lambda>v. init_or_keyless v
                (EVP_DecryptInit_ex m v (Some AES_128_CFB) (Some (fc_key d)) (Some (fc_iv d)))) evp) of
            None \<Rightarrow> (0, Some (replicate (length src + 1) 0), st)
          | Some c \<Rightarrow>
              (case EVP_DecryptUpdate m c False src of
                 None \<Rightarrow> (0, None, st\<lparr>dec_ctx := Some c\<rparr>)
               | Some (c, out) \<Rightarrow>
                   (case EVP_DecryptFinal_ex m c of
                      None \<Rightarrow> (0, None, st\<lparr>dec_ctx := Some c\<rparr>)
                    | Some c \<Rightarrow> (length out, Some (out @ [0]), st\<lparr>dec_ctx := Some c\<rparr>))))"

section \<open>Encoder and decoder as a channel\<close>

text \<open>The state with the library it runs on; a return value of 0 is a failure.\<close>

definition main_send :: "mbedtls \<times> coder_state \<Rightarrow> bytes \<Rightarrow> ((mbedtls \<times> coder_state) \<times> bytes) option" where
  "main_send w p =
     (case encrypt_data (fst w) True (Some EVP_CIPHER_CTX_new) p (main_encoder (snd w)) (snd w) of
        (n, Some out, st) \<Rightarrow> if n = 0 then None else Some ((fst w, st), take n out)
      | _ \<Rightarrow> None)"

definition main_recv :: "mbedtls \<times> coder_state \<Rightarrow> bytes \<Rightarrow> ((mbedtls \<times> coder_state) \<times> bytes) option" where
  "main_recv r c =
     (case decrypt_data (fst r) True (Some EVP_CIPHER_CTX_new) c (main_decoder (snd r)) (snd r) of
        (n, Some out, st) \<Rightarrow> if n = 0 then None else Some ((fst r, st), take n out)
      | _ \<Rightarrow> None)"

text \<open>Key and CFB position of a side: those of its context, or those its coder will start with.\<close>

definition side_pos :: "evp_ctx option \<Rightarrow> frp_coder option \<Rightarrow> bytes \<times> bytes \<times> nat" where
  "side_pos ctx coder =
     (case ctx of
        Some c \<Rightarrow> (aes_key c, cfb_state c)
      | None \<Rightarrow> (case coder of Some e \<Rightarrow> (fc_key e, take 16 (fc_iv e), 0) | None \<Rightarrow> ([], [], 0)))"

definition main_plain :: "mbedtls \<times> coder_state \<Rightarrow> bytes \<Rightarrow> bytes" where
  "main_plain r c = (let (k, s) = side_pos (dec_ctx (snd r)) (main_decoder (snd r)) in snd (mb_cfb (fst r) False k s c))"

definition mb_usable :: "mbedtls \<Rightarrow> bool" where
  "mb_usable m \<longleftrightarrow> mbedtls_spec m \<and> \<not> mb_fails m Aes_cfb \<and> \<not> mb_fails m Aes_setkey"

definition ctx_cfb :: "evp_ctx option \<Rightarrow> bool" where
  "ctx_cfb ctx \<longleftrightarrow> (\<forall>c. ctx = Some c \<longrightarrow> cipher_id c = Some AES_128_CFB)"

definition main_ready :: "mbedtls \<times> coder_state \<Rightarrow> bool" where
  "main_ready r \<longleftrightarrow> mb_usable (fst r) \<and> is_decoder_inited (snd r) \<and> ctx_cfb (dec_ctx (snd r))"

definition main_sync :: "mbedtls \<times> coder_state \<Rightarrow> mbedtls \<times> coder_state \<Rightarrow> bool" where
  "main_sync w r \<longleftrightarrow> main_ready r \<and> fst w = fst r \<and> is_encoder_inited (snd w) \<and> ctx_cfb (enc_ctx (snd w)) \<and>
     side_pos (enc_ctx (snd w)) (main_encoder (snd w)) = side_pos (dec_ctx (snd r)) (main_decoder (snd r))"

text \<open>The context of a side moved on by processing \<open>p\<close>.\<close>

definition moved :: "mbedtls \<Rightarrow> bool \<Rightarrow> evp_ctx \<Rightarrow> bytes \<Rightarrow> evp_ctx" where
  "moved m e c p = c\<lparr>cfb_iv := fst (fst (mb_cfb m e (aes_key c) (cfb_state c) p)),
     cfb_iv_off := snd (fst (mb_cfb m e (aes_key c) (cfb_state c) p))\<rparr>"

lemma moved_simps [simp]:
  "aes_key (moved m e c p) = aes_key c" "cipher_id (moved m e c p) = cipher_id c"
  "cfb_state (moved m e c p) = fst (mb_cfb m e (aes_key c) (cfb_state c) p)"
  by (simp_all add: moved_def cfb_state_def)

text \<open>The context a side works with: the stored one or a fresh one.\<close>

lemma side_ctx:
  assumes "mb_usable m" "coder = Some e" "ctx_cfb ctx"
  obtains c where "(case ctx of Some c \<Rightarrow> Some c
      | None \<Rightarrow> map_option (\<lambda>v. init_or_keyless v (evp_init m v dir (Some AES_128_CFB) (Some (fc_key e)) (Some (fc_iv e))))
          (Some EVP_CIPHER_CTX_new)) = Some c"
    "cipher_id c = Some AES_128_CFB" "(aes_key c, cfb_state c) = side_pos ctx coder"
proof (cases ctx)
  case None
  let ?c = "EVP_CIPHER_CTX_new\<lparr>cipher_id := Some AES_128_CFB, finished := False, gcm_tag_set := False,
      gcm_started := False, aes_key := fc_key e, cfb_iv := take 16 (fc_iv e), cfb_iv_off := 0, direction := dir\<rparr>"
  show thesis
    by (rule that [of ?c])
       (use assms None in \<open>simp_all add: mb_usable_def evp_init_def evp_cfb_init_def init_or_keyless_def
          EVP_CIPHER_CTX_new_def side_pos_def cfb_state_def\<close>)
next
  case (Some c)
  with assms show thesis by (intro that [of c]) (simp_all add: ctx_cfb_def side_pos_def)
qed

lemma recv_eq:
  assumes "main_ready r" "c \<noteq> []" "0 \<le> int_len c"
  obtains x where "main_recv r c = Some ((fst r, (snd r)\<lparr>dec_ctx := Some (moved (fst r) False x c)\<rparr>),
      snd (mb_cfb (fst r) False (aes_key x) (cfb_state x) c))"
    "cipher_id x = Some AES_128_CFB"
    "(aes_key x, cfb_state x) = side_pos (dec_ctx (snd r)) (main_decoder (snd r))"
proof -
  obtain d where d: "main_decoder (snd r) = Some d" and u: "mb_usable (fst r)" and cf: "ctx_cfb (dec_ctx (snd r))"
    using assms(1) by (auto simp: main_ready_def is_decoder_inited_def)
  obtain x where x:
    "(case dec_ctx (snd r) of Some c \<Rightarrow> Some c
      | None \<Rightarrow> map_option (\<lambda>v. init_or_keyless v (evp_init (fst r) v False (Some AES_128_CFB) (Some (fc_key d)) (Some (fc_iv d))))
          (Some EVP_CIPHER_CTX_new)) = Some x"
    "cipher_id x = Some AES_128_CFB" "(aes_key x, cfb_state x) = side_pos (dec_ctx (snd r)) (main_decoder (snd r))"
    by (rule side_ctx [OF u d cf, of False])
  have len: "length (snd (mb_cfb (fst r) False (aes_key x) (cfb_state x) c)) = length c"
    using u by (simp add: mb_usable_def cfb_law_length)
  have "main_recv r c = Some ((fst r, (snd r)\<lparr>dec_ctx := Some (moved (fst r) False x c)\<rparr>),
      snd (mb_cfb (fst r) False (aes_key x) (cfb_state x) c))"
    using assms(2,3) x(2) d u len unfolding main_recv_def decrypt_data_def EVP_DecryptInit_ex_def d option.case(2) x(1)
    by (simp add: EVP_DecryptUpdate_def cfb_update_eq EVP_DecryptFinal_ex_def mb_usable_def moved_def)
  with x show thesis by (intro that)
qed

lemma send_eq:
  assumes "mb_usable (fst w)" "is_encoder_inited (snd w)" "ctx_cfb (enc_ctx (snd w))"
    and "main_send w p = Some (w', c)"
  obtains x where "w' = (fst w, (snd w)\<lparr>enc_ctx := Some (moved (fst w) True x p)\<rparr>)"
    "c = snd (mb_cfb (fst w) True (aes_key x) (cfb_state x) p)" "cipher_id x = Some AES_128_CFB"
    "(aes_key x, cfb_state x) = side_pos (enc_ctx (snd w)) (main_encoder (snd w))"
proof -
  obtain e where e: "main_encoder (snd w) = Some e" using assms(2) by (auto simp: is_encoder_inited_def)
  obtain x where x:
    "(case enc_ctx (snd w) of Some c \<Rightarrow> Some c
      | None \<Rightarrow> map_option (\<lambda>v. init_or_keyless v (evp_init (fst w) v True (Some AES_128_CFB) (Some (fc_key e)) (Some (fc_iv e))))
          (Some EVP_CIPHER_CTX_new)) = Some x"
    "cipher_id x = Some AES_128_CFB" "(aes_key x, cfb_state x) = side_pos (enc_ctx (snd w)) (main_encoder (snd w))"
    by (rule side_ctx [OF assms(1) e assms(3), of True])
  have len: "length (snd (mb_cfb (fst w) True (aes_key x) (cfb_state x) p)) = length p"
    using assms(1) by (simp add: mb_usable_def cfb_law_length)
  show thesis
  proof (cases "p = []")
    case True
    with assms(4) x(2) show thesis
      unfolding main_send_def encrypt_data_def EVP_EncryptInit_ex_def e option.case(2) x(1)
      by (simp add: EVP_EncryptUpdate_def evp_cfb_update_def EVP_EncryptFinal_ex_def)
  next
    case False
    with assms(4) x(2) len have "w' = (fst w, (snd w)\<lparr>enc_ctx := Some (moved (fst w) True x p)\<rparr>)"
      "c = snd (mb_cfb (fst w) True (aes_key x) (cfb_state x) p)"
      unfolding main_send_def encrypt_data_def EVP_EncryptInit_ex_def e option.case(2) x(1)
      by (auto simp: EVP_EncryptUpdate_def cfb_update_eq EVP_EncryptFinal_ex_def moved_def split: if_splits)
    with x(2,3) show thesis by (intro that)
  qed
qed

lemma main_recv_small:
  assumes "main_ready r" "main_recv r c = Some (r', p)"
  shows "c \<noteq> [] \<and> 0 \<le> int_len c"
proof -
  obtain d where d: "main_decoder (snd r) = Some d" and u: "mb_usable (fst r)" and cf: "ctx_cfb (dec_ctx (snd r))"
    using assms(1) by (auto simp: main_ready_def is_decoder_inited_def)
  obtain x where x:
    "(case dec_ctx (snd r) of Some c \<Rightarrow> Some c
      | None \<Rightarrow> map_option (\<lambda>v. init_or_keyless v (evp_init (fst r) v False (Some AES_128_CFB) (Some (fc_key d)) (Some (fc_iv d))))
          (Some EVP_CIPHER_CTX_new)) = Some x"
    "cipher_id x = Some AES_128_CFB"
    by (rule side_ctx [OF u d cf, of False])
  show ?thesis
    using assms(2) x(2) unfolding main_recv_def decrypt_data_def EVP_DecryptInit_ex_def d option.case(2) x(1)
    by (cases "c = []") (auto simp: EVP_DecryptUpdate_def evp_cfb_update_def EVP_DecryptFinal_ex_def split: if_splits)
qed

interpretation mc: byte_channel main_send main_recv main_plain main_ready main_sync
proof unfold_locales
  fix r and c :: bytes assume a: "main_ready r" "c \<noteq> []" "length c < 2 ^ 31"
  then have "0 \<le> int_len c" by (simp add: int_len_small)
  then show "main_recv r c \<noteq> None" using recv_eq [OF a(1,2)] by (metis option.distinct(1))
next
  fix r c r' p and d :: bytes assume r: "main_ready r" "main_recv r c = Some (r', p)"
  note c = main_recv_small [OF r]
  have m: "mbedtls_spec (fst r)" using r(1) by (simp add: main_ready_def mb_usable_def)
  obtain x where x: "main_recv r c = Some ((fst r, (snd r)\<lparr>dec_ctx := Some (moved (fst r) False x c)\<rparr>),
      snd (mb_cfb (fst r) False (aes_key x) (cfb_state x) c))"
    "cipher_id x = Some AES_128_CFB"
    "(aes_key x, cfb_state x) = side_pos (dec_ctx (snd r)) (main_decoder (snd r))"
    using recv_eq [OF r(1) conjunct1 [OF c] conjunct2 [OF c]] by blast
  from x(3) have "main_plain r (c @ d) = snd (mb_cfb (fst r) False (aes_key x) (cfb_state x) (c @ d))"
    by (simp add: main_plain_def flip: x(3))
  with x(1,2) r(2) m show "main_ready r' \<and> main_plain r (c @ d) = p @ main_plain r' d"
    using r(1) by (auto simp: main_ready_def is_decoder_inited_def ctx_cfb_def main_plain_def side_pos_def
        cfb_law_append)
next
  fix r assume "main_ready r"
  then show "main_plain r [] = []" by (simp add: main_ready_def mb_usable_def main_plain_def cfb_law_Nil split_beta)
next
  fix w r p w' c assume sy: "main_sync w r" and se: "main_send w p = Some (w', c)"
  have u: "mb_usable (fst w)" "is_encoder_inited (snd w)" "ctx_cfb (enc_ctx (snd w))" "mbedtls_spec (fst w)"
    using sy by (auto simp: main_sync_def main_ready_def mb_usable_def)
  obtain x where x: "w' = (fst w, (snd w)\<lparr>enc_ctx := Some (moved (fst w) True x p)\<rparr>)"
    "c = snd (mb_cfb (fst w) True (aes_key x) (cfb_state x) p)" "cipher_id x = Some AES_128_CFB"
    "(aes_key x, cfb_state x) = side_pos (enc_ctx (snd w)) (main_encoder (snd w))"
    by (rule send_eq [OF u(1-3) se])
  let ?r' = "(fst r, (snd r)\<lparr>dec_ctx := Some (moved (fst w) True x p)\<rparr>)"
  have pos: "side_pos (dec_ctx (snd r)) (main_decoder (snd r)) = (aes_key x, cfb_state x)" and m: "fst r = fst w"
    using sy x(4) by (simp_all add: main_sync_def)
  have "main_sync w' ?r'"
    using sy x(1,3) by (auto simp: main_sync_def main_ready_def is_encoder_inited_def is_decoder_inited_def
        ctx_cfb_def side_pos_def)
  moreover have "main_plain r (c @ d) = p @ main_plain ?r' d" for d
    using cfb_law_inverse [OF u(4), of "aes_key x" "cfb_state x" p]
    by (simp add: main_plain_def pos m x(2) cfb_law_append [OF u(4)]) (simp add: side_pos_def)
  ultimately show "\<exists>r'. main_sync w' r' \<and> (\<forall>d. main_plain r (c @ d) = p @ main_plain r' d)" by blast
next
  fix w r assume "main_sync w r" then show "main_ready r" by (simp add: main_sync_def)
qed

section \<open>Properties\<close>

text \<open>C14. The v1 control channel works in both roles of the code: after the client has set up its
  decoder (from the server's IV) and then its encoder (with the fresh IV \<open>iv\<close>), everything it encrypts
  with \<open>encrypt_data\<close> is decrypted, in order and however the bytes are cut, by a peer that has the
  same token and initialised its decoder with \<open>iv\<close>.\<close>

theorem control_coder_delivers:
  assumes "mb_usable m" "length iv = 16" "rand1 \<noteq> None" "rand2 \<noteq> None"
    and "st1 = init_main_decoder m True rand1 (Some token) (Some srv_iv) st0"
    and "st2 = init_main_encoder m True (Some iv) token st1"
    and "peer = init_main_decoder m True rand2 (Some token) (Some iv) peer0"
    and "mc.send_all (m, st2) ps = Some (w', cs)" "concat ds = concat cs"
    and "\<forall>d \<in> set ds. d \<noteq> [] \<and> length d < 2 ^ 31"
  shows "\<exists>r' qs. mc.recv_all (m, peer) ds = Some (r', qs) \<and> concat qs = concat ps"
proof (rule mc.delivers [OF _ assms(8-10)])
  show "main_sync (m, st2) (m, peer)"
    using assms(1-4) unfolding assms(5-7)
    by (auto simp: main_sync_def main_ready_def is_encoder_inited_def is_decoder_inited_def ctx_cfb_def
        init_main_decoder_def init_main_encoder_def new_coder_def clone_coder_def encrypt_iv_def Let_def side_pos_def)
qed

definition no_coders :: coder_state where
  "no_coders = \<lparr>main_encoder = None, main_decoder = None, enc_ctx = None, dec_ctx = None\<rparr>"

theorem control_coder_delivers_witness:
  "\<exists>w cs r qs. mc.send_all (toy_mbedtls, init_main_encoder toy_mbedtls True (Some (replicate 16 5)) None
        (init_main_decoder toy_mbedtls True (Some (replicate 16 1)) (Some None) (Some (replicate 16 9)) no_coders))
        [[1], [2, 3]] = Some (w, cs) \<and>
     mc.recv_all (toy_mbedtls, init_main_decoder toy_mbedtls True (Some (replicate 16 1)) (Some None)
        (Some (replicate 16 5)) no_coders) [[1, 2], [3]] = Some (r, qs) \<and> concat qs = [1, 2, 3]"
proof -
  let ?st1 = "init_main_decoder toy_mbedtls True (Some (replicate 16 1)) (Some None) (Some (replicate 16 9)) no_coders"
  let ?st2 = "init_main_encoder toy_mbedtls True (Some (replicate 16 5)) None ?st1"
  let ?peer = "init_main_decoder toy_mbedtls True (Some (replicate 16 1)) (Some None) (Some (replicate 16 5)) no_coders"
  have u: "mb_usable toy_mbedtls" using toy_mbedtls_spec by (simp add: mb_usable_def toy_mbedtls_def)
  have enc: "main_encoder ?st2 = Some \<lparr>fc_key = replicate 16 0, fc_salt = default_salt,
      fc_iv = replicate 16 5, fc_token = [], fc_iv_sent = False\<rparr>" "enc_ctx ?st2 = None"
    by (simp_all add: init_main_encoder_def init_main_decoder_def new_coder_def clone_coder_def encrypt_iv_def
        encrypt_key_def PKCS5_PBKDF2_HMAC_def toy_mbedtls_def int_len_def default_salt_def no_coders_def)
  obtain w where s: "mc.send_all (toy_mbedtls, ?st2) [[1], [2, 3]] = Some (w, [[1], [2, 3]])"
    by (auto simp: main_send_def encrypt_data_def enc EVP_EncryptInit_ex_def evp_init_def evp_cfb_init_def
        EVP_CIPHER_CTX_new_def toy_mbedtls_simps EVP_EncryptUpdate_def evp_cfb_update_def int_len_def
        init_or_keyless_def EVP_EncryptFinal_ex_def)
  have "\<exists>r' qs. mc.recv_all (toy_mbedtls, ?peer) [[1, 2], [3]] = Some (r', qs) \<and> concat qs = concat [[1], [2, 3]]"
    by (rule control_coder_delivers [OF u _ _ _ refl refl refl s]) simp_all
  with s show ?thesis by auto
qed

text \<open>The encoder never starts on a used IV: whenever \<open>init_main_encoder\<close> leaves an encoder, its IV
  is the one just drawn from the random generator (not the decoder's, which came from the server), it
  is marked as not yet sent, the persistent context that could carry an old position is gone, and the
  key is the decoder's when there is a decoder.\<close>

theorem encoder_iv_fresh:
  assumes "main_encoder (init_main_encoder m mem rand token st) = Some e"
  shows "rand = Some (fc_iv e) \<and> \<not> fc_iv_sent e \<and> enc_ctx (init_main_encoder m mem rand token st) = None \<and>
    (\<forall>d. main_decoder st = Some d \<longrightarrow> fc_key e = fc_key d \<and> fc_token e = fc_token d)"
  using assms
  by (auto simp: init_main_encoder_def new_coder_def clone_coder_def encrypt_iv_def Let_def bind_eq_Some_conv
      split: option.splits if_splits)

theorem encoder_iv_fresh_witness:
  "\<exists>e. main_encoder (init_main_encoder toy_mbedtls True (Some (replicate 16 5)) None no_coders) = Some e \<and>
     fc_iv e = replicate 16 5"
proof -
  obtain e where e: "main_encoder (init_main_encoder toy_mbedtls True (Some (replicate 16 5)) None no_coders) = Some e"
    by (simp add: init_main_encoder_def new_coder_def encrypt_iv_def no_coders_def)
  from encoder_iv_fresh [OF e] e show ?thesis by auto
qed

end
