(* ===== verification/Mux_State.thy ===== *)
theory Mux_State
  imports Byte_Order Main_Coder
begin

text \<open>
  The objects the multiplexer works on: frame headers, streams, proxy clients and the tables that
  hold them (\<open>tcpmux.h\<close>, \<open>client.h\<close>, the static variables of \<open>tcpmux.c\<close> and \<open>client.c\<close>).

  A proxy client lives at an address of the heap \<open>heap\<close>, a finite map from addresses to objects; a
  freed address is absent, and an access there is undefined (\<open>None\<close>). The stream of a client is
  embedded in it, so a pointer to a stream is a location \<open>loc\<close>: the stream of the control connection,
  the stream inside a client, or the static \<open>abandon_stream\<close>. The hash table of streams refuses a
  second entry for an identifier and is a map; the one of clients does not, and is an association list
  with the entry found first in front.

  Byte buffers of connections are byte strings here, which the theory \<open>Evbuffer\<close> justifies; an
  operation that has to allocate asks the oracle \<open>oom\<close> at the clock \<open>tick\<close> whether it fails. With
  multiplexing on, the \<open>ctl_bev\<close> of every client is the connection of the main control, \<open>connect_bev\<close>.
\<close>

section \<open>Headers\<close>

abbreviation (input) TMUX_DATA :: u8 where "TMUX_DATA \<equiv> 0"
abbreviation (input) WINDOW_UPDATE :: u8 where "WINDOW_UPDATE \<equiv> 1"
abbreviation (input) PING :: u8 where "PING \<equiv> 2"
abbreviation (input) GO_AWAY :: u8 where "GO_AWAY \<equiv> 3"

abbreviation (input) SYN :: u16 where "SYN \<equiv> 1"
abbreviation (input) ACK :: u16 where "ACK \<equiv> 2"
abbreviation (input) FIN :: u16 where "FIN \<equiv> 4"
abbreviation (input) RST :: u16 where "RST \<equiv> 8"

definition MAX_STREAM_WINDOW_SIZE :: u32 where "MAX_STREAM_WINDOW_SIZE = 8 * 1024 * 1024"
definition MAX_YAMUX_WINDOW_SIZE :: u32 where "MAX_YAMUX_WINDOW_SIZE = 6 * 1024 * 1024"
definition DEFAULT_MAX_FRAME_SIZE :: u32 where "DEFAULT_MAX_FRAME_SIZE = 256 * 1024"

text \<open>The packed header; the fields hold what is in memory, that is, network byte order.\<close>

record tcp_mux_header =
  h_version :: u8
  h_type :: u8
  h_flags :: u16
  h_stream_id :: u32
  h_length :: u32

definition header_bytes :: "tcp_mux_header \<Rightarrow> bytes" where
  "header_bytes h = [h_version h, h_type h] @ le16 (h_flags h) @ le32 (h_stream_id h) @ le32 (h_length h)"

text \<open>Twelve bytes of memory read as a header.\<close>

definition header_of :: "bytes \<Rightarrow> tcp_mux_header" where
  "header_of b = \<lparr>h_version = b ! 0, h_type = b ! 1, h_flags = rd16 (b ! 3) (b ! 2),
     h_stream_id = rd32 (b ! 7) (b ! 6) (b ! 5) (b ! 4),
     h_length = rd32 (b ! 11) (b ! 10) (b ! 9) (b ! 8)\<rparr>"

section \<open>Streams and clients\<close>

datatype tcp_mux_state = TMUX_INIT | TMUX_SYN_SEND | TMUX_SYN_RECEIVED | TMUX_ESTABLISHED
  | TMUX_LOCAL_CLOSE | TMUX_REMOTE_CLOSE | TMUX_CLOSED | TMUX_RESET

record tmux_stream =
  s_id :: u32
  s_recv_window :: u32
  s_send_window :: u32
  s_state :: tcp_mux_state
  s_v2_magic_sent :: bool
  s_v2_magic_seen :: bool
  s_v2_rx :: gbuf

datatype xdpi_service_type = NO_XDPI | SERVICE_MSTSC | SERVICE_RDP | SERVICE_VNC | SERVICE_SSH
  | SERVICE_TELNET | SERVICE_HTTP | SERVICE_HTTPS

datatype xdpi_state = XDPI_INIT | XDPI_VERIFIED | XDPI_BLOCKED

text \<open>The fields of \<open>struct proxy_service\<close> that the data path reads.\<close>

record proxy_service =
  ps_proxy_type :: "string option"
  ps_service_type :: xdpi_service_type
  ps_use_encryption :: bool
  ps_use_compression :: bool
  ps_local_ip :: "string option"
  ps_local_port :: int
  ps_plugin :: "string option"
  ps_plugin_unix_path :: "string option"

record socks5_addr =
  sa_addr :: bytes
  sa_port :: bytes
  sa_type :: u8

text \<open>Where a connection goes: an address or a name with a port, a QUIC stream to the server, a
  connection wrapped with TLS, a UDP socket.\<close>

datatype endpoint = Ip4 bytes u16 | Ip6 bytes u16 | Host bytes u16 | Addr_port string int | Name_port string int
  | Quic_stream | Tls_wrap | Udp_socket

text \<open>A connection to a local service: where it goes, received bytes, bytes to send, reading enabled.\<close>

record local_bev =
  lb_peer :: endpoint
  lb_in :: bytes
  lb_out :: bytes
  lb_reading :: bool

text \<open>\<open>pc_state\<close> is the value of the C enumeration \<open>socks5_state\<close> (INIT 0, HANDSHAKE 1, CONNECT 2,
  ESTABLISHED 3); the code also stores 6 there. \<open>pc_ctl_out\<close> is the output of the client's own control
  connection when multiplexing is off, \<open>None\<close> when \<open>ctl_bev\<close> is \<open>NULL\<close>.\<close>

record proxy_client =
  pc_stream :: tmux_stream
  pc_stream_id :: u32
  pc_local :: "local_bev option"
  pc_ps :: "proxy_service option"
  pc_connected :: bool
  pc_work_started :: bool
  pc_pending_close :: bool
  pc_xdpi_state :: xdpi_state
  pc_remote_addr :: socks5_addr
  pc_state :: nat
  pc_data_tail :: bytes
  pc_enc_pending :: "bytes option"
  pc_socks5_buf :: gbuf
  pc_xdpi_buf :: gbuf
  pc_use_encryption :: bool
  pc_use_compression :: bool
  pc_encrypt_ctx :: "crypto_ctx option"
  pc_decrypt_ctx :: "crypto_ctx option"
  pc_ctl_out :: "bytes option"

datatype loc = CtlLoc | PcLoc nat | AbandonLoc

section \<open>The state\<close>

text \<open>\<open>conf_tcp_mux\<close> is the configured value, \<open>None\<close> before a configuration is loaded; \<open>mux_cached\<close> is
  the static variable of \<open>tcp_mux_flag\<close>.\<close>

record mux =
  heap :: "nat \<Rightarrow> proxy_client option"
  next_addr :: nat
  all_stream :: "u32 \<Rightarrow> loc option"
  all_pc :: "(u32 \<times> nat) list"
  ctl_stream :: tmux_stream
  abandon_stream :: tmux_stream
  cur_stream :: "loc option"
  g_session_id :: u32
  local_go_away :: bool
  remote_go_away :: bool
  mux_cached :: int
  conf_tcp_mux :: "int option"
  ctl_up :: bool
  ctl_in :: bytes
  ctl_out :: bytes
  oom :: "nat \<Rightarrow> bool"
  tick :: nat

definition alloc :: "mux \<Rightarrow> bool \<times> mux" where
  "alloc st = (\<not> oom st (tick st), st\<lparr>tick := Suc (tick st)\<rparr>)"

text \<open>\<open>bufferevent_write\<close> (or \<open>evbuffer_add\<close> to the output) of the control connection.\<close>

definition ctl_write :: "bytes \<Rightarrow> mux \<Rightarrow> bool \<times> mux" where
  "ctl_write d st =
     (let (ok, st) = alloc st in if ok then (True, st\<lparr>ctl_out := ctl_out st @ d\<rparr>) else (False, st))"

text \<open>Access through a pointer to a stream.\<close>

definition get_strm :: "mux \<Rightarrow> loc \<Rightarrow> tmux_stream option" where
  "get_strm st l =
     (case l of CtlLoc \<Rightarrow> Some (ctl_stream st) | AbandonLoc \<Rightarrow> Some (abandon_stream st)
      | PcLoc a \<Rightarrow> map_option pc_stream (heap st a))"

definition put_strm :: "loc \<Rightarrow> tmux_stream \<Rightarrow> mux \<Rightarrow> mux option" where
  "put_strm l s st =
     (case l of
        CtlLoc \<Rightarrow> Some (st\<lparr>ctl_stream := s\<rparr>)
      | AbandonLoc \<Rightarrow> Some (st\<lparr>abandon_stream := s\<rparr>)
      | PcLoc a \<Rightarrow>
          (case heap st a of
             None \<Rightarrow> None
           | Some pc \<Rightarrow> Some (st\<lparr>heap := (heap st)(a \<mapsto> pc\<lparr>pc_stream := s\<rparr>)\<rparr>)))"

definition put_pc :: "nat \<Rightarrow> proxy_client \<Rightarrow> mux \<Rightarrow> mux option" where
  "put_pc a pc st = (case heap st a of None \<Rightarrow> None | Some _ \<Rightarrow> Some (st\<lparr>heap := (heap st)(a \<mapsto> pc)\<rparr>))"

section \<open>Tables\<close>

text \<open>\<open>tcpmux.c\<close>: the table of streams.\<close>

definition add_stream :: "loc \<Rightarrow> mux \<Rightarrow> mux option" where
  "add_stream l st = do {
     s \<leftarrow> get_strm st l;
     (case all_stream st (s_id s) of
        Some _ \<Rightarrow> Some st
      | None \<Rightarrow> Some (st\<lparr>all_stream := (all_stream st)(s_id s \<mapsto> l)\<rparr>))
   }"

definition del_stream :: "u32 \<Rightarrow> mux \<Rightarrow> mux" where
  "del_stream i st = st\<lparr>all_stream := (all_stream st)(i := None)\<rparr>"

definition clear_stream :: "mux \<Rightarrow> mux" where
  "clear_stream st = st\<lparr>all_stream := Map.empty\<rparr>"

definition get_stream_by_id :: "u32 \<Rightarrow> mux \<Rightarrow> loc option" where
  "get_stream_by_id i st = all_stream st i"

definition get_cur_stream :: "mux \<Rightarrow> loc option" where
  "get_cur_stream st = cur_stream st"

definition set_cur_stream :: "loc option \<Rightarrow> mux \<Rightarrow> mux" where
  "set_cur_stream l st = st\<lparr>cur_stream := l\<rparr>"

definition init_tmux_stream :: "loc \<Rightarrow> u32 \<Rightarrow> tcp_mux_state \<Rightarrow> mux \<Rightarrow> mux option" where
  "init_tmux_stream l i state st = do {
     st \<leftarrow> put_strm l \<lparr>s_id = i, s_recv_window = MAX_STREAM_WINDOW_SIZE, s_send_window = 256 * 1024,
       s_state = state, s_v2_magic_sent = False, s_v2_magic_seen = False, s_v2_rx = gb_empty\<rparr> st;
     add_stream l st
   }"

definition tmux_stream_release :: "tmux_stream \<Rightarrow> tmux_stream" where
  "tmux_stream_release s = s\<lparr>s_v2_rx := gb_empty\<rparr>"

definition reset_session_id :: "mux \<Rightarrow> mux" where
  "reset_session_id st = st\<lparr>g_session_id := 1\<rparr>"

definition get_next_session_id :: "mux \<Rightarrow> u32 \<times> mux" where
  "get_next_session_id st = (g_session_id st, st\<lparr>g_session_id := g_session_id st + 2\<rparr>)"

text \<open>\<open>client.c\<close>: the table of clients.\<close>

definition get_proxy_client :: "u32 \<Rightarrow> mux \<Rightarrow> nat option" where
  "get_proxy_client sid st = (if sid = 0 then None else map_of (all_pc st) sid)"

text \<open>\<open>free_proxy_client\<close>: the object and everything it owns are gone.\<close>

definition free_proxy_client :: "nat \<Rightarrow> mux \<Rightarrow> mux option" where
  "free_proxy_client a st = (case heap st a of None \<Rightarrow> None | Some _ \<Rightarrow> Some (st\<lparr>heap := (heap st)(a := None)\<rparr>))"

definition del_proxy_client :: "nat \<Rightarrow> mux \<Rightarrow> mux option" where
  "del_proxy_client a st =
     free_proxy_client a (st\<lparr>all_pc := filter (\<lambda>e. snd e \<noteq> a) (all_pc st)\<rparr>)"

definition del_proxy_client_by_stream_id :: "u32 \<Rightarrow> mux \<Rightarrow> mux option" where
  "del_proxy_client_by_stream_id sid st =
     (if sid = 0 then Some st
      else let st = del_stream sid st in
        case get_proxy_client sid st of
          None \<Rightarrow> Some st
        | Some a \<Rightarrow> del_proxy_client a st)"

definition calloc_stream :: tmux_stream where
  "calloc_stream = \<lparr>s_id = 0, s_recv_window = 0, s_send_window = 0, s_state = TMUX_INIT,
     s_v2_magic_sent = False, s_v2_magic_seen = False, s_v2_rx = gb_empty\<rparr>"

definition calloc_client :: proxy_client where
  "calloc_client = \<lparr>pc_stream = calloc_stream, pc_stream_id = 0, pc_local = None, pc_ps = None,
     pc_connected = False, pc_work_started = False, pc_pending_close = False, pc_xdpi_state = XDPI_INIT,
     pc_remote_addr = \<lparr>sa_addr = replicate 20 0, sa_port = [0, 0], sa_type = 0\<rparr>, pc_state = 0,
     pc_data_tail = [], pc_enc_pending = None, pc_socks5_buf = gb_empty, pc_xdpi_buf = gb_empty,
     pc_use_encryption = False, pc_use_compression = False, pc_encrypt_ctx = None, pc_decrypt_ctx = None,
     pc_ctl_out = None\<rparr>"

definition new_proxy_client :: "mux \<Rightarrow> (nat option \<times> mux) option" where
  "new_proxy_client st =
     (let (ok, st) = alloc st in
      if \<not> ok then Some (None, st)
      else let a = next_addr st; (sid, st) = get_next_session_id st;
             st = st\<lparr>heap := (heap st)(a \<mapsto> calloc_client\<lparr>pc_stream_id := sid\<rparr>), next_addr := Suc a\<rparr> in do {
        st \<leftarrow> init_tmux_stream (PcLoc a) sid TMUX_INIT st;
        Some (Some a, st\<lparr>all_pc := (sid, a) # all_pc st\<rparr>)
      })"

fun free_all :: "(u32 \<times> nat) list \<Rightarrow> mux \<Rightarrow> mux option" where
  "free_all [] st = Some st"
| "free_all (e # es) st = do { st \<leftarrow> del_proxy_client (snd e) st; free_all es st }"

definition clear_all_proxy_client :: "mux \<Rightarrow> mux option" where
  "clear_all_proxy_client st =
     (let st = clear_stream st in if all_pc st = [] then Some st else free_all (all_pc st) st)"

end
