(* ===== verification/Tcpmux.thy ===== *)
theory Tcpmux
  imports Mux_State
begin

text \<open>
  Frames, stream states and flow control of the multiplexer: \<open>tcpmux.c\<close> up to the sending side
  (encoding and the functions that send frames, the flag and state machine of a stream, window
  updates, \<open>tmux_stream_write\<close> and \<open>tmux_stream_close\<close>). Receiving is in the theory \<open>Mux_Receive\<close>.
\<close>

section \<open>Frames\<close>

definition validate_tcp_mux_protocol :: "tcp_mux_header \<Rightarrow> bool" where
  "validate_tcp_mux_protocol h =
     (if h_version h \<noteq> 0 then False else if h_type h > GO_AWAY then False else True)"

definition zero_header :: tcp_mux_header where
  "zero_header = \<lparr>h_version = 0, h_type = 0, h_flags = 0, h_stream_id = 0, h_length = 0\<rparr>"

text \<open>Into a header that was cleared before.\<close>

definition tcp_mux_encode :: "u8 \<Rightarrow> u16 \<Rightarrow> u32 \<Rightarrow> u32 \<Rightarrow> tcp_mux_header" where
  "tcp_mux_encode t flags stream_id len =
     (if t > GO_AWAY then zero_header
      else \<lparr>h_version = 0, h_type = t, h_flags = htons flags, h_stream_id = htonl stream_id,
             h_length = (if len \<noteq> 0 then htonl len else 0)\<rparr>)"

definition tcp_mux_flag :: "mux \<Rightarrow> bool \<times> mux" where
  "tcp_mux_flag st =
     (if 0 \<le> mux_cached st then (mux_cached st \<noteq> 0, st)
      else case conf_tcp_mux st of
        None \<Rightarrow> (False, st)
      | Some v \<Rightarrow> (v \<noteq> 0, st\<lparr>mux_cached := v\<rparr>))"

definition send_header :: "tcp_mux_header \<Rightarrow> mux \<Rightarrow> mux" where
  "send_header h st = snd (ctl_write (header_bytes h) st)"

definition tcp_mux_send_win_update :: "u16 \<Rightarrow> u32 \<Rightarrow> u32 \<Rightarrow> mux \<Rightarrow> mux" where
  "tcp_mux_send_win_update flags stream_id delta st =
     (if \<not> ctl_up st then st
      else send_header (tcp_mux_encode WINDOW_UPDATE flags stream_id delta) st)"

definition tcp_mux_send_win_update_syn :: "u32 \<Rightarrow> mux \<Rightarrow> mux" where
  "tcp_mux_send_win_update_syn stream_id st =
     (let (on, st) = tcp_mux_flag st in
      if \<not> on then st else if \<not> ctl_up st then st else tcp_mux_send_win_update SYN stream_id 0 st)"

text \<open>The argument \<open>delta\<close> is not used by the code.\<close>

definition tcp_mux_send_win_update_ack :: "u32 \<Rightarrow> u32 \<Rightarrow> mux \<Rightarrow> mux" where
  "tcp_mux_send_win_update_ack stream_id delta st =
     (let (on, st) = tcp_mux_flag st in
      if \<not> on then st else if \<not> ctl_up st then st else tcp_mux_send_win_update ACK stream_id 0 st)"

definition tcp_mux_send_win_update_fin :: "u32 \<Rightarrow> mux \<Rightarrow> mux" where
  "tcp_mux_send_win_update_fin stream_id st =
     (let (on, st) = tcp_mux_flag st in
      if \<not> on then st else if \<not> ctl_up st then st else tcp_mux_send_win_update FIN stream_id 0 st)"

definition tcp_mux_send_win_update_rst :: "u32 \<Rightarrow> mux \<Rightarrow> mux" where
  "tcp_mux_send_win_update_rst stream_id st =
     (let (on, st) = tcp_mux_flag st in
      if \<not> on then st else if \<not> ctl_up st then st else tcp_mux_send_win_update RST stream_id 0 st)"

definition tcp_mux_send_data :: "u16 \<Rightarrow> u32 \<Rightarrow> u32 \<Rightarrow> mux \<Rightarrow> mux" where
  "tcp_mux_send_data flags stream_id len st =
     (let (on, st) = tcp_mux_flag st in
      if \<not> on then st else if \<not> ctl_up st then st
      else send_header (tcp_mux_encode TMUX_DATA flags stream_id len) st)"

definition tcp_mux_send_ping :: "u32 \<Rightarrow> mux \<Rightarrow> mux" where
  "tcp_mux_send_ping ping_id st =
     (let (on, st) = tcp_mux_flag st in
      if \<not> on then st else if \<not> ctl_up st then st
      else send_header (tcp_mux_encode PING SYN 0 ping_id) st)"

definition tcp_mux_handle_ping :: "u32 \<Rightarrow> mux \<Rightarrow> mux" where
  "tcp_mux_handle_ping ping_id st =
     (let (on, st) = tcp_mux_flag st in
      if \<not> on then st else if \<not> ctl_up st then st
      else send_header (tcp_mux_encode PING ACK 0 ping_id) st)"

definition tcp_mux_send_go_away :: "u32 \<Rightarrow> mux \<Rightarrow> mux" where
  "tcp_mux_send_go_away reason st =
     (let (on, st) = tcp_mux_flag st in
      if \<not> on \<or> \<not> ctl_up st then st
      else let reason = (if reason > 2 then 2 else reason) in
        send_header (tcp_mux_encode GO_AWAY 0 0 reason) st)"

section \<open>The state of a stream\<close>

text \<open>What the FIN flag does to a state: the new state and whether to close, or an early return of
  the given value.\<close>

datatype fin_step = Fin_to tcp_mux_state bool | Fin_return bool

fun fin_transition :: "tcp_mux_state \<Rightarrow> fin_step" where
  "fin_transition TMUX_SYN_SEND = Fin_to TMUX_REMOTE_CLOSE False"
| "fin_transition TMUX_SYN_RECEIVED = Fin_to TMUX_REMOTE_CLOSE False"
| "fin_transition TMUX_ESTABLISHED = Fin_to TMUX_REMOTE_CLOSE False"
| "fin_transition TMUX_LOCAL_CLOSE = Fin_to TMUX_CLOSED True"
| "fin_transition TMUX_INIT = Fin_to TMUX_RESET True"
| "fin_transition TMUX_CLOSED = Fin_return True"
| "fin_transition TMUX_RESET = Fin_return True"
| "fin_transition TMUX_REMOTE_CLOSE = Fin_return False"

definition ack_transition :: "u16 \<Rightarrow> tcp_mux_state \<Rightarrow> tcp_mux_state" where
  "ack_transition flags s =
     (if flags AND ACK \<noteq> 0 \<and> s = TMUX_SYN_SEND then TMUX_ESTABLISHED else s)"

definition fin_outcome :: "u16 \<Rightarrow> tcp_mux_state \<Rightarrow> fin_step" where
  "fin_outcome flags s = (if flags AND FIN \<noteq> 0 then fin_transition s else Fin_to s False)"

definition rst_outcome :: "u16 \<Rightarrow> tcp_mux_state \<Rightarrow> bool \<Rightarrow> tcp_mux_state \<times> bool" where
  "rst_outcome flags s close = (if flags AND RST \<noteq> 0 then (TMUX_RESET, True) else (s, close))"

definition process_flags :: "u16 \<Rightarrow> loc \<Rightarrow> mux \<Rightarrow> (bool \<times> mux) option" where
  "process_flags flags l st = do {
     s \<leftarrow> get_strm st l;
     (let s = s\<lparr>s_state := ack_transition flags (s_state s)\<rparr> in
      case fin_outcome flags (s_state s) of
        Fin_return r \<Rightarrow> do { st \<leftarrow> put_strm l s st; Some (r, st) }
      | Fin_to state close \<Rightarrow>
          (let (state, close) = rst_outcome flags state close in do {
             st \<leftarrow> put_strm l (s\<lparr>s_state := state\<rparr>) st;
             st \<leftarrow> (if close then del_proxy_client_by_stream_id (s_id s) st else Some st);
             Some (True, st)
           }))
   }"

fun get_send_flags :: "tmux_stream \<Rightarrow> u16 \<times> tmux_stream" where
  "get_send_flags s =
     (case s_state s of
        TMUX_INIT \<Rightarrow> (SYN, s\<lparr>s_state := TMUX_SYN_SEND\<rparr>)
      | TMUX_SYN_RECEIVED \<Rightarrow> (ACK, s\<lparr>s_state := TMUX_ESTABLISHED\<rparr>)
      | _ \<Rightarrow> (0, s))"

definition send_window_update :: "loc \<Rightarrow> u32 \<Rightarrow> mux \<Rightarrow> mux option" where
  "send_window_update l len st = do {
     s \<leftarrow> get_strm st l;
     if len = 0 then
       (let (flags, s) = get_send_flags s in do {
          st \<leftarrow> put_strm l s st;
          Some (if flags \<noteq> 0 then tcp_mux_send_win_update flags (s_id s) 0 st else st)
        })
     else
       (let delta = (if s_recv_window s < MAX_STREAM_WINDOW_SIZE
                     then MAX_STREAM_WINDOW_SIZE - s_recv_window s else 0) in
        if delta = 0 then Some st
        else let (flags, s) = get_send_flags s in do {
          st \<leftarrow> put_strm l (s\<lparr>s_recv_window := MAX_STREAM_WINDOW_SIZE\<rparr>) st;
          Some (tcp_mux_send_win_update flags (s_id s) delta st)
        })
   }"

section \<open>Writing to a stream\<close>

text \<open>The payload of one frame: what is available, within the window and the frame limit.\<close>

definition frame_size :: "u32 \<Rightarrow> u32 \<Rightarrow> u32" where
  "frame_size available window =
     (let to_send = available;
          to_send = (if to_send > window then window else to_send) in
      if to_send > DEFAULT_MAX_FRAME_SIZE then DEFAULT_MAX_FRAME_SIZE else to_send)"

text \<open>Result: the return value, what is left of the source buffer, the state. The frames go to the control connection, which
  is what the callers pass as \<open>bev\<close> with multiplexing.\<close>

definition tmux_stream_write :: "bytes \<Rightarrow> loc \<Rightarrow> mux \<Rightarrow> (int \<times> bytes \<times> mux) option" where
  "tmux_stream_write src l st = do {
     s \<leftarrow> get_strm st l;
     if s_state s = TMUX_LOCAL_CLOSE \<or> s_state s = TMUX_CLOSED \<or> s_state s = TMUX_RESET
     then Some (-1, src, st)
     else let available = of_nat (length src) :: u32 in
     if available = 0 then Some (0, src, st)
     else if s_send_window s = 0 then Some (0, src, st)
     else let (flags, s) = get_send_flags s in do {
       st \<leftarrow> put_strm l s st;
       if \<not> ctl_up st then Some (-2, src, st)
       else let to_send = frame_size available (s_send_window s) in
       if to_send = 0 then Some (0, src, st)
       else let (ok, st) = ctl_write (header_bytes (tcp_mux_encode TMUX_DATA flags (s_id s) to_send)) st in
       if \<not> ok then Some (-2, src, st)
       else let (ok, st) = ctl_write (take (unat to_send) src) st in
       if \<not> ok then Some (-2, src, st)
       else do {
         st \<leftarrow> put_strm l (s\<lparr>s_send_window := s_send_window s - to_send\<rparr>) st;
         Some (sint to_send, drop (unat to_send) src, st)
       }
     }
   }"

fun close_transition :: "tcp_mux_state \<Rightarrow> (tcp_mux_state \<times> bool) option" where
  "close_transition TMUX_SYN_SEND = Some (TMUX_LOCAL_CLOSE, False)"
| "close_transition TMUX_SYN_RECEIVED = Some (TMUX_LOCAL_CLOSE, False)"
| "close_transition TMUX_ESTABLISHED = Some (TMUX_LOCAL_CLOSE, False)"
| "close_transition TMUX_LOCAL_CLOSE = Some (TMUX_CLOSED, True)"
| "close_transition TMUX_REMOTE_CLOSE = Some (TMUX_CLOSED, True)"
| "close_transition TMUX_CLOSED = None"
| "close_transition TMUX_RESET = None"
| "close_transition TMUX_INIT = None"

definition tmux_stream_close :: "loc \<Rightarrow> mux \<Rightarrow> (int \<times> mux) option" where
  "tmux_stream_close l st = do {
     s \<leftarrow> get_strm st l;
     (case close_transition (s_state s) of
        None \<Rightarrow> Some (0, st)
      | Some (state, close) \<Rightarrow>
          (let (flags, s) = get_send_flags (s\<lparr>s_state := state\<rparr>) in do {
             st \<leftarrow> put_strm l s st;
             (let st = tcp_mux_send_win_update (flags OR FIN) (s_id s) 0 st in
              if \<not> close then Some (1, st)
              else do { st \<leftarrow> del_proxy_client_by_stream_id (s_id s) st; Some (0, st) })
           }))
   }"

section \<open>Frames on the wire\<close>

lemma header_bytes_encode:
  "t \<le> GO_AWAY \<Longrightarrow> header_bytes (tcp_mux_encode t flags sid len) = [0, t] @ be16 flags @ be32 sid @ be32 len"
proof -
  have "le32 0 = be32 0" by (simp add: le32_def be32_def)
  then show "t \<le> GO_AWAY \<Longrightarrow> ?thesis"
    by (cases "len = 0") (simp_all add: header_bytes_def tcp_mux_encode_def wire_simps leD)
qed

lemma length_header_bytes [simp]: "length (header_bytes h) = 12"
  by (simp add: header_bytes_def)

lemma header_of_bytes: "header_of (header_bytes h) = h"
proof -
  have 1: "le16 w = [ucast w, ucast (drop_bit 8 w)]" for w by (simp add: le16_def be16_def)
  have 2: "le32 w = [ucast w, ucast (drop_bit 8 w), ucast (drop_bit 16 w), ucast (drop_bit 24 w)]" for w
    by (simp add: le32_def be32_def)
  show ?thesis by (simp add: header_of_def header_bytes_def 1 2 rd16_be16 rd32_be32)
qed

section \<open>Well-formed states\<close>

definition strm_ok :: "tmux_stream \<Rightarrow> bool" where
  "strm_ok s \<longleftrightarrow> s_send_window s \<le> MAX_YAMUX_WINDOW_SIZE \<and> s_recv_window s \<le> MAX_STREAM_WINDOW_SIZE"

text \<open>
  The tables hold no dangling pointers: a registered stream exists and has the identifier it is
  registered under, an entry of the client table is a live client with that identifier in both
  places, no client is entered twice, and every live client is entered. The windows are within their
  limits everywhere.
\<close>

definition mux_ok :: "mux \<Rightarrow> bool" where
  "mux_ok st \<longleftrightarrow>
     (\<forall>i l. all_stream st i = Some l \<longrightarrow> l \<noteq> AbandonLoc \<and> (\<exists>s. get_strm st l = Some s \<and> s_id s = i)) \<and>
     (\<forall>e \<in> set (all_pc st). \<exists>pc. heap st (snd e) = Some pc \<and> pc_stream_id pc = fst e) \<and>
     distinct (map snd (all_pc st)) \<and>
     (\<forall>a pc. heap st a = Some pc \<longrightarrow> a < next_addr st \<and> strm_ok (pc_stream pc) \<and>
        s_id (pc_stream pc) = pc_stream_id pc \<and> (pc_stream_id pc, a) \<in> set (all_pc st)) \<and>
     strm_ok (ctl_stream st) \<and> strm_ok (abandon_stream st)"

text \<open>Fields the well-formedness does not depend on.\<close>

lemma mux_ok_io [simp]:
  "mux_ok (st\<lparr>ctl_out := x\<rparr>) = mux_ok st" "mux_ok (st\<lparr>ctl_in := x\<rparr>) = mux_ok st"
  "mux_ok (st\<lparr>tick := n\<rparr>) = mux_ok st" "mux_ok (st\<lparr>mux_cached := v\<rparr>) = mux_ok st"
  "mux_ok (st\<lparr>cur_stream := c\<rparr>) = mux_ok st" "mux_ok (st\<lparr>g_session_id := i\<rparr>) = mux_ok st"
  "mux_ok (st\<lparr>local_go_away := b\<rparr>) = mux_ok st" "mux_ok (st\<lparr>remote_go_away := b\<rparr>) = mux_ok st"
  by (simp_all add: mux_ok_def get_strm_def cong: loc.case_cong)

lemma get_strm_io [simp]:
  "get_strm (st\<lparr>ctl_out := x\<rparr>) = get_strm st" "get_strm (st\<lparr>ctl_in := x\<rparr>) = get_strm st"
  "get_strm (st\<lparr>tick := n\<rparr>) = get_strm st" "get_strm (st\<lparr>mux_cached := v\<rparr>) = get_strm st"
  "get_strm (st\<lparr>cur_stream := c\<rparr>) = get_strm st" "get_strm (st\<lparr>g_session_id := i\<rparr>) = get_strm st"
  "get_strm (st\<lparr>all_stream := t\<rparr>) = get_strm st" "get_strm (st\<lparr>all_pc := p\<rparr>) = get_strm st"
  by (simp_all add: fun_eq_iff get_strm_def cong: loc.case_cong)

text \<open>Sending changes only the output, the clock and the cached flag.\<close>

definition same_objects :: "mux \<Rightarrow> mux \<Rightarrow> bool" where
  "same_objects st st' \<longleftrightarrow> (\<exists>out t v. st' = st\<lparr>ctl_out := out, tick := t, mux_cached := v\<rparr>)"

lemma same_objects_refl [simp]: "same_objects st st"
  unfolding same_objects_def by (rule exI [of _ "ctl_out st"], rule exI [of _ "tick st"], rule exI [of _ "mux_cached st"]) simp

lemma same_objects_trans: "same_objects a b \<Longrightarrow> same_objects b c \<Longrightarrow> same_objects a c"
  by (auto simp: same_objects_def) blast

lemma same_objects_mux_ok: "same_objects st st' \<Longrightarrow> mux_ok st' = mux_ok st"
  by (auto simp: same_objects_def)

lemma same_objects_get_strm: "same_objects st st' \<Longrightarrow> get_strm st' = get_strm st"
  by (auto simp: same_objects_def)

lemma same_objects_fields:
  "same_objects st st' \<Longrightarrow> heap st' = heap st \<and> all_stream st' = all_stream st \<and> all_pc st' = all_pc st \<and>
     ctl_up st' = ctl_up st \<and> ctl_in st' = ctl_in st \<and> cur_stream st' = cur_stream st \<and> oom st' = oom st \<and>
     conf_tcp_mux st' = conf_tcp_mux st \<and> g_session_id st' = g_session_id st \<and> ctl_stream st' = ctl_stream st"
  by (auto simp: same_objects_def)

lemma same_objects_mux_cached: "same_objects st (st\<lparr>mux_cached := v\<rparr>)"
  unfolding same_objects_def by (rule exI [of _ "ctl_out st"], rule exI [of _ "tick st"], rule exI [of _ v]) simp

lemma ctl_write_same: "same_objects st (snd (ctl_write d st))"
  unfolding same_objects_def
  by (rule exI [of _ "ctl_out (snd (ctl_write d st))"], rule exI [of _ "Suc (tick st)"], rule exI [of _ "mux_cached st"])
     (simp add: ctl_write_def alloc_def)

lemma tcp_mux_flag_same: "same_objects st (snd (tcp_mux_flag st))"
  by (simp add: tcp_mux_flag_def same_objects_mux_cached split: option.split)

lemma send_header_same: "same_objects st (send_header h st)"
  by (simp add: send_header_def ctl_write_same)

lemma send_win_update_same: "same_objects st (tcp_mux_send_win_update flags i d st)"
  by (simp add: tcp_mux_send_win_update_def send_header_same)

lemma guarded_same:
  assumes "\<And>s. same_objects s (f s)"
  shows "same_objects st (let (on, st) = tcp_mux_flag st in if \<not> on then st else if \<not> ctl_up st then st else f st)"
  using tcp_mux_flag_same [of st] assms same_objects_trans
  by (auto simp: Let_def split_beta)

lemma sends_same:
  "same_objects st (tcp_mux_send_win_update_syn i st)" "same_objects st (tcp_mux_send_win_update_ack i d st)"
  "same_objects st (tcp_mux_send_win_update_fin i st)" "same_objects st (tcp_mux_send_win_update_rst i st)"
  "same_objects st (tcp_mux_send_data fl i n st)" "same_objects st (tcp_mux_send_ping p st)"
  "same_objects st (tcp_mux_handle_ping p st)"
  unfolding tcp_mux_send_win_update_syn_def tcp_mux_send_win_update_ack_def tcp_mux_send_win_update_fin_def
    tcp_mux_send_win_update_rst_def tcp_mux_send_data_def tcp_mux_send_ping_def tcp_mux_handle_ping_def
  by (rule guarded_same, simp add: send_win_update_same send_header_same)+

lemma go_away_same: "same_objects st (tcp_mux_send_go_away r st)"
  using tcp_mux_flag_same [of st] send_header_same same_objects_trans
  by (auto simp: tcp_mux_send_go_away_def Let_def split_beta)

section \<open>Every operation keeps the tables well formed\<close>

lemma put_strm_ok:
  assumes "mux_ok st" "get_strm st l = Some s0" "s_id s = s_id s0" "strm_ok s"
  obtains st' where "put_strm l s st = Some st'" "mux_ok st'" "get_strm st' l = Some s"
    "all_stream st' = all_stream st" "all_pc st' = all_pc st" "ctl_up st' = ctl_up st" "ctl_out st' = ctl_out st"
    "oom st' = oom st" "tick st' = tick st" "ctl_in st' = ctl_in st" "cur_stream st' = cur_stream st"
proof (cases l)
  case CtlLoc
  let ?st = "st\<lparr>ctl_stream := s\<rparr>"
  have "mux_ok ?st"
    using assms CtlLoc unfolding mux_ok_def get_strm_def by (fastforce split: loc.splits)
  then show thesis using CtlLoc by (intro that [of ?st]) (simp_all add: put_strm_def get_strm_def)
next
  case AbandonLoc
  let ?st = "st\<lparr>abandon_stream := s\<rparr>"
  have "mux_ok ?st"
    using assms AbandonLoc unfolding mux_ok_def get_strm_def by (fastforce split: loc.splits)
  then show thesis using AbandonLoc by (intro that [of ?st]) (simp_all add: put_strm_def get_strm_def)
next
  case (PcLoc a)
  then obtain pc where pc: "heap st a = Some pc" "pc_stream pc = s0" using assms(2) by (auto simp: get_strm_def)
  let ?st = "st\<lparr>heap := (heap st)(a \<mapsto> pc\<lparr>pc_stream := s\<rparr>)\<rparr>"
  have ok: "\<forall>i l. all_stream st i = Some l \<longrightarrow> l \<noteq> AbandonLoc \<and> (\<exists>s. get_strm st l = Some s \<and> s_id s = i)"
    "\<forall>e \<in> set (all_pc st). \<exists>pc. heap st (snd e) = Some pc \<and> pc_stream_id pc = fst e" "distinct (map snd (all_pc st))"
    "\<forall>a pc. heap st a = Some pc \<longrightarrow> a < next_addr st \<and> strm_ok (pc_stream pc) \<and>
        s_id (pc_stream pc) = pc_stream_id pc \<and> (pc_stream_id pc, a) \<in> set (all_pc st)"
    "strm_ok (ctl_stream st)" "strm_ok (abandon_stream st)"
    using assms(1) unfolding mux_ok_def by blast+
  have "\<forall>i l. all_stream st i = Some l \<longrightarrow> l \<noteq> AbandonLoc \<and> (\<exists>s. get_strm ?st l = Some s \<and> s_id s = i)"
  proof (intro allI impI)
    fix i k assume k: "all_stream st i = Some k"
    from ok(1) k obtain s1 where s1: "k \<noteq> AbandonLoc" "get_strm st k = Some s1" "s_id s1 = i" by blast
    then show "k \<noteq> AbandonLoc \<and> (\<exists>s. get_strm ?st k = Some s \<and> s_id s = i)"
      using pc assms(3) by (cases k) (auto simp: get_strm_def)
  qed
  moreover have "\<forall>e \<in> set (all_pc st). \<exists>pc'. heap ?st (snd e) = Some pc' \<and> pc_stream_id pc' = fst e"
    using ok(2) pc(1) by (auto; metis option.inject)
  moreover have "\<forall>b pc'. heap ?st b = Some pc' \<longrightarrow> b < next_addr st \<and> strm_ok (pc_stream pc') \<and>
        s_id (pc_stream pc') = pc_stream_id pc' \<and> (pc_stream_id pc', b) \<in> set (all_pc st)"
    using ok(4) pc assms(3,4) by (auto split: if_splits)
  ultimately have "mux_ok ?st" using ok(3,5,6) by (simp add: mux_ok_def)
  then show thesis using PcLoc pc by (intro that [of ?st]) (simp_all add: put_strm_def get_strm_def)
qed

text \<open>What a deletion leaves alone.\<close>

definition same_io :: "mux \<Rightarrow> mux \<Rightarrow> bool" where
  "same_io st st' \<longleftrightarrow> ctl_up st' = ctl_up st \<and> ctl_out st' = ctl_out st \<and> ctl_in st' = ctl_in st \<and>
     oom st' = oom st \<and> tick st' = tick st \<and> cur_stream st' = cur_stream st \<and> ctl_stream st' = ctl_stream st \<and>
     abandon_stream st' = abandon_stream st \<and> mux_cached st' = mux_cached st \<and> conf_tcp_mux st' = conf_tcp_mux st"

lemma del_client_ok:
  assumes ok: "mux_ok st"
  obtains st' where "del_proxy_client_by_stream_id sid st = Some st'" "mux_ok st'"
    "all_stream st' = (if sid = 0 then all_stream st else (all_stream st)(sid := None))"
    "heap st' = (case get_proxy_client sid st of None \<Rightarrow> heap st | Some a \<Rightarrow> (heap st)(a := None))"
    "same_io st st'"
proof (cases "sid = 0 \<or> map_of (all_pc st) sid = None")
  case True
  let ?st = "if sid = 0 then st else del_stream sid st"
  have "mux_ok ?st" using ok unfolding mux_ok_def by (auto simp: del_stream_def)
  moreover have "del_proxy_client_by_stream_id sid st = Some ?st"
    using True by (auto simp: del_proxy_client_by_stream_id_def get_proxy_client_def del_stream_def Let_def)
  ultimately show thesis
    using True by (intro that [of ?st]) (auto simp: get_proxy_client_def del_stream_def same_io_def)
next
  case False
  then obtain a where a: "sid \<noteq> 0" "map_of (all_pc st) sid = Some a" by auto
  then have mem: "(sid, a) \<in> set (all_pc st)" by (simp add: map_of_SomeD)
  obtain pc where pc: "heap st a = Some pc" "pc_stream_id pc = sid"
    using ok mem unfolding mux_ok_def by fastforce
  let ?st = "st\<lparr>all_stream := (all_stream st)(sid := None), all_pc := filter (\<lambda>e. snd e \<noteq> a) (all_pc st),
      heap := (heap st)(a := None)\<rparr>"
  have keep: "get_strm ?st l = Some s" if "all_stream st i = Some l" "i \<noteq> sid" "get_strm st l = Some s" "s_id s = i" for i l s
    using that pc ok unfolding mux_ok_def by (cases l) (auto simp: get_strm_def)
  have "\<forall>i l. all_stream ?st i = Some l \<longrightarrow> l \<noteq> AbandonLoc \<and> (\<exists>s. get_strm ?st l = Some s \<and> s_id s = i)"
    using ok keep unfolding mux_ok_def by (auto split: if_splits; blast)
  moreover have "\<forall>e \<in> set (all_pc ?st). \<exists>pc. heap ?st (snd e) = Some pc \<and> pc_stream_id pc = fst e"
    using ok unfolding mux_ok_def by auto
  moreover have "distinct (map snd (all_pc ?st))" using ok unfolding mux_ok_def by (simp add: distinct_map_filter)
  moreover have "\<forall>b pc. heap ?st b = Some pc \<longrightarrow> b < next_addr ?st \<and> strm_ok (pc_stream pc) \<and>
        s_id (pc_stream pc) = pc_stream_id pc \<and> (pc_stream_id pc, b) \<in> set (all_pc ?st)"
    using ok unfolding mux_ok_def by (auto split: if_splits)
  ultimately have "mux_ok ?st" using ok unfolding mux_ok_def by simp
  moreover have "del_proxy_client_by_stream_id sid st = Some ?st"
    using a pc by (simp add: del_proxy_client_by_stream_id_def get_proxy_client_def del_stream_def
        del_proxy_client_def free_proxy_client_def)
  ultimately show thesis using a by (intro that [of ?st]) (simp_all add: get_proxy_client_def same_io_def)
qed

lemma strm_ok_state [simp]: "strm_ok (s\<lparr>s_state := x\<rparr>) = strm_ok s"
  by (simp add: strm_ok_def)

lemma get_send_flags_keeps:
  "get_send_flags s = (f, s') \<Longrightarrow> s_id s' = s_id s \<and> s_send_window s' = s_send_window s \<and> s_recv_window s' = s_recv_window s \<and>
     strm_ok s' = strm_ok s"
  by (auto simp: strm_ok_def split: tcp_mux_state.splits)

lemma mux_ok_strm: "mux_ok st \<Longrightarrow> get_strm st l = Some s \<Longrightarrow> strm_ok s"
  unfolding mux_ok_def get_strm_def by (auto split: loc.splits)

lemma process_flags_to:
  assumes "get_strm st l = Some s" "fin_outcome flags (ack_transition flags (s_state s)) = Fin_to y c"
    "rst_outcome flags y c = (z, d)"
  shows "process_flags flags l st = do {
     st \<leftarrow> put_strm l (s\<lparr>s_state := z\<rparr>) st;
     st \<leftarrow> (if d then del_proxy_client_by_stream_id (s_id s) st else Some st);
     Some (True, st) }"
  using assms by (cases d) (simp_all add: process_flags_def Let_def)

lemma process_flags_ok:
  assumes "mux_ok st" "get_strm st l = Some s"
  obtains r st' where "process_flags flags l st = Some (r, st')" "mux_ok st'"
proof -
  let ?s = "s\<lparr>s_state := ack_transition flags (s_state s)\<rparr>"
  have sok: "strm_ok s" using assms by (rule mux_ok_strm)
  have put: "\<exists>st'. put_strm l (s\<lparr>s_state := x\<rparr>) st = Some st' \<and> mux_ok st'" for x
    by (rule put_strm_ok [OF assms, of "s\<lparr>s_state := x\<rparr>"]) (use sok in auto)
  have del: "\<exists>st2. del_proxy_client_by_stream_id i st1 = Some st2 \<and> mux_ok st2" if "mux_ok st1" for i st1
    by (rule del_client_ok [OF that, of i]) blast
  have "\<exists>r st'. process_flags flags l st = Some (r, st') \<and> mux_ok st'"
  proof (cases "fin_outcome flags (s_state ?s)")
    case (Fin_return r)
    then show ?thesis using assms(2) put [of "ack_transition flags (s_state s)"]
      by (auto simp: process_flags_def Let_def)
  next
    case (Fin_to x c)
    obtain y d where yd: "rst_outcome flags x c = (y, d)" by force
    obtain st1 where st1: "put_strm l (s\<lparr>s_state := y\<rparr>) st = Some st1" "mux_ok st1" using put by blast
    show ?thesis using assms(2) Fin_to st1 del [OF st1(2), of "s_id s"]
      by (cases d) (auto simp: process_flags_def Let_def yd)
  qed
  then show thesis using that by blast
qed

lemma send_window_update_ok:
  assumes "mux_ok st" "get_strm st l = Some s"
  obtains st' where "send_window_update l n st = Some st'" "mux_ok st'"
proof -
  have sok: "strm_ok s" using assms by (rule mux_ok_strm)
  obtain f s1 where f: "get_send_flags s = (f, s1)" by force
  note k = get_send_flags_keeps [OF f]
  have "strm_ok (s1\<lparr>s_recv_window := MAX_STREAM_WINDOW_SIZE\<rparr>)" using sok k by (simp add: strm_ok_def)
  then have "\<exists>st'. put_strm l (s1\<lparr>s_recv_window := MAX_STREAM_WINDOW_SIZE\<rparr>) st = Some st' \<and> mux_ok st'"
    by (rule_tac put_strm_ok [OF assms, of "s1\<lparr>s_recv_window := MAX_STREAM_WINDOW_SIZE\<rparr>"]) (use k in auto)
  moreover have "\<exists>st'. put_strm l s1 st = Some st' \<and> mux_ok st'"
    by (rule put_strm_ok [OF assms, of s1]) (use k sok in auto)
  moreover have "mux_ok (tcp_mux_send_win_update a b c st1) = mux_ok st1" for a b c st1
    by (rule same_objects_mux_ok [OF send_win_update_same])
  ultimately have "\<exists>st'. send_window_update l n st = Some st' \<and> mux_ok st'"
    using assms f by (auto simp: send_window_update_def Let_def simp del: get_send_flags.simps)
  then show thesis using that by blast
qed

lemma tmux_stream_close_ok:
  assumes "mux_ok st" "get_strm st l = Some s"
  obtains r st' where "tmux_stream_close l st = Some (r, st')" "mux_ok st'"
proof (cases "close_transition (s_state s)")
  case None
  then show thesis using assms by (intro that [of 0 st]) (simp_all add: tmux_stream_close_def)
next
  case (Some xc)
  obtain x c where xc: "xc = (x, c)" by force
  obtain f s1 where f: "get_send_flags (s\<lparr>s_state := x\<rparr>) = (f, s1)" by force
  note k = get_send_flags_keeps [OF f]
  have sok: "strm_ok s" using assms by (rule mux_ok_strm)
  obtain st1 where st1: "put_strm l s1 st = Some st1" "mux_ok st1"
    by (rule put_strm_ok [OF assms, of s1]) (use k sok in auto)
  let ?st2 = "tcp_mux_send_win_update (f OR FIN) (s_id s1) 0 st1"
  have st2: "mux_ok ?st2" using st1 same_objects_mux_ok [OF send_win_update_same] by simp
  obtain st3 where "del_proxy_client_by_stream_id (s_id s1) ?st2 = Some st3" "mux_ok st3"
    by (rule del_client_ok [OF st2])
  then show thesis using assms Some xc f st1 st2 that
    by (cases c) (auto simp: tmux_stream_close_def Let_def simp del: get_send_flags.simps)
qed

section \<open>Writing to a stream\<close>

text \<open>How much one call sends: what there is, within the window and the frame limit.\<close>

definition write_size :: "nat \<Rightarrow> tmux_stream \<Rightarrow> nat" where
  "write_size n s = min n (min (unat (s_send_window s)) 262144)"

definition writable :: "tmux_stream \<Rightarrow> bool" where
  "writable s \<longleftrightarrow> s_state s \<notin> {TMUX_LOCAL_CLOSE, TMUX_CLOSED, TMUX_RESET}"

lemma frame_size_eq:
  assumes "n < 2 ^ 32"
  shows "unat (frame_size (of_nat n) w) = min n (min (unat w) 262144)"
  using unat_of_nat_u32 [OF assms]
  by (auto simp: frame_size_def Let_def DEFAULT_MAX_FRAME_SIZE_def less_u32_iff min_def)

lemma write_sends:
  assumes ok: "mux_ok st" and s: "get_strm st l = Some s" "writable s" and src: "src \<noteq> []" "length src < 2 ^ 32"
    and w: "s_send_window s \<noteq> 0" and up: "ctl_up st" and mem: "\<not> oom st (tick st)" "\<not> oom st (Suc (tick st))"
  obtains st' where "tmux_stream_write src l st =
      Some (int (write_size (length src) s), drop (write_size (length src) s) src, st')"
    "ctl_out st' = ctl_out st @ header_bytes (tcp_mux_encode TMUX_DATA (fst (get_send_flags s)) (s_id s)
        (of_nat (write_size (length src) s))) @ take (write_size (length src) s) src"
    "get_strm st' l = Some ((snd (get_send_flags s))\<lparr>s_send_window := s_send_window s - of_nat (write_size (length src) s)\<rparr>)"
    "mux_ok st'"
proof -
  obtain f s1 where f: "get_send_flags s = (f, s1)" by force
  note k = get_send_flags_keeps [OF f]
  let ?n = "write_size (length src) s"
  define t where t_def: "t = frame_size (of_nat (length src)) (s_send_window s)"
  have t: "unat t = ?n" unfolding t_def frame_size_eq [OF src(2)] write_size_def by simp
  moreover have "of_nat (unat t) = t" by simp
  ultimately have tn: "t = of_nat ?n" by simp
  have av: "(of_nat (length src) :: u32) \<noteq> 0" using unat_of_nat_u32 [OF src(2)] src(1) by (metis length_0_conv unat_0)
  have npos: "0 < ?n" using src(1) w by (simp add: write_size_def unat_gt_0)
  then have t0: "t \<noteq> 0" using t by auto
  have n31: "?n < 2 ^ 31" "?n \<le> length src" "?n \<le> unat (s_send_window s)" by (simp_all add: write_size_def)
  have st: "sint t = int ?n" using sint_small [of t] t n31(1) by simp
  have sok: "strm_ok s" using ok s(1) by (rule mux_ok_strm)
  obtain st1 where st1: "put_strm l s1 st = Some st1" "mux_ok st1" "get_strm st1 l = Some s1" "ctl_up st1 = ctl_up st"
    "ctl_out st1 = ctl_out st" "oom st1 = oom st" "tick st1 = tick st"
    by (rule put_strm_ok [OF ok s(1), of s1]) (use k sok in auto)
  let ?st2 = "st1\<lparr>tick := Suc (Suc (tick st)), ctl_out := ctl_out st @
      header_bytes (tcp_mux_encode TMUX_DATA f (s_id s) t) @ take ?n src\<rparr>"
  have ok2: "mux_ok ?st2" "get_strm ?st2 l = Some s1" using st1 by simp_all
  let ?s2 = "s1\<lparr>s_send_window := s_send_window s - t\<rparr>"
  have le: "t \<le> s_send_window s" using t n31(3) by (simp add: le_u32_iff)
  have "strm_ok ?s2" using sok k le unat_sub_no_wrap [OF le] by (auto simp: strm_ok_def le_u32_iff)
  then obtain st3 where st3: "put_strm l ?s2 ?st2 = Some st3" "mux_ok st3" "get_strm st3 l = Some ?s2"
    "ctl_out st3 = ctl_out ?st2"
    by (rule_tac put_strm_ok [OF ok2, of ?s2]) (use k in auto)
  have "tmux_stream_write src l st = Some (int ?n, drop ?n src, st3)"
    unfolding tmux_stream_write_def
    using s f av w up mem st1 st3(1) t t0 st k
    by (simp add: writable_def ctl_write_def alloc_def Let_def t_def [symmetric] del: get_send_flags.simps)
  then show thesis using st3 f tn k by (intro that [of st3]) simp_all
qed

lemma write_fails:
  assumes ok: "mux_ok st" and s: "get_strm st l = Some s" "writable s" and src: "src \<noteq> []" "length src < 2 ^ 32"
    and w: "s_send_window s \<noteq> 0" and no: "\<not> ctl_up st \<or> oom st (tick st) \<or> oom st (Suc (tick st))"
  obtains st' where "tmux_stream_write src l st = Some (-2, src, st')" "mux_ok st'"
    "ctl_out st' = ctl_out st @ (if ctl_up st \<and> \<not> oom st (tick st)
       then header_bytes (tcp_mux_encode TMUX_DATA (fst (get_send_flags s)) (s_id s) (of_nat (write_size (length src) s))) else [])"
    "get_strm st' l = Some (snd (get_send_flags s))"
proof -
  obtain f s1 where f: "get_send_flags s = (f, s1)" by force
  note k = get_send_flags_keeps [OF f]
  define t where t_def: "t = frame_size (of_nat (length src)) (s_send_window s)"
  have t: "unat t = write_size (length src) s" unfolding t_def frame_size_eq [OF src(2)] write_size_def by simp
  have av: "(of_nat (length src) :: u32) \<noteq> 0" using unat_of_nat_u32 [OF src(2)] src(1) by (metis length_0_conv unat_0)
  have "0 < write_size (length src) s" using src(1) w by (simp add: write_size_def unat_gt_0)
  with t have t0: "t \<noteq> 0" by auto
  have "of_nat (unat t) = t" by simp
  with t have tn: "of_nat (write_size (length src) s) = t" by simp
  have sok: "strm_ok s" using ok s(1) by (rule mux_ok_strm)
  obtain st1 where st1: "put_strm l s1 st = Some st1" "mux_ok st1" "ctl_up st1 = ctl_up st"
    "oom st1 = oom st" "tick st1 = tick st" "ctl_out st1 = ctl_out st" "get_strm st1 l = Some s1"
    by (rule put_strm_ok [OF ok s(1), of s1]) (use k sok in auto)
  let ?h = "header_bytes (tcp_mux_encode TMUX_DATA f (s_id s) t)"
  let ?st2 = "if \<not> ctl_up st then st1 else if oom st (tick st) then st1\<lparr>tick := Suc (tick st)\<rparr>
    else st1\<lparr>tick := Suc (Suc (tick st)), ctl_out := ctl_out st1 @ ?h\<rparr>"
  have "tmux_stream_write src l st = Some (-2, src, ?st2)"
    unfolding tmux_stream_write_def
    using s f av w no st1 t0 k
    by (auto simp: writable_def ctl_write_def alloc_def Let_def t_def [symmetric] simp del: get_send_flags.simps)
  moreover have "mux_ok ?st2" using st1(2) by simp
  moreover have "ctl_out ?st2 = ctl_out st @ (if ctl_up st \<and> \<not> oom st (tick st)
       then header_bytes (tcp_mux_encode TMUX_DATA (fst (get_send_flags s)) (s_id s) (of_nat (write_size (length src) s))) else [])"
    using st1(6) f tn by (simp del: get_send_flags.simps)
  moreover have "get_strm ?st2 l = Some (snd (get_send_flags s))" using st1(7) f by simp
  ultimately show thesis by (rule that)
qed

lemma new_proxy_client_ok:
  assumes ok: "mux_ok st"
  obtains (created) a st' where "new_proxy_client st = Some (Some a, st')" "mux_ok st'" "a = next_addr st"
    "\<exists>pc. heap st' a = Some pc \<and> pc_stream_id pc = g_session_id st \<and> s_state (pc_stream pc) = TMUX_INIT"
    "get_proxy_client (g_session_id st) st' = (if g_session_id st = 0 then None else Some a)"
  | (oom) st' where "new_proxy_client st = Some (None, st')" "mux_ok st'"
proof (cases "oom st (tick st)")
  case True
  then show thesis using ok by (intro oom [of "st\<lparr>tick := Suc (tick st)\<rparr>"]) (simp_all add: new_proxy_client_def alloc_def)
next
  case False
  let ?a = "next_addr st" and ?sid = "g_session_id st"
  let ?s = "\<lparr>s_id = ?sid, s_recv_window = MAX_STREAM_WINDOW_SIZE, s_send_window = 256 * 1024,
       s_state = TMUX_INIT, s_v2_magic_sent = False, s_v2_magic_seen = False, s_v2_rx = gb_empty\<rparr>"
  let ?pc = "calloc_client\<lparr>pc_stream_id := ?sid, pc_stream := ?s\<rparr>"
  let ?tab = "if all_stream st ?sid = None then (all_stream st)(?sid \<mapsto> PcLoc ?a) else all_stream st"
  let ?st = "st\<lparr>tick := Suc (tick st), g_session_id := ?sid + 2, heap := (heap st)(?a \<mapsto> ?pc), next_addr := Suc ?a,
      all_stream := ?tab, all_pc := (?sid, ?a) # all_pc st\<rparr>"
  have run: "new_proxy_client st = Some (Some ?a, ?st)"
    using False by (auto simp: new_proxy_client_def alloc_def get_next_session_id_def init_tmux_stream_def
        put_strm_def add_stream_def get_strm_def Let_def calloc_client_def split: option.split)
  have fresh: "heap st ?a = None" using ok unfolding mux_ok_def by (metis less_irrefl not_None_eq)
  have sok: "strm_ok ?s" by (simp add: strm_ok_def MAX_YAMUX_WINDOW_SIZE_def)
  have notin: "?a \<notin> snd ` set (all_pc st)" using ok fresh unfolding mux_ok_def by fastforce
  have "\<forall>i l. all_stream ?st i = Some l \<longrightarrow> l \<noteq> AbandonLoc \<and> (\<exists>s. get_strm ?st l = Some s \<and> s_id s = i)"
  proof (intro allI impI)
    fix i l assume "all_stream ?st i = Some l"
    then consider "all_stream st i = Some l" | "i = ?sid" "l = PcLoc ?a" by (auto split: if_splits)
    then show "l \<noteq> AbandonLoc \<and> (\<exists>s. get_strm ?st l = Some s \<and> s_id s = i)"
    proof cases
      case 1
      then obtain s where "l \<noteq> AbandonLoc" "get_strm st l = Some s" "s_id s = i" using ok unfolding mux_ok_def by blast
      then show ?thesis using fresh by (cases l) (auto simp: get_strm_def)
    qed (simp add: get_strm_def)
  qed
  moreover have "\<forall>e \<in> set (all_pc ?st). \<exists>pc. heap ?st (snd e) = Some pc \<and> pc_stream_id pc = fst e"
    using ok notin unfolding mux_ok_def by fastforce
  moreover have "distinct (map snd (all_pc ?st))" using ok notin unfolding mux_ok_def by auto
  moreover have "\<forall>b pc. heap ?st b = Some pc \<longrightarrow> b < next_addr ?st \<and> strm_ok (pc_stream pc) \<and>
        s_id (pc_stream pc) = pc_stream_id pc \<and> (pc_stream_id pc, b) \<in> set (all_pc ?st)"
    using ok sok unfolding mux_ok_def by (auto split: if_splits simp: less_Suc_eq)
  ultimately have "mux_ok ?st" using ok unfolding mux_ok_def by simp
  then show thesis using run by (intro created [of ?a ?st]) (simp_all add: get_proxy_client_def)
qed

section \<open>Properties\<close>

text \<open>Frame headers are the twelve bytes of the yamux format and survive the wire: version 0, the
  type, then flags, stream identifier and length in network byte order; reading the bytes back into the
  packed structure passes validation and gives the values that were encoded.\<close>

theorem frame_header_roundtrip:
  assumes "t \<le> GO_AWAY"
  shows "let b = header_bytes (tcp_mux_encode t flags sid len); h = header_of b in
    b = [0, t] @ be16 flags @ be32 sid @ be32 len \<and> validate_tcp_mux_protocol h \<and>
    h_type h = t \<and> ntohs (h_flags h) = flags \<and> ntohl (h_stream_id h) = sid \<and> ntohl (h_length h) = len"
proof -
  have z: "htonl 0 = 0" by (simp add: htonl_def rd32_def)
  show ?thesis
    unfolding Let_def header_of_bytes using assms header_bytes_encode [OF assms]
    by (auto simp: tcp_mux_encode_def validate_tcp_mux_protocol_def leD ntohl_def z)
qed

theorem frame_header_roundtrip_witness:
  "header_bytes (tcp_mux_encode WINDOW_UPDATE FIN 5 258) = [0, 1, 0, 4, 0, 0, 0, 5, 0, 0, 1, 2] \<and>
   ntohl (h_length (header_of (header_bytes (tcp_mux_encode WINDOW_UPDATE FIN 5 258)))) = 258"
proof -
  have "(WINDOW_UPDATE :: u8) \<le> GO_AWAY" by simp
  from frame_header_roundtrip [OF this, of FIN 5 258] show ?thesis
    by (auto simp: Let_def be16_def be32_def)
qed

text \<open>C12. Writing to a stream, on every branch: a closed stream refuses (-1) and nothing changes; an
  empty source or an exhausted window gives 0 and nothing changes; otherwise one frame is appended to
  the connection whose payload is the longest prefix of the source within the send window and 256 KiB,
  the window shrinks by exactly this length and the prefix leaves the source; without a connection or
  memory the call fails (-2), the source keeps every byte and the window is not touched. What a failing call has
  appended: nothing without a connection or without memory for the header; but when only the memory for the payload
  is missing, the header of the frame stays in the output, without the payload it announces. The tables stay well formed.\<close>

theorem stream_write_spec:
  assumes "mux_ok st" "get_strm st l = Some s" "length src < 2 ^ 32"
  shows "\<exists>r src' st'. tmux_stream_write src l st = Some (r, src', st') \<and> mux_ok st' \<and>
    (if \<not> writable s then r = -1 \<and> src' = src \<and> st' = st
     else if src = [] \<or> s_send_window s = 0 then r = 0 \<and> src' = src \<and> st' = st
     else if ctl_up st \<and> \<not> oom st (tick st) \<and> \<not> oom st (Suc (tick st)) then
       (let n = write_size (length src) s in
        0 < n \<and> n \<le> unat (s_send_window s) \<and> r = int n \<and> src' = drop n src \<and>
        ctl_out st' = ctl_out st @ [0, TMUX_DATA] @ be16 (fst (get_send_flags s)) @ be32 (s_id s) @ be32 (of_nat n) @ take n src \<and>
        map_option s_send_window (get_strm st' l) = Some (s_send_window s - of_nat n))
     else r = -2 \<and> src' = src \<and> map_option s_send_window (get_strm st' l) = Some (s_send_window s) \<and>
       ctl_out st' = ctl_out st @ (if ctl_up st \<and> \<not> oom st (tick st)
         then [0, TMUX_DATA] @ be16 (fst (get_send_flags s)) @ be32 (s_id s) @ be32 (of_nat (write_size (length src) s)) else []))"
proof -
  consider "\<not> writable s" | "writable s" "src = [] \<or> s_send_window s = 0"
    | "writable s" "src \<noteq> []" "s_send_window s \<noteq> 0" "ctl_up st \<and> \<not> oom st (tick st) \<and> \<not> oom st (Suc (tick st))"
    | "writable s" "src \<noteq> []" "s_send_window s \<noteq> 0" "\<not> (ctl_up st \<and> \<not> oom st (tick st) \<and> \<not> oom st (Suc (tick st)))"
    by blast
  then show ?thesis
  proof cases
    case 1
    then show ?thesis using assms by (auto simp: tmux_stream_write_def writable_def)
  next
    case 2
    have "tmux_stream_write src l st = Some (0, src, st)"
      using 2 assms(2) by (auto simp: tmux_stream_write_def writable_def Let_def)
    with 2 assms(1) show ?thesis by simp
  next
    case 3
    let ?n = "write_size (length src) s"
    have n: "0 < ?n" "?n \<le> unat (s_send_window s)" using 3 by (simp_all add: write_size_def unat_gt_0)
    obtain st' where "tmux_stream_write src l st = Some (int ?n, drop ?n src, st')"
      "ctl_out st' = ctl_out st @ header_bytes (tcp_mux_encode TMUX_DATA (fst (get_send_flags s)) (s_id s) (of_nat ?n)) @ take ?n src"
      "get_strm st' l = Some ((snd (get_send_flags s))\<lparr>s_send_window := s_send_window s - of_nat ?n\<rparr>)" "mux_ok st'"
      by (rule write_sends [OF assms(1,2) 3(1,2) assms(3) 3(3)]) (use 3 in auto)
    with 3 n show ?thesis by (simp add: header_bytes_encode Let_def del: get_send_flags.simps)
  next
    case 4
    obtain f s1 where f: "get_send_flags s = (f, s1)" by force
    obtain st' where "tmux_stream_write src l st = Some (-2, src, st')" "mux_ok st'"
      "ctl_out st' = ctl_out st @ (if ctl_up st \<and> \<not> oom st (tick st)
         then header_bytes (tcp_mux_encode TMUX_DATA (fst (get_send_flags s)) (s_id s) (of_nat (write_size (length src) s))) else [])"
      "get_strm st' l = Some (snd (get_send_flags s))"
      by (rule write_fails [OF assms(1,2) 4(1,2) assms(3) 4(3)]) (use 4 in auto)
    with 4 f get_send_flags_keeps [OF f] show ?thesis by (simp add: header_bytes_encode del: get_send_flags.simps)
  qed
qed

text \<open>A small state for the witnesses: one established stream of a client at address 0.\<close>

definition demo_client :: proxy_client where
  "demo_client = calloc_client\<lparr>pc_stream_id := 3, pc_stream := calloc_stream\<lparr>s_id := 3,
     s_state := TMUX_ESTABLISHED, s_send_window := 4, s_recv_window := MAX_STREAM_WINDOW_SIZE\<rparr>\<rparr>"

definition demo_mux :: mux where
  "demo_mux = \<lparr>heap = [0 \<mapsto> demo_client], next_addr = 1, all_stream = [3 \<mapsto> PcLoc 0], all_pc = [(3, 0)],
     ctl_stream = calloc_stream, abandon_stream = calloc_stream, cur_stream = None, g_session_id = 5,
     local_go_away = False, remote_go_away = False, mux_cached = 1, conf_tcp_mux = Some 1, ctl_up = True,
     ctl_in = [], ctl_out = [], oom = \<lambda>n. False, tick = 0\<rparr>"

lemma demo_mux_ok: "mux_ok demo_mux"
  by (auto simp: mux_ok_def demo_mux_def demo_client_def calloc_client_def calloc_stream_def get_strm_def strm_ok_def
      MAX_YAMUX_WINDOW_SIZE_def split: if_splits)

lemma demo_strm: "get_strm demo_mux (PcLoc 0) = Some (pc_stream demo_client)"
  by (simp add: get_strm_def demo_mux_def)

theorem stream_write_spec_witness:
  "\<exists>st'. tmux_stream_write [1, 2, 3, 4, 5, 6] (PcLoc 0) demo_mux = Some (4, [5, 6], st') \<and> mux_ok st' \<and>
    ctl_out st' = [0, 0, 0, 0, 0, 0, 0, 3, 0, 0, 0, 4, 1, 2, 3, 4]"
proof -
  let ?src = "[1, 2, 3, 4, 5, 6] :: bytes"
  have len: "length ?src < 2 ^ 32" by simp
  have n: "write_size (length ?src) (pc_stream demo_client) = 4"
    by (simp add: write_size_def demo_client_def)
  have s: "writable (pc_stream demo_client)" "s_send_window (pc_stream demo_client) \<noteq> 0" "s_id (pc_stream demo_client) = 3"
    "get_send_flags (pc_stream demo_client) = (0, pc_stream demo_client)"
    by (simp_all add: writable_def demo_client_def)
  have m: "ctl_up demo_mux" "\<not> oom demo_mux (tick demo_mux)" "\<not> oom demo_mux (Suc (tick demo_mux))" "ctl_out demo_mux = []"
    by (simp_all add: demo_mux_def)
  show ?thesis
    using stream_write_spec [OF demo_mux_ok demo_strm len] unfolding n Let_def
    by (auto simp: s m be16_def be32_def simp del: get_send_flags.simps)
qed

text \<open>How far a stream is along its life: opening, open, half closed, ended.\<close>

fun stage :: "tcp_mux_state \<Rightarrow> nat" where
  "stage TMUX_INIT = 0"
| "stage TMUX_SYN_SEND = 1"
| "stage TMUX_SYN_RECEIVED = 1"
| "stage TMUX_ESTABLISHED = 2"
| "stage TMUX_LOCAL_CLOSE = 3"
| "stage TMUX_REMOTE_CLOSE = 3"
| "stage TMUX_CLOSED = 4"
| "stage TMUX_RESET = 4"

lemma stage_ack: "stage x \<le> stage (ack_transition f x)"
  by (cases x) (auto simp: ack_transition_def)

lemma stage_fin: "fin_transition x = Fin_to y c \<Longrightarrow> stage x < stage y"
  by (cases x) auto

lemma stage_close: "close_transition x = Some (y, c) \<Longrightarrow> stage x < stage y"
  by (cases x) auto

lemma stage_send: "get_send_flags s = (f, s') \<Longrightarrow> stage (s_state s) \<le> stage (s_state s')"
  by (auto split: tcp_mux_state.splits)

lemma stage_le_4: "stage x \<le> 4"
  by (cases x) auto

text \<open>Streams that exist before and after have not gone back.\<close>

definition progress :: "mux \<Rightarrow> mux \<Rightarrow> bool" where
  "progress st st' \<longleftrightarrow> (\<forall>k s s'. get_strm st k = Some s \<longrightarrow> get_strm st' k = Some s' \<longrightarrow>
     stage (s_state s) \<le> stage (s_state s'))"

lemma put_strm_get: "put_strm l s1 st = Some st1 \<Longrightarrow> get_strm st1 k = (if k = l then Some s1 else get_strm st k)"
  by (cases l; cases k) (auto simp: put_strm_def get_strm_def split: option.splits)

lemma del_client_get:
  "del_proxy_client_by_stream_id i st = Some st' \<Longrightarrow> get_strm st' k = Some s \<Longrightarrow> get_strm st k = Some s"
  by (cases k) (auto simp: del_proxy_client_by_stream_id_def del_proxy_client_def free_proxy_client_def del_stream_def
      get_strm_def Let_def split: if_splits option.splits)

lemma put_progress:
  "get_strm st l = Some s \<Longrightarrow> put_strm l s1 st = Some st1 \<Longrightarrow> stage (s_state s) \<le> stage (s_state s1) \<Longrightarrow> progress st st1"
  by (auto simp: progress_def put_strm_get)

lemma progress_del: "progress st st1 \<Longrightarrow> del_proxy_client_by_stream_id i st1 = Some st2 \<Longrightarrow> progress st st2"
  unfolding progress_def using del_client_get by blast

lemma progress_same: "progress st st1 \<Longrightarrow> same_objects st1 st2 \<Longrightarrow> progress st st2"
  by (simp add: progress_def same_objects_get_strm)

lemma progress_refl [simp]: "progress st st"
  by (auto simp: progress_def)

lemma process_flags_progress:
  assumes "process_flags flags l st = Some (r, st')"
  shows "progress st st'"
proof -
  from assms obtain s where s: "get_strm st l = Some s" by (auto simp: process_flags_def bind_eq_Some_conv)
  let ?x = "ack_transition flags (s_state s)"
  have ax: "stage (s_state s) \<le> stage ?x" by (rule stage_ack)
  show ?thesis
  proof (cases "fin_outcome flags ?x")
    case (Fin_return q)
    then have "process_flags flags l st = do { st \<leftarrow> put_strm l (s\<lparr>s_state := ?x\<rparr>) st; Some (q, st) }"
      using s by (simp add: process_flags_def Let_def)
    with assms have "put_strm l (s\<lparr>s_state := ?x\<rparr>) st = Some st'" by (auto simp: bind_eq_Some_conv)
    from put_progress [OF s this] ax show ?thesis by simp
  next
    case (Fin_to y c)
    then have xy: "stage ?x \<le> stage y" using stage_fin [of ?x y c] by (auto simp: fin_outcome_def split: if_splits)
    obtain z d where zd: "rst_outcome flags y c = (z, d)" by force
    then have yz: "stage y \<le> stage z" using stage_le_4 by (auto simp: rst_outcome_def split: if_splits)
    from assms [unfolded process_flags_to [OF s Fin_to zd]] obtain st1 where
      st1: "put_strm l (s\<lparr>s_state := z\<rparr>) st = Some st1"
      "(if d then del_proxy_client_by_stream_id (s_id s) st1 else Some st1) = Some st'"
      by (auto simp: bind_eq_Some_conv)
    have "progress st st1" using ax xy yz by (intro put_progress [OF s st1(1)]) simp
    then show ?thesis using st1(2) progress_del by (auto split: if_splits)
  qed
qed

lemma send_window_update_progress:
  assumes "send_window_update l n st = Some st'"
  shows "progress st st'"
proof -
  from assms obtain s where s: "get_strm st l = Some s" by (auto simp: send_window_update_def bind_eq_Some_conv)
  obtain f s1 where f: "get_send_flags s = (f, s1)" by force
  have p: "progress st st1" if "put_strm l (s1\<lparr>s_recv_window := w\<rparr>) st = Some st1" for w st1
    using that put_progress [OF s] stage_send [OF f] by auto
  have q: "progress st st1" if "put_strm l s1 st = Some st1" for st1
    using that put_progress [OF s] stage_send [OF f] by auto
  show ?thesis
    using assms s f q progress_same [OF p send_win_update_same] progress_same [OF q send_win_update_same]
    by (auto simp: send_window_update_def Let_def bind_eq_Some_conv simp del: get_send_flags.simps split: if_splits)
qed

lemma tmux_stream_close_progress:
  assumes "tmux_stream_close l st = Some (r, st')"
  shows "progress st st'"
proof -
  from assms obtain s where s: "get_strm st l = Some s" by (auto simp: tmux_stream_close_def bind_eq_Some_conv)
  show ?thesis
  proof (cases "close_transition (s_state s)")
    case None
    with assms s show ?thesis by (simp add: tmux_stream_close_def)
  next
    case (Some xc)
    obtain x c where xc: "xc = (x, c)" by force
    obtain f s1 where f: "get_send_flags (s\<lparr>s_state := x\<rparr>) = (f, s1)" by force
    have le: "stage (s_state s) \<le> stage (s_state s1)"
      using stage_close [of "s_state s" x c] stage_send [OF f] Some xc by simp
    from assms s Some xc f obtain st1 where st1: "put_strm l s1 st = Some st1"
      "(let st2 = tcp_mux_send_win_update (f OR FIN) (s_id s1) 0 st1 in
        if \<not> c then st' = st2 else del_proxy_client_by_stream_id (s_id s1) st2 = Some st')"
      by (auto simp: tmux_stream_close_def Let_def bind_eq_Some_conv simp del: get_send_flags.simps split: if_splits)
    have "progress st (tcp_mux_send_win_update (f OR FIN) (s_id s1) 0 st1)"
      by (rule progress_same [OF put_progress [OF s st1(1) le] send_win_update_same])
    then show ?thesis using st1(2) progress_del by (auto simp: Let_def split: if_splits)
  qed
qed

lemma tmux_stream_write_progress:
  assumes "tmux_stream_write src l st = Some (r, src', st')"
  shows "progress st st'"
proof -
  from assms obtain s where s: "get_strm st l = Some s" by (auto simp: tmux_stream_write_def bind_eq_Some_conv)
  obtain f s1 where f: "get_send_flags s = (f, s1)" by force
  have eq: "progress st st2" if "put_strm l s1 st = Some st1" "same_objects st1 st2" for st1 st2
    using that put_progress [OF s _ stage_send [OF f]] progress_same by blast
  have eq2: "progress st st3" if "put_strm l s1 st = Some st1" "same_objects st1 st2"
    "put_strm l (s1\<lparr>s_send_window := w\<rparr>) st2 = Some st3" for st1 st2 st3 w
  proof -
    have "get_strm st3 k = (if k = l then Some (s1\<lparr>s_send_window := w\<rparr>) else get_strm st k)" for k
      using put_strm_get [OF that(3)] put_strm_get [OF that(1)] same_objects_get_strm [OF that(2)] by auto
    then show ?thesis using s stage_send [OF f] by (auto simp: progress_def)
  qed
  note w1 = ctl_write_same and w2 = same_objects_trans [OF ctl_write_same ctl_write_same]
  show ?thesis
    using assms s f w1 w2 eq [OF _ same_objects_refl] eq [OF _ w1] eq [OF _ w2] eq2 [OF _ w2]
    by (auto simp: tmux_stream_write_def Let_def bind_eq_Some_conv split_beta simp del: get_send_flags.simps split: if_splits)
qed

text \<open>C16. The closing handshake ends in a full clean-up, in both orders: from an open stream of a
  client, a local close followed by the peer's FIN, or the peer's FIN followed by a local close, removes
  the stream from the table, frees the client, and leaves no dangling entry.\<close>

theorem close_handshake_frees:
  assumes "mux_ok st" "heap st a = Some pc" "s_state (pc_stream pc) \<in> {TMUX_SYN_SEND, TMUX_SYN_RECEIVED, TMUX_ESTABLISHED}"
    and "pc_stream_id pc = sid" "sid \<noteq> 0" "get_proxy_client sid st = Some a"
  shows "(\<exists>st1 st2. tmux_stream_close (PcLoc a) st = Some (1, st1) \<and>
      process_flags FIN (PcLoc a) st1 = Some (True, st2) \<and> heap st2 a = None \<and> all_stream st2 sid = None \<and> mux_ok st2) \<and>
    (\<exists>st1 st2. process_flags FIN (PcLoc a) st = Some (True, st1) \<and>
      tmux_stream_close (PcLoc a) st1 = Some (0, st2) \<and> heap st2 a = None \<and> all_stream st2 sid = None \<and> mux_ok st2)"
proof -
  have s: "get_strm st (PcLoc a) = Some (pc_stream pc)" using assms(2) by (simp add: get_strm_def)
  have id: "s_id (pc_stream pc) = sid" using assms(1,2,4) unfolding mux_ok_def by blast
  have sok: "strm_ok (pc_stream pc)" using assms(1) s by (rule mux_ok_strm)
  have put: "\<exists>st1. put_strm (PcLoc a) ((pc_stream pc)\<lparr>s_state := x\<rparr>) st = Some st1 \<and> mux_ok st1 \<and>
      get_strm st1 (PcLoc a) = Some ((pc_stream pc)\<lparr>s_state := x\<rparr>) \<and> all_pc st1 = all_pc st" for x
    by (rule put_strm_ok [OF assms(1) s, of "(pc_stream pc)\<lparr>s_state := x\<rparr>"]) (use sok in auto)
  have del: "\<exists>st2. del_proxy_client_by_stream_id sid st1 = Some st2 \<and> heap st2 a = None \<and> all_stream st2 sid = None \<and> mux_ok st2"
    if "mux_ok st1" "all_pc st1 = all_pc st" for st1
    by (rule del_client_ok [OF that(1), of sid]) (use that(2) assms(5,6) in \<open>auto simp: get_proxy_client_def\<close>)
  have sw: "mux_ok (tcp_mux_send_win_update f i d st1) = mux_ok st1"
    "get_strm (tcp_mux_send_win_update f i d st1) = get_strm st1" "all_pc (tcp_mux_send_win_update f i d st1) = all_pc st1" for f i d st1
    using same_objects_mux_ok [OF send_win_update_same] same_objects_get_strm [OF send_win_update_same]
      same_objects_fields [OF send_win_update_same] by blast+
  have fin: "fin_outcome FIN (ack_transition FIN x) = fin_transition x" "rst_outcome FIN x c = (x, c)" for x c
    by (simp_all add: fin_outcome_def ack_transition_def rst_outcome_def)
  have tr: "close_transition (s_state (pc_stream pc)) = Some (TMUX_LOCAL_CLOSE, False)"
    "fin_transition (s_state (pc_stream pc)) = Fin_to TMUX_REMOTE_CLOSE False" using assms(3) by auto
  have first: "\<exists>st1 st2. tmux_stream_close (PcLoc a) st = Some (1, st1) \<and>
      process_flags FIN (PcLoc a) st1 = Some (True, st2) \<and> heap st2 a = None \<and> all_stream st2 sid = None \<and> mux_ok st2"
  proof -
    obtain st1 where st1: "put_strm (PcLoc a) ((pc_stream pc)\<lparr>s_state := TMUX_LOCAL_CLOSE\<rparr>) st = Some st1" "mux_ok st1"
      "get_strm st1 (PcLoc a) = Some ((pc_stream pc)\<lparr>s_state := TMUX_LOCAL_CLOSE\<rparr>)" "all_pc st1 = all_pc st"
      using put by blast
    let ?st1 = "tcp_mux_send_win_update FIN sid 0 st1"
    have c: "tmux_stream_close (PcLoc a) st = Some (1, ?st1)" using s tr st1 id by (simp add: tmux_stream_close_def)
    have g: "get_strm ?st1 (PcLoc a) = Some ((pc_stream pc)\<lparr>s_state := TMUX_LOCAL_CLOSE\<rparr>)" "mux_ok ?st1"
      using st1 by (simp_all add: sw)
    have sok1: "strm_ok ((pc_stream pc)\<lparr>s_state := TMUX_CLOSED\<rparr>)" using sok by simp
    obtain st2 where st2: "put_strm (PcLoc a) ((pc_stream pc)\<lparr>s_state := TMUX_CLOSED\<rparr>) ?st1 = Some st2" "mux_ok st2"
      "all_pc st2 = all_pc st"
      by (rule put_strm_ok [OF g(2,1) _ sok1]) (use st1 sw in auto)
    obtain st3 where "del_proxy_client_by_stream_id sid st2 = Some st3" "heap st3 a = None" "all_stream st3 sid = None" "mux_ok st3"
      using del [OF st2(2,3)] by blast
    then show ?thesis
      using c st2 id process_flags_to [OF g(1), of FIN TMUX_CLOSED True TMUX_CLOSED True] by (simp add: fin)
  qed
  have second: "\<exists>st1 st2. process_flags FIN (PcLoc a) st = Some (True, st1) \<and>
      tmux_stream_close (PcLoc a) st1 = Some (0, st2) \<and> heap st2 a = None \<and> all_stream st2 sid = None \<and> mux_ok st2"
  proof -
    obtain st1 where st1: "put_strm (PcLoc a) ((pc_stream pc)\<lparr>s_state := TMUX_REMOTE_CLOSE\<rparr>) st = Some st1" "mux_ok st1"
      "get_strm st1 (PcLoc a) = Some ((pc_stream pc)\<lparr>s_state := TMUX_REMOTE_CLOSE\<rparr>)" "all_pc st1 = all_pc st"
      using put by blast
    have f: "process_flags FIN (PcLoc a) st = Some (True, st1)"
      using st1 process_flags_to [OF s, of FIN TMUX_REMOTE_CLOSE False TMUX_REMOTE_CLOSE False] by (simp add: fin tr)
    have sok1: "strm_ok ((pc_stream pc)\<lparr>s_state := TMUX_CLOSED\<rparr>)" using sok by simp
    obtain st2 where st2: "put_strm (PcLoc a) ((pc_stream pc)\<lparr>s_state := TMUX_CLOSED\<rparr>) st1 = Some st2" "mux_ok st2"
      "all_pc st2 = all_pc st"
      by (rule put_strm_ok [OF st1(2,3) _ sok1]) (use st1 in auto)
    obtain st3 where "del_proxy_client_by_stream_id sid (tcp_mux_send_win_update FIN sid 0 st2) = Some st3"
      "heap st3 a = None" "all_stream st3 sid = None" "mux_ok st3"
      using del [of "tcp_mux_send_win_update FIN sid 0 st2"] st2 by (auto simp: sw)
    then show ?thesis using f st1 st2 id by (simp add: tmux_stream_close_def)
  qed
  from first second show ?thesis by blast
qed

theorem close_handshake_frees_witness:
  "\<exists>st1 st2. tmux_stream_close (PcLoc 0) demo_mux = Some (1, st1) \<and>
      process_flags FIN (PcLoc 0) st1 = Some (True, st2) \<and> heap st2 0 = None \<and> all_stream st2 3 = None \<and> mux_ok st2"
proof -
  have h: "heap demo_mux 0 = Some demo_client" "get_proxy_client 3 demo_mux = Some 0"
    by (simp_all add: demo_mux_def get_proxy_client_def)
  have c: "s_state (pc_stream demo_client) \<in> {TMUX_SYN_SEND, TMUX_SYN_RECEIVED, TMUX_ESTABLISHED}" "pc_stream_id demo_client = 3"
    by (simp_all add: demo_client_def)
  show ?thesis using close_handshake_frees [OF demo_mux_ok h(1) c _ h(2)] by simp
qed

fun next_ids :: "nat \<Rightarrow> mux \<Rightarrow> u32 list \<times> mux" where
  "next_ids 0 st = ([], st)"
| "next_ids (Suc n) st = (let (i, st) = get_next_session_id st; (is, st) = next_ids n st in (i # is, st))"

lemma next_ids_eq: "fst (next_ids n st) = map (\<lambda>k. g_session_id st + 2 * of_nat k) [0..<n]"
proof (induction n arbitrary: st)
  case (Suc n)
  have "map (\<lambda>k. f k) [0..<Suc n] = f 0 # map (\<lambda>k. f (Suc k)) [0..<n]" for f :: "nat \<Rightarrow> u32"
    by (simp add: map_Suc_upt [symmetric] upt_conv_Cons comp_def del: upt_Suc map_Suc_upt)
  then show ?case by (simp add: get_next_session_id_def Suc split_beta algebra_simps del: upt_Suc)
qed simp

text \<open>Session identifiers: from a reset on, the next 2^31 identifiers handed out are the odd
  numbers 1, 3, 5, ...: none is 0 and no two are equal.\<close>

theorem session_ids_distinct:
  assumes "n \<le> 2 ^ 31"
  shows "distinct (fst (next_ids n (reset_session_id st))) \<and> 0 \<notin> set (fst (next_ids n (reset_session_id st)))"
proof -
  have u: "unat (1 + 2 * of_nat k :: u32) = 1 + 2 * k" if "k < 2 ^ 31" for k
  proof -
    have "(1 + 2 * of_nat k :: u32) = of_nat (1 + 2 * k)" by simp
    then show ?thesis using that unat_of_nat_u32 [of "1 + 2 * k"] by simp
  qed
  have "inj_on (\<lambda>k. 1 + 2 * of_nat k :: u32) (set [0..<n])"
  proof (rule inj_onI)
    fix x y assume xy: "x \<in> set [0..<n]" "y \<in> set [0..<n]" "(1 + 2 * of_nat x :: u32) = 1 + 2 * of_nat y"
    then have "x < 2 ^ 31" "y < 2 ^ 31" using assms by simp_all
    with xy(3) u show "x = y" by (metis add_left_cancel mult_left_cancel zero_neq_numeral)
  qed
  moreover have "0 \<notin> (\<lambda>k. 1 + 2 * of_nat k :: u32) ` set [0..<n]"
  proof
    assume "0 \<in> (\<lambda>k. 1 + 2 * of_nat k :: u32) ` set [0..<n]"
    then obtain k where k: "k < n" "(1 + 2 * of_nat k :: u32) = 0" by auto
    then have "k < 2 ^ 31" using assms by simp
    with k show False using u [of k] by simp
  qed
  ultimately show ?thesis by (simp add: next_ids_eq reset_session_id_def distinct_map)
qed

theorem session_ids_distinct_witness:
  "distinct (fst (next_ids 3 (reset_session_id demo_mux))) \<and> 0 \<notin> set (fst (next_ids 3 (reset_session_id demo_mux)))"
  by (rule session_ids_distinct) simp

end
