(* ===== verification/Proxy_Base.thy ===== *)
theory Proxy_Base
  imports Tcpmux
begin

text \<open>
  What the proxy callbacks of \<open>proxy_tcp.c\<close> and \<open>client.c\<close> share: the environment they run in, moving
  bytes between buffers, sending a short reply to the server, and the loop that writes a whole buffer
  to a stream until it is empty, the window is used up or an error occurs.
\<close>

section \<open>Environment and buffers\<close>

text \<open>The libraries below, the parts of the configuration the data path reads (token, whether the
  transport is QUIC, whether TLS is on, the address of the server), whether a name server and a numeric
  address are there, whether an attempt to reach an endpoint made at a given time succeeds, and the
  random bytes drawn at a given time.\<close>

record env =
  e_mbedtls :: mbedtls
  e_snappy :: "snappy option"
  e_token :: "bytes option"
  e_quic :: bool
  e_tls :: bool
  e_server :: "string \<times> int"
  e_dns :: bool
  e_is_ip :: "string \<Rightarrow> bool"
  e_connect :: "nat \<Rightarrow> endpoint \<Rightarrow> bool"
  e_rand :: "nat \<Rightarrow> bytes option"

definition connects :: "env \<Rightarrow> endpoint \<Rightarrow> mux \<Rightarrow> bool \<times> mux" where
  "connects env p st = (e_connect env (tick st) p, st\<lparr>tick := Suc (tick st)\<rparr>)"

definition new_bev :: "endpoint \<Rightarrow> local_bev" where
  "new_bev p = \<lparr>lb_peer = p, lb_in = [], lb_out = [], lb_reading = True\<rparr>"

definition connect_to :: "env \<Rightarrow> endpoint \<Rightarrow> mux \<Rightarrow> local_bev option \<times> mux" where
  "connect_to env p st = (let (c, st) = connects env p st in (if c then Some (new_bev p) else None, st))"

definition connect_server :: "env \<Rightarrow> string option \<Rightarrow> int \<Rightarrow> mux \<Rightarrow> local_bev option \<times> mux" where
  "connect_server env name port st =
     (case name of
        None \<Rightarrow> (None, st)
      | Some n \<Rightarrow>
          if port \<le> 0 then (None, st)
          else if e_quic env \<and> (n, port) = e_server env then connect_to env Quic_stream st
          else let (ok, st) = alloc st in
          if \<not> ok then (None, st)
          else if \<not> e_is_ip env n \<and> \<not> e_dns env then (None, st)
          else case connect_to env (if e_is_ip env n then Addr_port n port else Name_port n port) st of
            (None, st) \<Rightarrow> (None, st)
          | (Some bev, st) \<Rightarrow>
              if e_tls env \<and> (n, port) = e_server env then connect_to env Tls_wrap st else (Some bev, st))"

text \<open>\<open>evbuffer_add\<close> on a buffer seen as a byte string: 0 and the bytes appended, or -1.\<close>

definition buf_add :: "bytes \<Rightarrow> bytes \<Rightarrow> mux \<Rightarrow> int \<times> bytes \<times> mux" where
  "buf_add buf d st = (let (ok, st) = alloc st in if ok then (0, buf @ d, st) else (-1, buf, st))"

text \<open>\<open>evbuffer_add_buffer\<close>: the result, the destination and the source.\<close>

definition buf_move :: "bytes \<Rightarrow> bytes \<Rightarrow> mux \<Rightarrow> bytes \<times> bytes \<times> mux" where
  "buf_move dst src st =
     (if src = [] then (dst, src, st)
      else let (ok, st) = alloc st in if ok then (dst @ src, [], st) else (dst, src, st))"

definition evbuffer_zc_transfer :: "bytes \<Rightarrow> bytes \<Rightarrow> u32 \<Rightarrow> mux \<Rightarrow> nat \<times> bytes \<times> bytes \<times> mux" where
  "evbuffer_zc_transfer src dst len st =
     (if len = 0 then (0, src, dst, st)
      else let n = min (unat len) (length src) in
        if n = 0 then (0, src, dst, st)
        else let (ok, st) = alloc st in
          if ok then (n, drop n src, dst @ take n src, st) else (0, src, dst, st))"

text \<open>\<open>realloc\<close> that succeeds or fails; fresh bytes are zero. No object has 2 GiB or more on a 32-bit target,
  such a request always fails.\<close>

definition oracle_realloc :: "bool \<Rightarrow> reallocator" where
  "oracle_realloc ok old n =
     (if ok \<and> n < 2 ^ 31 then Some (take (unat n) old @ replicate (unat n - length old) 0) else None)"

text \<open>\<open>socks5_buf_ensure\<close> and \<open>xdpi_buf_ensure\<close> differ in the initial capacity only.\<close>

definition buf_ensure :: "u32 \<Rightarrow> gbuf \<Rightarrow> u32 \<Rightarrow> mux \<Rightarrow> (int \<times> gbuf \<times> mux) option" where
  "buf_ensure init b need st =
     (if need \<le> gb_cap b then Some (0, b, st)
      else let (ok, st) = alloc st in do {
        (rc, b) \<leftarrow> gb_grow (oracle_realloc ok) (if gb_cap b = 0 then init else gb_cap b) need b;
        Some (rc, b, st)
      })"

definition upd_pc :: "nat \<Rightarrow> (proxy_client \<Rightarrow> proxy_client) \<Rightarrow> mux \<Rightarrow> mux option" where
  "upd_pc a f st = do { pc \<leftarrow> heap st a; put_pc a (f pc) st }"

text \<open>The reply idiom of \<open>handle_socks5\<close> and \<open>handle_post_connection_data\<close>: to the client's own
  connection, or through a temporary buffer to its stream; all results are ignored. \<open>c_conf\<close> is
  dereferenced.\<close>

definition proxy_reply :: "bytes \<Rightarrow> nat \<Rightarrow> mux \<Rightarrow> mux option" where
  "proxy_reply resp a st = do {
     v \<leftarrow> conf_tcp_mux st;
     if v = 0 then do {
       pc \<leftarrow> heap st a;
       (case pc_ctl_out pc of
          None \<Rightarrow> Some st
        | Some out \<Rightarrow>
            (let (rc, out, st) = buf_add out resp st in put_pc a (pc\<lparr>pc_ctl_out := Some out\<rparr>) st))
     }
     else
       (let (ok, st) = alloc st in
        if \<not> ok then Some st
        else let (rc, tmp, st) = buf_add [] resp st in do {
          (w, tmp, st) \<leftarrow> tmux_stream_write tmp (PcLoc a) st;
          Some st
        })
   }"

section \<open>Writing a whole buffer to a stream\<close>

lemma write_shrinks:
  assumes "tmux_stream_write src l st = Some (w, src', st')" "0 < w"
  shows "length src' < length src"
proof -
  have "src \<noteq> [] \<and> unat n \<noteq> 0" if "n \<noteq> 0" "of_nat (length src) \<noteq> (0 :: u32)" for n :: u32
    using that by (auto simp: unat_eq_0)
  then show ?thesis using assms
    by (auto simp: tmux_stream_write_def Let_def bind_eq_Some_conv split_beta simp del: get_send_flags.simps split: if_splits)
qed

text \<open>\<open>while (evbuffer_get_length(src) > 0)\<close> with \<open>tmux_stream_write\<close>: the last return value of the write
  (1 when the loop ended because nothing was left), the rest of the buffer, the state.\<close>

function mux_write_all :: "loc \<Rightarrow> bytes \<Rightarrow> mux \<Rightarrow> (int \<times> bytes \<times> mux) option" where
  "mux_write_all l src st =
     (if src = [] then Some (1, src, st)
      else case tmux_stream_write src l st of
        None \<Rightarrow> None
      | Some (w, src', st') \<Rightarrow> if w \<le> 0 then Some (w, src', st') else mux_write_all l src' st')"
  by auto
termination
  by (relation "measure (\<lambda>(l, src, st). length src)") (auto dest: write_shrinks)

declare mux_write_all.simps [simp del]

section \<open>What writing leaves alone\<close>

text \<open>Only streams, the output, the clock and the cached flag differ.\<close>

definition only_streams :: "mux \<Rightarrow> mux \<Rightarrow> bool" where
  "only_streams st st' \<longleftrightarrow> all_stream st' = all_stream st \<and> all_pc st' = all_pc st \<and> next_addr st' = next_addr st \<and>
     ctl_up st' = ctl_up st \<and> ctl_in st' = ctl_in st \<and> oom st' = oom st \<and> conf_tcp_mux st' = conf_tcp_mux st \<and>
     cur_stream st' = cur_stream st \<and> g_session_id st' = g_session_id st \<and>
     local_go_away st' = local_go_away st \<and> remote_go_away st' = remote_go_away st \<and>
     (\<forall>a. rel_option (\<lambda>pc pc'. \<exists>s. pc' = pc\<lparr>pc_stream := s\<rparr>) (heap st a) (heap st' a))"

lemma stream_put_self: "\<exists>s. pc\<lparr>pc_stream := t\<rparr> = pc\<lparr>pc_stream := s\<rparr>" "\<exists>s. pc = pc\<lparr>pc_stream := s\<rparr>" for pc :: proxy_client
  by (rule exI [of _ t], simp) (rule exI [of _ "pc_stream pc"], simp)

lemma stream_rel_refl [simp]: "rel_option (\<lambda>pc pc'. \<exists>s. pc' = pc\<lparr>pc_stream := s\<rparr>) x x" for x :: "proxy_client option"
  by (cases x) (auto intro: stream_put_self)

lemma only_streams_refl [simp]: "only_streams st st"
  by (simp add: only_streams_def)

lemma stream_rel_trans:
  "rel_option (\<lambda>pc pc'. \<exists>s. pc' = pc\<lparr>pc_stream := s\<rparr>) x y \<Longrightarrow> rel_option (\<lambda>pc pc'. \<exists>s. pc' = pc\<lparr>pc_stream := s\<rparr>) y z \<Longrightarrow>
     rel_option (\<lambda>pc pc'. \<exists>s. pc' = pc\<lparr>pc_stream := s\<rparr>) x z" for x y z :: "proxy_client option"
  by (cases x; cases y; cases z) (auto intro: stream_put_self)

lemma only_streams_trans: "only_streams a b \<Longrightarrow> only_streams b c \<Longrightarrow> only_streams a c"
  unfolding only_streams_def using stream_rel_trans by (metis (no_types, lifting))

lemma same_objects_only: "same_objects st st' \<Longrightarrow> only_streams st st'"
  by (auto simp: same_objects_def only_streams_def)

lemma put_strm_only: "put_strm l s st = Some st' \<Longrightarrow> only_streams st st'"
  by (auto simp: put_strm_def only_streams_def intro: stream_put_self split: loc.splits option.splits)

lemma write_only:
  assumes "tmux_stream_write src l st = Some (w, src', st')"
  shows "only_streams st st'"
proof -
  note sw = same_objects_only [OF ctl_write_same]
  have *: "only_streams st (snd (ctl_write d st1))" "only_streams st (snd (ctl_write e (snd (ctl_write d st1))))"
    if "put_strm l s st = Some st1" for s st1 d e
    using put_strm_only [OF that] sw only_streams_trans by blast+
  show ?thesis using assms *(1) *(2) put_strm_only only_streams_trans [OF *(2) put_strm_only]
    by (auto simp: tmux_stream_write_def Let_def bind_eq_Some_conv split_beta simp del: get_send_flags.simps split: if_splits)
qed

lemma mux_write_all_only: "mux_write_all l src st = Some (w, src', st') \<Longrightarrow> only_streams st st'"
proof (induction l src st rule: mux_write_all.induct)
  case (1 l src st)
  show ?case
  proof (cases "src = []")
    case True
    with 1(2) show ?thesis by (simp add: mux_write_all.simps)
  next
    case False
    then obtain v s1 st1 where w: "tmux_stream_write src l st = Some (v, s1, st1)"
      using 1(2) by (auto simp: mux_write_all.simps [of l src] split: option.splits)
    show ?thesis
      using 1(1) [OF False w refl refl] 1(2) w False write_only [OF w] only_streams_trans
      by (auto simp: mux_write_all.simps [of l src] split: if_splits)
  qed
qed

section \<open>What the loop sends\<close>

text \<open>The bytes of consecutive data frames; the first one carries the pending flags of the stream.\<close>

fun data_frames :: "u16 \<Rightarrow> u32 \<Rightarrow> bytes list \<Rightarrow> bytes" where
  "data_frames flags sid [] = []"
| "data_frames flags sid (c # cs) =
     [0, TMUX_DATA] @ be16 flags @ be32 sid @ be32 (of_nat (length c)) @ c @ data_frames 0 sid cs"

lemma send_flags_twice: "get_send_flags s = (f, s') \<Longrightarrow> fst (get_send_flags s') = 0 \<and> writable s' = writable s"
  by (auto simp: writable_def split: tcp_mux_state.splits)

lemma write_window_0:
  "get_strm st l = Some s \<Longrightarrow> writable s \<Longrightarrow> s_send_window s = 0 \<Longrightarrow> length src < 2 ^ 32 \<Longrightarrow>
     tmux_stream_write src l st = Some (0, src, st)"
  by (auto simp: tmux_stream_write_def writable_def Let_def)

definition frames_sent :: "u16 \<Rightarrow> u32 \<Rightarrow> bytes \<Rightarrow> bytes \<Rightarrow> bool" where
  "frames_sent flags sid data out \<longleftrightarrow>
     (\<exists>cs. concat cs = data \<and> (\<forall>c \<in> set cs. c \<noteq> [] \<and> length c \<le> 262144) \<and> out = data_frames flags sid cs)"

lemma frames_sent_Nil [simp]: "frames_sent flags sid [] []"
  unfolding frames_sent_def by (rule exI [of _ "[]"]) simp

lemma frames_sent_Cons:
  assumes "frames_sent 0 sid data out" "c \<noteq> []" "length c \<le> 262144"
  shows "frames_sent flags sid (c @ data)
    ([0, TMUX_DATA] @ be16 flags @ be32 sid @ be32 (of_nat (length c)) @ c @ out)"
proof -
  from assms(1) obtain cs where "concat cs = data" "\<forall>c \<in> set cs. c \<noteq> [] \<and> length c \<le> 262144" "out = data_frames 0 sid cs"
    unfolding frames_sent_def by blast
  then show ?thesis using assms(2,3) unfolding frames_sent_def by (intro exI [of _ "c # cs"]) simp
qed

text \<open>With memory and a connection, the loop sends as much as the window allows, in order, as frames
  within the frame limit; it stops with everything sent, or with the window used up.\<close>

lemma mux_write_all_sends:
  assumes "mux_ok st" "get_strm st l = Some s" "writable s" "length src < 2 ^ 32" "ctl_up st" "\<forall>n. \<not> oom st n"
  shows "\<exists>st' out s'. mux_write_all l src st =
      Some (if length src \<le> unat (s_send_window s) then 1 else 0, drop (unat (s_send_window s)) src, st') \<and>
    mux_ok st' \<and> get_strm st' l = Some s' \<and> s_id s' = s_id s \<and> writable s' \<and>
    unat (s_send_window s') = unat (s_send_window s) - length src \<and> ctl_out st' = ctl_out st @ out \<and>
    frames_sent (fst (get_send_flags s)) (s_id s) (take (unat (s_send_window s)) src) out"
  using assms
proof (induction "length src" arbitrary: src st s rule: less_induct)
  case less
  let ?w = "unat (s_send_window s)"
  consider (empty) "src = []" | (blocked) "src \<noteq> []" "s_send_window s = 0" | (go) "src \<noteq> []" "s_send_window s \<noteq> 0" by blast
  then show ?case
  proof cases
    case empty
    then show ?thesis using less.prems by (intro exI [of _ st] exI [of _ "[]"] exI [of _ s]) (simp add: mux_write_all.simps)
  next
    case blocked
    with write_window_0 [OF less.prems(2,3) blocked(2) less.prems(4)] less.prems show ?thesis
      by (intro exI [of _ st] exI [of _ "[]"] exI [of _ s]) (simp add: mux_write_all.simps)
  next
    case go
    let ?n = "write_size (length src) s"
    obtain f s0 where f: "get_send_flags s = (f, s0)" by force
    note k = get_send_flags_keeps [OF f] and k2 = send_flags_twice [OF f]
    have mem: "\<not> oom st (tick st)" "\<not> oom st (Suc (tick st))" using less.prems(6) by auto
    obtain st1 where st1: "tmux_stream_write src l st = Some (int ?n, drop ?n src, st1)"
      "ctl_out st1 = ctl_out st @ header_bytes (tcp_mux_encode TMUX_DATA (fst (get_send_flags s)) (s_id s) (of_nat ?n)) @ take ?n src"
      "get_strm st1 l = Some ((snd (get_send_flags s))\<lparr>s_send_window := s_send_window s - of_nat ?n\<rparr>)" "mux_ok st1"
      using write_sends [OF less.prems(1,2,3) go(1) less.prems(4) go(2) less.prems(5) mem] .
    let ?s1 = "s0\<lparr>s_send_window := s_send_window s - of_nat ?n\<rparr>"
    have n: "0 < ?n" "?n \<le> length src" "?n \<le> ?w" "?n \<le> 262144" using go by (auto simp: write_size_def unat_gt_0)
    have un: "unat (of_nat ?n :: u32) = ?n" using n(4) by (intro unat_of_nat_u32) simp
    have w1: "unat (s_send_window ?s1) = ?w - ?n" using n(3) un by (simp add: unat_sub_no_wrap le_u32_iff)
    have fl: "fst (get_send_flags ?s1) = 0" "writable ?s1" "s_id ?s1 = s_id s"
      using k k2 less.prems(3) by (auto simp: writable_def split: tcp_mux_state.splits)
    note o = write_only [OF st1(1), unfolded only_streams_def]
    have "length (drop ?n src) < length src" "length (drop ?n src) < 2 ^ 32" using n less.prems(4) by auto
    note small = this
    have g1: "get_strm st1 l = Some ?s1" by (simp only: st1(3) f snd_conv)
    have io1: "ctl_up st1" "\<forall>n. \<not> oom st1 n" using o less.prems(5,6) by auto
    obtain st' out s' where r: "mux_write_all l (drop ?n src) st1 =
        Some (if length (drop ?n src) \<le> ?w - ?n then 1 else 0, drop (?w - ?n) (drop ?n src), st')"
      "mux_ok st'" "get_strm st' l = Some s'" "s_id s' = s_id s" "writable s'"
      "unat (s_send_window s') = ?w - ?n - length (drop ?n src)" "ctl_out st' = ctl_out st1 @ out"
      "frames_sent 0 (s_id s) (take (?w - ?n) (drop ?n src)) out"
      using less.hyps [OF small(1) st1(4) g1 fl(2) small(2) io1, unfolded w1 fl] by blast
    have eq: "mux_write_all l src st = mux_write_all l (drop ?n src) st1"
      using st1(1) go(1) n(1) by (subst mux_write_all.simps) simp
    have tk: "take ?w src = take ?n src @ take (?w - ?n) (drop ?n src)"
      using n(3) by (metis le_add_diff_inverse take_add)
    have le: "length (drop ?n src) \<le> ?w - ?n \<longleftrightarrow> length src \<le> ?w" using n by auto
    have "frames_sent (fst (get_send_flags s)) (s_id s) (take ?n src @ take (?w - ?n) (drop ?n src))
      ([0, TMUX_DATA] @ be16 (fst (get_send_flags s)) @ be32 (s_id s) @ be32 (of_nat (length (take ?n src))) @ take ?n src @ out)"
      by (rule frames_sent_Cons [OF r(8)]) (use n go in auto)
    then have fs: "frames_sent (fst (get_send_flags s)) (s_id s) (take ?w src)
      ([0, TMUX_DATA] @ be16 (fst (get_send_flags s)) @ be32 (s_id s) @ be32 (of_nat ?n) @ take ?n src @ out)"
      using n tk by (simp del: get_send_flags.simps)
    have co: "ctl_out st' = ctl_out st @ ([0, TMUX_DATA] @ be16 (fst (get_send_flags s)) @ be32 (s_id s) @ be32 (of_nat ?n) @ take ?n src @ out)"
      using r(7) st1(2) by (simp add: header_bytes_encode del: get_send_flags.simps)
    have "drop (?w - ?n) (drop ?n src) = drop ?w src" "?w - ?n - length (drop ?n src) = ?w - length src" using n by simp_all
    then show ?thesis using eq r(1-6) co fs by (intro exI conjI) (assumption | simp only: le)+
  qed
qed

section \<open>Replies and updates keep the tables well formed\<close>

lemma tmux_stream_write_ok:
  assumes "mux_ok st" "get_strm st l = Some s" "length src < 2 ^ 32"
  obtains w src' st' where "tmux_stream_write src l st = Some (w, src', st')" "mux_ok st'"
proof -
  consider "\<not> writable s" | "writable s" "src = [] \<or> s_send_window s = 0"
    | "writable s" "src \<noteq> []" "s_send_window s \<noteq> 0" "ctl_up st \<and> \<not> oom st (tick st) \<and> \<not> oom st (Suc (tick st))"
    | "writable s" "src \<noteq> []" "s_send_window s \<noteq> 0" "\<not> ctl_up st \<or> oom st (tick st) \<or> oom st (Suc (tick st))"
    by blast
  then show thesis
  proof cases
    case 1
    with assms show thesis by (intro that [of "-1" src st]) (auto simp: tmux_stream_write_def writable_def)
  next
    case 2
    with assms show thesis by (intro that [of 0 src st]) (auto simp: tmux_stream_write_def writable_def Let_def)
  next
    case 3
    with write_sends [OF assms(1,2) 3(1,2) assms(3) 3(3)] that show thesis by blast
  next
    case 4
    with write_fails [OF assms(1,2) 4(1,2) assms(3) 4(3)] that show thesis by blast
  qed
qed

lemma put_pc_ok:
  assumes "mux_ok st" "heap st a = Some pc" "pc_stream pc' = pc_stream pc" "pc_stream_id pc' = pc_stream_id pc"
  shows "put_pc a pc' st = Some (st\<lparr>heap := (heap st)(a \<mapsto> pc')\<rparr>)" "mux_ok (st\<lparr>heap := (heap st)(a \<mapsto> pc')\<rparr>)"
proof -
  show "put_pc a pc' st = Some (st\<lparr>heap := (heap st)(a \<mapsto> pc')\<rparr>)" using assms(2) by (simp add: put_pc_def)
  have g: "get_strm (st\<lparr>heap := (heap st)(a \<mapsto> pc')\<rparr>) = get_strm st"
    using assms(2,3) by (auto simp: get_strm_def fun_eq_iff split: loc.splits)
  show "mux_ok (st\<lparr>heap := (heap st)(a \<mapsto> pc')\<rparr>)"
    using assms unfolding mux_ok_def g by (auto split: if_splits)
qed

text \<open>A reply touches the stream and the connection of the client, nothing else of it.\<close>

lemma proxy_reply_ok:
  assumes ok: "mux_ok st" and h: "heap st a = Some pc" and v: "conf_tcp_mux st = Some v" and len: "length resp < 2 ^ 32"
  obtains st' s out where "proxy_reply resp a st = Some st'" "mux_ok st'" "heap st' a = Some (pc\<lparr>pc_stream := s, pc_ctl_out := out\<rparr>)"
    "oom st' = oom st" "conf_tcp_mux st' = Some v" "ctl_up st' = ctl_up st" "cur_stream st' = cur_stream st"
    "all_stream st' = all_stream st" "all_pc st' = all_pc st" "ctl_in st' = ctl_in st"
proof (cases "v = 0")
  case True
  show thesis
  proof (cases "pc_ctl_out pc")
    case None
    with True v h ok show thesis by (intro that [where st' = st and s = "pc_stream pc" and out = None]) (simp_all add: proxy_reply_def)
  next
    case (Some out)
    obtain rc out' st1 where b: "buf_add out resp st = (rc, out', st1)" by (metis prod.exhaust)
    then have st1: "st1 = st\<lparr>tick := Suc (tick st)\<rparr>" by (auto simp: buf_add_def alloc_def Let_def split: if_splits)
    have "mux_ok st1" "heap st1 a = Some pc" using ok h st1 by simp_all
    note p = put_pc_ok [OF this, of "pc\<lparr>pc_ctl_out := Some out'\<rparr>"]
    show thesis using True v h Some b p st1
      by (intro that [where st' = "st1\<lparr>heap := (heap st1)(a \<mapsto> pc\<lparr>pc_ctl_out := Some out'\<rparr>)\<rparr>" and s = "pc_stream pc" and out = "Some out'"])
         (simp_all add: proxy_reply_def)
  qed
next
  case False
  obtain m st1 where a: "alloc st = (m, st1)" by force
  then have st1: "st1 = st\<lparr>tick := Suc (tick st)\<rparr>" by (simp add: alloc_def)
  obtain rc tmp st2 where b: "buf_add [] resp st1 = (rc, tmp, st2)" by (metis prod.exhaust)
  then have st2: "st2 = st1\<lparr>tick := Suc (tick st1)\<rparr>" "tmp = resp \<or> tmp = []"
    by (auto simp: buf_add_def alloc_def Let_def split: if_splits)
  have ok2: "mux_ok st2" "get_strm st2 (PcLoc a) = Some (pc_stream pc)" "length tmp < 2 ^ 32"
    using ok h st1 st2 len by (auto simp: get_strm_def)
  obtain w tmp' st3 where w: "tmux_stream_write tmp (PcLoc a) st2 = Some (w, tmp', st3)" "mux_ok st3"
    using tmux_stream_write_ok [OF ok2] .
  note o = write_only [OF w(1), unfolded only_streams_def]
  then obtain s where s: "heap st3 a = Some (pc\<lparr>pc_stream := s\<rparr>)" using h st1 st2 by (auto elim!: allE [of _ a] elim: option.rel_cases)
  have same: "\<exists>s out. heap st1 a = Some (pc\<lparr>pc_stream := s, pc_ctl_out := out\<rparr>)" "\<exists>s out. heap st3 a = Some (pc\<lparr>pc_stream := s, pc_ctl_out := out\<rparr>)"
  proof -
    show "\<exists>s out. heap st1 a = Some (pc\<lparr>pc_stream := s, pc_ctl_out := out\<rparr>)"
      using h st1 by (intro exI [of _ "pc_stream pc"] exI [of _ "pc_ctl_out pc"]) simp
    show "\<exists>s out. heap st3 a = Some (pc\<lparr>pc_stream := s, pc_ctl_out := out\<rparr>)"
      using s by (intro exI [of _ s] exI [of _ "pc_ctl_out pc"]) simp
  qed
  show thesis
  proof (cases m)
    case True
    then have r: "proxy_reply resp a st = Some st3" using False v a b w by (simp add: proxy_reply_def)
    from same(2) obtain s out where "heap st3 a = Some (pc\<lparr>pc_stream := s, pc_ctl_out := out\<rparr>)" by blast
    from that [OF r w(2) this] o st1 st2 v show thesis by simp
  next
    case m: False
    then have r: "proxy_reply resp a st = Some st1" using False v a by (simp add: proxy_reply_def)
    from same(1) obtain s out where "heap st1 a = Some (pc\<lparr>pc_stream := s, pc_ctl_out := out\<rparr>)" by blast
    from that [OF r _ this] ok st1 v show thesis by simp
  qed
qed

section \<open>Staging buffers\<close>

lemma oracle_realloc_spec [simp]: "realloc_spec (oracle_realloc ok)"
  by (auto simp: realloc_spec_def oracle_realloc_def min_def split: if_splits)

text \<open>A staging buffer: consistent, and of a size that can exist.\<close>

definition buf_ok :: "gbuf \<Rightarrow> bool" where
  "buf_ok b \<longleftrightarrow> gb_ok b \<and> unat (gb_cap b) \<le> 2 ^ 30"

lemma buf_ok_gb: "buf_ok b \<Longrightarrow> gb_ok b"
  by (simp add: buf_ok_def)

lemma buf_ok_empty [simp]: "buf_ok gb_empty"
  by (simp add: buf_ok_def gb_empty_def gb_ok_def)

lemma buf_cap_pow2:
  assumes "buf_ok b" "unat init = 2 ^ k" "k \<le> 30"
  obtains j where "unat (if gb_cap b = 0 then init else gb_cap b) = 2 ^ j" "j \<le> 30"
proof (cases "gb_cap b = 0")
  case True
  with assms that show thesis by simp
next
  case False
  then obtain j where j: "unat (gb_cap b) = 2 ^ j" using assms(1) gb_cap_positive_pow2 by (auto simp: buf_ok_def)
  then have "(2::nat) ^ j \<le> 2 ^ 30" using assms(1) by (simp add: buf_ok_def)
  then have "j \<le> 30" by (rule power_le_imp_le_exp [rotated]) simp
  with that j False show thesis by simp
qed

lemma buf_ensure_ok:
  assumes "buf_ok b" "unat need \<le> 2 ^ 31" "unat init = 2 ^ k" "k \<le> 30"
  obtains (fits) b' where "buf_ensure init b need st = Some (0, b', st)" "buf_ok b'" "content b' = content b" "need \<le> gb_cap b'"
  | (grown) b' where "buf_ensure init b need st = Some (0, b', snd (alloc st))" "buf_ok b'" "content b' = content b" "need \<le> gb_cap b'"
  | (failed) "buf_ensure init b need st = Some (-1, b, snd (alloc st))" "oom st (tick st) \<or> 2 ^ 30 < unat need"
proof (cases "need \<le> gb_cap b")
  case True
  then show thesis using assms(1) by (intro fits [of b]) (simp_all add: buf_ensure_def)
next
  case False
  let ?start = "if gb_cap b = 0 then init else gb_cap b" and ?m = "if unat need \<le> 2 ^ 30 then 30 else 31 :: nat"
  obtain j where j: "unat ?start = 2 ^ j" "j \<le> ?m" by (rule buf_cap_pow2 [OF assms(1,3,4)]) auto
  have le: "gb_cap b \<le> need" "unat need \<le> 2 ^ ?m" "?m \<le> 31" using False assms(2) by auto
  show thesis
  proof (cases rule: gb_grow_bounded [OF buf_ok_gb [OF assms(1)] oracle_realloc_spec j le(3) le(2,1), of "\<not> oom st (tick st)"])
    case (1 b')
    have small: "gb_cap b' < 2 ^ 31" using 1(6) by (auto simp: oracle_realloc_def split: if_splits)
    obtain i where i: "unat (gb_cap b') = 2 ^ i" using gb_cap_positive_pow2 [OF 1(2)] False 1(4) by fastforce
    have "unat (gb_cap b') < 2 ^ 31" using small by (simp add: less_u32_iff)
    then have "(2::nat) ^ i < 2 ^ 31" by (simp add: i)
    then have "i < 31" by (rule power_less_imp_less_exp [rotated]) simp
    then have "(2::nat) ^ i \<le> 2 ^ 30" by (intro power_increasing) simp_all
    then have "buf_ok b'" using 1(2) by (simp add: buf_ok_def i)
    with 1 False show thesis by (intro grown [of b']) (simp_all add: buf_ensure_def alloc_def)
  next
    case (2 n)
    have "oom st (tick st) \<or> 2 ^ 30 < unat need" using 2(2,3) by (auto simp: oracle_realloc_def less_u32_iff split: if_splits)
    with 2 False show thesis by (intro failed) (simp_all add: buf_ensure_def alloc_def)
  qed
qed

lemma stage_bytes:
  assumes "gb_ok b" "length (content b) + length d \<le> 2 ^ 31" "gb_len b + of_nat (length d) \<le> gb_cap b"
  obtains b' where "gb_put b d = Some b'" "gb_ok b'" "content b' = content b @ d"
proof -
  have "length (content b) + length d \<le> unat (gb_cap b)"
    using assms unat_len_plus [of "gb_len b" "length d"] by (simp add: length_content le_u32_iff)
  from gb_put_correct [OF assms(1) this assms(2)] that show thesis .
qed

lemma gb_len_0: "buf_ok b \<Longrightarrow> gb_len b = 0 \<longleftrightarrow> content b = []"
  using length_content [OF buf_ok_gb, of b] by (auto simp: unat_eq_zero)

lemma gb_reset: "buf_ok b \<Longrightarrow> buf_ok (b\<lparr>gb_len := 0\<rparr>) \<and> content (b\<lparr>gb_len := 0\<rparr>) = []"
  by (simp add: gb_ok_def buf_ok_def content_def)

lemma buf_drop_staged:
  assumes "buf_ok b" "unat n \<le> length (content b)"
  obtains b' where "buf_drop n b = Some b'" "buf_ok b'" "content b' = drop (unat n) (content b)"
proof -
  obtain b' where b': "buf_drop n b = Some b'" "gb_ok b'" "content b' = drop (unat n) (content b)"
    by (rule buf_drop_correct [OF buf_ok_gb [OF assms(1)] assms(2)])
  moreover have "gb_cap b' = gb_cap b" using b'(1) by (auto simp: buf_drop_def split: if_splits bind_splits)
  ultimately show thesis using assms(1) that by (simp add: buf_ok_def)
qed

text \<open>Making room and reading a chunk into the staging buffer.\<close>

lemma ensure_put_ok:
  assumes gb: "buf_ok b0" and fits: "length (content b0) + length c \<le> 2 ^ 30" and mem: "\<not> oom st (tick st)"
    and init: "unat init = 2 ^ k" "k \<le> 30"
  obtains b b' n where "buf_ensure init b0 (gb_len b0 + of_nat (length c)) st = Some (0, b, st\<lparr>tick := n\<rparr>)"
    "gb_put b c = Some b'" "buf_ok b'" "content b' = content b0 @ c"
proof -
  let ?need = "gb_len b0 + of_nat (length c)"
  have need: "unat ?need \<le> 2 ^ 30" using fits buf_ok_gb [OF gb] unat_len_plus [of "gb_len b0" "length c"] by (simp add: length_content)
  have need31: "unat ?need \<le> 2 ^ 31" using need by simp
  have "\<exists>b n. buf_ensure init b0 ?need st = Some (0, b, st\<lparr>tick := n\<rparr>) \<and> buf_ok b \<and> content b = content b0 \<and> ?need \<le> gb_cap b"
  proof (cases rule: buf_ensure_ok [OF gb need31 init, of st])
    case (1 b')
    then show ?thesis by (intro exI [of _ b'] exI [of _ "tick st"]) simp
  next
    case (2 b')
    then show ?thesis by (intro exI [of _ b'] exI [of _ "Suc (tick st)"]) (simp add: alloc_def)
  qed (use mem need in auto)
  then obtain b n where b: "buf_ensure init b0 ?need st = Some (0, b, st\<lparr>tick := n\<rparr>)" "buf_ok b"
    "content b = content b0" "?need \<le> gb_cap b" by blast
  have "gb_len b = gb_len b0" using b(2,3) gb length_content [OF buf_ok_gb [OF b(2)]] length_content [OF buf_ok_gb [OF gb]] by (simp add: word_unat_eq_iff)
  then obtain b2 where "gb_put b c = Some b2" "gb_ok b2" "content b2 = content b0 @ c"
    using stage_bytes [OF buf_ok_gb [OF b(2)], of c] b(3,4) fits by auto
  moreover from this(1) have "buf_ok b2" using b(2) \<open>gb_ok b2\<close> by (auto simp: gb_put_def buf_ok_def split: bind_splits)
  ultimately show thesis using b(1) that by blast
qed

section \<open>An environment\<close>

text \<open>Memory and connections never fail; the ciphers are the ones of the demonstration library.\<close>

definition demo_env :: env where
  "demo_env = \<lparr>e_mbedtls = toy_mbedtls, e_snappy = None, e_token = None, e_quic = False, e_tls = False,
     e_server = ([], 0), e_dns = True, e_is_ip = \<lambda>s. True, e_connect = \<lambda>n p. True, e_rand = \<lambda>n. Some (replicate 16 7)\<rparr>"

end
