(* ===== verification/Proxy_Tcp.thy ===== *)
theory Proxy_Tcp
  imports Proxy_Base
begin

text \<open>
  Forwarding of proxy data, \<open>proxy_tcp.c\<close>: the encoding and decoding of encrypted and compressed
  data, the callback for data of the local service (\<open>tcp_proxy_c2s_cb\<close>), which keeps ciphertext that
  did not fit into the window, and the callback for data of the server on a connection of its own
  (\<open>tcp_proxy_s2c_cb\<close>).
\<close>

section \<open>Encoding and decoding\<close>

text \<open>The compressed data, \<open>None\<close> when it is not wanted or not to be had.\<close>

definition compress_data :: "env \<Rightarrow> proxy_client \<Rightarrow> bytes \<Rightarrow> mux \<Rightarrow> (bytes option \<times> mux) option" where
  "compress_data env pc data st =
     (if \<not> pc_use_compression pc then Some (None, st)
      else let max_comp = xfrpc_max_compressed_length (e_snappy env) (of_nat (length data)) in
        if max_comp = 0 then Some (None, st)
        else let (ok, st) = alloc st in
        if \<not> ok then Some (None, st)
        else let (ok, st) = alloc st in do {
          (rc, out, n) \<leftarrow> xfrpc_compress (e_snappy env) ok data (replicate (unat max_comp) 0);
          Some (if rc = 0 then Some (take (unat n) out) else None, st)
        })"

text \<open>The IV in front of the first ciphertext, then the encryption in place, whose result is ignored.
  The IV of a reading context is not defined.\<close>

definition encrypt_data_step :: "env \<Rightarrow> proxy_client \<Rightarrow> bytes \<Rightarrow> bytes \<Rightarrow> mux \<Rightarrow> (proxy_client \<times> bytes \<times> bytes \<times> mux) option" where
  "encrypt_data_step env pc dst work st =
     (case (pc_use_encryption pc, pc_encrypt_ctx pc) of
        (True, Some ctx) \<Rightarrow> do {
          (ctx, dst, st) \<leftarrow>
            (if crypto_writer_iv_sent ctx then Some (ctx, dst, st)
             else do {
               iv \<leftarrow> crypto_get_iv ctx;
               (let (rc, dst, st) = buf_add dst iv st in Some (crypto_writer_set_iv_sent ctx, dst, st))
             });
          (let (rc, ctx, work) = crypto_encrypt (e_mbedtls env) ctx work in
           Some (pc\<lparr>pc_encrypt_ctx := Some ctx\<rparr>, dst, work, st))
        }
      | _ \<Rightarrow> Some (pc, dst, work, st))"

text \<open>Result: the client, what is left of the source, the destination, the state.\<close>

definition crypto_encode_evbuffer ::
  "env \<Rightarrow> proxy_client \<Rightarrow> bytes \<Rightarrow> bytes \<Rightarrow> mux \<Rightarrow> (proxy_client \<times> bytes \<times> bytes \<times> mux) option" where
  "crypto_encode_evbuffer env pc src dst st =
     (if src = [] then Some (pc, src, dst, st)
      else do {
        (comp, st) \<leftarrow> compress_data env pc src st;
        (pc, dst, work, st) \<leftarrow> encrypt_data_step env pc dst (case comp of Some c \<Rightarrow> c | None \<Rightarrow> src) st;
        (let (rc, dst, st) = buf_add dst work st in Some (pc, [], dst, st))
      })"

text \<open>The IV of the peer, read once; the last component is false when the caller returns here.\<close>

definition read_iv :: "env \<Rightarrow> proxy_client \<Rightarrow> bytes \<Rightarrow> proxy_client \<times> bytes \<times> bool" where
  "read_iv env pc src =
     (case (pc_use_encryption pc, pc_decrypt_ctx pc) of
        (True, Some ctx) \<Rightarrow>
          if crypto_reader_iv_received ctx then (pc, src, True)
          else if length src < 16 then (pc, src, False)
          else let (rc, ctx) = crypto_set_iv (e_mbedtls env) ctx (take 16 src) in
            (pc\<lparr>pc_decrypt_ctx := Some (crypto_reader_set_iv_received ctx)\<rparr>, drop 16 src, drop 16 src \<noteq> [])
      | _ \<Rightarrow> (pc, src, True))"

definition decrypt_data_step :: "env \<Rightarrow> proxy_client \<Rightarrow> bytes \<Rightarrow> proxy_client \<times> bytes" where
  "decrypt_data_step env pc work =
     (case (pc_use_encryption pc, pc_decrypt_ctx pc) of
        (True, Some ctx) \<Rightarrow>
          (let (rc, ctx, work) = crypto_decrypt (e_mbedtls env) ctx work in (pc\<lparr>pc_decrypt_ctx := Some ctx\<rparr>, work))
      | _ \<Rightarrow> (pc, work))"

text \<open>One attempt with a buffer of four times the size; \<open>len * 4\<close> is 32-bit arithmetic.\<close>

definition decompress_data :: "env \<Rightarrow> proxy_client \<Rightarrow> bytes \<Rightarrow> mux \<Rightarrow> (bytes option \<times> mux) option" where
  "decompress_data env pc work st =
     (if \<not> pc_use_compression pc then Some (None, st)
      else let (ok, st) = alloc st in
        if \<not> ok then Some (None, st)
        else do {
          (rc, out, n) \<leftarrow> xfrpc_decompress (e_snappy env) work (replicate (unat (of_nat (length work) * 4 :: u32)) 0);
          Some (if rc = 0 then Some (take (unat n) out) else None, st)
        })"

definition proxy_crypto_decode_evbuffer ::
  "env \<Rightarrow> proxy_client \<Rightarrow> bytes \<Rightarrow> bytes \<Rightarrow> mux \<Rightarrow> (proxy_client \<times> bytes \<times> bytes \<times> mux) option" where
  "proxy_crypto_decode_evbuffer env pc src dst st =
     (if src = [] then Some (pc, src, dst, st)
      else let (pc, src, go) = read_iv env pc src in
        if \<not> go then Some (pc, src, dst, st)
        else let (ok, st) = alloc st in
        if \<not> ok then Some (pc, src, dst, st)
        else let (pc, work) = decrypt_data_step env pc src in do {
          (plain, st) \<leftarrow> decompress_data env pc work st;
          (let (rc, dst, st) = buf_add dst (case plain of Some p \<Rightarrow> p | None \<Rightarrow> work) st in Some (pc, [], dst, st))
        })"

section \<open>The callbacks\<close>

text \<open>\<open>client->ctl_bev\<close> is not \<open>NULL\<close>: the connection of the main control with multiplexing, the client's
  own one without.\<close>

definition has_ctl_bev :: "int \<Rightarrow> proxy_client \<Rightarrow> mux \<Rightarrow> bool" where
  "has_ctl_bev v pc st = (if v = 0 then pc_ctl_out pc \<noteq> None else ctl_up st)"

text \<open>\<open>evbuffer_add_buffer\<close> to the output of the client's own connection; what was not moved is returned.\<close>

definition to_own_ctl :: "nat \<Rightarrow> bytes \<Rightarrow> mux \<Rightarrow> (bytes \<times> mux) option" where
  "to_own_ctl a src st = do {
     pc \<leftarrow> heap st a;
     out \<leftarrow> pc_ctl_out pc;
     (let (out, src, st) = buf_move out src st in do {
        st \<leftarrow> put_pc a (pc\<lparr>pc_ctl_out := Some out\<rparr>) st;
        Some (src, st)
      })
   }"

text \<open>Ciphertext that did not fit goes behind what is kept already; reading from the service stops.\<close>

definition stash_pending :: "nat \<Rightarrow> bytes \<Rightarrow> mux \<Rightarrow> mux option" where
  "stash_pending a rest st = do {
     pc \<leftarrow> heap st a;
     (let (pend, st) = (case pc_enc_pending pc of
          Some p \<Rightarrow> (Some p, st)
        | None \<Rightarrow> (let (ok, st) = alloc st in (if ok then Some [] else None, st)));
        (pend, st) = (case pend of
          None \<Rightarrow> (None, st)
        | Some p \<Rightarrow> (let (p, rest, st) = buf_move p rest st in (Some p, st))) in
      put_pc a (pc\<lparr>pc_enc_pending := pend,
        pc_local := map_option (\<lambda>lb. lb\<lparr>lb_reading := False\<rparr>) (pc_local pc)\<rparr>) st)
   }"

text \<open>What was kept goes first.\<close>

definition take_pending :: "proxy_client \<Rightarrow> mux \<Rightarrow> bytes \<times> proxy_client \<times> mux" where
  "take_pending pc st =
     (case pc_enc_pending pc of
        None \<Rightarrow> ([], pc, st)
      | Some p \<Rightarrow> (let (d, p, st) = buf_move [] p st in (d, pc\<lparr>pc_enc_pending := Some p\<rparr>, st)))"

definition drop_client :: "nat \<Rightarrow> mux \<Rightarrow> mux option" where
  "drop_client a st = do { pc \<leftarrow> heap st a; del_proxy_client_by_stream_id (s_id (pc_stream pc)) st }"

definition c2s_encoded :: "env \<Rightarrow> nat \<Rightarrow> int \<Rightarrow> proxy_client \<Rightarrow> local_bev \<Rightarrow> mux \<Rightarrow> mux option" where
  "c2s_encoded env a v pc lb st =
     (let (ok, st) = alloc st in
      if \<not> ok then Some st
      else let (processed, pc, st) = take_pending pc st in do {
        (pc, src, processed, st) \<leftarrow> crypto_encode_evbuffer env pc (lb_in lb) processed st;
        st \<leftarrow> put_pc a (pc\<lparr>pc_local := Some (lb\<lparr>lb_in := src\<rparr>)\<rparr>) st;
        if v = 0 then do { (rest, st) \<leftarrow> to_own_ctl a processed st; Some st }
        else do {
          (w, rest, st) \<leftarrow> mux_write_all (PcLoc a) processed st;
          if w < 0 then drop_client a st
          else if w = 0 then stash_pending a rest st
          else Some st
        }
      })"

definition c2s_plain :: "nat \<Rightarrow> int \<Rightarrow> local_bev \<Rightarrow> mux \<Rightarrow> mux option" where
  "c2s_plain a v lb st =
     (if v = 0 then do {
        (src, st) \<leftarrow> to_own_ctl a (lb_in lb) st;
        upd_pc a (\<lambda>pc. pc\<lparr>pc_local := Some (lb\<lparr>lb_in := src\<rparr>)\<rparr>) st
      }
      else do {
        (w, src, st) \<leftarrow> mux_write_all (PcLoc a) (lb_in lb) st;
        st \<leftarrow> upd_pc a (\<lambda>pc. pc\<lparr>pc_local := Some (if w = 0 then lb\<lparr>lb_in := src, lb_reading := False\<rparr> else lb\<lparr>lb_in := src\<rparr>)\<rparr>) st;
        if w < 0 then drop_client a st else Some st
      })"

text \<open>\<open>bev\<close> is the connection to the local service. A client exists only with a configuration.\<close>

definition tcp_proxy_c2s_cb :: "env \<Rightarrow> nat \<Rightarrow> mux \<Rightarrow> mux option" where
  "tcp_proxy_c2s_cb env a st = do {
     pc \<leftarrow> heap st a;
     lb \<leftarrow> pc_local pc;
     v \<leftarrow> conf_tcp_mux st;
     if \<not> has_ctl_bev v pc st then Some st
     else if lb_in lb = [] then Some st
     else if pc_use_encryption pc \<or> pc_use_compression pc then c2s_encoded env a v pc lb st
     else c2s_plain a v lb st
   }"

text \<open>\<open>src\<close> is the input of the client's own connection. The last line is unreachable code's log line.\<close>

definition tcp_proxy_s2c_cb :: "env \<Rightarrow> nat \<Rightarrow> bytes \<Rightarrow> mux \<Rightarrow> (bytes \<times> mux) option" where
  "tcp_proxy_s2c_cb env a src st = do {
     pc \<leftarrow> heap st a;
     (case pc_local pc of
        None \<Rightarrow> Some (src, st)
      | Some lb \<Rightarrow>
          if src = [] then Some (src, st)
          else if pc_use_encryption pc \<or> pc_use_compression pc then
            (let (ok, st) = alloc st in
             if \<not> ok then Some (src, st)
             else do {
               (pc, src, processed, st) \<leftarrow> proxy_crypto_decode_evbuffer env pc src [] st;
               (let (out, rest, st) = buf_move (lb_out lb) processed st in do {
                  st \<leftarrow> put_pc a (pc\<lparr>pc_local := Some (lb\<lparr>lb_out := out\<rparr>)\<rparr>) st;
                  Some (src, st)
                })
             })
          else do {
            v \<leftarrow> conf_tcp_mux st;
            if v = 0 then
              (let (out, src, st) = buf_move (lb_out lb) src st in do {
                 st \<leftarrow> put_pc a (pc\<lparr>pc_local := Some (lb\<lparr>lb_out := out\<rparr>)\<rparr>) st;
                 Some (src, st)
               })
            else Some (src, st)
          })
   }"

section \<open>Encrypted data arrives\<close>

fun encode_all :: "env \<Rightarrow> proxy_client \<Rightarrow> bytes list \<Rightarrow> bytes \<Rightarrow> mux \<Rightarrow> (proxy_client \<times> bytes \<times> mux) option" where
  "encode_all env pc [] dst st = Some (pc, dst, st)"
| "encode_all env pc (p # ps) dst st = do {
     (pc, src, dst, st) \<leftarrow> crypto_encode_evbuffer env pc p dst st;
     encode_all env pc ps dst st
   }"

fun decode_all :: "env \<Rightarrow> proxy_client \<Rightarrow> bytes list \<Rightarrow> bytes \<Rightarrow> mux \<Rightarrow> (proxy_client \<times> bytes \<times> mux) option" where
  "decode_all env pc [] dst st = Some (pc, dst, st)"
| "decode_all env pc (p # ps) dst st = do {
     (pc, src, dst, st) \<leftarrow> proxy_crypto_decode_evbuffer env pc p dst st;
     decode_all env pc ps dst st
   }"

lemma buf_add_ok: "\<not> oom st (tick st) \<Longrightarrow> buf_add b d st = (0, b @ d, st\<lparr>tick := Suc (tick st)\<rparr>)"
  by (simp add: buf_add_def alloc_def)

definition iv_due :: "crypto_ctx \<Rightarrow> bytes" where
  "iv_due ctx = (if cc_iv_sent ctx then [] else cc_iv ctx)"

lemma encrypt_iv_sent:
  "crypto_encrypt m (ctx\<lparr>cc_iv_sent := True\<rparr>) p = (rc, ctx', c) \<longleftrightarrow>
     (\<exists>x. crypto_encrypt m ctx p = (rc, x, c) \<and> ctx' = x\<lparr>cc_iv_sent := True\<rparr>)"
  by (auto simp: crypto_encrypt_def split: option.splits)

lemma encode_step:
  assumes enc: "pc_use_encryption pc" "\<not> pc_use_compression pc" "pc_encrypt_ctx pc = Some ctx"
    and s: "stream_send (e_mbedtls env, ctx) p = Some ((m, ctx'), c)" and p: "p \<noteq> []" and mem: "\<forall>n. \<not> oom st n"
  obtains n where "crypto_encode_evbuffer env pc p dst st =
    Some (pc\<lparr>pc_encrypt_ctx := Some (ctx'\<lparr>cc_iv_sent := True\<rparr>)\<rparr>, [], dst @ iv_due ctx @ c, st\<lparr>tick := n\<rparr>)"
proof -
  have e: "crypto_encrypt (e_mbedtls env) ctx p = (0, ctx', c)" and w: "cc_is_writer ctx"
    using s by (auto simp: stream_send_def crypto_encrypt_def split: if_splits option.splits)
  have e1: "crypto_encrypt (e_mbedtls env) (ctx\<lparr>cc_iv_sent := True\<rparr>) p = (0, ctx'\<lparr>cc_iv_sent := True\<rparr>, c)"
    using e by (subst encrypt_iv_sent) simp
  have same: "ctx'\<lparr>cc_iv_sent := True\<rparr> = ctx'" if "cc_iv_sent ctx"
    using e that by (auto simp: crypto_encrypt_def split: if_splits option.splits)
  have "\<exists>n. crypto_encode_evbuffer env pc p dst st =
    Some (pc\<lparr>pc_encrypt_ctx := Some (ctx'\<lparr>cc_iv_sent := True\<rparr>)\<rparr>, [], dst @ iv_due ctx @ c, st\<lparr>tick := n\<rparr>)"
  proof (cases "cc_iv_sent ctx")
    case True
    with enc e p mem same show ?thesis
      by (intro exI [of _ "Suc (tick st)"])
         (simp add: crypto_encode_evbuffer_def compress_data_def encrypt_data_step_def iv_due_def buf_add_ok crypto_writer_iv_sent_def)
  next
    case False
    with enc e1 p mem w show ?thesis
      by (intro exI [of _ "Suc (Suc (tick st))"])
         (simp add: crypto_encode_evbuffer_def compress_data_def encrypt_data_step_def iv_due_def buf_add_ok crypto_writer_iv_sent_def
           crypto_writer_set_iv_sent_def crypto_get_iv_def)
  qed
  with that show thesis by blast
qed

lemma stream_send_iv_sent:
  "stream_send (m, ctx\<lparr>cc_iv_sent := b\<rparr>) p = map_option (\<lambda>(w, c). ((fst w, (snd w)\<lparr>cc_iv_sent := b\<rparr>), c)) (stream_send (m, ctx) p)"
  by (auto simp: stream_send_def crypto_encrypt_def split: option.splits)

lemma send_all_iv_sent:
  "cs.send_all (m, ctx\<lparr>cc_iv_sent := b\<rparr>) ps =
     map_option (\<lambda>(w, cs). ((fst w, (snd w)\<lparr>cc_iv_sent := b\<rparr>), cs)) (cs.send_all (m, ctx) ps)"
proof (induction ps arbitrary: m ctx)
  case (Cons p ps)
  show ?case
  proof (cases "stream_send (m, ctx) p")
    case (Some r)
    obtain m' ctx' c where "r = ((m', ctx'), c)" by (metis prod.exhaust)
    with Some Cons.IH [of m' ctx'] show ?thesis
      by (cases "cs.send_all (m', ctx') ps") (auto simp: stream_send_iv_sent split_beta)
  qed (simp add: stream_send_iv_sent)
qed simp

lemma encode_all_sends:
  assumes "pc_use_encryption pc" "\<not> pc_use_compression pc" "pc_encrypt_ctx pc = Some ctx"
    and "cs.send_all (e_mbedtls env, ctx) ps = Some (w', cs)" "\<forall>p \<in> set ps. p \<noteq> []" "\<forall>n. \<not> oom st n"
  shows "\<exists>pc' n. encode_all env pc ps dst st = Some (pc', dst @ (if ps = [] then [] else iv_due ctx) @ concat cs, st\<lparr>tick := n\<rparr>)"
  using assms
proof (induction ps arbitrary: pc ctx cs dst st w')
  case Nil
  then show ?case by (intro exI [of _ pc] exI [of _ "tick st"]) simp
next
  case (Cons p ps)
  from Cons.prems(4) obtain m1 ctx1 c cs1 where s: "stream_send (e_mbedtls env, ctx) p = Some ((m1, ctx1), c)"
    "cs.send_all (m1, ctx1) ps = Some (w', cs1)" "cs = c # cs1" by (auto simp: bind_eq_Some_conv)
  then have m1: "m1 = e_mbedtls env" by (auto simp: stream_send_def split: prod.splits if_splits)
  let ?ctx = "ctx1\<lparr>cc_iv_sent := True\<rparr>" and ?pc = "pc\<lparr>pc_encrypt_ctx := Some (ctx1\<lparr>cc_iv_sent := True\<rparr>)\<rparr>"
  obtain n where n: "crypto_encode_evbuffer env pc p dst st = Some (?pc, [], dst @ iv_due ctx @ c, st\<lparr>tick := n\<rparr>)"
    using encode_step [OF Cons.prems(1-3) s(1)] Cons.prems(5,6) by auto
  have "cs.send_all (e_mbedtls env, ?ctx) ps = Some ((fst w', (snd w')\<lparr>cc_iv_sent := True\<rparr>), cs1)"
    using s(2) m1 by (simp add: send_all_iv_sent)
  then have ih: "\<exists>pc' n'. encode_all env ?pc ps dst' (st\<lparr>tick := n\<rparr>) =
      Some (pc', dst' @ (if ps = [] then [] else iv_due ?ctx) @ concat cs1, st\<lparr>tick := n, tick := n'\<rparr>)" for dst'
    using Cons.prems by (intro Cons.IH [of ?pc ?ctx]) auto
  have "iv_due ?ctx = []" by (simp add: iv_due_def)
  with n s(3) ih [of "dst @ iv_due ctx @ c"] show ?case by auto
qed

lemma decode_step:
  assumes dec: "pc_use_encryption pc" "\<not> pc_use_compression pc" "pc_decrypt_ctx pc = Some ctx" "cc_iv_received ctx"
    and s: "stream_recv (e_mbedtls env, ctx) d = Some ((m, ctx'), p)" and d: "d \<noteq> []" and mem: "\<forall>n. \<not> oom st n"
  shows "proxy_crypto_decode_evbuffer env pc d dst st =
    Some (pc\<lparr>pc_decrypt_ctx := Some ctx'\<rparr>, [], dst @ p, st\<lparr>tick := Suc (Suc (tick st))\<rparr>) \<and> cc_iv_received ctx'"
proof -
  have e: "crypto_decrypt (e_mbedtls env) ctx d = (0, ctx', p)" "cc_iv_received ctx'"
    using s dec(4) by (auto simp: stream_recv_def crypto_decrypt_def split: if_splits option.splits)
  then show ?thesis using dec d mem
    by (simp add: proxy_crypto_decode_evbuffer_def read_iv_def crypto_reader_iv_received_def alloc_def decrypt_data_step_def
        decompress_data_def buf_add_def)
qed

lemma decode_all_recv:
  assumes "pc_use_encryption pc" "\<not> pc_use_compression pc" "pc_decrypt_ctx pc = Some ctx" "cc_iv_received ctx"
    and "cs.recv_all (e_mbedtls env, ctx) ds = Some (r', ps)" "\<forall>d \<in> set ds. d \<noteq> []" "\<forall>n. \<not> oom st n"
  shows "\<exists>pc' n. decode_all env pc ds dst st = Some (pc', dst @ concat ps, st\<lparr>tick := n\<rparr>)"
  using assms
proof (induction ds arbitrary: pc ctx ps dst st)
  case Nil
  then show ?case by (intro exI [of _ pc] exI [of _ "tick st"]) simp
next
  case (Cons d ds)
  from Cons.prems(5) obtain m1 ctx1 p ps1 where s: "stream_recv (e_mbedtls env, ctx) d = Some ((m1, ctx1), p)"
    "cs.recv_all (m1, ctx1) ds = Some (r', ps1)" "ps = p # ps1" by (auto simp: bind_eq_Some_conv)
  then have m1: "m1 = e_mbedtls env" by (auto simp: stream_recv_def split: prod.splits if_splits)
  let ?pc = "pc\<lparr>pc_decrypt_ctx := Some ctx1\<rparr>" and ?n = "Suc (Suc (tick st))"
  have d: "proxy_crypto_decode_evbuffer env pc d dst st = Some (?pc, [], dst @ p, st\<lparr>tick := ?n\<rparr>)" "cc_iv_received ctx1"
    using decode_step [OF Cons.prems(1-4) s(1)] Cons.prems(6,7) by auto
  have "\<exists>pc' n'. decode_all env ?pc ds (dst @ p) (st\<lparr>tick := ?n\<rparr>) = Some (pc', (dst @ p) @ concat ps1, st\<lparr>tick := ?n, tick := n'\<rparr>)"
    using Cons.prems d(2) s(2) m1 by (intro Cons.IH [of ?pc ctx1]) auto
  with d s(3) show ?case by auto
qed

text \<open>The first piece carries the IV.\<close>

lemma decode_first:
  assumes dec: "pc_use_encryption pc" "\<not> pc_use_compression pc" "pc_decrypt_ctx pc = Some r0" "\<not> cc_iv_received r0"
    and s: "crypto_set_iv (e_mbedtls env) r0 iv = (0, r)" and iv: "length iv = 16"
    and rec: "cs.recv_all (e_mbedtls env, r) (if d = [] then ds else d # ds) = Some (r', ps)" "\<forall>d \<in> set ds. d \<noteq> []" and mem: "\<forall>n. \<not> oom st n"
  shows "\<exists>pc' n. decode_all env pc ((iv @ d) # ds) [] st = Some (pc', concat ps, st\<lparr>tick := n\<rparr>)"
proof -
  have r: "cc_iv_received r" "crypto_reader_set_iv_received r = r"
    using s by (auto simp: crypto_set_iv_def crypto_reader_set_iv_received_def split: if_splits option.splits)
  let ?pc = "pc\<lparr>pc_decrypt_ctx := Some r\<rparr>"
  have iv0: "iv \<noteq> []" using iv by auto
  have first: "proxy_crypto_decode_evbuffer env pc (iv @ d) [] st = (if d = [] then Some (?pc, [], [], st) else proxy_crypto_decode_evbuffer env ?pc d [] st)"
    using dec s iv r iv0 by (simp add: proxy_crypto_decode_evbuffer_def read_iv_def crypto_reader_iv_received_def)
  show ?thesis
  proof (cases "d = []")
    case True
    then show ?thesis using first rec mem decode_all_recv [of ?pc r env ds r' ps st "[]"] dec r by simp
  next
    case False
    then have "decode_all env pc ((iv @ d) # ds) [] st = decode_all env ?pc (d # ds) [] st" using first by simp
    then show ?thesis using False rec mem decode_all_recv [of ?pc r env "d # ds" r' ps st "[]"] dec r by simp
  qed
qed

lemma send_all_ok:
  "stream_sync w r \<Longrightarrow> \<forall>p \<in> set ps. p \<noteq> [] \<and> length p < 2 ^ 31 \<Longrightarrow> \<exists>w' cs. cs.send_all w ps = Some (w', cs)"
proof (induction ps arbitrary: w r)
  case (Cons p ps)
  have "stream_send w p \<noteq> None"
    using Cons.prems by (auto simp: stream_sync_def stream_ready_def stream_send_def crypto_encrypt_def EVP_EncryptUpdate_def
        int_len_small cfb_update_eq)
  then obtain w1 c where s: "stream_send w p = Some (w1, c)" by auto
  then obtain r1 where "stream_sync w1 r1" using cs.send_step [OF Cons.prems(1)] by blast
  with Cons.IH [of w1 r1] Cons.prems(2) s show ?case by auto
qed simp

lemma set_iv_ok:
  assumes "crypto_ctx_new_writer m True (Some EVP_CIPHER_CTX_new) (Some iv) key = Some w"
    and "crypto_ctx_new_reader True (Some EVP_CIPHER_CTX_new) key = Some r0"
  obtains r where "crypto_set_iv m r0 iv = (0, r)" "crypto_get_iv w = Some iv" "iv_due w = iv" "\<not> cc_iv_received r0"
  using assms
  by (auto simp: crypto_ctx_new_writer_def crypto_ctx_new_reader_def crypto_set_iv_def crypto_get_iv_def iv_due_def
      EVP_EncryptInit_ex_def EVP_DecryptInit_ex_def evp_init_def evp_cfb_init_def EVP_CIPHER_CTX_new_def
      bind_eq_Some_conv split: if_splits option.splits)

text \<open>C5. Encrypted, uncompressed proxy data arrives: what one side encodes with a fresh writer context, piece by piece,
  the other side decodes with a fresh reader context to the same bytes in the same order. The IV
  travels in front; the bytes may be cut anywhere behind it, but the piece that starts the stream has
  to hold the whole IV (a shorter one is not consumed). Memory is available.\<close>

theorem proxy_data_delivers:
  assumes "mbedtls_spec (e_mbedtls env)" "\<not> mb_fails (e_mbedtls env) Aes_cfb" "length iv = 16"
    and "crypto_ctx_new_writer (e_mbedtls env) True (Some EVP_CIPHER_CTX_new) (Some iv) key = Some w"
    and "crypto_ctx_new_reader True (Some EVP_CIPHER_CTX_new) key = Some r"
    and "pc_use_encryption pc" "\<not> pc_use_compression pc" "pc_encrypt_ctx pc = Some w"
    and "pc_use_encryption qc" "\<not> pc_use_compression qc" "pc_decrypt_ctx qc = Some r"
    and "\<forall>n. \<not> oom st n" "ps \<noteq> []" "\<forall>p \<in> set ps. p \<noteq> [] \<and> length p < 2 ^ 31"
  shows "\<exists>pc' out st'. encode_all env pc ps [] st = Some (pc', out, st') \<and>
    (\<forall>d ds. concat (d # ds) = out \<longrightarrow> 16 \<le> length d \<longrightarrow> (\<forall>e \<in> set (d # ds). e \<noteq> [] \<and> length e < 2 ^ 31) \<longrightarrow>
      (\<exists>qc' st''. decode_all env qc (d # ds) [] st = Some (qc', concat ps, st'')))"
proof -
  let ?m = "e_mbedtls env"
  obtain r1 where r1: "crypto_set_iv ?m r iv = (0, r1)" "crypto_get_iv w = Some iv" "iv_due w = iv" "\<not> cc_iv_received r"
    using set_iv_ok [OF assms(4,5)] .
  have sync: "stream_sync (?m, w) (?m, r1)" by (rule fresh_contexts_sync [OF assms(1-4) refl assms(5) refl r1(2,1)])
  obtain w' cs where s: "cs.send_all (?m, w) ps = Some (w', cs)" using send_all_ok [OF sync assms(14)] by blast
  obtain pc' n where e: "encode_all env pc ps [] st = Some (pc', iv @ concat cs, st\<lparr>tick := n\<rparr>)"
    using encode_all_sends [OF assms(6-8) s _ assms(12), of "[]"] assms(13,14) r1(3) by auto
  have "\<exists>qc' st''. decode_all env qc (d # ds) [] st = Some (qc', concat ps, st'')"
    if d: "concat (d # ds) = iv @ concat cs" "16 \<le> length d" "\<forall>e \<in> set (d # ds). e \<noteq> [] \<and> length e < 2 ^ 31" for d ds
  proof -
    define d' where "d' = drop 16 d"
    have "take 16 d = take 16 (d @ concat ds)" using d(2) by simp
    also have "\<dots> = take 16 (iv @ concat cs)" using d(1) by simp
    also have "\<dots> = iv" using assms(3) by simp
    finally have "take 16 d = iv" .
    then have dd: "d = iv @ d'" by (metis append_take_drop_id d'_def)
    let ?es = "if d' = [] then ds else d' # ds"
    have "concat ?es = concat cs" using d(1) dd by auto
    moreover have "\<forall>e \<in> set ?es. e \<noteq> [] \<and> length e < 2 ^ 31" using d(3) dd by auto
    ultimately obtain r' qs where "cs.recv_all (?m, r1) ?es = Some (r', qs)" "concat qs = concat ps"
      using cs.delivers [OF sync s] by blast
    then show ?thesis
      using decode_first [OF assms(9-11) r1(4,1) assms(3), of d' ds r' qs st] d(3) assms(12) dd by auto
  qed
  with e show ?thesis by blast
qed

theorem proxy_data_delivers_witness:
  "\<exists>w r pc' st' qc' st''. crypto_ctx_new_writer toy_mbedtls True (Some EVP_CIPHER_CTX_new) (Some (replicate 16 3)) [7] = Some w \<and>
    crypto_ctx_new_reader True (Some EVP_CIPHER_CTX_new) [7] = Some r \<and>
    encode_all demo_env (demo_client\<lparr>pc_use_encryption := True, pc_encrypt_ctx := Some w\<rparr>) [[1], [2, 3]] [] demo_mux =
      Some (pc', replicate 16 3 @ [1, 2, 3], st') \<and>
    decode_all demo_env (demo_client\<lparr>pc_use_encryption := True, pc_decrypt_ctx := Some r\<rparr>) [replicate 16 3 @ [1], [2, 3]] [] demo_mux =
      Some (qc', [1, 2, 3], st'')"
proof -
  obtain w where w: "crypto_ctx_new_writer toy_mbedtls True (Some EVP_CIPHER_CTX_new) (Some (replicate 16 3)) [7] = Some w"
    by (auto simp: crypto_ctx_new_writer_def EVP_EncryptInit_ex_def evp_init_def evp_cfb_init_def EVP_CIPHER_CTX_new_def toy_mbedtls_def)
  obtain r where r: "crypto_ctx_new_reader True (Some EVP_CIPHER_CTX_new) [7] = Some r" by (simp add: crypto_ctx_new_reader_def)
  let ?pc = "demo_client\<lparr>pc_use_encryption := True, pc_encrypt_ctx := Some w\<rparr>"
  let ?qc = "demo_client\<lparr>pc_use_encryption := True, pc_decrypt_ctx := Some r\<rparr>"
  have lib: "e_mbedtls demo_env = toy_mbedtls" by (simp add: demo_env_def)
  have f: "pc_use_encryption ?pc" "\<not> pc_use_compression ?pc" "pc_encrypt_ctx ?pc = Some w"
    "pc_use_encryption ?qc" "\<not> pc_use_compression ?qc" "pc_decrypt_ctx ?qc = Some r"
    by (simp_all add: demo_client_def calloc_client_def)
  have mem: "\<forall>n. \<not> oom demo_mux n" by (simp add: demo_mux_def)
  have nf: "\<not> mb_fails toy_mbedtls Aes_cfb" by (simp add: toy_mbedtls_def)
  have ps: "[[1], [2, 3 :: u8]] \<noteq> []" "\<forall>p \<in> set [[1], [2, 3 :: u8]]. p \<noteq> [] \<and> length p < 2 ^ 31" by simp_all
  obtain m ctx' where s: "cs.send_all (toy_mbedtls, w) [[1], [2, 3]] = Some ((m, ctx'), [[1], [2, 3]])"
    using w by (auto simp: crypto_ctx_new_writer_def EVP_EncryptInit_ex_def evp_init_def evp_cfb_init_def
        EVP_CIPHER_CTX_new_def toy_mbedtls_def stream_send_def crypto_encrypt_def EVP_EncryptUpdate_def
        evp_cfb_update_def int_len_def)
  have iv: "iv_due w = replicate 16 3" using set_iv_ok [OF w r] by metis
  obtain pc' n where e: "encode_all demo_env ?pc [[1], [2, 3]] [] demo_mux = Some (pc', replicate 16 3 @ [1, 2, 3], demo_mux\<lparr>tick := n\<rparr>)"
    using encode_all_sends [OF f(1-3), of demo_env "[[1], [2, 3]]" "(m, ctx')" "[[1], [2, 3]]" demo_mux "[]"] s lib mem iv by auto
  have iv16: "length (replicate 16 (3 :: u8)) = 16" by simp
  obtain qc' st'' where "decode_all demo_env ?qc [replicate 16 3 @ [1], [2, 3]] [] demo_mux = Some (qc', concat [[1], [2, 3]], st'')"
    using proxy_data_delivers [of demo_env, unfolded lib, OF toy_mbedtls_spec nf iv16 w r f mem ps] e by fastforce
  with w r e show ?thesis by (simp only: concat.simps append.simps append_Nil2) blast
qed

section \<open>Compressed data\<close>

text \<open>What Snappy documents: compression succeeds within the announced bound, the block announces the
  length of the data, and decompression inverts it.\<close>

definition snappy_spec :: "snappy \<Rightarrow> bool" where
  "snappy_spec s \<longleftrightarrow> (\<forall>x. x \<noteq> [] \<longrightarrow> length x < 2 ^ 30 \<longrightarrow>
     (\<exists>c. sn_compress s x = Some c \<and> c \<noteq> [] \<and> length c \<le> unat (sn_max s (of_nat (length x))) \<and>
       sn_length s c = Some (of_nat (length x)) \<and> sn_uncompress s c = Some x))"

lemma blit_prefix: "length p \<le> length b \<Longrightarrow> blit 0 p b = Some (p @ drop (length p) b)"
  by (simp add: blit_fits)

text \<open>C34. Compressed proxy data: what one side compresses, the other side restores, provided it is at most
  four times as long as its compressed form. Data that compresses better than that does not arrive:
  the single attempt with a buffer of four times the compressed size fails and the local service is
  given the compressed bytes.\<close>

theorem compressed_piece_decoded:
  assumes "snappy_spec s" "e_snappy env = Some s" "p \<noteq> []" "length p < 2 ^ 30"
    and "pc_use_compression pc" "\<not> pc_use_encryption pc" "pc_use_compression qc" "\<not> pc_use_encryption qc" "\<forall>n. \<not> oom st n"
  shows "\<exists>c st' st''. crypto_encode_evbuffer env pc p [] st = Some (pc, [], c, st') \<and>
    (length c < 2 ^ 30 \<longrightarrow> proxy_crypto_decode_evbuffer env qc c [] st' =
      Some (qc, [], if length p \<le> 4 * length c then p else c, st''))"
proof -
  from assms(1,3,4) obtain c where c: "sn_compress s p = Some c" "c \<noteq> []" "length c \<le> unat (sn_max s (of_nat (length p)))"
    "sn_length s c = Some (of_nat (length p))" "sn_uncompress s c = Some p" unfolding snappy_spec_def by blast
  let ?max = "sn_max s (of_nat (length p))"
  have max: "?max \<noteq> 0" using c(2,3) by auto
  have "unat ?max < 2 ^ 32" using unsigned_less [of ?max] by simp
  then have uc: "unat (of_nat (length c) :: u32) = length c" using c(3) by (intro unat_of_nat_u32) simp
  let ?st' = "st\<lparr>tick := Suc (Suc (Suc (tick st)))\<rparr>"
  have e: "crypto_encode_evbuffer env pc p [] st = Some (pc, [], c, ?st')"
    using assms max c uc
    by (simp add: crypto_encode_evbuffer_def compress_data_def xfrpc_max_compressed_length_def xfrpc_compress_def alloc_def
        encrypt_data_step_def buf_add_def blit_prefix)
  have "proxy_crypto_decode_evbuffer env qc c [] ?st' =
      Some (qc, [], if length p \<le> 4 * length c then p else c, ?st'\<lparr>tick := Suc (Suc (Suc (tick ?st')))\<rparr>)"
    if small: "length c < 2 ^ 30"
  proof -
    have u4: "unat (of_nat (length c) * 4 :: u32) = 4 * length c" using uc small by (simp add: unat_word_ariths)
    have up: "unat (of_nat (length p) :: u32) = length p" using assms(4) by (intro unat_of_nat_u32) simp
    have "(of_nat (4 * length c) :: u32) < of_nat (length p) \<longleftrightarrow> 4 * length c < length p"
      using up u4 by (simp add: less_u32_iff mult.commute)
    then show ?thesis using assms c u4 up
      by (simp add: proxy_crypto_decode_evbuffer_def read_iv_def alloc_def decrypt_data_step_def decompress_data_def
          xfrpc_decompress_def buf_add_def blit_prefix not_less)
  qed
  with e show ?thesis by blast
qed

text \<open>An instance of the contract: the data is kept behind a mark.\<close>

definition mark_snappy :: snappy where
  "mark_snappy = \<lparr>sn_max = \<lambda>n. n + 1,
     sn_compress = \<lambda>x. Some (0 # x),
     sn_length = \<lambda>c. Some (of_nat (length c - 1)), sn_uncompress = \<lambda>c. Some (tl c)\<rparr>"

lemma mark_snappy_spec: "snappy_spec mark_snappy"
proof -
  have "unat (of_nat n + 1 :: u32) = Suc n" if "n < 2 ^ 30" for n
    using that unat_of_nat_u32 [of "Suc n"] by (simp add: add.commute)
  then show ?thesis by (simp add: snappy_spec_def mark_snappy_def)
qed

theorem compressed_piece_decoded_witness:
  "\<exists>c st' st''. crypto_encode_evbuffer (demo_env\<lparr>e_snappy := Some mark_snappy\<rparr>) (demo_client\<lparr>pc_use_compression := True\<rparr>) [5, 6] [] demo_mux =
      Some (demo_client\<lparr>pc_use_compression := True\<rparr>, [], c, st') \<and> c = [0, 5, 6] \<and>
    proxy_crypto_decode_evbuffer (demo_env\<lparr>e_snappy := Some mark_snappy\<rparr>) (demo_client\<lparr>pc_use_compression := True\<rparr>) c [] st' =
      Some (demo_client\<lparr>pc_use_compression := True\<rparr>, [], [5, 6], st'')"
proof -
  let ?env = "demo_env\<lparr>e_snappy := Some mark_snappy\<rparr>" and ?pc = "demo_client\<lparr>pc_use_compression := True\<rparr>"
  have f: "e_snappy ?env = Some mark_snappy" "[5, 6 :: u8] \<noteq> []" "length [5, 6 :: u8] < 2 ^ 30" by simp_all
  have g: "pc_use_compression ?pc" "\<not> pc_use_encryption ?pc" by (simp_all add: demo_client_def calloc_client_def)
  have mem: "\<forall>n. \<not> oom demo_mux n" by (simp add: demo_mux_def)
  obtain c st' st'' where t: "crypto_encode_evbuffer ?env ?pc [5, 6] [] demo_mux = Some (?pc, [], c, st')"
    "length c < 2 ^ 30 \<longrightarrow> proxy_crypto_decode_evbuffer ?env ?pc c [] st' = Some (?pc, [], if length [5, 6 :: u8] \<le> 4 * length c then [5, 6] else c, st'')"
    using compressed_piece_decoded [OF mark_snappy_spec f g g mem] by blast
  have "\<exists>x. crypto_encode_evbuffer ?env ?pc [5, 6] [] demo_mux = Some (?pc, [], [0, 5, 6], x)"
    using g mem by (simp add: crypto_encode_evbuffer_def compress_data_def xfrpc_max_compressed_length_def xfrpc_compress_def
        alloc_def encrypt_data_step_def buf_add_def mark_snappy_def blit_prefix)
  with t have "c = [0, 5, 6]" by simp
  with t show ?thesis by auto
qed

section \<open>Data of the local service\<close>

text \<open>The states in which the callback can send: a client with a local connection, multiplexing on, the
  connection up, memory available.\<close>

definition forwarding :: "nat \<Rightarrow> mux \<Rightarrow> proxy_client \<Rightarrow> local_bev \<Rightarrow> bool" where
  "forwarding a st pc lb \<longleftrightarrow> mux_ok st \<and> heap st a = Some pc \<and> pc_local pc = Some lb \<and>
     (\<exists>v. conf_tcp_mux st = Some v \<and> v \<noteq> 0) \<and> ctl_up st \<and> (\<forall>n. \<not> oom st n) \<and> writable (pc_stream pc)"

lemma write_all_client:
  assumes f: "forwarding a st pc lb" and len: "length d < 2 ^ 32"
  obtains st1 s out where "mux_write_all (PcLoc a) d st =
      Some (if length d \<le> unat (s_send_window (pc_stream pc)) then 1 else 0, drop (unat (s_send_window (pc_stream pc))) d, st1)"
    "forwarding a st1 (pc\<lparr>pc_stream := s\<rparr>) lb" "ctl_out st1 = ctl_out st @ out" "s_id s = s_id (pc_stream pc)"
    "frames_sent (fst (get_send_flags (pc_stream pc))) (s_id (pc_stream pc)) (take (unat (s_send_window (pc_stream pc))) d) out"
    "unat (s_send_window s) = unat (s_send_window (pc_stream pc)) - length d"
proof -
  let ?w = "unat (s_send_window (pc_stream pc))"
  have g: "get_strm st (PcLoc a) = Some (pc_stream pc)" using f by (simp add: forwarding_def get_strm_def)
  obtain st1 out s where w: "mux_write_all (PcLoc a) d st = Some (if length d \<le> ?w then 1 else 0, drop ?w d, st1)"
    "mux_ok st1" "get_strm st1 (PcLoc a) = Some s" "s_id s = s_id (pc_stream pc)" "writable s"
    "unat (s_send_window s) = ?w - length d" "ctl_out st1 = ctl_out st @ out"
    "frames_sent (fst (get_send_flags (pc_stream pc))) (s_id (pc_stream pc)) (take ?w d) out"
    using mux_write_all_sends [of st "PcLoc a" "pc_stream pc" d] f g len unfolding forwarding_def by blast
  have o: "only_streams st st1" using mux_write_all_only [OF w(1)] .
  then have "rel_option (\<lambda>pc pc'. \<exists>s. pc' = pc\<lparr>pc_stream := s\<rparr>) (heap st a) (heap st1 a)" unfolding only_streams_def by blast
  then obtain t where "heap st1 a = Some (pc\<lparr>pc_stream := t\<rparr>)" using f by (auto simp: forwarding_def elim: option.rel_cases)
  then have h: "heap st1 a = Some (pc\<lparr>pc_stream := s\<rparr>)" using w(3) by (simp add: get_strm_def)
  have "forwarding a st1 (pc\<lparr>pc_stream := s\<rparr>) lb" using f o w(2,5) h by (auto simp: forwarding_def only_streams_def)
  from that [OF w(1) this w(7,4,8,6)] show thesis .
qed

lemma forwarding_update:
  assumes "forwarding a st pc lb" "pc_stream pc' = pc_stream pc" "pc_stream_id pc' = pc_stream_id pc" "pc_local pc' = Some lb'"
  obtains st' where "put_pc a pc' (st\<lparr>tick := n\<rparr>) = Some st'" "forwarding a st' pc' lb'" "ctl_out st' = ctl_out st"
proof -
  have ok: "mux_ok (st\<lparr>tick := n\<rparr>)" "heap (st\<lparr>tick := n\<rparr>) a = Some pc" using assms(1) by (simp_all add: forwarding_def)
  from put_pc_ok [OF ok assms(2,3)] assms that show thesis unfolding forwarding_def by auto
qed

text \<open>Data of a local service without encryption is forwarded in order and with flow control: the
  callback sends as much as the send window allows, as data frames within the frame limit; the rest
  stays in the input buffer and reading is switched off exactly when something is left.\<close>

theorem c2s_forwards_plain:
  assumes "forwarding a st pc lb" "\<not> pc_use_encryption pc" "\<not> pc_use_compression pc"
    and "lb_in lb \<noteq> []" "length (lb_in lb) < 2 ^ 32"
  shows "\<exists>st' pc' lb' out. tcp_proxy_c2s_cb env a st = Some st' \<and> forwarding a st' pc' lb' \<and>
    ctl_out st' = ctl_out st @ out \<and>
    (let w = unat (s_send_window (pc_stream pc)) in
     frames_sent (fst (get_send_flags (pc_stream pc))) (s_id (pc_stream pc)) (take w (lb_in lb)) out \<and>
     lb_in lb' = drop w (lb_in lb) \<and> lb_reading lb' = (lb_reading lb \<and> lb_in lb' = []))"
proof -
  let ?w = "unat (s_send_window (pc_stream pc))"
  obtain st1 s out where st1: "mux_write_all (PcLoc a) (lb_in lb) st = Some (if length (lb_in lb) \<le> ?w then 1 else 0, drop ?w (lb_in lb), st1)"
    "forwarding a st1 (pc\<lparr>pc_stream := s\<rparr>) lb" "ctl_out st1 = ctl_out st @ out"
    "frames_sent (fst (get_send_flags (pc_stream pc))) (s_id (pc_stream pc)) (take ?w (lb_in lb)) out"
    by (rule write_all_client [OF assms(1,5)])
  let ?lb = "if length (lb_in lb) \<le> ?w then lb\<lparr>lb_in := drop ?w (lb_in lb)\<rparr> else lb\<lparr>lb_in := drop ?w (lb_in lb), lb_reading := False\<rparr>"
  let ?pc = "pc\<lparr>pc_stream := s, pc_local := Some ?lb\<rparr>"
  obtain st' where st': "put_pc a ?pc (st1\<lparr>tick := tick st1\<rparr>) = Some st'" "forwarding a st' ?pc ?lb" "ctl_out st' = ctl_out st1"
    by (rule forwarding_update [OF st1(2), of ?pc ?lb "tick st1"]) auto
  have "tcp_proxy_c2s_cb env a st = Some st'"
    using assms st1(1,2) st'(1)
    by (auto simp: forwarding_def tcp_proxy_c2s_cb_def has_ctl_bev_def c2s_plain_def upd_pc_def)
  moreover have "lb_in ?lb = drop ?w (lb_in lb)" "lb_reading ?lb = (lb_reading lb \<and> lb_in ?lb = [])" by auto
  ultimately show ?thesis using st'(2,3) st1(3,4) unfolding Let_def by (metis (no_types))
qed

text \<open>The demonstration client with a connection to a service that has sent something.\<close>

definition busy_client :: proxy_client where
  "busy_client = demo_client\<lparr>pc_local := Some ((new_bev Udp_socket)\<lparr>lb_in := [1, 2, 3, 4, 5, 6]\<rparr>)\<rparr>"

definition busy_mux :: "proxy_client \<Rightarrow> mux" where
  "busy_mux pc = demo_mux\<lparr>heap := (heap demo_mux)(0 \<mapsto> pc)\<rparr>"

lemma busy_forwarding:
  assumes "pc_stream pc = pc_stream demo_client" "pc_stream_id pc = pc_stream_id demo_client" "pc_local pc = Some lb"
  shows "forwarding 0 (busy_mux pc) pc lb"
proof -
  have h: "heap demo_mux 0 = Some demo_client" by (simp add: demo_mux_def)
  have "mux_ok (busy_mux pc)" unfolding busy_mux_def by (rule put_pc_ok(2) [OF demo_mux_ok h assms(1,2)])
  moreover have "writable (pc_stream demo_client)" by (simp add: writable_def demo_client_def)
  ultimately show ?thesis using assms by (simp add: forwarding_def) (simp add: busy_mux_def demo_mux_def)
qed

theorem c2s_forwards_plain_witness:
  "\<exists>st' pc' lb' out. tcp_proxy_c2s_cb demo_env 0 (busy_mux busy_client) = Some st' \<and> forwarding 0 st' pc' lb' \<and>
    frames_sent 0 3 [1, 2, 3, 4] out \<and> lb_in lb' = [5, 6] \<and> \<not> lb_reading lb'"
proof -
  let ?lb = "(new_bev Udp_socket)\<lparr>lb_in := [1, 2, 3, 4, 5, 6]\<rparr>"
  have f: "forwarding 0 (busy_mux busy_client) busy_client ?lb" by (rule busy_forwarding) (simp_all add: busy_client_def)
  have n: "\<not> pc_use_encryption busy_client" "\<not> pc_use_compression busy_client"
    by (simp_all add: busy_client_def demo_client_def calloc_client_def)
  have l: "lb_in ?lb \<noteq> []" "length (lb_in ?lb) < 2 ^ 32" by simp_all
  have s: "unat (s_send_window (pc_stream busy_client)) = 4" "fst (get_send_flags (pc_stream busy_client)) = 0" "s_id (pc_stream busy_client) = 3"
    by (simp_all add: busy_client_def demo_client_def)
  show ?thesis using c2s_forwards_plain [OF f n l, of demo_env] unfolding s Let_def by fastforce
qed

text \<open>Ciphertext that waits for the window.\<close>

definition pending :: "proxy_client \<Rightarrow> bytes" where
  "pending pc = (case pc_enc_pending pc of None \<Rightarrow> [] | Some p \<Rightarrow> p)"

lemma take_pending_ok:
  assumes "\<forall>n. \<not> oom st n"
  obtains n pd where "take_pending pc (st\<lparr>tick := m\<rparr>) = (pending pc, pc\<lparr>pc_enc_pending := pd\<rparr>, st\<lparr>tick := n\<rparr>)" "pd = None \<or> pd = Some []"
proof (cases "pc_enc_pending pc")
  case None
  then show thesis using assms by (intro that [of None m]) (simp_all add: take_pending_def pending_def)
next
  case (Some p)
  then show thesis using assms
    by (intro that [of "Some []" "if p = [] then m else Suc m"]) (simp_all add: take_pending_def pending_def buf_move_def alloc_def)
qed

lemma stash_pending_ok:
  assumes f: "forwarding a st pc lb" and p: "pc_enc_pending pc = None \<or> pc_enc_pending pc = Some []" and r: "rest \<noteq> []"
  obtains st' pc' where "stash_pending a rest st = Some st'" "forwarding a st' pc' (lb\<lparr>lb_reading := False\<rparr>)"
    "pending pc' = rest" "pc_encrypt_ctx pc' = pc_encrypt_ctx pc" "ctl_out st' = ctl_out st"
proof -
  let ?pc = "pc\<lparr>pc_enc_pending := Some rest, pc_local := Some (lb\<lparr>lb_reading := False\<rparr>)\<rparr>"
  let ?n = "if pc_enc_pending pc = None then Suc (Suc (tick st)) else Suc (tick st)"
  obtain st' where st': "put_pc a ?pc (st\<lparr>tick := ?n\<rparr>) = Some st'" "forwarding a st' ?pc (lb\<lparr>lb_reading := False\<rparr>)" "ctl_out st' = ctl_out st"
    by (rule forwarding_update [OF f, of ?pc "lb\<lparr>lb_reading := False\<rparr>" ?n]) auto
  have "stash_pending a rest st = Some st'"
    using f p r st'(1) by (auto simp: stash_pending_def forwarding_def alloc_def buf_move_def)
  then show thesis using st' by (intro that [of st' ?pc]) (simp_all add: pending_def)
qed

text \<open>C13. Data of a local service with encryption is encrypted exactly once and sent in order: the
  callback encrypts all input, puts it behind the ciphertext that was waiting, sends as much as the
  window allows and keeps the rest of the ciphertext. Nothing is lost, reordered or encrypted twice.\<close>

theorem c2s_forwards_encrypted:
  assumes "forwarding a st pc lb" "pc_use_encryption pc" "\<not> pc_use_compression pc" "pc_encrypt_ctx pc = Some ctx"
    and "stream_send (e_mbedtls env, ctx) (lb_in lb) = Some ((m, ctx'), c)" "lb_in lb \<noteq> []"
    and "length (pending pc @ iv_due ctx @ c) < 2 ^ 32"
  shows "\<exists>st' pc' lb' out. tcp_proxy_c2s_cb env a st = Some st' \<and> forwarding a st' pc' lb' \<and>
    ctl_out st' = ctl_out st @ out \<and> pc_encrypt_ctx pc' = Some (ctx'\<lparr>cc_iv_sent := True\<rparr>) \<and> lb_in lb' = [] \<and>
    (let w = unat (s_send_window (pc_stream pc)); data = pending pc @ iv_due ctx @ c in
     frames_sent (fst (get_send_flags (pc_stream pc))) (s_id (pc_stream pc)) (take w data) out \<and> pending pc' = drop w data)"
proof -
  let ?w = "unat (s_send_window (pc_stream pc))" and ?data = "pending pc @ iv_due ctx @ c"
  have mem: "\<forall>n. \<not> oom st n" using assms(1) by (simp add: forwarding_def)
  obtain n pd where tp: "take_pending pc (st\<lparr>tick := Suc (tick st)\<rparr>) = (pending pc, pc\<lparr>pc_enc_pending := pd\<rparr>, st\<lparr>tick := n\<rparr>)"
    "pd = None \<or> pd = Some []" by (rule take_pending_ok [OF mem])
  let ?p1 = "pc\<lparr>pc_enc_pending := pd\<rparr>" and ?ctx = "ctx'\<lparr>cc_iv_sent := True\<rparr>"
  have "\<exists>k. crypto_encode_evbuffer env ?p1 (lb_in lb) (pending pc) (st\<lparr>tick := n\<rparr>) =
      Some (?p1\<lparr>pc_encrypt_ctx := Some ?ctx\<rparr>, [], ?data, st\<lparr>tick := k\<rparr>)"
    using encode_step [of ?p1 ctx env "lb_in lb" m ctx' c "st\<lparr>tick := n\<rparr>" "pending pc"] assms(2-6) mem by auto
  then obtain k where en: "crypto_encode_evbuffer env ?p1 (lb_in lb) (pending pc) (st\<lparr>tick := n\<rparr>) =
      Some (?p1\<lparr>pc_encrypt_ctx := Some ?ctx\<rparr>, [], ?data, st\<lparr>tick := k\<rparr>)" by blast
  define p2 where "p2 = ?p1\<lparr>pc_encrypt_ctx := Some ?ctx, pc_local := Some (lb\<lparr>lb_in := []\<rparr>)\<rparr>"
  have p2: "pc_stream p2 = pc_stream pc" "pc_enc_pending p2 = pd" "pc_encrypt_ctx p2 = Some ?ctx" by (simp_all add: p2_def)
  obtain st1 where st1: "put_pc a p2 (st\<lparr>tick := k\<rparr>) = Some st1" "forwarding a st1 p2 (lb\<lparr>lb_in := []\<rparr>)" "ctl_out st1 = ctl_out st"
    by (rule forwarding_update [OF assms(1), of p2 "lb\<lparr>lb_in := []\<rparr>" k]) (auto simp: p2_def)
  obtain st2 s out where st2: "mux_write_all (PcLoc a) ?data st1 = Some (if length ?data \<le> ?w then 1 else 0, drop ?w ?data, st2)"
    "forwarding a st2 (p2\<lparr>pc_stream := s\<rparr>) (lb\<lparr>lb_in := []\<rparr>)" "ctl_out st2 = ctl_out st1 @ out"
    "frames_sent (fst (get_send_flags (pc_stream pc))) (s_id (pc_stream pc)) (take ?w ?data) out"
    using write_all_client [OF st1(2) assms(7)] unfolding p2(1) by metis
  have cb: "tcp_proxy_c2s_cb env a st =
      (if length ?data \<le> ?w then Some st2 else stash_pending a (drop ?w ?data) st2)"
    using assms tp(1) en st1(1) st2(1)
    by (auto simp: forwarding_def tcp_proxy_c2s_cb_def has_ctl_bev_def c2s_encoded_def alloc_def p2_def)
  show ?thesis
  proof (cases "length ?data \<le> ?w")
    case True
    then have "pending (p2\<lparr>pc_stream := s\<rparr>) = drop ?w ?data" using tp(2) p2(2) by (auto simp: pending_def)
    then show ?thesis using True cb st1(3) st2(2-4) p2(3) unfolding Let_def
      by (intro exI [of _ st2] exI [of _ "p2\<lparr>pc_stream := s\<rparr>"] exI [of _ "lb\<lparr>lb_in := []\<rparr>"] exI [of _ out]) simp
  next
    case False
    obtain st' pc' where "stash_pending a (drop ?w ?data) st2 = Some st'" "forwarding a st' pc' (lb\<lparr>lb_in := [], lb_reading := False\<rparr>)"
      "pending pc' = drop ?w ?data" "pc_encrypt_ctx pc' = Some ?ctx" "ctl_out st' = ctl_out st2"
      by (rule stash_pending_ok [OF st2(2), of "drop ?w ?data"]) (use tp(2) p2(2,3) False in auto)
    then show ?thesis using False cb st1(3) st2(3,4) unfolding Let_def
      by (intro exI [of _ st'] exI [of _ pc'] exI [of _ "lb\<lparr>lb_in := [], lb_reading := False\<rparr>"] exI [of _ out]) simp
  qed
qed

theorem c2s_forwards_encrypted_witness:
  "\<exists>w st' pc' lb' out. crypto_ctx_new_writer toy_mbedtls True (Some EVP_CIPHER_CTX_new) (Some (replicate 16 3)) [7] = Some w \<and>
    tcp_proxy_c2s_cb demo_env 0 (busy_mux (busy_client\<lparr>pc_use_encryption := True, pc_encrypt_ctx := Some w\<rparr>)) = Some st' \<and>
    forwarding 0 st' pc' lb' \<and> frames_sent 0 3 [3, 3, 3, 3] out \<and> pending pc' = replicate 12 3 @ [1, 2, 3, 4, 5, 6] \<and> lb_in lb' = []"
proof -
  obtain w where w: "crypto_ctx_new_writer toy_mbedtls True (Some EVP_CIPHER_CTX_new) (Some (replicate 16 3)) [7] = Some w"
    by (auto simp: crypto_ctx_new_writer_def EVP_EncryptInit_ex_def evp_init_def evp_cfb_init_def EVP_CIPHER_CTX_new_def toy_mbedtls_def)
  let ?pc = "busy_client\<lparr>pc_use_encryption := True, pc_encrypt_ctx := Some w\<rparr>"
  let ?lb = "(new_bev Udp_socket)\<lparr>lb_in := [1, 2, 3, 4, 5, 6]\<rparr>"
  have f: "forwarding 0 (busy_mux ?pc) ?pc ?lb" by (rule busy_forwarding) (simp_all add: busy_client_def)
  have n: "pc_use_encryption ?pc" "\<not> pc_use_compression ?pc" "pc_encrypt_ctx ?pc = Some w"
    by (simp_all add: busy_client_def demo_client_def calloc_client_def)
  have iv: "iv_due w = replicate 16 3" using w by (auto simp: crypto_ctx_new_writer_def iv_due_def bind_eq_Some_conv)
  obtain ctx' where s: "stream_send (e_mbedtls demo_env, w) (lb_in ?lb) = Some ((toy_mbedtls, ctx'), [1, 2, 3, 4, 5, 6])"
    using w by (auto simp: demo_env_def crypto_ctx_new_writer_def EVP_EncryptInit_ex_def evp_init_def evp_cfb_init_def
        EVP_CIPHER_CTX_new_def toy_mbedtls_def stream_send_def crypto_encrypt_def EVP_EncryptUpdate_def
        evp_cfb_update_def int_len_def)
  have p: "pending ?pc = []" by (simp add: pending_def busy_client_def demo_client_def calloc_client_def)
  have l: "lb_in ?lb \<noteq> []" "length (pending ?pc @ iv_due w @ [1, 2, 3, 4, 5, 6]) < 2 ^ 32" by (simp_all add: p iv)
  have k: "unat (s_send_window (pc_stream ?pc)) = 4" "fst (get_send_flags (pc_stream ?pc)) = 0" "s_id (pc_stream ?pc) = 3"
    by (simp_all add: busy_client_def demo_client_def)
  have t: "take 4 ([] @ replicate 16 3 @ [1, 2, 3, 4, 5, 6 :: u8]) = [3, 3, 3, 3]"
    "drop 4 ([] @ replicate 16 3 @ [1, 2, 3, 4, 5, 6 :: u8]) = replicate 12 3 @ [1, 2, 3, 4, 5, 6]"
    by (simp_all add: numeral_eq_Suc)
  show ?thesis using c2s_forwards_encrypted [OF f n s l] w unfolding k p iv Let_def t by blast
qed

end
