(* ===== verification/Socks5.thy ===== *)
theory Socks5
  imports Proxy_Base
begin

text \<open>
  The SOCKS5 server of a proxy client, \<open>proxy_tcp.c\<close>: parsing of the destination address, the
  connection to it, and \<open>handle_socks5\<close>, which collects the greeting and the request in a staging
  buffer and forwards what follows. The specification \<open>socks5_view\<close> says what a client has to be
  after a given byte string was received; the refinement lemma shows that the handler implements it
  for every way the string is cut into pieces.
\<close>

section \<open>The code\<close>

definition cleared_addr :: "u8 \<Rightarrow> socks5_addr" where
  "cleared_addr t = \<lparr>sa_addr = replicate 20 0, sa_port = [0, 0], sa_type = t\<rparr>"

text \<open>\<open>addr\<close> after a \<open>memcpy\<close> of \<open>n\<close> bytes at \<open>pos\<close> and of the port behind them.\<close>

definition filled_addr :: "u8 \<Rightarrow> nat \<Rightarrow> nat \<Rightarrow> bytes \<Rightarrow> socks5_addr" where
  "filled_addr t pos n buf =
     \<lparr>sa_addr = take n (drop pos buf) @ replicate (20 - n) 0, sa_port = take 2 (drop (pos + n) buf), sa_type = t\<rparr>"

text \<open>Result: success, \<open>*offset\<close> (0 when it is not assigned), \<open>*addr\<close>. The assertion on the length
  fails for an empty buffer.\<close>

definition parse_socks5_addr :: "bytes \<Rightarrow> (bool \<times> nat \<times> socks5_addr) option" where
  "parse_socks5_addr buf =
     (if buf = [] then None
      else let t = buf ! 0; len = length buf; fail = (False, 0, cleared_addr t) in
        Some (if t = 1 then if len < 7 then fail else (True, 7, filled_addr t 1 4 buf)
              else if t = 4 then if len < 19 then fail else (True, 19, filled_addr t 1 16 buf)
              else if t = 3 then
                if len < 2 then fail
                else let domain_len = unat (buf ! 1) in
                  if domain_len = 0 \<or> domain_len > 253 \<or> domain_len > 20 then fail
                  else if len < 2 + domain_len + 2 then fail
                  else (True, 2 + domain_len + 2, filled_addr t 2 domain_len buf)
              else fail))"

text \<open>The host name is passed as a C string: it ends at the first zero byte, which for a name that fills
  \<open>addr\<close> lies in the fields behind it.\<close>

definition c_host :: "socks5_addr \<Rightarrow> bytes" where
  "c_host ad = takeWhile (\<lambda>b. b \<noteq> 0) (sa_addr ad @ sa_port ad @ [sa_type ad, 0])"

definition socks5_dest :: "socks5_addr \<Rightarrow> endpoint option" where
  "socks5_dest ad =
     (let port = rd16 (sa_port ad ! 0) (sa_port ad ! 1) in
      if sa_type ad = 1 then Some (Ip4 (take 4 (sa_addr ad)) port)
      else if sa_type ad = 3 then Some (Host (c_host ad) port)
      else if sa_type ad = 4 then Some (Ip6 (take 16 (sa_addr ad)) port)
      else None)"

definition socks5_proxy_connect :: "env \<Rightarrow> socks5_addr \<Rightarrow> mux \<Rightarrow> local_bev option \<times> mux" where
  "socks5_proxy_connect env ad st =
     (let (ok, st) = alloc st in
      if \<not> ok then (None, st)
      else case socks5_dest ad of None \<Rightarrow> (None, st) | Some p \<Rightarrow> connect_to env p st)"

datatype flow = Continue mux | Break mux

text \<open>The body of the loop for the state \<open>SOCKS5_INIT\<close> (0): the method reply, then the greeting is
  dropped. The stored value 6 is \<open>TMUX_CLOSED\<close>.\<close>

definition socks5_greeting :: "nat \<Rightarrow> mux \<Rightarrow> flow option" where
  "socks5_greeting a st = do {
     pc \<leftarrow> heap st a;
     (let buf = content (pc_socks5_buf pc) in
      if length buf < 3 then Some (Break st)
      else if buf ! 0 \<noteq> 5 then do { st \<leftarrow> put_pc a (pc\<lparr>pc_state := 6\<rparr>) st; Some (Break st) }
      else do {
        st \<leftarrow> proxy_reply [5, 0] a st;
        pc \<leftarrow> heap st a;
        (let consumed = 2 + unat (buf ! 1) in
         if length buf < consumed then Some (Break st)
         else do {
           b \<leftarrow> buf_drop (of_nat consumed) (pc_socks5_buf pc);
           st \<leftarrow> put_pc a (pc\<lparr>pc_socks5_buf := b, pc_state := 1\<rparr>) st;
           Some (Continue st)
         })
      })
   }"

text \<open>The body for the state \<open>SOCKS5_HANDSHAKE\<close> (1): check and parse the request, connect, forward what
  follows it; the result of \<open>evbuffer_add\<close> is ignored.\<close>

definition socks5_request :: "env \<Rightarrow> nat \<Rightarrow> mux \<Rightarrow> flow option" where
  "socks5_request env a st = do {
     pc \<leftarrow> heap st a;
     (let buf = content (pc_socks5_buf pc) in
      if length buf < 4 then Some (Break st)
      else if buf ! 0 \<noteq> 5 \<or> buf ! 1 \<noteq> 1 \<or> buf ! 2 \<noteq> 0
      then do { st \<leftarrow> put_pc a (pc\<lparr>pc_state := 6\<rparr>) st; Some (Break st) }
      else do {
        (ok, off, ad) \<leftarrow> parse_socks5_addr (drop 3 buf);
        (let pc = pc\<lparr>pc_remote_addr := ad\<rparr> in
         if \<not> ok then do { st \<leftarrow> put_pc a pc st; Some (Break st) }
         else case socks5_proxy_connect env ad st of
           (None, st) \<Rightarrow> do { st \<leftarrow> put_pc a (pc\<lparr>pc_local := None\<rparr>) st; Some (Break st) }
         | (Some lb, st) \<Rightarrow> do {
             b \<leftarrow> buf_drop (of_nat (3 + off)) (pc_socks5_buf pc);
             (let (lb, b, st) =
                (if gb_len b \<noteq> 0
                 then let (rc, out, st) = buf_add (lb_out lb) (content b) st in (lb\<lparr>lb_out := out\<rparr>, b\<lparr>gb_len := 0\<rparr>, st)
                 else (lb, b, st)) in do {
                st \<leftarrow> put_pc a (pc\<lparr>pc_local := Some lb, pc_socks5_buf := b, pc_state := 2\<rparr>) st;
                Some (Break st)
              })
           })
      })
   }"

partial_function (option) socks5_loop :: "env \<Rightarrow> nat \<Rightarrow> mux \<Rightarrow> mux option" where
  "socks5_loop env a st = do {
     pc \<leftarrow> heap st a;
     if gb_len (pc_socks5_buf pc) = 0 then Some st
     else do {
       f \<leftarrow> (if pc_state pc = 0 then socks5_greeting a st
             else if pc_state pc = 1 then socks5_request env a st
             else Some (Break st));
       (case f of Continue st \<Rightarrow> socks5_loop env a st | Break st \<Rightarrow> Some st)
     }
   }"

definition socks5_buf_ensure :: "gbuf \<Rightarrow> u32 \<Rightarrow> mux \<Rightarrow> (int \<times> gbuf \<times> mux) option" where
  [simp]: "socks5_buf_ensure = buf_ensure 256"

text \<open>\<open>src\<close> is the input buffer of \<open>bev\<close>; the result has what is left of it.\<close>

definition handle_socks5 :: "env \<Rightarrow> nat \<Rightarrow> u32 \<Rightarrow> bytes \<Rightarrow> mux \<Rightarrow> (bytes \<times> mux) option" where
  "handle_socks5 env a len src st =
     (if len = 0 then Some (src, st)
      else do {
        pc \<leftarrow> heap st a;
        if pc_state pc = 3 then
          (case pc_local pc of
             None \<Rightarrow> Some (src, st)
           | Some lb \<Rightarrow>
               (let (n, src, out, st) = evbuffer_zc_transfer src (lb_out lb) len st in do {
                  st \<leftarrow> put_pc a (pc\<lparr>pc_local := Some (lb\<lparr>lb_out := out\<rparr>)\<rparr>) st;
                  Some (src, st)
                }))
        else do {
          (rc, b, st) \<leftarrow> socks5_buf_ensure (pc_socks5_buf pc) (gb_len (pc_socks5_buf pc) + len) st;
          if rc < 0 then Some (src, st)
          else let nr = min (unat len) (length src) in do {
            b \<leftarrow> gb_put b (take nr src);
            st \<leftarrow> put_pc a (pc\<lparr>pc_socks5_buf := b\<rparr>) st;
            if nr = 0 then Some (src, st)
            else do { st \<leftarrow> socks5_loop env a st; Some (drop nr src, st) }
          }
        }
      })"

text \<open>The callback of a client's own connection, used when multiplexing is off.\<close>

definition socks5_proxy_s2c_cb :: "env \<Rightarrow> nat \<Rightarrow> bytes \<Rightarrow> mux \<Rightarrow> (bytes \<times> mux) option" where
  "socks5_proxy_s2c_cb env a src st =
     (if src = [] then Some (src, st) else handle_socks5 env a (of_nat (length src)) src st)"

section \<open>What a session has to be\<close>

datatype socks5_session = Greeting bytes | Requesting bytes | Connecting "endpoint option" bytes | Rejected

text \<open>Of the bytes of the request on.\<close>

definition request_view :: "bytes \<Rightarrow> socks5_session" where
  "request_view r =
     (if length r < 4 then Requesting r
      else if take 3 r \<noteq> [5, 1, 0] then Rejected
      else case parse_socks5_addr (drop 3 r) of
        Some (True, off, ad) \<Rightarrow> Connecting (socks5_dest ad) (drop (3 + off) r)
      | _ \<Rightarrow> Requesting r)"

text \<open>Of all bytes received.\<close>

definition socks5_view :: "bytes \<Rightarrow> socks5_session" where
  "socks5_view t =
     (if length t < 3 then Greeting t
      else if t ! 0 \<noteq> 5 then Rejected
      else if length t < 2 + unat (t ! 1) then Greeting t
      else request_view (drop (2 + unat (t ! 1)) t))"

text \<open>What a client is.\<close>

definition client_view :: "proxy_client \<Rightarrow> socks5_session option" where
  "client_view pc =
     (let buf = content (pc_socks5_buf pc) in
      if pc_state pc = 0 then Some (Greeting buf)
      else if pc_state pc = 1 then Some (Requesting buf)
      else if pc_state pc = 2 then map_option (\<lambda>lb. Connecting (Some (lb_peer lb)) (lb_out lb @ buf)) (pc_local pc)
      else if pc_state pc = 6 then Some Rejected
      else None)"

section \<open>The specification does not depend on how bytes are cut\<close>

text \<open>A successful parse needs and consumes this many bytes.\<close>

definition addr_size :: "bytes \<Rightarrow> nat option" where
  "addr_size b =
     (if b ! 0 = 1 then Some 7 else if b ! 0 = 4 then Some 19
      else if b ! 0 = 3 \<and> 2 \<le> length b \<and> unat (b ! 1) \<in> {1..20} then Some (4 + unat (b ! 1)) else None)"

lemma parse_True_iff:
  "parse_socks5_addr b = Some (True, off, ad) \<longleftrightarrow> b \<noteq> [] \<and> addr_size b = Some off \<and> off \<le> length b \<and>
     ad = filled_addr (b ! 0) (if b ! 0 = 3 then 2 else 1) (off - (if b ! 0 = 3 then 4 else 3)) b"
  by (auto simp: parse_socks5_addr_def addr_size_def Let_def not_less Suc_le_eq)

lemma addr_size_append: "b \<noteq> [] \<Longrightarrow> addr_size b = Some n \<Longrightarrow> addr_size (b @ c) = Some n"
  by (cases b; cases "tl b") (auto simp: addr_size_def split: if_splits)

lemma addr_size_bounds: "addr_size b = Some n \<Longrightarrow> 5 \<le> n \<and> n \<le> 24"
  by (auto simp: addr_size_def split: if_splits)

lemma parse_append:
  assumes "parse_socks5_addr b = Some (True, off, ad)"
  shows "parse_socks5_addr (b @ c) = Some (True, off, ad)" "off \<le> length b" "off \<le> 24"
proof -
  have b: "b \<noteq> []" "addr_size b = Some off" "off \<le> length b" using assms by (simp_all add: parse_True_iff)
  then have 0: "(b @ c) ! 0 = b ! 0" by (cases b) simp_all
  have f: "filled_addr t p (off - q) (b @ c) = filled_addr t p (off - q) b" if "p + 2 \<le> q" "q \<le> 4" for t p q
    using that b(3) addr_size_bounds [OF b(2)] by (simp add: filled_addr_def)
  show "parse_socks5_addr (b @ c) = Some (True, off, ad)"
    using assms b addr_size_append [OF b(1,2)] by (auto simp: parse_True_iff 0 f)
  show "off \<le> length b" "off \<le> 24" using b addr_size_bounds [OF b(2)] by auto
qed

lemma request_view_append:
  "request_view r = Connecting p d \<Longrightarrow> request_view (r @ c) = Connecting p (d @ c)"
  "request_view r = Rejected \<Longrightarrow> request_view (r @ c) = Rejected"
proof -
  assume a: "request_view r = Connecting p d"
  then obtain off ad where r: "4 \<le> length r" "take 3 r = [5, 1, 0]" "parse_socks5_addr (drop 3 r) = Some (True, off, ad)"
    "p = socks5_dest ad" "d = drop (3 + off) r"
    by (auto simp: request_view_def not_less split: if_splits option.splits prod.splits bool.splits)
  then show "request_view (r @ c) = Connecting p (d @ c)"
    using parse_append(1) [OF r(3), of c] parse_append(2) [OF r(3)] r(1) by (simp add: request_view_def)
next
  assume "request_view r = Rejected"
  then show "request_view (r @ c) = Rejected"
    by (auto simp: request_view_def split: if_splits option.splits prod.splits bool.splits)
qed

fun advance :: "socks5_session \<Rightarrow> bytes \<Rightarrow> socks5_session" where
  "advance (Greeting r) c = socks5_view (r @ c)"
| "advance (Requesting r) c = request_view (r @ c)"
| "advance (Connecting p r) c = Connecting p (r @ c)"
| "advance Rejected c = Rejected"

lemma view_Requesting: "request_view r = Requesting q \<Longrightarrow> q = r"
  by (auto simp: request_view_def split: if_splits option.splits prod.splits bool.splits)

lemma request_view_not_Greeting: "request_view r \<noteq> Greeting q"
  by (auto simp: request_view_def split: option.splits prod.splits bool.splits)

lemma advance_request_view: "advance (request_view r) c = request_view (r @ c)"
  by (cases "request_view r") (auto simp: request_view_append request_view_not_Greeting dest: view_Requesting)

lemma advance_view: "advance (socks5_view t) c = socks5_view (t @ c)"
proof -
  have 0: "(t @ c) ! 0 = t ! 0" "(t @ c) ! 1 = t ! 1" if "3 \<le> length t" using that by (auto simp: nth_append)
  show ?thesis
  proof (cases "length t < 3 \<or> t ! 0 = 5 \<and> length t < 2 + unat (t ! 1)")
    case True
    then have "socks5_view t = Greeting t" by (auto simp: socks5_view_def)
    then show ?thesis by simp
  next
    case False
    then have "socks5_view t = (if t ! 0 \<noteq> 5 then Rejected else request_view (drop (2 + unat (t ! 1)) t))"
      "socks5_view (t @ c) = (if t ! 0 \<noteq> 5 then Rejected else request_view (drop (2 + unat (t ! 1)) t @ c))"
      using 0 by (auto simp: socks5_view_def)
    then show ?thesis by (auto simp: advance_request_view)
  qed
qed

section \<open>The handler implements the specification\<close>

definition serving :: "env \<Rightarrow> nat \<Rightarrow> mux \<Rightarrow> proxy_client \<Rightarrow> bool" where
  "serving env a st pc \<longleftrightarrow> mux_ok st \<and> heap st a = Some pc \<and> buf_ok (pc_socks5_buf pc) \<and> conf_tcp_mux st \<noteq> None \<and>
     (\<forall>n. \<not> oom st n) \<and> (\<forall>n p. e_connect env n p)"

lemma serving_update:
  assumes "serving env a st pc" "pc_stream pc' = pc_stream pc" "pc_stream_id pc' = pc_stream_id pc" "buf_ok (pc_socks5_buf pc')"
  obtains st' where "put_pc a pc' st = Some st'" "serving env a st' pc'"
  using assms put_pc_ok [of st a pc pc'] unfolding serving_def by auto

lemma serving_tick: "serving env a st pc \<Longrightarrow> serving env a (st\<lparr>tick := n\<rparr>) pc"
  by (simp add: serving_def)

lemma socks5_connect_ok:
  assumes "serving env a st pc" "socks5_dest ad = Some p"
  obtains n where "socks5_proxy_connect env ad st = (Some (new_bev p), st\<lparr>tick := n\<rparr>)"
  using assms by (auto simp: serving_def socks5_proxy_connect_def alloc_def connect_to_def connects_def)

lemma parse_dest: "parse_socks5_addr b = Some (True, off, ad) \<Longrightarrow> \<exists>p. socks5_dest ad = Some p"
  by (auto simp: parse_socks5_addr_def filled_addr_def socks5_dest_def Let_def split: if_splits)

lemma take3: "3 \<le> length b \<Longrightarrow> take 3 b = [b ! 0, b ! 1, b ! 2]"
  by (cases b; cases "tl b"; cases "tl (tl b)") (auto simp: numeral_3_eq_3)

lemma socks5_request_ok:
  assumes sv: "serving env a st pc" and s1: "pc_state pc = 1"
  obtains st' pc' where "socks5_request env a st = Some (Break st')" "serving env a st' pc'"
    "client_view pc' = Some (request_view (content (pc_socks5_buf pc)))"
    "length (content (pc_socks5_buf pc')) \<le> length (content (pc_socks5_buf pc))"
proof -
  let ?buf = "content (pc_socks5_buf pc)"
  have h: "heap st a = Some pc" and gb: "buf_ok (pc_socks5_buf pc)" using sv by (auto simp: serving_def)
  consider (short) "length ?buf < 4" | (bad) "4 \<le> length ?buf" "take 3 ?buf \<noteq> [5, 1, 0]"
    | (wait) off ad where "4 \<le> length ?buf" "take 3 ?buf = [5, 1, 0]" "parse_socks5_addr (drop 3 ?buf) = Some (False, off, ad)"
    | (go) off ad where "4 \<le> length ?buf" "take 3 ?buf = [5, 1, 0]" "parse_socks5_addr (drop 3 ?buf) = Some (True, off, ad)"
  proof (cases "parse_socks5_addr (drop 3 ?buf)")
    case None
    then have "length ?buf < 4" by (auto simp: parse_socks5_addr_def Let_def split: if_splits)
    then show thesis by (rule short)
  next
    case (Some r)
    obtain ok off ad where "r = (ok, off, ad)" by (cases r)
    with Some have "parse_socks5_addr (drop 3 ?buf) = Some (ok, off, ad)" by simp
    then show thesis using short bad wait [of off ad] go [of off ad]
      by (cases "length ?buf < 4"; cases "take 3 ?buf = [5, 1, 0]"; cases ok) (simp_all add: not_less)
  qed
  then show thesis
  proof cases
    case short
    then show thesis using sv h s1 by (intro that [of st pc]) (auto simp: socks5_request_def client_view_def request_view_def)
  next
    case bad
    obtain st' where "put_pc a (pc\<lparr>pc_state := 6\<rparr>) st = Some st'" "serving env a st' (pc\<lparr>pc_state := 6\<rparr>)"
      by (rule serving_update [OF sv, of "pc\<lparr>pc_state := 6\<rparr>"]) (use gb in auto)
    then show thesis using bad h take3 [of ?buf]
      by (intro that [of st' "pc\<lparr>pc_state := 6\<rparr>"]) (auto simp: socks5_request_def client_view_def request_view_def)
  next
    case wait
    obtain st' where "put_pc a (pc\<lparr>pc_remote_addr := ad\<rparr>) st = Some st'" "serving env a st' (pc\<lparr>pc_remote_addr := ad\<rparr>)"
      by (rule serving_update [OF sv, of "pc\<lparr>pc_remote_addr := ad\<rparr>"]) (use gb in auto)
    then show thesis using wait h s1 take3 [of ?buf]
      by (intro that [of st' "pc\<lparr>pc_remote_addr := ad\<rparr>"]) (auto simp: socks5_request_def client_view_def request_view_def)
  next
    case go
    obtain p where p: "socks5_dest ad = Some p" using parse_dest [OF go(3)] by blast
    obtain n where n: "socks5_proxy_connect env ad st = (Some (new_bev p), st\<lparr>tick := n\<rparr>)" using socks5_connect_ok [OF sv p] .
    have off: "unat (of_nat (3 + off) :: u32) = 3 + off" "3 + off \<le> length ?buf"
    proof -
      show "unat (of_nat (3 + off) :: u32) = 3 + off" using parse_append(3) [OF go(3)] by (intro unat_of_nat_u32) simp
      show "3 + off \<le> length ?buf" using parse_append(2) [OF go(3)] go(1) by simp
    qed
    obtain b where b: "buf_drop (of_nat (3 + off)) (pc_socks5_buf pc) = Some b" "buf_ok b" "content b = drop (3 + off) ?buf"
      using buf_drop_staged [OF gb, of "of_nat (3 + off)"] off by (metis (no_types))
    let ?tail = "drop (3 + off) ?buf"
    define lb where "lb = (new_bev p)\<lparr>lb_out := ?tail\<rparr>"
    define b' where "b' = (if gb_len b \<noteq> 0 then b\<lparr>gb_len := 0\<rparr> else b)"
    define st1 where "st1 = (if gb_len b \<noteq> 0 then st\<lparr>tick := Suc n\<rparr> else st\<lparr>tick := n\<rparr>)"
    define pc' where "pc' = pc\<lparr>pc_remote_addr := ad, pc_local := Some lb, pc_socks5_buf := b', pc_state := 2\<rparr>"
    have b': "buf_ok b'" "content b' = []" using b gb_reset [OF b(2)] gb_len_0 [OF b(2)] by (auto simp: b'_def)
    have sv1: "serving env a st1 pc" using sv serving_tick by (simp add: st1_def)
    have mem: "oom st k = False" for k using sv by (simp add: serving_def)
    obtain st' where st': "put_pc a pc' st1 = Some st'" "serving env a st' pc'"
      by (rule serving_update [OF sv1, of pc']) (use b' in \<open>auto simp: pc'_def\<close>)
    have "socks5_request env a st = Some (Break st')"
      using h go take3 [of ?buf] n b st'(1) gb_len_0 [OF b(2)] mem
      by (auto simp: socks5_request_def Let_def buf_add_def alloc_def st1_def b'_def pc'_def lb_def new_bev_def)
    moreover have "client_view pc' = Some (request_view ?buf)"
      using go p b' by (auto simp: client_view_def pc'_def lb_def request_view_def new_bev_def)
    moreover have "length (content (pc_socks5_buf pc')) \<le> length ?buf" using b' by (simp add: pc'_def)
    ultimately show thesis using st'(2) by (intro that)
  qed
qed

lemma socks5_greeting_ok:
  assumes sv: "serving env a st pc" and s0: "pc_state pc = 0"
  obtains (stop) st' pc' where "socks5_greeting a st = Some (Break st')" "serving env a st' pc'"
      "client_view pc' = Some (socks5_view (content (pc_socks5_buf pc)))"
      "length (content (pc_socks5_buf pc')) \<le> length (content (pc_socks5_buf pc))"
  | (onto) st' pc' where "socks5_greeting a st = Some (Continue st')" "serving env a st' pc'" "pc_state pc' = 1"
      "socks5_view (content (pc_socks5_buf pc)) = request_view (content (pc_socks5_buf pc'))"
      "length (content (pc_socks5_buf pc')) \<le> length (content (pc_socks5_buf pc))"
proof -
  let ?buf = "content (pc_socks5_buf pc)" and ?n = "2 + unat (content (pc_socks5_buf pc) ! 1)"
  have h: "heap st a = Some pc" and gb: "buf_ok (pc_socks5_buf pc)" and ok: "mux_ok st" using sv by (auto simp: serving_def)
  obtain v where v: "conf_tcp_mux st = Some v" using sv by (auto simp: serving_def)
  consider (short) "length ?buf < 3" | (bad) "3 \<le> length ?buf" "?buf ! 0 \<noteq> 5" | (good) "3 \<le> length ?buf" "?buf ! 0 = 5" by linarith
  then show thesis
  proof cases
    case short
    then show thesis using sv h s0 by (intro stop [of st pc]) (auto simp: socks5_greeting_def client_view_def socks5_view_def)
  next
    case bad
    obtain st' where "put_pc a (pc\<lparr>pc_state := 6\<rparr>) st = Some st'" "serving env a st' (pc\<lparr>pc_state := 6\<rparr>)"
      by (rule serving_update [OF sv, of "pc\<lparr>pc_state := 6\<rparr>"]) (use gb in auto)
    then show thesis using bad h
      by (intro stop [of st' "pc\<lparr>pc_state := 6\<rparr>"]) (auto simp: socks5_greeting_def client_view_def socks5_view_def)
  next
    case good
    obtain st1 s out where st1: "proxy_reply [5, 0] a st = Some st1" "mux_ok st1" "heap st1 a = Some (pc\<lparr>pc_stream := s, pc_ctl_out := out\<rparr>)"
      "oom st1 = oom st" "conf_tcp_mux st1 = Some v"
      by (rule proxy_reply_ok [OF ok h v, of "[5, 0]"]) simp_all
    let ?pc = "pc\<lparr>pc_stream := s, pc_ctl_out := out\<rparr>"
    have sv1: "serving env a st1 ?pc" using sv st1 by (simp add: serving_def)
    show thesis
    proof (cases "length ?buf < ?n")
      case True
      then show thesis using good h st1 sv1 s0
        by (intro stop [of st1 ?pc]) (auto simp: socks5_greeting_def client_view_def socks5_view_def)
    next
      case False
      have "unat (content (pc_socks5_buf pc) ! 1) < 256" using unsigned_less [of "content (pc_socks5_buf pc) ! 1"] by simp
      then have n: "unat (of_nat ?n :: u32) = ?n" by (intro unat_of_nat_u32) simp
      obtain b where b: "buf_drop (of_nat ?n) (pc_socks5_buf pc) = Some b" "buf_ok b" "content b = drop ?n ?buf"
        using buf_drop_staged [OF gb, of "of_nat ?n"] n False by (metis not_less)
      let ?pc' = "?pc\<lparr>pc_socks5_buf := b, pc_state := 1\<rparr>"
      obtain st' where st': "put_pc a ?pc' st1 = Some st'" "serving env a st' ?pc'"
        by (rule serving_update [OF sv1, of ?pc']) (use b in auto)
      have "socks5_greeting a st = Some (Continue st')"
        using good h st1(1,3) False b(1) st'(1) by (simp add: socks5_greeting_def Let_def not_less)
      then show thesis using st'(2) b(3) good False
        by (intro onto [of st' ?pc']) (simp_all add: socks5_view_def not_less)
    qed
  qed
qed

lemma socks5_loop_ok:
  assumes sv: "serving env a st pc" and v: "client_view pc = Some V"
  obtains st' pc' where "socks5_loop env a st = Some st'" "serving env a st' pc'"
    "client_view pc' = Some (advance V [])" "length (content (pc_socks5_buf pc')) \<le> length (content (pc_socks5_buf pc))"
proof -
  let ?buf = "content (pc_socks5_buf pc)"
  have h: "heap st a = Some pc" and gb: "buf_ok (pc_socks5_buf pc)" using sv by (auto simp: serving_def)
  have request: "\<exists>st' pc'. socks5_loop env a st = Some st' \<and> serving env a st' pc' \<and>
      client_view pc' = Some (request_view (content (pc_socks5_buf pc))) \<and>
      length (content (pc_socks5_buf pc')) \<le> length (content (pc_socks5_buf pc))"
    if sv: "serving env a st pc" and s1: "pc_state pc = 1" for st pc
  proof (cases "content (pc_socks5_buf pc) = []")
    case True
    then have "socks5_loop env a st = Some st"
      using that gb_len_0 by (subst socks5_loop.simps) (auto simp: serving_def)
    then show ?thesis using that True by (intro exI [of _ st] exI [of _ pc]) (simp add: client_view_def request_view_def)
  next
    case False
    then have "gb_len (pc_socks5_buf pc) \<noteq> 0" "heap st a = Some pc" using that gb_len_0 by (auto simp: serving_def)
    moreover obtain st' pc' where "socks5_request env a st = Some (Break st')" "serving env a st' pc'"
      "client_view pc' = Some (request_view (content (pc_socks5_buf pc)))"
      "length (content (pc_socks5_buf pc')) \<le> length (content (pc_socks5_buf pc))"
      by (rule socks5_request_ok [OF sv s1])
    ultimately show ?thesis using s1 by (subst socks5_loop.simps) auto
  qed
  consider "?buf = []" | "?buf \<noteq> []" "pc_state pc = 0" | "pc_state pc = 1" | "?buf \<noteq> []" "pc_state pc \<noteq> 0" "pc_state pc \<noteq> 1"
    by blast
  then show thesis
  proof cases
    case 1
    then have "socks5_loop env a st = Some st" using h gb gb_len_0 by (subst socks5_loop.simps) auto
    moreover have "advance V [] = V"
      using v 1 by (auto simp: client_view_def socks5_view_def request_view_def Let_def split: if_splits)
    ultimately show thesis using sv v by (intro that [of st pc]) auto
  next
    case 2
    then have ne: "gb_len (pc_socks5_buf pc) \<noteq> 0" using gb gb_len_0 by blast
    have V: "advance V [] = socks5_view ?buf" using v 2 by (auto simp: client_view_def)
    from sv 2(2) show thesis
    proof (cases rule: socks5_greeting_ok)
      case (stop st' pc')
      have "socks5_loop env a st = Some st'" using h ne 2(2) stop(1) by (subst socks5_loop.simps) simp
      with stop V show thesis by (intro that) auto
    next
      case (onto st1 pc1)
      have "socks5_loop env a st = socks5_loop env a st1" using h ne 2(2) onto(1) by (subst socks5_loop.simps) simp
      with request [OF onto(2,3)] onto(4,5) V show thesis using that by (metis order_trans)
    qed
  next
    case 3
    have "V = Requesting ?buf" using v 3 by (simp add: client_view_def)
    with request [OF sv 3] that show thesis by auto
  next
    case 4
    then have "gb_len (pc_socks5_buf pc) \<noteq> 0" using gb gb_len_0 by blast
    then have "socks5_loop env a st = Some st" using h 4 by (subst socks5_loop.simps) simp
    moreover have "advance V [] = V" using v 4 by (auto simp: client_view_def split: if_splits)
    ultimately show thesis using sv v by (intro that [of st pc]) auto
  qed
qed

fun push :: "socks5_session \<Rightarrow> bytes \<Rightarrow> socks5_session" where
  "push (Greeting r) c = Greeting (r @ c)"
| "push (Requesting r) c = Requesting (r @ c)"
| "push (Connecting p r) c = Connecting p (r @ c)"
| "push Rejected c = Rejected"

lemma advance_push: "advance (push V c) [] = advance V c"
  by (cases V) simp_all

lemma client_view_push:
  "client_view pc = Some V \<Longrightarrow> content b = content (pc_socks5_buf pc) @ c \<Longrightarrow>
     client_view (pc\<lparr>pc_socks5_buf := b\<rparr>) = Some (push V c)"
  by (auto simp: client_view_def Let_def split: if_splits)

lemma handle_socks5_ok:
  assumes sv: "serving env a st pc" and v: "client_view pc = Some V" and c: "c \<noteq> []"
    and fits: "length (content (pc_socks5_buf pc)) + length c \<le> 2 ^ 30"
  obtains st' pc' where "handle_socks5 env a (of_nat (length c)) (c @ rest) st = Some (rest, st')" "serving env a st' pc'"
    "client_view pc' = Some (advance V c)" "length (content (pc_socks5_buf pc')) \<le> length (content (pc_socks5_buf pc)) + length c"
proof -
  let ?b = "pc_socks5_buf pc" and ?len = "of_nat (length c) :: u32"
  have h: "heap st a = Some pc" and gb: "buf_ok ?b" and mem: "\<not> oom st (tick st)" using sv by (auto simp: serving_def)
  have s3: "pc_state pc \<noteq> 3" using v by (auto simp: client_view_def)
  have ul: "unat ?len = length c" using fits by (intro unat_of_nat_u32) simp
  have l0: "?len \<noteq> 0" using ul c by auto
  obtain b b2 n where b: "buf_ensure 256 ?b (gb_len ?b + ?len) st = Some (0, b, st\<lparr>tick := n\<rparr>)"
    and b2: "gb_put b c = Some b2" "buf_ok b2" "content b2 = content ?b @ c"
    by (rule ensure_put_ok [OF gb fits mem, of 256 8]) auto
  let ?pc = "pc\<lparr>pc_socks5_buf := b2\<rparr>"
  obtain st1 where st1: "put_pc a ?pc (st\<lparr>tick := n\<rparr>) = Some st1" "serving env a st1 ?pc"
    by (rule serving_update [OF serving_tick [OF sv], of ?pc n]) (use b2 in auto)
  obtain st' pc' where st': "socks5_loop env a st1 = Some st'" "serving env a st' pc'" "client_view pc' = Some (advance V c)"
    "length (content (pc_socks5_buf pc')) \<le> length (content b2)"
    using socks5_loop_ok [OF st1(2) client_view_push [OF v b2(3)]] by (auto simp: advance_push)
  have "handle_socks5 env a ?len (c @ rest) st = Some (rest, st')"
    using h s3 l0 b b2(1) st1(1) st'(1) c by (simp add: handle_socks5_def ul Let_def)
  with st' b2(3) show thesis by (intro that) auto
qed

fun socks5_feed :: "env \<Rightarrow> nat \<Rightarrow> bytes list \<Rightarrow> mux \<Rightarrow> mux option" where
  "socks5_feed env a [] st = Some st"
| "socks5_feed env a (c # cs) st = do { (rest, st) \<leftarrow> handle_socks5 env a (of_nat (length c)) c st; socks5_feed env a cs st }"

lemma socks5_feed_ok:
  assumes "serving env a st pc" "client_view pc = Some V" "\<forall>c \<in> set cs. c \<noteq> []"
    and "length (content (pc_socks5_buf pc)) + length (concat cs) \<le> 2 ^ 30" "V = socks5_view t"
  shows "\<exists>st' pc'. socks5_feed env a cs st = Some st' \<and> serving env a st' pc' \<and>
    client_view pc' = Some (socks5_view (t @ concat cs))"
  using assms
proof (induction cs arbitrary: st pc V t)
  case Nil
  then show ?case by auto
next
  case (Cons c cs)
  then have c: "c \<noteq> []" "length (content (pc_socks5_buf pc)) + length c \<le> 2 ^ 30" by auto
  obtain st1 pc1 where s1: "handle_socks5 env a (of_nat (length c)) c st = Some ([], st1)" "serving env a st1 pc1"
    "client_view pc1 = Some (socks5_view (t @ c))"
    "length (content (pc_socks5_buf pc1)) \<le> length (content (pc_socks5_buf pc)) + length c"
    using handle_socks5_ok [OF Cons.prems(1,2) c, of "[]"] Cons.prems(5) by (auto simp: advance_view)
  with Cons.prems have "\<exists>st' pc'. socks5_feed env a cs st1 = Some st' \<and> serving env a st' pc' \<and>
    client_view pc' = Some (socks5_view ((t @ c) @ concat cs))" by (intro Cons.IH [OF s1(2,3)]) auto
  with s1(1) show ?case by simp
qed

section \<open>Requests\<close>

text \<open>The address of a destination in a request, and the destinations that can be written.\<close>

fun enc_dest :: "endpoint \<Rightarrow> bytes" where
  "enc_dest (Ip4 b p) = [1] @ b @ be16 p"
| "enc_dest (Ip6 b p) = [4] @ b @ be16 p"
| "enc_dest (Host d p) = [3, of_nat (length d)] @ d @ be16 p"
| "enc_dest _ = []"

fun dest_ok :: "endpoint \<Rightarrow> bool" where
  "dest_ok (Ip4 b p) = (length b = 4)"
| "dest_ok (Ip6 b p) = (length b = 16)"
| "dest_ok (Host d p) = (d \<noteq> [] \<and> length d < 20 \<and> 0 \<notin> set d)"
| "dest_ok _ = False"

lemma be16_split: "\<exists>x y. be16 p = [x, y] \<and> rd16 x y = p"
  by (simp add: be16_def rd16_be16)

lemma unat_len_u8: "n < 256 \<Longrightarrow> unat (of_nat n :: u8) = n"
  by (simp add: unat_of_nat)

lemma takeWhile_zero: "0 \<notin> set d \<Longrightarrow> takeWhile (\<lambda>b. b \<noteq> 0) (d @ 0 # r) = d" for d :: bytes
  by (induction d) auto

lemma parse_enc_dest:
  assumes "dest_ok p"
  obtains ad where "parse_socks5_addr (enc_dest p @ r) = Some (True, length (enc_dest p), ad)" "socks5_dest ad = Some p"
proof (cases p)
  case (Ip4 b q)
  obtain x y where xy: "be16 q = [x, y]" "rd16 x y = q" using be16_split by blast
  have "parse_socks5_addr (enc_dest p @ r) = Some (True, 7, filled_addr 1 1 4 (enc_dest p @ r))"
    "socks5_dest (filled_addr 1 1 4 (enc_dest p @ r)) = Some p"
    using Ip4 assms xy by (simp_all add: parse_True_iff addr_size_def filled_addr_def socks5_dest_def)
  then show thesis using that Ip4 assms xy by simp
next
  case (Ip6 b q)
  obtain x y where xy: "be16 q = [x, y]" "rd16 x y = q" using be16_split by blast
  have "parse_socks5_addr (enc_dest p @ r) = Some (True, 19, filled_addr 4 1 16 (enc_dest p @ r))"
    "socks5_dest (filled_addr 4 1 16 (enc_dest p @ r)) = Some p"
    using Ip6 assms xy by (simp_all add: parse_True_iff addr_size_def filled_addr_def socks5_dest_def)
  then show thesis using that Ip6 assms xy by simp
next
  case (Host d q)
  obtain x y where xy: "be16 q = [x, y]" "rd16 x y = q" using be16_split by blast
  have d: "d \<noteq> []" "length d < 20" "0 \<notin> set d" using Host assms by auto
  obtain k where k: "20 - length d = Suc k" using d(2) by (metis Suc_diff_Suc)
  have u: "unat (of_nat (length d) :: u8) = length d" using d(2) by (intro unat_len_u8) simp
  have ad: "filled_addr 3 2 (length d) (enc_dest p @ r) = \<lparr>sa_addr = d @ replicate (20 - length d) 0, sa_port = [x, y], sa_type = 3\<rparr>"
    using Host xy by (simp add: filled_addr_def)
  have "parse_socks5_addr (enc_dest p @ r) = Some (True, 4 + length d, filled_addr 3 2 (length d) (enc_dest p @ r))"
    using Host xy d u by (simp add: parse_True_iff addr_size_def Suc_le_eq)
  moreover have "socks5_dest (filled_addr 3 2 (length d) (enc_dest p @ r)) = Some p"
    unfolding ad using Host xy d by (simp add: socks5_dest_def c_host_def k takeWhile_zero)
  ultimately show thesis using that Host xy by simp
qed (use assms in auto)

definition socks5_bytes :: "bytes \<Rightarrow> endpoint \<Rightarrow> bytes" where
  "socks5_bytes methods p = [5, of_nat (length methods)] @ methods @ [5, 1, 0] @ enc_dest p"

lemma socks5_view_bytes:
  assumes "dest_ok p" "length methods < 256"
  shows "socks5_view (socks5_bytes methods p @ d) = Connecting (Some p) d"
proof -
  obtain ad where ad: "parse_socks5_addr (enc_dest p @ d) = Some (True, length (enc_dest p), ad)" "socks5_dest ad = Some p"
    using parse_enc_dest [OF assms(1)] .
  have u: "unat (of_nat (length methods) :: u8) = length methods" using assms(2) by (rule unat_len_u8)
  have ne: "enc_dest p \<noteq> []" using assms(1) by (cases p) auto
  have l: "3 + length (enc_dest p) = Suc (Suc (Suc (length (enc_dest p))))" "0 < length (enc_dest p)" using ne by simp_all
  have "request_view ([5, 1, 0] @ enc_dest p @ d) = Connecting (Some p) d"
    using ad l(2) by (simp add: request_view_def l(1))
  then show ?thesis by (simp add: socks5_view_def socks5_bytes_def u)
qed

section \<open>Properties\<close>

lemma demo_serving: "serving demo_env 0 demo_mux demo_client"
proof -
  have "buf_ok (pc_socks5_buf demo_client)" by (simp add: demo_client_def calloc_client_def)
  then show ?thesis using demo_mux_ok by (simp add: serving_def) (simp add: demo_mux_def demo_env_def)
qed

text \<open>C8. The SOCKS5 server implements its specification: however the bytes of a session are cut into
  pieces, with memory and reachable destinations, after the pieces the client is what the
  specification says for the whole byte string. It waits, has rejected the session, or is connected
  to the parsed destination with exactly the bytes behind the request forwarded or staged, in order.\<close>

theorem socks5_refines_view:
  assumes "serving env a st pc" "pc_state pc = 0" "content (pc_socks5_buf pc) = []"
    and "\<forall>c \<in> set cs. c \<noteq> []" "length (concat cs) \<le> 2 ^ 30"
  shows "\<exists>st' pc'. socks5_feed env a cs st = Some st' \<and> heap st' a = Some pc' \<and> mux_ok st' \<and>
    client_view pc' = Some (socks5_view (concat cs))"
proof -
  have "client_view pc = Some (socks5_view [])" using assms(2,3) by (simp add: client_view_def socks5_view_def)
  from socks5_feed_ok [OF assms(1) this assms(4) _ refl] assms(3,5) show ?thesis by (auto simp: serving_def)
qed

text \<open>C32. A SOCKS5 request is understood: a greeting with any methods and a CONNECT request for an IPv4
  address, an IPv6 address or a name of 1 to 19 bytes without a zero byte lead the handler, however these bytes and the payload
  behind them are cut into pieces, to a connection to exactly that destination and port; everything sent behind the request is
  written to it or staged for it, in order. Memory is available, the connecting call succeeds, and at most 1 GiB is sent. (A longer
  name is not covered: one of 20 bytes gives another destination.)\<close>

theorem socks5_connects_to_request:
  assumes "serving env a st pc" "pc_state pc = 0" "content (pc_socks5_buf pc) = []"
    and "dest_ok p" "length methods < 256" "concat cs = socks5_bytes methods p @ payload" "\<forall>c \<in> set cs. c \<noteq> []" "length (concat cs) \<le> 2 ^ 30"
  shows "\<exists>st' pc' lb. socks5_feed env a cs st = Some st' \<and> heap st' a = Some pc' \<and> pc_state pc' = 2 \<and> pc_local pc' = Some lb \<and>
    lb_peer lb = p \<and> lb_out lb @ content (pc_socks5_buf pc') = payload"
proof -
  have "client_view pc = Some (socks5_view [])" using assms(2,3) by (simp add: client_view_def socks5_view_def)
  from socks5_feed_ok [OF assms(1) this assms(7) _ refl] assms(3,8) obtain st' pc'
    where r: "socks5_feed env a cs st = Some st'" "serving env a st' pc'" "client_view pc' = Some (socks5_view (concat cs))" by auto
  have "socks5_view (concat cs) = Connecting (Some p) payload" unfolding assms(6) using assms(4,5) by (rule socks5_view_bytes)
  with r(3) have "pc_state pc' = 2 \<and> (\<exists>lb. pc_local pc' = Some lb \<and> lb_peer lb = p \<and> lb_out lb @ content (pc_socks5_buf pc') = payload)"
    by (auto simp: client_view_def Let_def split: if_splits)
  with r(1,2) show ?thesis by (auto simp: serving_def)
qed

theorem socks5_connects_to_request_witness:
  "\<exists>st' pc' lb. socks5_feed demo_env 0 [[5, 1], [0, 5, 1, 0, 3, 2, 97, 98], [0, 80, 71]] demo_mux = Some st' \<and> heap st' 0 = Some pc' \<and>
     pc_state pc' = 2 \<and> pc_local pc' = Some lb \<and> lb_peer lb = Host [97, 98] 80 \<and> lb_out lb @ content (pc_socks5_buf pc') = [71]"
  by (rule socks5_connects_to_request [OF demo_serving, where methods = "[0]"])
    (simp_all add: demo_client_def calloc_client_def socks5_bytes_def be16_def)

theorem socks5_refines_view_witness:
  "\<exists>st' pc'. socks5_feed demo_env 0 [[5, 1], [0, 5, 1], [0, 1, 10, 0, 0, 1, 0, 80, 71], [72]] demo_mux = Some st' \<and>
    heap st' 0 = Some pc' \<and> mux_ok st' \<and> client_view pc' = Some (Connecting (Some (Ip4 [10, 0, 0, 1] 80)) [71, 72])"
proof -
  let ?cs = "[[5, 1], [0, 5, 1], [0, 1, 10, 0, 0, 1, 0, 80, 71], [72]] :: bytes list"
  have "socks5_bytes [0] (Ip4 [10, 0, 0, 1] 80) @ [71, 72] = concat ?cs" by (simp add: socks5_bytes_def be16_def)
  then have v: "socks5_view (concat ?cs) = Connecting (Some (Ip4 [10, 0, 0, 1] 80)) [71, 72]"
    using socks5_view_bytes [of "Ip4 [10, 0, 0, 1] 80" "[0]" "[71, 72]"] by simp
  have "\<exists>st' pc'. socks5_feed demo_env 0 ?cs demo_mux = Some st' \<and> heap st' 0 = Some pc' \<and> mux_ok st' \<and>
    client_view pc' = Some (socks5_view (concat ?cs))"
    by (rule socks5_refines_view [OF demo_serving]) (simp_all add: demo_client_def calloc_client_def)
  then show ?thesis unfolding v .
qed

text \<open>C33. A name of 20 bytes fills the address field and has no terminator: bytes of the port become part
  of the name, so that for every port from 256 on the connection goes to another name than the one
  requested.\<close>

theorem socks5_name_of_20_is_wrong:
  assumes "length d = 20" "0 \<notin> set d" "256 \<le> p" "length methods < 256"
  shows "\<exists>e. e \<noteq> [] \<and> socks5_view (socks5_bytes methods (Host d p) @ payload) = Connecting (Some (Host (d @ e) p)) payload"
proof -
  obtain x y where xy: "be16 p = [x, y]" "rd16 x y = p" using be16_split by blast
  have x: "x \<noteq> 0"
  proof
    assume "x = 0"
    moreover have "unat y < 256" using unsigned_less [of y] by simp
    ultimately have "unat p < 256" using xy(2) by (auto simp: rd16_def unsigned_ucast_eq take_bit_nat_eq_self)
    with assms(3) show False by (simp add: word_le_nat_alt)
  qed
  let ?e = "takeWhile (\<lambda>b. b \<noteq> 0) [x, y, 3]"
  have tw: "takeWhile (\<lambda>b. b \<noteq> 0) (d @ [x, y, 3, 0]) = d @ ?e" using assms(2) by (auto simp: takeWhile_append)
  have u: "unat (20 :: u8) = 20" by simp
  have "parse_socks5_addr (enc_dest (Host d p) @ payload) = Some (True, 24, \<lparr>sa_addr = d, sa_port = [x, y], sa_type = 3\<rparr>)"
    using assms(1) xy by (simp add: parse_True_iff addr_size_def filled_addr_def)
  moreover have "socks5_dest \<lparr>sa_addr = d, sa_port = [x, y], sa_type = 3\<rparr> = Some (Host (d @ ?e) p)"
    using tw xy by (simp add: socks5_dest_def c_host_def)
  ultimately have "request_view ([5, 1, 0] @ enc_dest (Host d p) @ payload) = Connecting (Some (Host (d @ ?e) p)) payload"
    using assms(1) xy by (simp add: request_view_def)
  then have "socks5_view (socks5_bytes methods (Host d p) @ payload) = Connecting (Some (Host (d @ ?e) p)) payload"
    using unat_len_u8 [OF assms(4)] by (simp add: socks5_view_def socks5_bytes_def)
  then show ?thesis using x by (intro exI [of _ ?e]) simp
qed

theorem socks5_name_of_20_is_wrong_witness:
  "\<exists>e. e \<noteq> [] \<and> socks5_view (socks5_bytes [0] (Host (replicate 20 97) 443)) = Connecting (Some (Host (replicate 20 97 @ e) 443)) []"
  using socks5_name_of_20_is_wrong [of "replicate 20 97" 443 "[0]" "[]"] by simp

end
