(* ===== verification/Xdpi.thy ===== *)
theory Xdpi
  imports Proxy_Base
begin

text \<open>
  The protocol check in front of a local service: \<open>xdpi_engine\<close> of \<open>client.c\<close>, which looks at the first
  bytes of a connection, and \<open>handle_xdpi\<close> of \<open>proxy_tcp.c\<close>, which stages bytes until the check has
  passed, connects, and forwards.
\<close>

section \<open>The code\<close>

definition starts :: "string \<Rightarrow> bytes \<Rightarrow> bool" where
  "starts s data \<longleftrightarrow> take (length s) data = map of_char s"

text \<open>The search for the protocol name in the request line: \<open>for (i = 4; i + 5 < len; i++)\<close>.\<close>

definition has_http :: "bytes \<Rightarrow> bool" where
  "has_http data = list_ex (\<lambda>i. starts '' HTTP/'' (drop i data)) [4..<length data - 5]"

fun xdpi_match :: "xdpi_service_type \<Rightarrow> bytes \<Rightarrow> bool" where
  "xdpi_match SERVICE_SSH data = (8 \<le> length data \<and> length data \<le> 255 \<and> starts ''SSH-2.0-'' data)"
| "xdpi_match SERVICE_HTTP data =
     (8 \<le> length data \<and>
      (starts ''GET '' data \<or> starts ''POST'' data \<or> starts ''HEAD'' data \<or> starts ''PUT '' data \<or> starts ''DELE'' data) \<and>
      has_http data)"
| "xdpi_match SERVICE_HTTPS data = (3 \<le> length data \<and> data ! 0 = 0x16 \<and> data ! 1 = 0x03)"
| "xdpi_match SERVICE_MSTSC data = (19 \<le> length data \<and> data ! 0 = 0x03 \<and> data ! 1 = 0 \<and> data ! 2 = 0)"
| "xdpi_match SERVICE_RDP data = (19 \<le> length data \<and> data ! 0 = 0x03 \<and> data ! 1 = 0 \<and> data ! 2 = 0)"
| "xdpi_match SERVICE_VNC data = (4 \<le> length data \<and> starts ''RFB '' data)"
| "xdpi_match SERVICE_TELNET data = (3 \<le> length data \<and> data ! 0 = 0xFF \<and> data ! 1 = 0xFB)"
| "xdpi_match NO_XDPI data = True"

definition xdpi_engine :: "proxy_client \<Rightarrow> bytes \<Rightarrow> int \<times> proxy_client" where
  "xdpi_engine pc data =
     (if data = [] then (-1, pc)
      else case pc_ps pc of
        None \<Rightarrow> (-1, pc)
      | Some ps \<Rightarrow>
          (case pc_xdpi_state pc of
             XDPI_BLOCKED \<Rightarrow> (-1, pc)
           | XDPI_VERIFIED \<Rightarrow> (0, pc)
           | XDPI_INIT \<Rightarrow>
               if xdpi_match (ps_service_type ps) data then (0, pc\<lparr>pc_xdpi_state := XDPI_VERIFIED\<rparr>)
               else (-1, pc\<lparr>pc_xdpi_state := XDPI_BLOCKED\<rparr>)))"

definition xdpi_discard :: "proxy_client \<Rightarrow> proxy_client" where
  "xdpi_discard pc = pc\<lparr>pc_xdpi_buf := (pc_xdpi_buf pc)\<lparr>gb_len := 0\<rparr>\<rparr>"

text \<open>The end of the handler, with a connection: flush what is staged, pass through from now on. The
  result of the write is ignored.\<close>

definition xdpi_flush :: "nat \<Rightarrow> proxy_client \<Rightarrow> local_bev \<Rightarrow> mux \<Rightarrow> mux option" where
  "xdpi_flush a pc lb st =
     (let (lb, pc, st) =
        (if gb_len (pc_xdpi_buf pc) \<noteq> 0
         then let (rc, out, st) = buf_add (lb_out lb) (content (pc_xdpi_buf pc)) st in (lb\<lparr>lb_out := out\<rparr>, xdpi_discard pc, st)
         else (lb, pc, st)) in
      put_pc a (pc\<lparr>pc_local := Some lb, pc_xdpi_state := XDPI_VERIFIED\<rparr>) st)"

text \<open>After a successful check: connect if there is no connection yet.\<close>

definition xdpi_connect :: "env \<Rightarrow> nat \<Rightarrow> proxy_client \<Rightarrow> proxy_service \<Rightarrow> mux \<Rightarrow> mux option" where
  "xdpi_connect env a pc ps st =
     (case pc_local pc of
        Some lb \<Rightarrow> xdpi_flush a pc lb st
      | None \<Rightarrow>
          if ps_local_ip ps = None \<or> ps_local_port ps = 0 then put_pc a (xdpi_discard pc) st
          else case connect_server env (ps_local_ip ps) (ps_local_port ps) st of
            (None, st) \<Rightarrow> put_pc a pc st
          | (Some lb, st) \<Rightarrow> xdpi_flush a pc lb st)"

definition xdpi_buf_ensure :: "gbuf \<Rightarrow> u32 \<Rightarrow> mux \<Rightarrow> (int \<times> gbuf \<times> mux) option" where
  [simp]: "xdpi_buf_ensure = buf_ensure 4096"

definition handle_xdpi :: "env \<Rightarrow> nat \<Rightarrow> u32 \<Rightarrow> bytes \<Rightarrow> mux \<Rightarrow> (bytes \<times> mux) option" where
  "handle_xdpi env a len src st =
     (if len = 0 then Some (src, st)
      else do {
        pc \<leftarrow> heap st a;
        (case (pc_xdpi_state pc, pc_local pc) of
           (XDPI_VERIFIED, Some lb) \<Rightarrow>
             (let (n, src, out, st) = evbuffer_zc_transfer src (lb_out lb) len st in do {
                st \<leftarrow> put_pc a (pc\<lparr>pc_local := Some (lb\<lparr>lb_out := out\<rparr>)\<rparr>) st;
                Some (src, st)
              })
         | _ \<Rightarrow> do {
             (rc, b, st) \<leftarrow> xdpi_buf_ensure (pc_xdpi_buf pc) (gb_len (pc_xdpi_buf pc) + len) st;
             if rc < 0 then Some (src, st)
             else let nr = min (unat len) (length src) in do {
               b \<leftarrow> gb_put b (take nr src);
               (let pc = pc\<lparr>pc_xdpi_buf := b\<rparr>; src = drop nr src in
                if nr = 0 then do { st \<leftarrow> put_pc a pc st; Some (src, st) }
                else let (ok, st) = alloc st in
                if \<not> ok then do { st \<leftarrow> put_pc a pc st; Some (src, st) }
                else let (rc, pc) = xdpi_engine pc (content b) in do {
                  ps \<leftarrow> pc_ps pc;
                  st \<leftarrow> (if rc < 0 then put_pc a (xdpi_discard (pc\<lparr>pc_xdpi_state := XDPI_BLOCKED\<rparr>)) st
                        else xdpi_connect env a pc ps st);
                  Some (src, st)
                })
             }
           })
      })"

definition xdpi_proxy_s2c_cb :: "env \<Rightarrow> nat \<Rightarrow> bytes \<Rightarrow> mux \<Rightarrow> (bytes \<times> mux) option" where
  "xdpi_proxy_s2c_cb env a src st =
     (if src = [] then Some (src, st) else handle_xdpi env a (of_nat (length src)) src st)"

section \<open>What the gate lets through\<close>

definition guarding :: "env \<Rightarrow> nat \<Rightarrow> mux \<Rightarrow> proxy_client \<Rightarrow> bool" where
  "guarding env a st pc \<longleftrightarrow> mux_ok st \<and> heap st a = Some pc \<and> buf_ok (pc_xdpi_buf pc) \<and> content (pc_xdpi_buf pc) = [] \<and>
     (\<forall>n. \<not> oom st n)"

text \<open>Verified with the given bytes delivered to the connection, or blocked without a connection.\<close>

definition passed :: "bytes \<Rightarrow> proxy_client \<Rightarrow> bool" where
  "passed d pc \<longleftrightarrow> pc_xdpi_state pc = XDPI_VERIFIED \<and> (\<exists>lb. pc_local pc = Some lb \<and> lb_out lb = d)"

definition blocked :: "proxy_client \<Rightarrow> bool" where
  "blocked pc \<longleftrightarrow> pc_xdpi_state pc = XDPI_BLOCKED \<and> pc_local pc = None \<and> pc_ps pc \<noteq> None"

lemma guarding_update:
  assumes "guarding env a st pc" "pc_stream pc' = pc_stream pc" "pc_stream_id pc' = pc_stream_id pc"
    "buf_ok (pc_xdpi_buf pc')" "content (pc_xdpi_buf pc') = []"
  obtains st' where "put_pc a pc' (st\<lparr>tick := n\<rparr>) = Some st'" "guarding env a st' pc'"
proof -
  have ok: "mux_ok (st\<lparr>tick := n\<rparr>)" "heap (st\<lparr>tick := n\<rparr>) a = Some pc" using assms(1) by (simp_all add: guarding_def)
  from put_pc_ok [OF ok assms(2,3)] assms that show thesis unfolding guarding_def by auto
qed

text \<open>Verified clients forward.\<close>

lemma xdpi_forward:
  assumes g: "guarding env a st pc" and p: "passed d pc" and c: "c \<noteq> []" "length c < 2 ^ 32"
  obtains st' pc' where "handle_xdpi env a (of_nat (length c)) c st = Some ([], st')" "guarding env a st' pc'" "passed (d @ c) pc'"
proof -
  obtain lb where lb: "pc_xdpi_state pc = XDPI_VERIFIED" "pc_local pc = Some lb" "lb_out lb = d" using p by (auto simp: passed_def)
  let ?pc = "pc\<lparr>pc_local := Some (lb\<lparr>lb_out := d @ c\<rparr>)\<rparr>"
  have u: "unat (of_nat (length c) :: u32) = length c" using c(2) by (rule unat_of_nat_u32)
  then have l0: "(of_nat (length c) :: u32) \<noteq> 0" using c(1) by auto
  have h: "heap st a = Some pc" and mem: "\<not> oom st (tick st)" using g by (auto simp: guarding_def)
  obtain st' where st': "put_pc a ?pc (st\<lparr>tick := Suc (tick st)\<rparr>) = Some st'" "guarding env a st' ?pc"
    by (rule guarding_update [OF g, of ?pc "Suc (tick st)"]) (use g in \<open>auto simp: guarding_def\<close>)
  have "handle_xdpi env a (of_nat (length c)) c st = Some ([], st')"
    using h lb l0 u c(1) mem st'(1) by (simp add: handle_xdpi_def evbuffer_zc_transfer_def alloc_def Let_def)
  then show thesis using st'(2) lb by (intro that) (auto simp: passed_def)
qed

text \<open>A client without a connection stages the bytes and asks the engine.\<close>

lemma xdpi_staged:
  assumes g: "guarding env a st pc" and n: "pc_local pc = None" and c: "c \<noteq> []" "length c \<le> 2 ^ 30"
  obtains b n where "handle_xdpi env a (of_nat (length c)) c st =
      (let (rc, pc) = xdpi_engine (pc\<lparr>pc_xdpi_buf := b\<rparr>) c in do {
         ps \<leftarrow> pc_ps pc;
         st \<leftarrow> (if rc < 0 then put_pc a (xdpi_discard (pc\<lparr>pc_xdpi_state := XDPI_BLOCKED\<rparr>)) (st\<lparr>tick := n\<rparr>)
               else xdpi_connect env a pc ps (st\<lparr>tick := n\<rparr>));
         Some ([], st)
       })" "buf_ok b" "content b = c"
proof -
  have u: "unat (of_nat (length c) :: u32) = length c" using c(2) by (intro unat_of_nat_u32) simp
  then have l0: "(of_nat (length c) :: u32) \<noteq> 0" using c(1) by auto
  have h: "heap st a = Some pc" and mem: "\<not> oom st (tick st)" "oom st k = False" and gb: "buf_ok (pc_xdpi_buf pc)" "content (pc_xdpi_buf pc) = []" for k
    using g by (auto simp: guarding_def)
  have fits: "length (content (pc_xdpi_buf pc)) + length c \<le> 2 ^ 30" using gb(2) c(2) by simp
  obtain b b2 n where b: "buf_ensure 4096 (pc_xdpi_buf pc) (gb_len (pc_xdpi_buf pc) + of_nat (length c)) st = Some (0, b, st\<lparr>tick := n\<rparr>)"
    "gb_put b c = Some b2" "buf_ok b2" "content b2 = c"
    by (rule ensure_put_ok [OF gb(1) fits mem(1), of 4096 12]) (use gb(2) in auto)
  have al: "alloc (st\<lparr>tick := n\<rparr>) = (True, st\<lparr>tick := Suc n\<rparr>)" using mem by (simp add: alloc_def)
  have "handle_xdpi env a (of_nat (length c)) c st =
      (let (rc, pc) = xdpi_engine (pc\<lparr>pc_xdpi_buf := b2\<rparr>) c in do {
         ps \<leftarrow> pc_ps pc;
         st \<leftarrow> (if rc < 0 then put_pc a (xdpi_discard (pc\<lparr>pc_xdpi_state := XDPI_BLOCKED\<rparr>)) (st\<lparr>tick := Suc n\<rparr>)
               else xdpi_connect env a pc ps (st\<lparr>tick := Suc n\<rparr>));
         Some ([], st)
       })"
    using h n l0 u c(1) b al by (cases "pc_xdpi_state pc") (simp_all add: handle_xdpi_def Let_def)
  with b(3,4) show thesis by (intro that)
qed

lemma xdpi_refused:
  assumes g: "guarding env a st pc" and n: "pc_local pc = None" and c: "c \<noteq> []" "length c \<le> 2 ^ 30"
    and r: "blocked pc \<or> pc_xdpi_state pc = XDPI_INIT \<and> (\<exists>ps. pc_ps pc = Some ps \<and> \<not> xdpi_match (ps_service_type ps) c)"
  obtains st' pc' where "handle_xdpi env a (of_nat (length c)) c st = Some ([], st')" "guarding env a st' pc'" "blocked pc'"
proof -
  obtain ps where ps: "pc_ps pc = Some ps" using r by (auto simp: blocked_def)
  obtain b n where b: "handle_xdpi env a (of_nat (length c)) c st =
      (let (rc, pc) = xdpi_engine (pc\<lparr>pc_xdpi_buf := b\<rparr>) c in do {
         ps \<leftarrow> pc_ps pc;
         st \<leftarrow> (if rc < 0 then put_pc a (xdpi_discard (pc\<lparr>pc_xdpi_state := XDPI_BLOCKED\<rparr>)) (st\<lparr>tick := n\<rparr>)
               else xdpi_connect env a pc ps (st\<lparr>tick := n\<rparr>));
         Some ([], st)
       })" "buf_ok b" by (rule xdpi_staged [OF g n c])
  let ?pc = "xdpi_discard (pc\<lparr>pc_xdpi_buf := b, pc_xdpi_state := XDPI_BLOCKED\<rparr>)"
  have e: "xdpi_engine (pc\<lparr>pc_xdpi_buf := b\<rparr>) c = (-1, pc\<lparr>pc_xdpi_buf := b, pc_xdpi_state := XDPI_BLOCKED\<rparr>)"
    using r c(1) ps by (auto simp: xdpi_engine_def blocked_def)
  obtain st' where "put_pc a ?pc (st\<lparr>tick := n\<rparr>) = Some st'" "guarding env a st' ?pc"
    by (rule guarding_update [OF g, of ?pc n]) (use gb_reset [OF b(2)] in \<open>auto simp: xdpi_discard_def\<close>)
  then show thesis using b(1) e ps n by (intro that [of st' ?pc]) (auto simp: blocked_def xdpi_discard_def)
qed

lemma connect_to_ok:
  "\<forall>n p. e_connect env n p \<Longrightarrow> connect_to env p (st\<lparr>tick := n\<rparr>) = (Some (new_bev p), st\<lparr>tick := Suc n\<rparr>)"
  by (simp add: connect_to_def connects_def)

lemma connect_server_ok:
  assumes "\<forall>n. \<not> oom st n" "\<forall>n p. e_connect env n p" "name = Some ip" "0 < port" "e_is_ip env ip \<or> e_dns env"
  shows "\<exists>lb k. connect_server env name port (st\<lparr>tick := n\<rparr>) = (Some lb, st\<lparr>tick := k\<rparr>) \<and> lb_out lb = []"
proof -
  have a: "alloc (st\<lparr>tick := n\<rparr>) = (True, st\<lparr>tick := Suc n\<rparr>)" using assms(1) by (simp add: alloc_def)
  have c: "connect_to env p (st\<lparr>tick := m\<rparr>) = (Some (new_bev p), st\<lparr>tick := Suc m\<rparr>)" for p m
    by (rule connect_to_ok [OF assms(2)])
  let ?p = "if e_is_ip env ip then Addr_port ip port else Name_port ip port"
  let ?quic = "e_quic env \<and> (ip, port) = e_server env" and ?tls = "e_tls env \<and> (ip, port) = e_server env"
  have port: "\<not> port \<le> 0" and dns: "\<not> (\<not> e_is_ip env ip \<and> \<not> e_dns env)" using assms(4,5) by auto
  have "connect_server env name port (st\<lparr>tick := n\<rparr>) =
      (Some (new_bev (if ?quic then Quic_stream else if ?tls then Tls_wrap else ?p)),
       st\<lparr>tick := (if ?quic then Suc n else if ?tls then Suc (Suc (Suc n)) else Suc (Suc n))\<rparr>)"
    unfolding connect_server_def assms(3) option.case a c Let_def prod.case if_not_P [OF port] if_not_P [OF dns] by simp
  then show ?thesis by (intro exI conjI) (assumption, simp add: new_bev_def)
qed

lemma xdpi_accepted:
  assumes g: "guarding env a st pc" and n: "pc_local pc = None" and c: "c \<noteq> []" "length c \<le> 2 ^ 30"
    and r: "pc_xdpi_state pc = XDPI_INIT" "pc_ps pc = Some ps" "xdpi_match (ps_service_type ps) c"
    and e: "\<forall>n p. e_connect env n p" "ps_local_ip ps = Some ip" "0 < ps_local_port ps" "e_is_ip env ip \<or> e_dns env"
  obtains st' pc' where "handle_xdpi env a (of_nat (length c)) c st = Some ([], st')" "guarding env a st' pc'" "passed c pc'"
proof -
  obtain b n where b: "handle_xdpi env a (of_nat (length c)) c st =
      (let (rc, pc) = xdpi_engine (pc\<lparr>pc_xdpi_buf := b\<rparr>) c in do {
         ps \<leftarrow> pc_ps pc;
         st \<leftarrow> (if rc < 0 then put_pc a (xdpi_discard (pc\<lparr>pc_xdpi_state := XDPI_BLOCKED\<rparr>)) (st\<lparr>tick := n\<rparr>)
               else xdpi_connect env a pc ps (st\<lparr>tick := n\<rparr>));
         Some ([], st)
       })" "buf_ok b" "content b = c" by (rule xdpi_staged [OF g n c])
  let ?pc = "pc\<lparr>pc_xdpi_buf := b, pc_xdpi_state := XDPI_VERIFIED\<rparr>"
  have en: "xdpi_engine (pc\<lparr>pc_xdpi_buf := b\<rparr>) c = (0, ?pc)" using r c(1) by (simp add: xdpi_engine_def)
  have mem: "\<forall>k. \<not> oom st k" using g by (simp add: guarding_def)
  obtain lb k where lb: "connect_server env (ps_local_ip ps) (ps_local_port ps) (st\<lparr>tick := n\<rparr>) = (Some lb, st\<lparr>tick := k\<rparr>)" "lb_out lb = []"
    using connect_server_ok [OF mem e] by blast
  let ?pc' = "xdpi_discard ?pc\<lparr>pc_local := Some (lb\<lparr>lb_out := c\<rparr>), pc_xdpi_state := XDPI_VERIFIED\<rparr>"
  obtain st' where st': "put_pc a ?pc' (st\<lparr>tick := Suc k\<rparr>) = Some st'" "guarding env a st' ?pc'"
    by (rule guarding_update [OF g, of ?pc' "Suc k"]) (use gb_reset [OF b(2)] in \<open>auto simp: xdpi_discard_def\<close>)
  have "gb_len b \<noteq> 0" using gb_len_0 [OF b(2)] b(3) c(1) by simp
  then have "xdpi_connect env a ?pc ps (st\<lparr>tick := n\<rparr>) = Some st'"
    using n e(2,3) lb st'(1) mem b(3) by (simp add: xdpi_connect_def xdpi_flush_def buf_add_def alloc_def)
  then show thesis using b(1) en r(2) st'(2) by (intro that [of st' ?pc']) (auto simp: passed_def)
qed

section \<open>Properties\<close>

fun xdpi_feed :: "env \<Rightarrow> nat \<Rightarrow> bytes list \<Rightarrow> mux \<Rightarrow> mux option" where
  "xdpi_feed env a [] st = Some st"
| "xdpi_feed env a (c # cs) st = do { (rest, st) \<leftarrow> handle_xdpi env a (of_nat (length c)) c st; xdpi_feed env a cs st }"

lemma xdpi_feed_passed:
  "guarding env a st pc \<Longrightarrow> passed d pc \<Longrightarrow> \<forall>c \<in> set cs. c \<noteq> [] \<and> length c \<le> 2 ^ 30 \<Longrightarrow>
     \<exists>st' pc'. xdpi_feed env a cs st = Some st' \<and> guarding env a st' pc' \<and> passed (d @ concat cs) pc'"
proof (induction cs arbitrary: st pc d)
  case (Cons c cs)
  then have c: "c \<noteq> []" "length c < 2 ^ 32" by (auto simp: less_le_trans)
  obtain st1 pc1 where "handle_xdpi env a (of_nat (length c)) c st = Some ([], st1)" "guarding env a st1 pc1" "passed (d @ c) pc1"
    using xdpi_forward [OF Cons.prems(1,2) c] .
  with Cons.IH [of st1 pc1 "d @ c"] Cons.prems(3) show ?case by simp
qed auto

lemma xdpi_feed_blocked:
  "guarding env a st pc \<Longrightarrow> blocked pc \<Longrightarrow> \<forall>c \<in> set cs. c \<noteq> [] \<and> length c \<le> 2 ^ 30 \<Longrightarrow>
     \<exists>st' pc'. xdpi_feed env a cs st = Some st' \<and> guarding env a st' pc' \<and> blocked pc'"
proof (induction cs arbitrary: st pc)
  case (Cons c cs)
  then have c: "c \<noteq> []" "length c \<le> 2 ^ 30" "pc_local pc = None" by (auto simp: blocked_def)
  obtain st1 pc1 where "handle_xdpi env a (of_nat (length c)) c st = Some ([], st1)" "guarding env a st1 pc1" "blocked pc1"
    using xdpi_refused [OF Cons.prems(1) c(3,1,2)] Cons.prems(2) by blast
  with Cons.IH [of st1 pc1] Cons.prems(3) show ?case by simp
qed auto

text \<open>C24. The protocol check decides on the first piece and its decision is final: if the first bytes
  match the configured service, the client connects and every byte, the first ones included, is
  delivered to the service in order; otherwise the client is blocked, no connection is ever made and
  nothing is delivered, whatever follows.\<close>

theorem xdpi_gate:
  assumes "guarding env a st pc" "pc_local pc = None" "pc_xdpi_state pc = XDPI_INIT" "pc_ps pc = Some ps"
    and "\<forall>n p. e_connect env n p" "ps_local_ip ps = Some ip" "0 < ps_local_port ps" "e_is_ip env ip \<or> e_dns env"
    and "\<forall>d \<in> set (c # cs). d \<noteq> [] \<and> length d \<le> 2 ^ 30"
  shows "\<exists>st' pc'. xdpi_feed env a (c # cs) st = Some st' \<and> heap st' a = Some pc' \<and> mux_ok st' \<and>
    (if xdpi_match (ps_service_type ps) c then passed (c @ concat cs) pc' else blocked pc')"
proof -
  have c: "c \<noteq> []" "length c \<le> 2 ^ 30" and cs: "\<forall>d \<in> set cs. d \<noteq> [] \<and> length d \<le> 2 ^ 30" using assms(9) by auto
  show ?thesis
  proof (cases "xdpi_match (ps_service_type ps) c")
    case True
    obtain st1 pc1 where s1: "handle_xdpi env a (of_nat (length c)) c st = Some ([], st1)" "guarding env a st1 pc1" "passed c pc1"
      using xdpi_accepted [OF assms(1,2) c assms(3,4) True assms(5-8)] .
    from xdpi_feed_passed [OF s1(2,3) cs] s1(1) True show ?thesis by (auto simp: guarding_def)
  next
    case False
    obtain st1 pc1 where s1: "handle_xdpi env a (of_nat (length c)) c st = Some ([], st1)" "guarding env a st1 pc1" "blocked pc1"
      using xdpi_refused [OF assms(1,2) c] assms(3,4) False by blast
    from xdpi_feed_blocked [OF s1(2,3) cs] s1(1) False show ?thesis by (auto simp: guarding_def)
  qed
qed

definition vnc_service :: proxy_service where
  "vnc_service = \<lparr>ps_proxy_type = Some ''tcp'', ps_service_type = SERVICE_VNC, ps_use_encryption = False,
     ps_use_compression = False, ps_local_ip = Some ''127.0.0.1'', ps_local_port = 5900, ps_plugin = None,
     ps_plugin_unix_path = None\<rparr>"

definition vnc_client :: proxy_client where
  "vnc_client = demo_client\<lparr>pc_ps := Some vnc_service\<rparr>"

lemma vnc_guarding: "guarding env 0 (demo_mux\<lparr>heap := (heap demo_mux)(0 \<mapsto> vnc_client)\<rparr>) vnc_client"
proof -
  have h: "heap demo_mux 0 = Some demo_client" by (simp add: demo_mux_def)
  have "mux_ok (demo_mux\<lparr>heap := (heap demo_mux)(0 \<mapsto> vnc_client)\<rparr>)"
    by (rule put_pc_ok(2) [OF demo_mux_ok h]) (simp_all add: vnc_client_def)
  then show ?thesis by (simp add: guarding_def) (simp add: demo_mux_def vnc_client_def demo_client_def calloc_client_def)
qed

theorem xdpi_gate_witness:
  "\<exists>st' pc'. xdpi_feed demo_env 0 [[82, 70, 66, 32], [51]] (demo_mux\<lparr>heap := (heap demo_mux)(0 \<mapsto> vnc_client)\<rparr>) = Some st' \<and>
     heap st' 0 = Some pc' \<and> mux_ok st' \<and> passed [82, 70, 66, 32, 51] pc'"
proof -
  let ?st = "demo_mux\<lparr>heap := (heap demo_mux)(0 \<mapsto> vnc_client)\<rparr>"
  have v: "pc_local vnc_client = None" "pc_xdpi_state vnc_client = XDPI_INIT" "pc_ps vnc_client = Some vnc_service"
    by (simp_all add: vnc_client_def demo_client_def calloc_client_def)
  have e: "\<forall>n p. e_connect demo_env n p" "ps_local_ip vnc_service = Some ''127.0.0.1''" "0 < ps_local_port vnc_service"
    "e_is_ip demo_env ''127.0.0.1'' \<or> e_dns demo_env" by (simp_all add: demo_env_def vnc_service_def)
  have m: "xdpi_match (ps_service_type vnc_service) [82, 70, 66, 32]" by (simp add: vnc_service_def starts_def)
  have len: "\<forall>d \<in> set [[82, 70, 66, 32], [51 :: u8]]. d \<noteq> [] \<and> length d \<le> 2 ^ 30" by simp
  show ?thesis using xdpi_gate [OF vnc_guarding v e len] m by simp
qed

end
