(* ===== verification/Client.thy ===== *)
theory Client
  imports Proxy_Tcp Socks5 Xdpi
begin

text \<open>
  The life of a proxy client, \<open>client.c\<close>: the kinds of proxy services, starting the tunnel of a client
  (encryption contexts, connection to the local service, callbacks), what happens when the local
  connection is established or lost, and the payload that came with the start message.
\<close>

section \<open>Kinds of services\<close>

definition is_proxy_type :: "proxy_service option \<Rightarrow> string \<Rightarrow> bool \<Rightarrow> bool" where
  "is_proxy_type ps t extra_check =
     (case ps of
        None \<Rightarrow> False
      | Some p \<Rightarrow> (case ps_proxy_type p of None \<Rightarrow> False | Some u \<Rightarrow> u = t \<and> extra_check))"

definition is_socks5_proxy :: "proxy_service option \<Rightarrow> bool" where
  "is_socks5_proxy ps = is_proxy_type ps ''socks5'' True"

definition has_service_type :: "proxy_service option \<Rightarrow> bool" where
  "has_service_type ps = (case ps of None \<Rightarrow> False | Some p \<Rightarrow> ps_service_type p \<noteq> NO_XDPI)"

definition is_udp_proxy :: "proxy_service option \<Rightarrow> bool" where
  "is_udp_proxy ps = is_proxy_type ps ''udp'' True"

definition is_tcpmux_proxy :: "proxy_service option \<Rightarrow> bool" where
  "is_tcpmux_proxy ps = is_proxy_type ps ''tcpmux'' True"

definition is_stcp_proxy :: "proxy_service option \<Rightarrow> bool" where
  "is_stcp_proxy ps = is_proxy_type ps ''stcp'' True"

definition is_uds_proxy :: "proxy_service option \<Rightarrow> bool" where
  "is_uds_proxy ps =
     (case ps of
        None \<Rightarrow> False
      | Some p \<Rightarrow> ps_plugin p = Some ''unix_domain_socket'' \<and> ps_plugin_unix_path p \<noteq> None)"

datatype data_cb = Udp_c2s | Udp_s2c | Tcp_c2s | Tcp_s2c | Socks5_s2c | Xdpi_s2c

definition setup_proxy_callbacks :: "proxy_service option \<Rightarrow> data_cb \<times> data_cb" where
  "setup_proxy_callbacks ps =
     (if is_udp_proxy ps then (Udp_c2s, Udp_s2c)
      else if is_socks5_proxy ps then (Tcp_c2s, Socks5_s2c)
      else if has_service_type ps then (Tcp_c2s, Xdpi_s2c)
      else (Tcp_c2s, Tcp_s2c))"

section \<open>Starting a tunnel\<close>

definition connect_udp_server :: "env \<Rightarrow> mux \<Rightarrow> local_bev option \<times> mux" where
  "connect_udp_server env st =
     (let (c, st) = connects env Udp_socket st in
      if \<not> c then (None, st)
      else let (ok, st) = alloc st in (if ok then Some (new_bev Udp_socket) else None, st))"

text \<open>There are no Unix domain sockets on the target.\<close>

definition connect_unix_server :: "string \<Rightarrow> local_bev option" where
  "connect_unix_server path = None"

text \<open>What is tried for a service: \<open>None\<close> when the connection is deferred.\<close>

definition local_connection :: "env \<Rightarrow> proxy_service \<Rightarrow> mux \<Rightarrow> (local_bev option \<times> mux) option" where
  "local_connection env ps st =
     (if is_udp_proxy (Some ps) then Some (connect_udp_server env st)
      else if is_uds_proxy (Some ps) then Some (Option.bind (ps_plugin_unix_path ps) connect_unix_server, st)
      else if \<not> is_socks5_proxy (Some ps) \<and> \<not> has_service_type (Some ps)
      then Some (connect_server env (ps_local_ip ps) (ps_local_port ps) st)
      else None)"

definition setup_local_connection :: "env \<Rightarrow> nat \<Rightarrow> mux \<Rightarrow> (int \<times> mux) option" where
  "setup_local_connection env a st = do {
     pc \<leftarrow> heap st a;
     ps \<leftarrow> pc_ps pc;
     (case local_connection env ps st of
        None \<Rightarrow> Some (0, st)
      | Some (lb, st) \<Rightarrow> do {
          st \<leftarrow> put_pc a (pc\<lparr>pc_local := lb\<rparr>) st;
          if lb = None then do { st \<leftarrow> del_proxy_client_by_stream_id (pc_stream_id pc) st; Some (-1, st) }
          else Some (1, st)
        })
   }"

text \<open>The encryption contexts: each needs two allocations, the writer also random bytes.\<close>

definition new_contexts :: "env \<Rightarrow> bytes \<Rightarrow> mux \<Rightarrow> crypto_ctx option \<times> crypto_ctx option \<times> mux" where
  "new_contexts env key st =
     (let (m1, st) = alloc st; (m2, st) = alloc st;
          w = crypto_ctx_new_writer (e_mbedtls env) m1 (if m2 then Some EVP_CIPHER_CTX_new else None) (e_rand env (tick st)) key;
          (m3, st) = alloc st; (m4, st) = alloc st;
          r = crypto_ctx_new_reader m3 (if m4 then Some EVP_CIPHER_CTX_new else None) key in
      (w, r, st))"

definition setup_encryption :: "env \<Rightarrow> proxy_client \<Rightarrow> proxy_service \<Rightarrow> mux \<Rightarrow> proxy_client \<times> mux" where
  "setup_encryption env pc ps st =
     (let pc = pc\<lparr>pc_use_encryption := ps_use_encryption ps, pc_use_compression := ps_use_compression ps\<rparr> in
      if ps_use_encryption ps \<and> e_token env \<noteq> None then
        (case crypto_derive_key (e_mbedtls env) (e_token env) of
           None \<Rightarrow> (pc, st)
         | Some key \<Rightarrow>
             (let (w, r, st) = new_contexts env key st in (pc\<lparr>pc_encrypt_ctx := w, pc_decrypt_ctx := r\<rparr>, st)))
      else (pc, st))"

text \<open>Result: the state and the callbacks that were installed, for the local connection and, without
  multiplexing, for the client's own connection.\<close>

definition start_xfrp_tunnel :: "env \<Rightarrow> nat \<Rightarrow> mux \<Rightarrow> (mux \<times> (data_cb \<times> data_cb option) option) option" where
  "start_xfrp_tunnel env a st = do {
     pc \<leftarrow> heap st a;
     v \<leftarrow> conf_tcp_mux st;
     (case pc_ps pc of
        None \<Rightarrow> Some (st, None)
      | Some ps \<Rightarrow>
          if \<not> has_ctl_bev v pc st \<or> (ps_local_port ps = 0 \<and> \<not> is_uds_proxy (Some ps)) then Some (st, None)
          else let (pc, st) = setup_encryption env pc ps st in do {
            st \<leftarrow> put_pc a pc st;
            (rc, st) \<leftarrow> setup_local_connection env a st;
            if rc \<le> 0 then Some (st, None)
            else let (c2s, s2c) = setup_proxy_callbacks (Some ps) in do {
              st \<leftarrow> upd_pc a (\<lambda>pc. pc\<lparr>pc_local := map_option (\<lambda>lb. lb\<lparr>lb_reading := True\<rparr>) (pc_local pc)\<rparr>) st;
              Some (st, Some (c2s, if v = 0 then Some s2c else None))
            }
          })
   }"

section \<open>Events of the local connection\<close>

text \<open>The payload that came with the start message; the result of \<open>evbuffer_add\<close> is ignored.\<close>

definition send_client_data_tail :: "env \<Rightarrow> nat \<Rightarrow> mux \<Rightarrow> (int \<times> mux) option" where
  "send_client_data_tail env a st = do {
     pc \<leftarrow> heap st a;
     if pc_data_tail pc = [] then Some (0, st)
     else case pc_local pc of
       None \<Rightarrow> Some (-1, st)
     | Some lb \<Rightarrow>
         if pc_use_encryption pc \<or> pc_use_compression pc then
           (let (m1, st) = alloc st; (m2, st) = alloc st in
            if \<not> m1 \<or> \<not> m2 then do { st \<leftarrow> put_pc a (pc\<lparr>pc_data_tail := []\<rparr>) st; Some (-1, st) }
            else let (rc, src, st) = buf_add [] (pc_data_tail pc) st in do {
              (pc, src, plain, st) \<leftarrow> proxy_crypto_decode_evbuffer env pc src [] st;
              (let (out, rest, st) = buf_move (lb_out lb) plain st in do {
                 st \<leftarrow> put_pc a (pc\<lparr>pc_local := Some (lb\<lparr>lb_out := out\<rparr>), pc_data_tail := []\<rparr>) st;
                 Some (int (length plain), st)
               })
            })
         else
           (let (rc, out, st) = buf_add (lb_out lb) (pc_data_tail pc) st in do {
              st \<leftarrow> put_pc a (pc\<lparr>pc_local := Some (lb\<lparr>lb_out := out\<rparr>), pc_data_tail := []\<rparr>) st;
              Some (rc, st)
            })
   }"

text \<open>What is still staged goes to the local service.\<close>

definition flush_socks5_buf :: "proxy_client \<Rightarrow> mux \<Rightarrow> proxy_client \<times> mux" where
  "flush_socks5_buf pc st =
     (case pc_local pc of
        None \<Rightarrow> (pc, st)
      | Some lb \<Rightarrow>
          if gb_len (pc_socks5_buf pc) = 0 then (pc, st)
          else let (rc, out, st) = buf_add (lb_out lb) (content (pc_socks5_buf pc)) st in
            (pc\<lparr>pc_local := Some (lb\<lparr>lb_out := out\<rparr>), pc_socks5_buf := (pc_socks5_buf pc)\<lparr>gb_len := 0\<rparr>\<rparr>, st))"

definition handle_post_connection_data :: "env \<Rightarrow> nat \<Rightarrow> mux \<Rightarrow> (int \<times> mux) option" where
  "handle_post_connection_data env a st = do {
     pc \<leftarrow> heap st a;
     if is_socks5_proxy (pc_ps pc) then
       (let (pc, st) = flush_socks5_buf pc st in do {
          st \<leftarrow> put_pc a pc st;
          st \<leftarrow> proxy_reply [5, 0, 0, 1, 0, 0, 0, 0, 0, 0] a st;
          st \<leftarrow> upd_pc a (\<lambda>pc. pc\<lparr>pc_state := 3\<rparr>) st;
          Some (0, st)
        })
     else if pc_data_tail pc \<noteq> [] then send_client_data_tail env a st
     else Some (0, st)
   }"

text \<open>The flush of the remaining input of the local connection; what cannot be sent is lost with the
  connection. Without multiplexing it goes to the client's own connection.\<close>

definition flush_local :: "nat \<Rightarrow> mux \<Rightarrow> mux option" where
  "flush_local a st = do {
     pc \<leftarrow> heap st a;
     v \<leftarrow> conf_tcp_mux st;
     (case pc_local pc of
        None \<Rightarrow> Some st
      | Some lb \<Rightarrow>
          if \<not> has_ctl_bev v pc st then Some st
          else if v = 0 then do { (rest, st) \<leftarrow> to_own_ctl a (lb_in lb) st; Some st }
          else do { (w, rest, st) \<leftarrow> mux_write_all (PcLoc a) (lb_in lb) st; Some st })
   }"

definition handle_proxy_disconnect :: "nat \<Rightarrow> mux \<Rightarrow> mux option" where
  "handle_proxy_disconnect a st = do {
     pc \<leftarrow> heap st a;
     if pc_ps pc = None then Some st
     else do {
       st \<leftarrow> flush_local a st;
       st \<leftarrow> upd_pc a (\<lambda>pc. pc\<lparr>pc_local := None\<rparr>) st;
       pc \<leftarrow> heap st a;
       if s_send_window (pc_stream pc) = 0 then put_pc a (pc\<lparr>pc_pending_close := True\<rparr>) st
       else do { (rc, st) \<leftarrow> tmux_stream_close (PcLoc a) st; Some st }
     }
   }"

datatype bev_event = Bev_gone | Bev_connected | Bev_other

definition xfrp_proxy_event_cb :: "env \<Rightarrow> bev_event \<Rightarrow> nat \<Rightarrow> mux \<Rightarrow> mux option" where
  "xfrp_proxy_event_cb env what a st = do {
     pc \<leftarrow> heap st a;
     (case what of
        Bev_gone \<Rightarrow> if is_udp_proxy (pc_ps pc) then Some st else handle_proxy_disconnect a st
      | Bev_connected \<Rightarrow> do { (rc, st) \<leftarrow> handle_post_connection_data env a st; Some st }
      | Bev_other \<Rightarrow> Some st)
   }"

text \<open>The client's own connection was closed.\<close>

definition xfrp_worker_event_cb :: "bev_event \<Rightarrow> nat \<Rightarrow> mux \<Rightarrow> mux option" where
  "xfrp_worker_event_cb what a st =
     (if what = Bev_gone then upd_pc a (\<lambda>pc. pc\<lparr>pc_ctl_out := None\<rparr>) st else Some st)"

end
