(* ===== verification/Mux_Receive.thy ===== *)
theory Mux_Receive
  imports Client
begin

text \<open>
  The receiving side of the multiplexer: \<open>process_data\<close>, window updates, ping and go-away of \<open>tcpmux.c\<close>
  and the frame loop \<open>handle_tcp_mux\<close> of \<open>control.c\<close>. What the control layer does with a message, the
  callback \<open>handle_frps_msg\<close>, is a parameter \<open>fn\<close>; it works on the state of the control layer (of any
  type \<open>'c\<close>) and on the multiplexer. The received bytes are \<open>ctl_in\<close>.
\<close>

type_synonym 'c handle_data_fn = "bytes \<Rightarrow> nat option \<Rightarrow> 'c \<Rightarrow> mux \<Rightarrow> ('c \<times> mux) option"

section \<open>Payload of a frame\<close>

text \<open>\<open>bufferevent_read\<close> from the control connection.\<close>

definition bev_read :: "nat \<Rightarrow> mux \<Rightarrow> bytes \<times> mux" where
  "bev_read n st = (take n (ctl_in st), st\<lparr>ctl_in := drop n (ctl_in st)\<rparr>)"

text \<open>The default and the UDP path: copy the payload, call the handler. \<open>None\<close> in the result is the early
  \<open>return 0\<close>.\<close>

definition deliver_copy :: "'c handle_data_fn \<Rightarrow> u32 \<Rightarrow> nat option \<Rightarrow> 'c \<Rightarrow> mux \<Rightarrow> (u32 option \<times> 'c \<times> mux) option" where
  "deliver_copy fn len pa c st =
     (let (ok, st) = alloc st in
      if \<not> ok then Some (None, c, st)
      else let (data, st) = bev_read (unat len) st in
        if length data \<noteq> unat len then Some (None, c, st)
        else do { (c, st) \<leftarrow> fn data pa c st; Some (Some len, c, st) })"

text \<open>The encrypted path: the payload goes to a temporary buffer first; what the decoder leaves there is
  lost.\<close>

definition deliver_encrypted :: "env \<Rightarrow> u32 \<Rightarrow> nat \<Rightarrow> mux \<Rightarrow> (u32 option \<times> mux) option" where
  "deliver_encrypted env len a st =
     (let (m1, st) = alloc st; (m2, st) = alloc st in
      if \<not> m1 \<or> \<not> m2 then Some (None, st)
      else let (k, src, frame, st) = evbuffer_zc_transfer (ctl_in st) [] len st; st = st\<lparr>ctl_in := src\<rparr> in do {
        pc \<leftarrow> heap st a;
        lb \<leftarrow> pc_local pc;
        (pc, frame, plain, st) \<leftarrow> proxy_crypto_decode_evbuffer env pc frame [] st;
        (let (out, rest, st) = buf_move (lb_out lb) plain st in do {
           st \<leftarrow> put_pc a (pc\<lparr>pc_local := Some (lb\<lparr>lb_out := out\<rparr>)\<rparr>) st;
           Some (Some len, st)
         })
      })"

definition deliver_local :: "u32 \<Rightarrow> nat \<Rightarrow> mux \<Rightarrow> (u32 option \<times> mux) option" where
  "deliver_local len a st = do {
     pc \<leftarrow> heap st a;
     lb \<leftarrow> pc_local pc;
     (let (k, src, out, st) = evbuffer_zc_transfer (ctl_in st) (lb_out lb) len st in do {
        st \<leftarrow> put_pc a (pc\<lparr>pc_local := Some (lb\<lparr>lb_out := out\<rparr>)\<rparr>) (st\<lparr>ctl_in := src\<rparr>);
        Some (Some (of_nat k), st)
      })
   }"

text \<open>A handler that reads from the control connection itself.\<close>

definition deliver_handler :: "(nat \<Rightarrow> u32 \<Rightarrow> bytes \<Rightarrow> mux \<Rightarrow> (bytes \<times> mux) option) \<Rightarrow> u32 \<Rightarrow> nat \<Rightarrow> mux \<Rightarrow> (u32 option \<times> mux) option" where
  "deliver_handler h len a st = do {
     (src, st) \<leftarrow> h a len (ctl_in st) st;
     Some (Some len, st\<lparr>ctl_in := src\<rparr>)
   }"

definition with_ctl :: "'c \<Rightarrow> (u32 option \<times> mux) option \<Rightarrow> (u32 option \<times> 'c \<times> mux) option" where
  "with_ctl c x = do { (r, st) \<leftarrow> x; Some (r, c, st) }"

definition process_payload ::
  "env \<Rightarrow> 'c handle_data_fn \<Rightarrow> u32 \<Rightarrow> nat option \<Rightarrow> 'c \<Rightarrow> mux \<Rightarrow> (u32 option \<times> 'c \<times> mux) option" where
  "process_payload env fn len pa c st =
     (case pa of
        None \<Rightarrow> deliver_copy fn len None c st
      | Some a \<Rightarrow> do {
          pc \<leftarrow> heap st a;
          if pc_local pc = None \<and> \<not> is_socks5_proxy (pc_ps pc) \<and> \<not> has_service_type (pc_ps pc)
          then deliver_copy fn len pa c st
          else if has_service_type (pc_ps pc) then with_ctl c (deliver_handler (handle_xdpi env) len a st)
          else if is_socks5_proxy (pc_ps pc) then with_ctl c (deliver_handler (handle_socks5 env) len a st)
          else if is_udp_proxy (pc_ps pc) then deliver_copy fn len pa c st
          else if pc_use_encryption pc \<or> pc_use_compression pc then with_ctl c (deliver_encrypted env len a st)
          else with_ctl c (deliver_local len a st)
        })"

text \<open>After the payload: a reset when it was not taken completely, a window update otherwise.\<close>

definition finish_data :: "loc \<Rightarrow> u32 \<Rightarrow> u32 \<Rightarrow> mux \<Rightarrow> mux option" where
  "finish_data l len processed st =
     (if processed \<noteq> len then do {
        s \<leftarrow> get_strm st l;
        put_strm l (s\<lparr>s_state := TMUX_LOCAL_CLOSE\<rparr>) (tcp_mux_send_win_update_rst (s_id s) st)
      }
      else send_window_update l processed st)"

text \<open>The payload of a frame, within the window.\<close>

definition take_data :: "env \<Rightarrow> 'c handle_data_fn \<Rightarrow> loc \<Rightarrow> u32 \<Rightarrow> nat option \<Rightarrow> 'c \<Rightarrow> mux \<Rightarrow> (u32 \<times> 'c \<times> mux) option" where
  "take_data env fn l len pa c st = do {
     s \<leftarrow> get_strm st l;
     if len > s_recv_window s then Some (0, c, st)
     else do {
       st \<leftarrow> put_strm l (s\<lparr>s_recv_window := s_recv_window s - len\<rparr>) st;
       (r, c, st) \<leftarrow> process_payload env fn len pa c st;
       (case r of
          None \<Rightarrow> Some (0, c, st)
        | Some processed \<Rightarrow> do { st \<leftarrow> finish_data l len processed st; Some (len, c, st) })
     }
   }"

definition process_data ::
  "env \<Rightarrow> 'c handle_data_fn \<Rightarrow> loc \<Rightarrow> u32 \<Rightarrow> u16 \<Rightarrow> nat option \<Rightarrow> 'c \<Rightarrow> mux \<Rightarrow> (u32 \<times> 'c \<times> mux) option" where
  "process_data env fn l len flags pa c st = do {
     s \<leftarrow> get_strm st l;
     (ok, st) \<leftarrow> process_flags flags l st;
     if \<not> ok then Some (0, c, st)
     else if get_stream_by_id (s_id s) st = None then Some (len, c, st)
     else take_data env fn l len pa c st
   }"

section \<open>Frames without payload\<close>

text \<open>The window after an increment, \<open>None\<close> when the increment is refused.\<close>

definition window_plus :: "u32 \<Rightarrow> u32 \<Rightarrow> u32 option" where
  "window_plus w inc =
     (if inc > MAX_STREAM_WINDOW_SIZE then None
      else let w = (if w > MAX_STREAM_WINDOW_SIZE - inc then MAX_STREAM_WINDOW_SIZE else w + inc) in
        Some (if w > MAX_YAMUX_WINDOW_SIZE then MAX_YAMUX_WINDOW_SIZE else w))"

text \<open>What a client does when its window has opened: the close it waits with, or reading again.\<close>

definition window_opened :: "loc \<Rightarrow> u32 \<Rightarrow> u32 \<Rightarrow> mux \<Rightarrow> mux option" where
  "window_opened l sid old st =
     (case get_proxy_client sid st of
        None \<Rightarrow> Some st
      | Some a \<Rightarrow> do {
          pc \<leftarrow> heap st a;
          if pc_pending_close pc then
            (if ctl_up st then do { (rc, st) \<leftarrow> tmux_stream_close l st; Some st } else Some st)
          else if old = 0 then
            put_pc a (pc\<lparr>pc_local := map_option (\<lambda>lb. lb\<lparr>lb_reading := True\<rparr>) (pc_local pc)\<rparr>) st
          else Some st
        })"

definition incr_send_window :: "tcp_mux_header \<Rightarrow> u16 \<Rightarrow> loc \<Rightarrow> mux \<Rightarrow> (bool \<times> mux) option" where
  "incr_send_window hdr flags l st =
     (if \<not> ctl_up st then Some (False, st)
      else do {
        s \<leftarrow> get_strm st l;
        (ok, st) \<leftarrow> process_flags flags l st;
        if \<not> ok then Some (False, st)
        else if get_stream_by_id (s_id s) st = None then Some (True, st)
        else do {
          s' \<leftarrow> get_strm st l;
          (case window_plus (s_send_window s') (ntohl (h_length hdr)) of
             None \<Rightarrow> Some (False, st)
           | Some w \<Rightarrow> do {
               st \<leftarrow> put_strm l (s'\<lparr>s_send_window := w\<rparr>) st;
               if w = 0 then Some (True, st)
               else do { st \<leftarrow> window_opened l (s_id s) (s_send_window s') st; Some (True, st) }
             })
        }
      })"

definition incoming_stream :: "u32 \<Rightarrow> mux \<Rightarrow> bool \<times> mux" where
  "incoming_stream sid st =
     (if local_go_away st then (False, tcp_mux_send_win_update_rst sid st) else (True, st))"

definition handle_tcp_mux_ping :: "tcp_mux_header \<Rightarrow> mux \<Rightarrow> mux" where
  "handle_tcp_mux_ping hdr st =
     (if ntohs (h_flags hdr) AND SYN = SYN then
        (if \<not> ctl_up st then st else tcp_mux_handle_ping (ntohl (h_length hdr)) st)
      else st)"

definition handle_tcp_mux_go_away :: "tcp_mux_header \<Rightarrow> mux \<Rightarrow> mux" where
  "handle_tcp_mux_go_away hdr st = (if ntohl (h_length hdr) = 0 then st\<lparr>remote_go_away := True\<rparr> else st)"

definition handle_tcp_mux_stream :: "tcp_mux_header \<Rightarrow> mux \<Rightarrow> mux option" where
  "handle_tcp_mux_stream hdr st =
     (let sid = ntohl (h_stream_id hdr); flags = ntohs (h_flags hdr) in
      if flags AND SYN = SYN then Some (snd (incoming_stream sid st))
      else case get_stream_by_id sid st of
        None \<Rightarrow> Some st
      | Some l \<Rightarrow>
          if h_type hdr = WINDOW_UPDATE then do {
            (ok, st) \<leftarrow> incr_send_window hdr flags l st;
            Some (if ok then st else tcp_mux_send_go_away 1 st)
          }
          else Some st)"

section \<open>The frame loop\<close>

text \<open>The static variables of \<open>handle_tcp_mux\<close>: the header as it lies in memory (12 bytes), the rest of the
  payload, how much of the header has arrived.\<close>

record rx =
  rx_hdr :: bytes
  rx_len :: u32
  rx_partial :: nat

definition rx_init :: rx where
  "rx_init = \<lparr>rx_hdr = replicate 12 0, rx_len = 0, rx_partial = 0\<rparr>"

text \<open>The call with a \<open>NULL\<close> connection.\<close>

definition reset_tcp_mux :: "mux \<Rightarrow> rx \<times> mux" where
  "reset_tcp_mux st = (rx_init, set_cur_stream None st)"

text \<open>Reading the header: \<open>None\<close> as the first result is the \<open>break\<close> of an incomplete header, otherwise what is
  left of \<open>len\<close>.\<close>

definition read_header :: "int \<Rightarrow> rx \<Rightarrow> mux \<Rightarrow> int option \<times> rx \<times> mux" where
  "read_header len rx st =
     (if rx_partial rx > 0 then
        (let (d, st) = bev_read (12 - rx_partial rx) st;
             rx = rx\<lparr>rx_hdr := take (rx_partial rx) (rx_hdr rx) @ d @ drop (rx_partial rx + length d) (rx_hdr rx),
                     rx_partial := rx_partial rx + length d\<rparr> in
         if rx_partial rx < 12 then (None, rx, st) else (Some (len - int (length d)), rx\<lparr>rx_partial := 0\<rparr>, st))
      else if len < 12 then
        (let (d, st) = bev_read (nat len) st in
         (None, rx\<lparr>rx_hdr := d @ replicate (12 - length d) 0, rx_partial := length d\<rparr>, st))
      else
        (let (d, st) = bev_read 12 st; rx = rx\<lparr>rx_hdr := d @ replicate (12 - length d) 0\<rparr> in
         if length d \<noteq> 12 then (None, rx, st) else (Some (len - 12), rx, st)))"

text \<open>One turn of the loop: leave it, or go on with what is left of \<open>len\<close>.\<close>

datatype 'c turn = Leave rx 'c mux | Again int rx 'c mux

text \<open>How much of the payload is there. \<open>len\<close> is a C \<open>int\<close>; a negative one converts to a number above every
  length of a frame.\<close>

definition frame_avail :: "int \<Rightarrow> u32 \<Rightarrow> u32" where
  "frame_avail len stream_len = (if 0 \<le> len \<and> len < uint stream_len then word_of_int len else stream_len)"

text \<open>The payload of a DATA frame for \<open>cur\<close>, \<open>0 < stream_len\<close>.\<close>

definition consume_payload :: "env \<Rightarrow> 'c handle_data_fn \<Rightarrow> loc \<Rightarrow> int \<Rightarrow> rx \<Rightarrow> 'c \<Rightarrow> mux \<Rightarrow> 'c turn option" where
  "consume_payload env fn cur len rx c st =
     (let to_read = frame_avail len (rx_len rx) in
      if cur = AbandonLoc then
        (let st = st\<lparr>ctl_in := drop (unat to_read) (ctl_in st)\<rparr>; rx = rx\<lparr>rx_len := rx_len rx - to_read\<rparr> in
         Some (Again (len - uint to_read) rx c
           (if rx_len rx = 0 then set_cur_stream None (st\<lparr>abandon_stream := calloc_stream\<rparr>) else st)))
      else if to_read < rx_len rx then do { s \<leftarrow> get_strm st cur; Some (Leave rx c (set_cur_stream (Some cur) st)) }
      else do {
        s \<leftarrow> get_strm st cur;
        (r, c, st) \<leftarrow> process_data env fn cur (rx_len rx) (ntohs (h_flags (header_of (rx_hdr rx)))) (get_proxy_client (s_id s) st) c st;
        Some (Again (len - uint (rx_len rx)) (rx\<lparr>rx_len := 0\<rparr>) c (set_cur_stream None st))
      })"

text \<open>A frame without payload, or a DATA frame of length 0.\<close>

definition other_frame :: "int \<Rightarrow> rx \<Rightarrow> 'c \<Rightarrow> mux \<Rightarrow> 'c turn option" where
  "other_frame len rx c st =
     (let hdr = header_of (rx_hdr rx) in
      if h_type hdr = WINDOW_UPDATE then do {
        st \<leftarrow> handle_tcp_mux_stream hdr st;
        Some (Again len rx c (set_cur_stream None st))
      }
      else if h_type hdr = PING then Some (Again len rx c (set_cur_stream None (handle_tcp_mux_ping hdr st)))
      else if h_type hdr = GO_AWAY then Some (Again len rx c (set_cur_stream None (handle_tcp_mux_go_away hdr st)))
      else Some (Leave rx c st))"

definition dispatch_frame :: "env \<Rightarrow> 'c handle_data_fn \<Rightarrow> loc option \<Rightarrow> int \<Rightarrow> rx \<Rightarrow> 'c \<Rightarrow> mux \<Rightarrow> 'c turn option" where
  "dispatch_frame env fn cur len rx c st =
     (if h_type (header_of (rx_hdr rx)) = TMUX_DATA \<and> rx_len rx > 0
      then do { l \<leftarrow> cur; consume_payload env fn l len rx c st }
      else other_frame len rx c st)"

text \<open>A new frame: its header is checked and the stream of a DATA frame looked up.\<close>

definition begin_frame :: "env \<Rightarrow> 'c handle_data_fn \<Rightarrow> int \<Rightarrow> rx \<Rightarrow> 'c \<Rightarrow> mux \<Rightarrow> 'c turn option" where
  "begin_frame env fn len rx c st =
     (let hdr = header_of (rx_hdr rx) in
      if \<not> validate_tcp_mux_protocol hdr then Some (Leave rx c st)
      else if h_type hdr = TMUX_DATA then
        (let rx = rx\<lparr>rx_len := ntohl (h_length hdr)\<rparr> in
         if rx_len rx > MAX_STREAM_WINDOW_SIZE then Some (Leave rx c st)
         else case get_stream_by_id (ntohl (h_stream_id hdr)) st of
           None \<Rightarrow>
             if rx_len rx = 0 then Some (Again len rx c st)
             else if len = 0 then Some (Leave rx c (set_cur_stream (Some AbandonLoc) st))
             else dispatch_frame env fn (Some AbandonLoc) len rx c st
         | Some l \<Rightarrow>
             if len = 0 then Some (Leave rx c (set_cur_stream (Some l) st))
             else dispatch_frame env fn (Some l) len rx c st)
      else dispatch_frame env fn None len rx c st)"

definition mux_turn :: "env \<Rightarrow> 'c handle_data_fn \<Rightarrow> int \<Rightarrow> rx \<Rightarrow> 'c \<Rightarrow> mux \<Rightarrow> 'c turn option" where
  "mux_turn env fn len rx c st =
     (case get_cur_stream st of
        Some cur \<Rightarrow> dispatch_frame env fn (Some cur) len rx c st
      | None \<Rightarrow>
          (case read_header len rx st of
             (None, rx, st) \<Rightarrow> Some (Leave rx c st)
           | (Some len, rx, st) \<Rightarrow> begin_frame env fn len rx c st))"


text \<open>Every turn that goes on has consumed something, or has handled a frame that was waiting or a header
  that was complete.\<close>

lemma uint_pos: "0 < (n :: u32) \<Longrightarrow> 0 < uint n"
  by (simp add: word_neq_0_conv [symmetric] uint_0_iff le_neq_trans)

lemma frame_avail_pos: "0 < n \<Longrightarrow> 0 < len \<Longrightarrow> 0 < uint (frame_avail len n)"
proof (cases "len < uint n")
  case True
  assume "0 < len"
  moreover have "len < 2 ^ 32" using True uint_lt2p [of n] by simp
  ultimately show ?thesis using True by (simp add: frame_avail_def uint_word_of_int mod_pos_pos_trivial)
qed (simp add: frame_avail_def uint_pos)

lemma consume_again:
  assumes "consume_payload env fn cur len rx c st = Some (Again len' rx' c' st')" "rx_len rx > 0"
  shows "rx_partial rx' = rx_partial rx \<and> len' \<le> len \<and> (0 < len \<longrightarrow> len' < len)"
proof -
  have "len' = len - uint (frame_avail len (rx_len rx)) \<and> rx_partial rx' = rx_partial rx \<or>
      len' = len - uint (rx_len rx) \<and> rx_partial rx' = rx_partial rx"
    using assms(1) unfolding consume_payload_def Let_def
    by (auto split: if_split_asm bind_split_asm simp del: uint_word_of_int)
  then show ?thesis using frame_avail_pos [OF assms(2), of len] uint_pos [OF assms(2)]
    by (elim disjE conjE) (simp_all add: word_less_eq_iff_unsigned)
qed

lemma other_again:
  "other_frame len rx c st = Some (Again len' rx' c' st') \<Longrightarrow> len' = len \<and> rx' = rx \<and> cur_stream st' = None"
  by (auto simp: other_frame_def Let_def set_cur_stream_def split: if_splits bind_splits)

lemma dispatch_again:
  "dispatch_frame env fn cur len rx c st = Some (Again len' rx' c' st') \<Longrightarrow>
     rx_partial rx' = rx_partial rx \<and> len' \<le> len \<and> (0 < len \<longrightarrow> len' < len \<or> (len' = len \<and> cur_stream st' = None))"
  by (auto simp: dispatch_frame_def split: if_splits bind_splits dest: consume_again other_again)

lemma begin_again:
  "begin_frame env fn len rx c st = Some (Again len' rx' c' st') \<Longrightarrow>
     rx_partial rx' = rx_partial rx \<and> len' \<le> len \<and> (0 < len \<longrightarrow> len' < len \<or> (len' = len \<and> cur_stream st' \<in> {None, cur_stream st}))"
  by (auto simp: begin_frame_def Let_def split: if_splits option.splits dest!: dispatch_again)

lemma read_header_len:
  "read_header len rx st = (Some len', rx', st') \<Longrightarrow>
     (len' < len \<or> (len' = len \<and> rx_partial rx \<ge> 12 \<and> rx_partial rx' = 0)) \<and> cur_stream st' = cur_stream st"
  by (auto simp: read_header_def bev_read_def Let_def split: if_splits)

definition turn_rank :: "rx \<Rightarrow> mux \<Rightarrow> nat" where
  "turn_rank rx st = (if cur_stream st = None then 0 else 1) + (if rx_partial rx \<ge> 12 then 1 else 0)"

lemma turn_progress:
  assumes "mux_turn env fn len rx c st = Some (Again len' rx' c' st')" "0 < len"
  shows "len' < len \<or> (len' = len \<and> turn_rank rx' st' < turn_rank rx st)"
proof (cases "cur_stream st")
  case (Some cur)
  then have "dispatch_frame env fn (Some cur) len rx c st = Some (Again len' rx' c' st')"
    using assms(1) by (simp add: mux_turn_def get_cur_stream_def)
  from dispatch_again [OF this] assms(2) Some show ?thesis by (auto simp: turn_rank_def)
next
  case None
  then obtain len1 rx1 st1 where h: "read_header len rx st = (Some len1, rx1, st1)"
    "begin_frame env fn len1 rx1 c st1 = Some (Again len' rx' c' st')"
    using assms(1) by (auto simp: mux_turn_def get_cur_stream_def split: prod.splits option.splits)
  from read_header_len [OF h(1)] begin_again [OF h(2)] assms(2) None show ?thesis by (auto simp: turn_rank_def)
qed

function mux_loop :: "env \<Rightarrow> 'c handle_data_fn \<Rightarrow> int \<Rightarrow> rx \<Rightarrow> 'c \<Rightarrow> mux \<Rightarrow> (rx \<times> 'c \<times> mux) option" where
  "mux_loop env fn len rx c st =
     (if len \<le> 0 then Some (rx, c, st)
      else case mux_turn env fn len rx c st of
        None \<Rightarrow> None
      | Some (Leave rx c st) \<Rightarrow> Some (rx, c, st)
      | Some (Again len rx c st) \<Rightarrow> mux_loop env fn len rx c st)"
  by pat_completeness auto
termination
  by (relation "measures [\<lambda>(env, fn, len, rx, c, st). nat len, \<lambda>(env, fn, len, rx, c, st). turn_rank rx st]")
     (auto dest: turn_progress)

declare mux_loop.simps [simp del]

definition handle_tcp_mux :: "env \<Rightarrow> 'c handle_data_fn \<Rightarrow> int \<Rightarrow> rx \<Rightarrow> 'c \<Rightarrow> mux \<Rightarrow> (rx \<times> 'c \<times> mux) option" where
  "handle_tcp_mux env fn len rx c st = mux_loop env fn len rx c st"

text \<open>With multiplexing, \<open>recv_cb\<close> hands everything that has arrived to the frame loop.\<close>

definition recv_cb_mux :: "env \<Rightarrow> 'c handle_data_fn \<Rightarrow> rx \<Rightarrow> 'c \<Rightarrow> mux \<Rightarrow> (rx \<times> 'c \<times> mux) option" where
  "recv_cb_mux env fn rx c st =
     (if ctl_in st = [] then Some (rx, c, st) else handle_tcp_mux env fn (int (length (ctl_in st))) rx c st)"

section \<open>The order of the states of a stream\<close>

lemma finish_data_progress:
  assumes "get_strm st l = Some s" "s_state s \<notin> {TMUX_CLOSED, TMUX_RESET}" "finish_data l len processed st = Some st'"
  shows "progress st st'"
proof (cases "processed = len")
  case True
  with assms(3) show ?thesis using send_window_update_progress by (auto simp: finish_data_def)
next
  case False
  let ?st1 = "tcp_mux_send_win_update_rst (s_id s) st"
  have g: "get_strm ?st1 = get_strm st" by (rule same_objects_get_strm) (rule sends_same)
  have "put_strm l (s\<lparr>s_state := TMUX_LOCAL_CLOSE\<rparr>) ?st1 = Some st'" using assms False by (simp add: finish_data_def)
  moreover have "stage (s_state s) \<le> 3" using assms(2) by (cases "s_state s") auto
  ultimately show ?thesis using put_progress [of ?st1 l s] assms(1) g by (simp add: progress_def)
qed

text \<open>C17. A stream never goes back: opening, open, half closed, ended is the only order. This holds of the operations of
  the multiplexer that assign the state of an existing stream: whatever flags arrive, and whatever is acknowledged, written or closed
  locally, a stream that still exists afterwards is at the same stage or a later one; in particular an ended stream is not
  reopened by them. The end of a data frame, which assigns the half-closed state without a look at the old one when the payload
  was not taken completely, keeps the order for a stream that has not ended before. (\<open>init_tmux_stream\<close>, which sets the state of a new
  stream, is not among them.)\<close>

theorem stream_never_reopens:
  "(\<forall>r st'. process_flags flags l st = Some (r, st') \<longrightarrow> progress st st') \<and>
   (\<forall>st'. send_window_update l n st = Some st' \<longrightarrow> progress st st') \<and>
   (\<forall>r src' st'. tmux_stream_write src l st = Some (r, src', st') \<longrightarrow> progress st st') \<and>
   (\<forall>r st'. tmux_stream_close l st = Some (r, st') \<longrightarrow> progress st st') \<and>
   (\<forall>s st'. get_strm st l = Some s \<longrightarrow> s_state s \<notin> {TMUX_CLOSED, TMUX_RESET} \<longrightarrow> finish_data l len processed st = Some st' \<longrightarrow> progress st st')"
proof (intro conjI allI impI)
  fix s st'
  assume "get_strm st l = Some s" "s_state s \<notin> {TMUX_CLOSED, TMUX_RESET}" "finish_data l len processed st = Some st'"
  then show "progress st st'" by (rule finish_data_progress)
qed (fact process_flags_progress send_window_update_progress tmux_stream_write_progress tmux_stream_close_progress)+

theorem stream_never_reopens_witness:
  "(\<exists>st'. tmux_stream_close (PcLoc 0) demo_mux = Some (1, st') \<and> progress demo_mux st') \<and>
   (\<exists>st'. finish_data (PcLoc 0) 5 2 demo_mux = Some st' \<and> progress demo_mux st')"
proof -
  obtain st' where c: "tmux_stream_close (PcLoc 0) demo_mux = Some (1, st')"
    by (simp add: tmux_stream_close_def demo_strm) (simp add: demo_client_def put_strm_def demo_mux_def)
  let ?r = "tcp_mux_send_win_update_rst 3 demo_mux"
  have id: "s_id (pc_stream demo_client) = 3" "s_state (pc_stream demo_client) = TMUX_ESTABLISHED" by (simp_all add: demo_client_def)
  have "heap ?r = heap demo_mux" using same_objects_fields [OF sends_same(4)] by blast
  then obtain st2 where f: "finish_data (PcLoc 0) 5 2 demo_mux = Some st2"
    by (simp add: finish_data_def demo_strm id put_strm_def) (simp add: demo_mux_def)
  from c f id stream_never_reopens [of 0 "PcLoc 0" demo_mux 0 "[]" 5 2] demo_strm show ?thesis by auto
qed

end
