(* ===== verification/Mux_Framing.thy ===== *)
theory Mux_Framing
  imports Mux_Receive
begin

text \<open>
  What the frame loop does with a byte stream. For a plain proxy client the payloads of its DATA frames
  reach the local service in order and exactly once, however the stream is cut into pieces, and every
  frame is answered with the window update that restores the window. The exceptions are stated as
  theorems too: a frame for an unknown stream that arrives in pieces, and an empty DATA frame at the end
  of what has arrived.
\<close>

section \<open>A plain connection\<close>

definition plain_conn :: "nat \<Rightarrow> mux \<Rightarrow> proxy_client \<Rightarrow> local_bev \<Rightarrow> bool" where
  "plain_conn a st pc lb \<longleftrightarrow> heap st a = Some pc \<and> pc_local pc = Some lb \<and>
     \<not> is_udp_proxy (pc_ps pc) \<and> \<not> is_socks5_proxy (pc_ps pc) \<and> \<not> has_service_type (pc_ps pc) \<and>
     \<not> pc_use_encryption pc \<and> \<not> pc_use_compression pc \<and>
     get_stream_by_id (s_id (pc_stream pc)) st = Some (PcLoc a) \<and> get_proxy_client (s_id (pc_stream pc)) st = Some a \<and>
     s_state (pc_stream pc) = TMUX_ESTABLISHED \<and> s_recv_window (pc_stream pc) = MAX_STREAM_WINDOW_SIZE \<and>
     ctl_up st \<and> (\<forall>n. \<not> oom st n)"

text \<open>The state after \<open>d\<close> was delivered to the service and \<open>reply\<close> was sent to the server.\<close>

definition delivered :: "nat \<Rightarrow> bytes \<Rightarrow> bytes \<Rightarrow> mux \<Rightarrow> mux \<Rightarrow> bool" where
  "delivered a d reply st st' \<longleftrightarrow> (\<exists>pc lb pc'. plain_conn a st pc lb \<and> plain_conn a st' pc' (lb\<lparr>lb_out := lb_out lb @ d\<rparr>) \<and>
     s_id (pc_stream pc') = s_id (pc_stream pc) \<and> ctl_out st' = ctl_out st @ reply)"

lemma plain_unique: "plain_conn a st pc lb \<Longrightarrow> plain_conn a st pc' lb' \<Longrightarrow> pc' = pc \<and> lb' = lb"
  by (simp add: plain_conn_def)

lemma delivered_plain:
  assumes "delivered a d r st st'" "plain_conn a st pc lb"
  obtains pc' where "plain_conn a st' pc' (lb\<lparr>lb_out := lb_out lb @ d\<rparr>)" "s_id (pc_stream pc') = s_id (pc_stream pc)" "ctl_out st' = ctl_out st @ r"
  using assms plain_unique unfolding delivered_def by metis

lemma delivered_trans:
  assumes "delivered a d r st st1" "delivered a d' r' st1 st2"
  shows "delivered a (d @ d') (r @ r') st st2"
proof -
  obtain pc lb where p: "plain_conn a st pc lb" using assms(1) by (auto simp: delivered_def)
  obtain pc1 where p1: "plain_conn a st1 pc1 (lb\<lparr>lb_out := lb_out lb @ d\<rparr>)" "s_id (pc_stream pc1) = s_id (pc_stream pc)" "ctl_out st1 = ctl_out st @ r"
    by (rule delivered_plain [OF assms(1) p])
  obtain pc2 where "plain_conn a st2 pc2 (lb\<lparr>lb_out := lb_out lb @ d @ d'\<rparr>)" "s_id (pc_stream pc2) = s_id (pc_stream pc1)" "ctl_out st2 = ctl_out st1 @ r'"
    by (rule delivered_plain [OF assms(2) p1(1)]) simp
  with p p1 show ?thesis unfolding delivered_def by fastforce
qed

definition data_frame :: "u32 \<Rightarrow> bytes \<Rightarrow> bytes" where
  "data_frame sid p = header_bytes (tcp_mux_encode TMUX_DATA 0 sid (of_nat (length p))) @ p"

definition window_frame :: "u32 \<Rightarrow> bytes \<Rightarrow> bytes" where
  "window_frame sid p = header_bytes (tcp_mux_encode WINDOW_UPDATE 0 sid (of_nat (length p)))"

definition payload_ok :: "bytes \<Rightarrow> bool" where
  "payload_ok p \<longleftrightarrow> p \<noteq> [] \<and> length p \<le> unat MAX_STREAM_WINDOW_SIZE"

lemma payload_len:
  assumes "payload_ok p"
  shows "unat (of_nat (length p) :: u32) = length p" "(of_nat (length p) :: u32) \<noteq> 0" "of_nat (length p) \<le> MAX_STREAM_WINDOW_SIZE"
proof -
  have l: "length p < 2 ^ 32" using assms by (simp add: payload_ok_def MAX_STREAM_WINDOW_SIZE_def)
  then show u: "unat (of_nat (length p) :: u32) = length p" by (simp add: unat_of_nat_u32)
  show "(of_nat (length p) :: u32) \<noteq> 0" using u assms by (auto simp: payload_ok_def)
  show "of_nat (length p) \<le> MAX_STREAM_WINDOW_SIZE" using u assms by (simp add: payload_ok_def le_u32_iff)
qed

lemma no_flags:
  assumes "heap st a = Some pc" "s_state (pc_stream pc) = TMUX_ESTABLISHED"
  shows "process_flags 0 (PcLoc a) st = Some (True, st)"
proof -
  have "(heap st)(a \<mapsto> pc) = heap st" using assms(1) by (simp add: fun_upd_idem)
  then show ?thesis using assms
    by (simp add: process_flags_def ack_transition_def fin_outcome_def rst_outcome_def get_strm_def put_strm_def)
qed

lemma plain_payload:
  assumes "heap st a = Some pc" "pc_local pc = Some lb" "\<not> is_udp_proxy (pc_ps pc)" "\<not> is_socks5_proxy (pc_ps pc)"
    "\<not> has_service_type (pc_ps pc)" "\<not> pc_use_encryption pc" "\<not> pc_use_compression pc" "\<And>n. \<not> oom st n"
    "ctl_in st = p @ rest" "payload_ok p"
  shows "process_payload env fn (of_nat (length p)) (Some a) c st = Some (Some (of_nat (length p)), c,
     st\<lparr>heap := (heap st)(a \<mapsto> pc\<lparr>pc_local := Some (lb\<lparr>lb_out := lb_out lb @ p\<rparr>)\<rparr>), tick := Suc (tick st), ctl_in := rest\<rparr>)"
  using assms payload_len [OF assms(10)]
  by (auto simp: process_payload_def deliver_local_def with_ctl_def evbuffer_zc_transfer_def alloc_def put_pc_def payload_ok_def)

lemma plain_window:
  assumes "heap st a = Some pc" "s_state (pc_stream pc) = TMUX_ESTABLISHED" "ctl_up st" "\<And>n. \<not> oom st n"
    "s_recv_window (pc_stream pc) = MAX_STREAM_WINDOW_SIZE - of_nat (length p)" "payload_ok p"
    "pc' = pc\<lparr>pc_stream := (pc_stream pc)\<lparr>s_recv_window := MAX_STREAM_WINDOW_SIZE\<rparr>\<rparr>"
  shows "send_window_update (PcLoc a) (of_nat (length p)) st =
     Some (st\<lparr>heap := (heap st)(a \<mapsto> pc'),
       tick := Suc (tick st), ctl_out := ctl_out st @ window_frame (s_id (pc_stream pc)) p\<rparr>)"
proof -
  let ?n = "of_nat (length p) :: u32"
  note len = payload_len [OF assms(6)]
  have lt: "MAX_STREAM_WINDOW_SIZE - ?n < MAX_STREAM_WINDOW_SIZE"
  proof -
    have "unat (MAX_STREAM_WINDOW_SIZE - ?n) = unat MAX_STREAM_WINDOW_SIZE - unat ?n" by (rule unat_sub [OF len(3)])
    moreover have "0 < unat ?n" "unat ?n \<le> unat MAX_STREAM_WINDOW_SIZE" using len by (auto simp: le_u32_iff unat_gt_0)
    ultimately show ?thesis by (simp add: less_u32_iff)
  qed
  show ?thesis using assms lt len
    by (simp add: send_window_update_def get_strm_def put_strm_def Let_def tcp_mux_send_win_update_def send_header_def
        ctl_write_def alloc_def window_frame_def)
qed

lemma plain_data:
  assumes pl: "plain_conn a st pc lb" and p: "payload_ok p" and inp: "ctl_in st = p @ rest"
  obtains st' where "process_data env fn (PcLoc a) (of_nat (length p)) 0 (Some a) c st = Some (of_nat (length p), c, st')"
    "delivered a p (window_frame (s_id (pc_stream pc)) p) st st'" "ctl_in st' = rest"
proof -
  let ?n = "of_nat (length p) :: u32" and ?s = "pc_stream pc"
  let ?pc1 = "pc\<lparr>pc_stream := ?s\<lparr>s_recv_window := MAX_STREAM_WINDOW_SIZE - ?n\<rparr>\<rparr>" and ?lb = "lb\<lparr>lb_out := lb_out lb @ p\<rparr>"
  let ?st1 = "st\<lparr>heap := (heap st)(a \<mapsto> ?pc1)\<rparr>"
  let ?pc2 = "?pc1\<lparr>pc_local := Some ?lb\<rparr>"
  let ?st2 = "st\<lparr>heap := (heap st)(a \<mapsto> ?pc2), tick := Suc (tick st), ctl_in := rest\<rparr>"
  let ?pc3 = "pc\<lparr>pc_local := Some ?lb\<rparr>"
  let ?st3 = "st\<lparr>heap := (heap st)(a \<mapsto> ?pc3), tick := Suc (Suc (tick st)), ctl_in := rest,
      ctl_out := ctl_out st @ window_frame (s_id ?s) p\<rparr>"
  note len = payload_len [OF p]
  note d = pl [unfolded plain_conn_def]
  have self: "?pc2\<lparr>pc_stream := ?s\<lparr>s_recv_window := MAX_STREAM_WINDOW_SIZE\<rparr>\<rparr> = ?pc3"
    using d by simp
  have pay: "process_payload env fn ?n (Some a) c ?st1 = Some (Some ?n, c, ?st2)"
    using plain_payload [of ?st1 a ?pc1 lb p rest env fn c] d inp p by simp
  have win: "send_window_update (PcLoc a) ?n ?st2 = Some ?st3"
  proof -
    have "send_window_update (PcLoc a) ?n ?st2 = Some (?st2\<lparr>heap := (heap ?st2)(a \<mapsto> ?pc3), tick := Suc (tick ?st2),
        ctl_out := ctl_out ?st2 @ window_frame (s_id (pc_stream ?pc2)) p\<rparr>)"
      by (rule plain_window [of ?st2 a ?pc2 p ?pc3]) (use d p self in simp_all)
    moreover have "?st2\<lparr>heap := (heap ?st2)(a \<mapsto> ?pc3), tick := Suc (tick ?st2), ctl_out := ctl_out ?st2 @ window_frame (s_id (pc_stream ?pc2)) p\<rparr> = ?st3"
      by (rule mux.equality) simp_all
    ultimately show ?thesis by simp
  qed
  have "process_data env fn (PcLoc a) ?n 0 (Some a) c st = Some (?n, c, ?st3)"
    using d no_flags [of st a pc] pay win len
    by (simp add: process_data_def take_data_def get_strm_def put_strm_def finish_data_def)
  moreover have "plain_conn a ?st3 ?pc3 ?lb" using d by (auto simp: plain_conn_def get_proxy_client_def get_stream_by_id_def split: if_splits)
  then have "delivered a p (window_frame (s_id ?s) p) st ?st3" unfolding delivered_def using pl by fastforce
  ultimately show thesis by (intro that [of ?st3]) simp_all
qed


section \<open>Where the loop stands in the stream\<close>

text \<open>The bytes of the stream that have arrived and whose frame is not finished: a part of a header and
  the input, or a header whose payload is awaited and the input.\<close>

definition data_hdr :: "u32 \<Rightarrow> u32 \<Rightarrow> bytes" where
  "data_hdr sid n = header_bytes (tcp_mux_encode TMUX_DATA 0 sid n)"

definition unread :: "nat \<Rightarrow> u32 \<Rightarrow> rx \<Rightarrow> mux \<Rightarrow> bytes \<Rightarrow> bool" where
  "unread a sid rx st v \<longleftrightarrow> length (rx_hdr rx) = 12 \<and> rx_partial rx < 12 \<and>
     (case cur_stream st of
        None \<Rightarrow> v = take (rx_partial rx) (rx_hdr rx) @ ctl_in st
      | Some l \<Rightarrow> l = PcLoc a \<and> rx_partial rx = 0 \<and> rx_hdr rx = data_hdr sid (rx_len rx) \<and> v = rx_hdr rx @ ctl_in st)"

lemma length_data_hdr [simp]: "length (data_hdr sid n) = 12"
  by (simp add: data_hdr_def)

lemma data_hdr_ne [simp]: "data_hdr sid n \<noteq> []" "[] \<noteq> data_hdr sid n"
  using length_data_hdr [of sid n] by fastforce+

lemma swap_0 [simp]: "htonl 0 = 0" "htons 0 = 0"
  by (simp_all add: htonl_def rd32_def htons_def rd16_def)

lemma data_hdr_facts:
  "h_type (header_of (data_hdr sid n)) = TMUX_DATA" "ntohs (h_flags (header_of (data_hdr sid n))) = 0"
  "ntohl (h_stream_id (header_of (data_hdr sid n))) = sid" "ntohl (h_length (header_of (data_hdr sid n))) = n"
  "validate_tcp_mux_protocol (header_of (data_hdr sid n))"
  by (auto simp: data_hdr_def header_of_bytes tcp_mux_encode_def ntohl_def ntohs_def validate_tcp_mux_protocol_def)

lemma data_frame_eq: "data_frame sid p = data_hdr sid (of_nat (length p)) @ p"
  by (simp add: data_frame_def data_hdr_def)

lemma header_split:
  assumes "length H = 12" "k < 12" "take k H @ inp = h @ rest" "length h = 12"
  shows "take k H = take k h" "inp = drop k h @ rest"
proof -
  have "take k (take k H @ inp) = take k (h @ rest)" "drop k (take k H @ inp) = drop k (h @ rest)" using assms(3) by simp_all
  then show "take k H = take k h" "inp = drop k h @ rest" using assms(1,2,4) by simp_all
qed

lemma header_complete:
  assumes "length (rx_hdr rx) = 12" "rx_partial rx < 12" "take (rx_partial rx) (rx_hdr rx) @ ctl_in st = h @ rest" "length h = 12"
    "len = int (length (ctl_in st))"
  shows "read_header len rx st = (Some (int (length rest)), rx\<lparr>rx_hdr := h, rx_partial := 0\<rparr>, st\<lparr>ctl_in := rest\<rparr>)"
proof -
  note sp = header_split [OF assms(1-4)]
  have "take (rx_partial rx) h @ drop (rx_partial rx) h = h" by simp
  then show ?thesis using assms sp by (cases "rx_partial rx = 0") (auto simp: read_header_def bev_read_def Let_def)
qed

lemma header_incomplete:
  assumes "length (rx_hdr rx) = 12" "rx_partial rx < 12" "v = take (rx_partial rx) (rx_hdr rx) @ ctl_in st" "length v < 12"
    "len = int (length (ctl_in st))" "cur_stream st = None"
  obtains rx' where "read_header len rx st = (None, rx', st\<lparr>ctl_in := []\<rparr>)" "unread a sid rx' (st\<lparr>ctl_in := []\<rparr>) v"
proof -
  let ?rx = "fst (snd (read_header len rx st))"
  have "read_header len rx st = (None, ?rx, st\<lparr>ctl_in := []\<rparr>) \<and> unread a sid ?rx (st\<lparr>ctl_in := []\<rparr>) v"
    using assms by (cases "rx_partial rx = 0") (auto simp: read_header_def bev_read_def Let_def unread_def)
  with that show thesis by blast
qed

lemma plain_cur: "plain_conn a (set_cur_stream x st) pc lb = plain_conn a st pc lb" "plain_conn a (st\<lparr>ctl_in := y\<rparr>) pc lb = plain_conn a st pc lb"
  by (simp_all add: plain_conn_def set_cur_stream_def get_stream_by_id_def get_proxy_client_def)

lemma delivered_cur: "delivered a d r st (set_cur_stream x st') = delivered a d r st st'" "delivered a d r (st\<lparr>ctl_in := y\<rparr>) st' = delivered a d r st st'"
  by (simp_all add: delivered_def plain_cur) (simp_all add: set_cur_stream_def)

text \<open>A complete payload is delivered.\<close>

lemma dispatch_complete:
  assumes pl: "plain_conn a st pc lb" and p: "payload_ok p" and inp: "ctl_in st = p @ rest"
    and rx: "rx_hdr rx = data_hdr (s_id (pc_stream pc)) (rx_len rx)" "rx_len rx = of_nat (length p)" "rx_partial rx = 0"
  obtains st' where "dispatch_frame env fn (Some (PcLoc a)) (int (length (p @ rest))) rx c st = Some (Again (int (length rest)) (rx\<lparr>rx_len := 0\<rparr>) c st')"
    "delivered a p (window_frame (s_id (pc_stream pc)) p) st st'" "cur_stream st' = None" "ctl_in st' = rest"
proof -
  obtain st' where d: "process_data env fn (PcLoc a) (of_nat (length p)) 0 (Some a) c st = Some (of_nat (length p), c, st')"
    "delivered a p (window_frame (s_id (pc_stream pc)) p) st st'" "ctl_in st' = rest" by (rule plain_data [OF pl p inp])
  note len = payload_len [OF p]
  have u: "uint (of_nat (length p) :: u32) = int (length p)" using len(1) by (simp add: uint_nat)
  have av: "frame_avail (int (length (p @ rest))) (rx_len rx) = rx_len rx" using u rx(2) by (simp add: frame_avail_def)
  have left: "int (length (p @ rest)) - int (length p) = int (length rest)" by simp
  have "dispatch_frame env fn (Some (PcLoc a)) (int (length (p @ rest))) rx c st = Some (Again (int (length rest)) (rx\<lparr>rx_len := 0\<rparr>) c (set_cur_stream None st'))"
    using d(1) pl rx av u len(2) left
    by (simp add: dispatch_frame_def consume_payload_def Let_def data_hdr_facts plain_conn_def get_strm_def word_gt_0 del: length_append)
  then show thesis using d by (intro that [of "set_cur_stream None st'"]) (simp_all add: delivered_cur, simp_all add: set_cur_stream_def)
qed


text \<open>An incomplete payload is awaited.\<close>

lemma dispatch_incomplete:
  assumes pl: "plain_conn a st pc lb" and p: "payload_ok p" and inp: "ctl_in st \<noteq> []" "length (ctl_in st) < length p"
    and rx: "rx_hdr rx = data_hdr sid (rx_len rx)" "rx_len rx = of_nat (length p)"
  shows "dispatch_frame env fn (Some (PcLoc a)) (int (length (ctl_in st))) rx c st = Some (Leave rx c (set_cur_stream (Some (PcLoc a)) st))"
proof -
  let ?n = "length (ctl_in st)"
  note len = payload_len [OF p]
  have u: "uint (of_nat (length p) :: u32) = int (length p)" using len(1) by (simp add: uint_nat)
  have lt: "?n < 2 ^ 32" using inp(2) p by (simp add: payload_ok_def MAX_STREAM_WINDOW_SIZE_def)
  have "frame_avail (int ?n) (rx_len rx) = of_nat ?n" using u rx(2) inp(2) by (simp add: frame_avail_def)
  moreover have "(of_nat ?n :: u32) < rx_len rx" using rx(2) len(1) inp(2) unat_of_nat_u32 [OF lt] by (simp add: less_u32_iff)
  ultimately show ?thesis using pl rx len(2)
    by (simp add: dispatch_frame_def consume_payload_def Let_def data_hdr_facts plain_conn_def get_strm_def word_gt_0)
qed

text \<open>The first frame of what has arrived, complete or not.\<close>

lemma turn_complete:
  assumes pl: "plain_conn a st pc lb" and sid: "sid = s_id (pc_stream pc)" and u: "unread a sid rx st (data_frame sid p @ rest)" and p: "payload_ok p"
    and pos: "ctl_in st \<noteq> []"
  obtains rx' st' where "mux_turn env fn (int (length (ctl_in st))) rx c st = Some (Again (int (length rest)) rx' c st')"
    "delivered a p (window_frame sid p) st st'" "unread a sid rx' st' rest" "cur_stream st' = None" "ctl_in st' = rest"
proof (cases "cur_stream st")
  case (Some l)
  have hd: "l = PcLoc a" "rx_partial rx = 0" "rx_hdr rx = data_hdr sid (rx_len rx)" "rx_hdr rx @ ctl_in st = data_hdr sid (of_nat (length p)) @ p @ rest"
    using u Some by (auto simp: unread_def data_frame_eq)
  have eq: "rx_hdr rx = data_hdr sid (of_nat (length p))" "ctl_in st = p @ rest" using hd(3,4) by (auto simp: append_eq_append_conv)
  have "rx_len rx = of_nat (length p)" using hd(3) eq(1) by (metis data_hdr_facts(4))
  then obtain st' where d: "dispatch_frame env fn (Some (PcLoc a)) (int (length (p @ rest))) rx c st = Some (Again (int (length rest)) (rx\<lparr>rx_len := 0\<rparr>) c st')"
    "delivered a p (window_frame (s_id (pc_stream pc)) p) st st'" "cur_stream st' = None" "ctl_in st' = rest"
    using dispatch_complete [OF pl p eq(2), of rx] hd sid by metis
  then show thesis using Some hd eq(2) sid
    by (intro that [of "rx\<lparr>rx_len := 0\<rparr>" st']) (auto simp: mux_turn_def get_cur_stream_def unread_def)
next
  case None
  let ?n = "of_nat (length p) :: u32" and ?st = "st\<lparr>ctl_in := p @ rest\<rparr>"
  let ?rx = "rx\<lparr>rx_hdr := data_hdr sid ?n, rx_partial := 0\<rparr>"
  have h: "read_header (int (length (ctl_in st))) rx st = (Some (int (length (p @ rest))), ?rx, ?st)"
    using u None by (intro header_complete) (auto simp: unread_def data_frame_eq)
  have pl1: "plain_conn a ?st pc lb" using pl by (simp add: plain_cur)
  obtain st' where d: "dispatch_frame env fn (Some (PcLoc a)) (int (length (p @ rest))) (?rx\<lparr>rx_len := ?n\<rparr>) c ?st = Some (Again (int (length rest)) (?rx\<lparr>rx_len := ?n\<rparr>\<lparr>rx_len := 0\<rparr>) c st')"
    "delivered a p (window_frame (s_id (pc_stream pc)) p) ?st st'" "cur_stream st' = None" "ctl_in st' = rest"
    by (rule dispatch_complete [OF pl1 p, where rx = "?rx\<lparr>rx_len := ?n\<rparr>" and rest = rest and env = env and fn = fn and c = c]) (use sid in simp_all)
  have "int (length p) + int (length rest) \<noteq> 0" using p by (cases p) (auto simp: payload_ok_def)
  moreover have "\<not> MAX_STREAM_WINDOW_SIZE < ?n" "get_stream_by_id sid ?st = Some (PcLoc a)"
    using payload_len(3) [OF p] pl sid by (auto simp: plain_conn_def get_stream_by_id_def)
  ultimately have "begin_frame env fn (int (length (p @ rest))) ?rx c ?st = Some (Again (int (length rest)) (?rx\<lparr>rx_len := 0\<rparr>) c st')"
    using d(1) by (simp add: begin_frame_def Let_def data_hdr_facts)
  then show thesis using None h d sid
    by (intro that [of "?rx\<lparr>rx_len := 0\<rparr>" st']) (auto simp: mux_turn_def get_cur_stream_def unread_def delivered_cur)
qed


lemma turn_incomplete:
  assumes pl: "plain_conn a st pc lb" and sid: "sid = s_id (pc_stream pc)" and u: "unread a sid rx st v" and p: "payload_ok p"
    and v: "data_frame sid p = v @ w" "w \<noteq> []" and pos: "ctl_in st \<noteq> []"
  obtains rx' st' where "mux_turn env fn (int (length (ctl_in st))) rx c st = Some (Leave rx' c st')"
    "plain_conn a st' pc lb" "ctl_out st' = ctl_out st" "unread a sid rx' st' v"
proof (cases "cur_stream st")
  case (Some l)
  have hd: "l = PcLoc a" "rx_partial rx = 0" "rx_hdr rx = data_hdr sid (rx_len rx)" "v = rx_hdr rx @ ctl_in st" "length (rx_hdr rx) = 12"
    using u Some by (auto simp: unread_def)
  have eq: "rx_hdr rx = data_hdr sid (of_nat (length p))" "p = ctl_in st @ w"
    using v(1) hd(4,5) by (auto simp: data_frame_eq append_eq_append_conv)
  have n: "rx_len rx = of_nat (length p)" using hd(3) eq(1) by (metis data_hdr_facts(4))
  have lt: "length (ctl_in st) < length p" using v(2) by (subst eq(2)) simp
  show thesis using Some hd dispatch_incomplete [OF pl p pos lt hd(3) n, of env fn c] pl u
    by (intro that [of rx "set_cur_stream (Some (PcLoc a)) st"]) (auto simp: mux_turn_def get_cur_stream_def plain_cur, auto simp: unread_def set_cur_stream_def)
next
  case None
  have hd: "length (rx_hdr rx) = 12" "rx_partial rx < 12" "v = take (rx_partial rx) (rx_hdr rx) @ ctl_in st"
    using u None by (auto simp: unread_def)
  show thesis
  proof (cases "length v < 12")
    case True
    obtain rx' where "read_header (int (length (ctl_in st))) rx st = (None, rx', st\<lparr>ctl_in := []\<rparr>)" "unread a sid rx' (st\<lparr>ctl_in := []\<rparr>) v"
      by (rule header_incomplete [OF hd True refl None])
    then show thesis using None pl by (intro that [of rx' "st\<lparr>ctl_in := []\<rparr>"]) (auto simp: mux_turn_def get_cur_stream_def plain_cur)
  next
    case False
    let ?n = "of_nat (length p) :: u32" and ?q = "drop 12 v"
    let ?st = "st\<lparr>ctl_in := ?q\<rparr>"
    let ?rx = "rx\<lparr>rx_hdr := data_hdr sid ?n, rx_partial := 0, rx_len := ?n\<rparr>"
    have "take 12 (data_frame sid p) = take 12 v" using v(1) False by simp
    then have "take 12 v = data_hdr sid ?n" by (simp add: data_frame_eq)
    then have vs: "v = data_hdr sid ?n @ ?q" by (metis append_take_drop_id)
    have "drop 12 (data_frame sid p) = ?q @ w" using v(1) False by simp
    then have pq: "p = ?q @ w" by (simp add: data_frame_eq)
    have h: "read_header (int (length (ctl_in st))) rx st = (Some (int (length ?q)), rx\<lparr>rx_hdr := data_hdr sid ?n, rx_partial := 0\<rparr>, ?st)"
      using hd vs by (intro header_complete) auto
    have st: "plain_conn a ?st pc lb" using pl by (simp add: plain_cur)
    have lt: "length (ctl_in ?st) < length p" using v(2) by (subst pq) simp
    have go: "dispatch_frame env fn (Some (PcLoc a)) (int (length ?q)) ?rx c ?st = Some (Leave ?rx c (set_cur_stream (Some (PcLoc a)) ?st))" if "?q \<noteq> []"
      using dispatch_incomplete [OF st p _ lt, of "?rx" sid env fn c] that by simp
    have ok: "\<not> MAX_STREAM_WINDOW_SIZE < ?n" "get_stream_by_id sid ?st = Some (PcLoc a)"
      using payload_len(3) [OF p] st sid by (auto simp: plain_conn_def)
    have "begin_frame env fn (int (length ?q)) (rx\<lparr>rx_hdr := data_hdr sid ?n, rx_partial := 0\<rparr>) c ?st = Some (Leave ?rx c (set_cur_stream (Some (PcLoc a)) ?st))"
      using ok go by (cases "?q = []") (simp_all add: begin_frame_def Let_def data_hdr_facts)
    then show thesis using None h st vs
      by (intro that [of ?rx "set_cur_stream (Some (PcLoc a)) ?st"]) (auto simp: mux_turn_def get_cur_stream_def plain_cur, auto simp: unread_def set_cur_stream_def)
  qed
qed


section \<open>Streams of frames\<close>

abbreviation frames :: "u32 \<Rightarrow> bytes list \<Rightarrow> bytes" where
  "frames sid ps \<equiv> concat (map (data_frame sid) ps)"

definition partial_frame :: "u32 \<Rightarrow> bytes \<Rightarrow> bool" where
  "partial_frame sid v \<longleftrightarrow> (\<exists>p w. payload_ok p \<and> data_frame sid p = v @ w \<and> w \<noteq> [])"

lemma partial_Nil [simp]: "partial_frame sid []"
  unfolding partial_frame_def
  by (rule exI [of _ "[0]"]) (simp add: payload_ok_def MAX_STREAM_WINDOW_SIZE_def data_frame_eq)

lemma delivered_Nil: "plain_conn a st pc lb \<Longrightarrow> plain_conn a st' pc lb \<Longrightarrow> ctl_out st' = ctl_out st \<Longrightarrow> delivered a [] [] st st'"
  by (auto simp: delivered_def)

lemma unread_complete: "unread a sid rx st (data_frame sid p @ rest) \<Longrightarrow> payload_ok p \<Longrightarrow> ctl_in st \<noteq> []"
  by (auto simp: unread_def payload_ok_def data_frame_eq split: option.splits dest: arg_cong [of _ _ length])

lemma loop_frames:
  assumes "plain_conn a st pc lb" "sid = s_id (pc_stream pc)" "unread a sid rx st (frames sid ps @ v)" "\<forall>p \<in> set ps. payload_ok p" "partial_frame sid v"
  shows "\<exists>rx' st'. mux_loop env fn (int (length (ctl_in st))) rx c st = Some (rx', c, st') \<and>
     delivered a (concat ps) (concat (map (window_frame sid) ps)) st st' \<and> unread a sid rx' st' v"
  using assms
proof (induction ps arbitrary: rx st pc lb)
  case Nil
  show ?case
  proof (cases "ctl_in st = []")
    case True
    then show ?thesis using Nil delivered_Nil [OF Nil(1,1)] by (auto simp: mux_loop.simps)
  next
    case False
    obtain p w where p: "payload_ok p" "data_frame sid p = v @ w" "w \<noteq> []" using Nil(5) by (auto simp: partial_frame_def)
    obtain rx' st' where t: "mux_turn env fn (int (length (ctl_in st))) rx c st = Some (Leave rx' c st')"
      "plain_conn a st' pc lb" "ctl_out st' = ctl_out st" "unread a sid rx' st' v"
      by (rule turn_incomplete [OF Nil(1,2) _ p False]) (use Nil(3) in auto)
    then show ?thesis using False delivered_Nil [OF Nil(1) t(2,3)] by (subst mux_loop.simps) auto
  qed
next
  case (Cons p ps)
  have p: "payload_ok p" "\<forall>p \<in> set ps. payload_ok p" using Cons.prems(4) by auto
  have u: "unread a sid rx st (data_frame sid p @ frames sid ps @ v)" using Cons.prems(3) by simp
  have ne: "ctl_in st \<noteq> []" by (rule unread_complete [OF u p(1)])
  obtain rx1 st1 where t: "mux_turn env fn (int (length (ctl_in st))) rx c st = Some (Again (int (length (frames sid ps @ v))) rx1 c st1)"
    "delivered a p (window_frame sid p) st st1" "unread a sid rx1 st1 (frames sid ps @ v)" "cur_stream st1 = None" "ctl_in st1 = frames sid ps @ v"
    by (rule turn_complete [OF Cons.prems(1,2) u p(1) ne])
  obtain pc1 where pl1: "plain_conn a st1 pc1 (lb\<lparr>lb_out := lb_out lb @ p\<rparr>)" "sid = s_id (pc_stream pc1)"
    by (rule delivered_plain [OF t(2) Cons.prems(1)]) (use Cons.prems(2) in auto)
  obtain rx' st' where r: "mux_loop env fn (int (length (ctl_in st1))) rx1 c st1 = Some (rx', c, st')"
    "delivered a (concat ps) (concat (map (window_frame sid) ps)) st1 st'" "unread a sid rx' st' v"
    using Cons.IH [OF pl1 t(3) p(2) Cons.prems(5)] by blast
  have "mux_loop env fn (int (length (ctl_in st))) rx c st = Some (rx', c, st')"
    using ne t(1,5) r(1) by (subst mux_loop.simps) simp
  then show ?case using delivered_trans [OF t(2) r(2)] r(3) by auto
qed

text \<open>A piece of the stream ends somewhere in a frame.\<close>

lemma frames_cut:
  assumes "x @ y = frames sid ps" "\<forall>p \<in> set ps. payload_ok p"
  obtains ps1 ps2 v where "ps = ps1 @ ps2" "x = frames sid ps1 @ v" "partial_frame sid v" "v @ y = frames sid ps2"
  using assms
proof (induction ps arbitrary: x thesis)
  case Nil
  then show ?case by (intro Nil.prems(1) [of "[]" "[]" "[]"]) auto
next
  case (Cons p ps)
  show ?case
  proof (cases "length x < length (data_frame sid p)")
    case True
    have "take (length x) (x @ y) = take (length x) (data_frame sid p @ frames sid ps)" using Cons.prems(2) by simp
    then have "x = take (length x) (data_frame sid p)" using True by simp
    then obtain w where w: "data_frame sid p = x @ w" by (metis append_take_drop_id)
    then have "partial_frame sid x" using Cons.prems(3) True unfolding partial_frame_def
      by (intro exI [of _ p] exI [of _ w]) auto
    then show ?thesis using Cons.prems(1) [of "[]" "p # ps" x] Cons.prems(2) by simp
  next
    case False
    let ?f = "data_frame sid p"
    have "take (length ?f) (x @ y) = take (length ?f) (?f @ frames sid ps)" using Cons.prems(2) by simp
    then have "?f = take (length ?f) x" using False by simp
    then obtain x' where x: "x = data_frame sid p @ x'" by (metis append_take_drop_id)
    then have "x' @ y = frames sid ps" using Cons.prems(2) by simp
    from Cons.IH [OF _ this] Cons.prems(3) obtain ps1 ps2 v where
      "ps = ps1 @ ps2" "x' = frames sid ps1 @ v" "partial_frame sid v" "v @ y = frames sid ps2" by auto
    then show ?thesis using Cons.prems(1) [of "p # ps1" ps2 v] x by simp
  qed
qed

text \<open>The bytes arrive in pieces; every piece triggers the read callback.\<close>

fun recv_all :: "env \<Rightarrow> 'c handle_data_fn \<Rightarrow> bytes list \<Rightarrow> rx \<Rightarrow> 'c \<Rightarrow> mux \<Rightarrow> (rx \<times> 'c \<times> mux) option" where
  "recv_all env fn [] rx c st = Some (rx, c, st)"
| "recv_all env fn (x # xs) rx c st = do {
     (rx, c, st) \<leftarrow> recv_cb_mux env fn rx c (st\<lparr>ctl_in := ctl_in st @ x\<rparr>);
     recv_all env fn xs rx c st
   }"

lemma unread_more: "unread a sid rx st v \<Longrightarrow> unread a sid rx (st\<lparr>ctl_in := ctl_in st @ x\<rparr>) (v @ x)"
  by (auto simp: unread_def split: option.splits)

lemma recv_cb_loop: "recv_cb_mux env fn rx c st = mux_loop env fn (int (length (ctl_in st))) rx c st"
  by (simp add: recv_cb_mux_def handle_tcp_mux_def mux_loop.simps)

lemma partial_not_complete:
  assumes "partial_frame sid v" "payload_ok p"
  shows "v \<noteq> data_frame sid p @ z"
proof
  assume v: "v = data_frame sid p @ z"
  obtain p' w where p': "payload_ok p'" "data_frame sid p' = v @ w" "w \<noteq> []" using assms(1) by (auto simp: partial_frame_def)
  have eq: "data_hdr sid (of_nat (length p')) @ p' = data_hdr sid (of_nat (length p)) @ p @ z @ w"
    using p'(2) v by (simp only: data_frame_eq append_assoc)
  have "data_hdr sid (of_nat (length p')) = data_hdr sid (of_nat (length p)) \<and> p' = p @ z @ w"
    by (rule iffD1 [OF append_eq_append_conv eq]) simp
  then have "p' = p @ z @ w" "(of_nat (length p') :: u32) = of_nat (length p)" by (metis data_hdr_facts(4))+
  then have "length p' = length p" using payload_len(1) [OF p'(1)] payload_len(1) [OF assms(2)] by metis
  with \<open>p' = p @ z @ w\<close> p'(3) show False by simp
qed

lemma recv_frames:
  assumes "plain_conn a st pc lb" "sid = s_id (pc_stream pc)" "unread a sid rx st v" "\<forall>p \<in> set ps. payload_ok p" "v @ concat xs = frames sid ps" "partial_frame sid v"
  shows "\<exists>rx' st'. recv_all env fn xs rx c st = Some (rx', c, st') \<and>
     delivered a (concat ps) (concat (map (window_frame sid) ps)) st st' \<and> unread a sid rx' st' []"
  using assms
proof (induction xs arbitrary: rx st v ps pc lb)
  case Nil
  have "ps = []" using Nil.prems(4,5) partial_not_complete [OF Nil.prems(6)] by (cases ps) auto
  then show ?case using Nil delivered_Nil [OF Nil(1,1)] by auto
next
  case (Cons x xs)
  let ?st = "st\<lparr>ctl_in := ctl_in st @ x\<rparr>"
  have "(v @ x) @ concat xs = frames sid ps" using Cons.prems(5) by simp
  then obtain ps1 ps2 v1 where cut: "ps = ps1 @ ps2" "v @ x = frames sid ps1 @ v1" "partial_frame sid v1" "v1 @ concat xs = frames sid ps2"
    by (rule frames_cut [OF _ Cons.prems(4)])
  have pl: "plain_conn a ?st pc lb" using Cons.prems(1) by (simp add: plain_cur)
  have u: "unread a sid rx ?st (frames sid ps1 @ v1)" using unread_more [OF Cons.prems(3), of x] cut(2) by simp
  obtain rx1 st1 where r1: "recv_cb_mux env fn rx c ?st = Some (rx1, c, st1)"
    "delivered a (concat ps1) (concat (map (window_frame sid) ps1)) ?st st1" "unread a sid rx1 st1 v1"
    using loop_frames [OF pl Cons.prems(2) u _ cut(3), of env fn c] Cons.prems(4) cut(1) by (auto simp: recv_cb_loop)
  obtain pc1 where pl1: "plain_conn a st1 pc1 (lb\<lparr>lb_out := lb_out lb @ concat ps1\<rparr>)" "sid = s_id (pc_stream pc1)"
    by (rule delivered_plain [OF r1(2) pl]) (use Cons.prems(2) in auto)
  obtain rx' st' where r: "recv_all env fn xs rx1 c st1 = Some (rx', c, st')"
    "delivered a (concat ps2) (concat (map (window_frame sid) ps2)) st1 st'" "unread a sid rx' st' []"
    using Cons.IH [OF pl1 r1(3) _ cut(4,3)] Cons.prems(4) cut(1) by auto
  show ?case using r1(1) r delivered_trans [OF r1(2) r(2)] cut(1) by (auto simp: delivered_cur)
qed

text \<open>C4. Received data is delivered in order and exactly once, however it is cut. When the server sends the
  payloads \<open>ps\<close> in DATA frames to a plain proxy client and the bytes arrive in arbitrary pieces \<open>xs\<close>,
  each handed to the read callback as it arrives, then at the end the local service has been given exactly
  the payloads in order, every frame has been answered by the window update that restores the full
  window, and nothing is left over.\<close>

theorem mux_stream_delivered:
  assumes "plain_conn a st pc lb" "cur_stream st = None" "ctl_in st = []" "\<forall>p \<in> set ps. payload_ok p"
    "concat xs = concat (map (data_frame (s_id (pc_stream pc))) ps)"
  shows "\<exists>rx' st' pc'. recv_all env fn xs rx_init c st = Some (rx', c, st') \<and>
     plain_conn a st' pc' (lb\<lparr>lb_out := lb_out lb @ concat ps\<rparr>) \<and>
     ctl_out st' = ctl_out st @ concat (map (window_frame (s_id (pc_stream pc))) ps) \<and> ctl_in st' = [] \<and> cur_stream st' = None"
proof -
  have u: "unread a (s_id (pc_stream pc)) rx_init st []" using assms(2,3) by (simp add: unread_def rx_init_def)
  obtain rx' st' where r: "recv_all env fn xs rx_init c st = Some (rx', c, st')"
    "delivered a (concat ps) (concat (map (window_frame (s_id (pc_stream pc))) ps)) st st'" "unread a (s_id (pc_stream pc)) rx' st' []"
    using recv_frames [OF assms(1) refl u assms(4), of xs env fn c] assms(5) by auto
  have "ctl_in st' = [] \<and> cur_stream st' = None" using r(3) by (auto simp: unread_def split: option.splits)
  moreover obtain pc' where "plain_conn a st' pc' (lb\<lparr>lb_out := lb_out lb @ concat ps\<rparr>)"
    "ctl_out st' = ctl_out st @ concat (map (window_frame (s_id (pc_stream pc))) ps)" by (rule delivered_plain [OF r(2) assms(1)])
  ultimately show ?thesis using r(1) by blast
qed


definition live_client :: proxy_client where
  "live_client = calloc_client\<lparr>pc_stream_id := 3, pc_local := Some (new_bev (Addr_port ''127.0.0.1'' 80)),
     pc_stream := calloc_stream\<lparr>s_id := 3, s_state := TMUX_ESTABLISHED, s_recv_window := MAX_STREAM_WINDOW_SIZE, s_send_window := 256 * 1024\<rparr>\<rparr>"

definition live_mux :: mux where
  "live_mux = demo_mux\<lparr>heap := [0 \<mapsto> live_client], all_stream := [3 \<mapsto> PcLoc 0], all_pc := [(3, 0)], ctl_up := True, cur_stream := None,
     ctl_in := [], oom := \<lambda>n. False\<rparr>"

lemma live_plain: "plain_conn 0 live_mux live_client (new_bev (Addr_port ''127.0.0.1'' 80))"
  by (simp add: plain_conn_def live_mux_def live_client_def calloc_client_def calloc_stream_def is_udp_proxy_def is_socks5_proxy_def
      is_proxy_type_def has_service_type_def get_stream_by_id_def get_proxy_client_def)

theorem mux_stream_delivered_witness:
  "\<exists>rx' st' pc'. recv_all demo_env (\<lambda>data pa c st. Some (c, st)) [take 7 (data_frame 3 [1, 2]), drop 7 (data_frame 3 [1, 2]) @ data_frame 3 [9]]
       rx_init () live_mux = Some (rx', (), st') \<and>
     plain_conn 0 st' pc' ((new_bev (Addr_port ''127.0.0.1'' 80))\<lparr>lb_out := [1, 2, 9]\<rparr>) \<and>
     ctl_out st' = ctl_out live_mux @ window_frame 3 [1, 2] @ window_frame 3 [9] \<and> ctl_in st' = [] \<and> cur_stream st' = None"
proof -
  have sid: "s_id (pc_stream live_client) = 3" by (simp add: live_client_def)
  have idle: "cur_stream live_mux = None" "ctl_in live_mux = []" by (simp_all add: live_mux_def)
  have ok: "\<forall>p \<in> set [[1, 2], [9 :: u8]]. payload_ok p" by (simp add: payload_ok_def MAX_STREAM_WINDOW_SIZE_def)
  have cut: "concat [take 7 (data_frame 3 [1, 2]), drop 7 (data_frame 3 [1, 2]) @ data_frame 3 [9]] =
      concat (map (data_frame (s_id (pc_stream live_client))) [[1, 2], [9]])" by (simp add: sid)
  show ?thesis
    using mux_stream_delivered [OF live_plain idle ok cut, of demo_env "\<lambda>data pa c st. Some (c, st)" "()"]
    by (simp add: sid new_bev_def)
qed

section \<open>Frames that go wrong\<close>

lemma idle_header:
  assumes "cur_stream st = None" "rx_partial rx = 0" "length (rx_hdr rx) = 12" "ctl_in st = h @ q" "length h = 12"
  shows "mux_turn env fn (int (length (ctl_in st))) rx c st = begin_frame env fn (int (length q)) (rx\<lparr>rx_hdr := h, rx_partial := 0\<rparr>) c (st\<lparr>ctl_in := q\<rparr>)"
  using header_complete [of rx st h q "int (length (ctl_in st))"] assms by (simp add: mux_turn_def get_cur_stream_def)

text \<open>C36. A DATA frame for an unknown stream is skipped when it arrives in one piece. When its header and a part
  of its payload arrive first, the loop forgets that it is inside a frame: it stops with an idle state, and
  the next twelve bytes of the payload are taken for a frame header.\<close>

theorem abandoned_frame:
  assumes idle: "cur_stream st = None" "rx_partial rx = 0" "length (rx_hdr rx) = 12"
    and unknown: "get_stream_by_id sid st = None" and n: "n \<le> MAX_STREAM_WINDOW_SIZE"
    and inp: "ctl_in st = data_hdr sid n @ q" "q \<noteq> []" "length q \<le> unat n" and x: "12 \<le> length x"
  shows "\<exists>rx' st'. recv_cb_mux env fn rx c st = Some (rx', c, st') \<and> ctl_in st' = [] \<and> cur_stream st' = None \<and>
     mux_turn env fn (int (length x)) rx' c (st'\<lparr>ctl_in := x\<rparr>) =
       begin_frame env fn (int (length x) - 12) (rx'\<lparr>rx_hdr := take 12 x, rx_partial := 0\<rparr>) c (st'\<lparr>ctl_in := drop 12 x\<rparr>)"
proof -
  let ?m = "of_nat (length q) :: u32" and ?st = "st\<lparr>ctl_in := q\<rparr>"
  let ?rx = "rx\<lparr>rx_hdr := data_hdr sid n, rx_partial := 0, rx_len := n\<rparr>"
  let ?st' = "if n - ?m = 0 then set_cur_stream None (st\<lparr>ctl_in := [], abandon_stream := calloc_stream\<rparr>) else st\<lparr>ctl_in := []\<rparr>"
  have lt: "length q < 2 ^ 32" using inp(3) n by (simp add: MAX_STREAM_WINDOW_SIZE_def le_u32_iff)
  have un: "uint n = int (unat n)" by (rule uint_nat)
  have av: "frame_avail (int (length q)) n = ?m"
  proof (cases "length q = unat n")
    case True
    then show ?thesis using un by (simp add: frame_avail_def)
  next
    case False
    then have "int (length q) < uint n" using inp(3) unfolding un by linarith
    then show ?thesis by (simp add: frame_avail_def)
  qed
  have um: "uint ?m = int (length q)" "unat ?m = length q" using unat_of_nat_u32 [OF lt] by (simp_all add: uint_nat)
  have npos: "0 < n" using inp(2,3) by (auto simp: word_gt_0)
  have pos: "int (length q) \<noteq> 0" "\<not> MAX_STREAM_WINDOW_SIZE < n" "n \<noteq> 0" using inp(2) n npos by auto
  have "mux_turn env fn (int (length (ctl_in st))) rx c st = Some (Again 0 (?rx\<lparr>rx_len := n - ?m\<rparr>) c ?st')"
    unfolding idle_header [OF idle inp(1) length_data_hdr]
    using unknown pos av um npos
    by (simp add: begin_frame_def Let_def data_hdr_facts get_stream_by_id_def dispatch_frame_def consume_payload_def)
  then have "recv_cb_mux env fn rx c st = Some (?rx\<lparr>rx_len := n - ?m\<rparr>, c, ?st')"
    unfolding recv_cb_loop using inp(1) by (subst mux_loop.simps) (simp add: mux_loop.simps)
  moreover have st': "ctl_in ?st' = []" "cur_stream ?st' = None" using idle(1) by (simp_all add: set_cur_stream_def)
  moreover have "mux_turn env fn (int (length x)) (?rx\<lparr>rx_len := n - ?m\<rparr>) c (?st'\<lparr>ctl_in := x\<rparr>) =
       begin_frame env fn (int (length x) - 12) (?rx\<lparr>rx_len := n - ?m, rx_hdr := take 12 x, rx_partial := 0\<rparr>) c (?st'\<lparr>ctl_in := drop 12 x\<rparr>)"
    using idle_header [of "?st'\<lparr>ctl_in := x\<rparr>" "?rx\<lparr>rx_len := n - ?m\<rparr>" "take 12 x" "drop 12 x" env fn c] x st' by (simp add: min_def)
  ultimately show ?thesis by (intro exI [of _ "?rx\<lparr>rx_len := n - ?m\<rparr>"] exI [of _ ?st'] conjI)
qed


theorem abandoned_frame_witness:
  "\<exists>rx' st'. recv_cb_mux demo_env (\<lambda>data pa c st. Some (c, st)) rx_init () (live_mux\<lparr>ctl_in := data_hdr 77 20 @ [1, 2]\<rparr>) = Some (rx', (), st') \<and>
     ctl_in st' = [] \<and> cur_stream st' = None \<and>
     mux_turn demo_env (\<lambda>data pa c st. Some (c, st)) 18 rx' () (st'\<lparr>ctl_in := replicate 18 0\<rparr>) =
       begin_frame demo_env (\<lambda>data pa c st. Some (c, st)) 6 (rx'\<lparr>rx_hdr := replicate 12 0, rx_partial := 0\<rparr>) () (st'\<lparr>ctl_in := replicate 6 0\<rparr>)"
proof -
  let ?st = "live_mux\<lparr>ctl_in := data_hdr 77 20 @ [1, 2]\<rparr>"
  have idle: "cur_stream ?st = None" "rx_partial rx_init = 0" "length (rx_hdr rx_init) = 12" "get_stream_by_id 77 ?st = None"
    by (simp_all add: live_mux_def rx_init_def get_stream_by_id_def)
  have n: "(20 :: u32) \<le> MAX_STREAM_WINDOW_SIZE" "ctl_in ?st = data_hdr 77 20 @ [1, 2]" "[1, 2 :: u8] \<noteq> []" "length [1, 2 :: u8] \<le> unat (20 :: u32)"
    "12 \<le> length (replicate 18 (0 :: u8))" by (simp_all add: MAX_STREAM_WINDOW_SIZE_def)
  show ?thesis using abandoned_frame [OF idle n, of demo_env "\<lambda>data pa c st. Some (c, st)" "()"] by simp
qed

text \<open>C35. An empty DATA frame for a live stream that is the last thing to arrive stops the connection for
  good: from then on the read callback returns without touching anything, whatever arrives.\<close>

theorem empty_frame_wedges:
  assumes idle: "cur_stream st = None" "rx_partial rx = 0" "length (rx_hdr rx) = 12"
    and known: "get_stream_by_id sid st = Some l" and inp: "ctl_in st = data_hdr sid 0"
  shows "\<exists>rx' st'. recv_cb_mux env fn rx c st = Some (rx', c, st') \<and>
     (\<forall>x c'. recv_cb_mux env fn rx' c' (st'\<lparr>ctl_in := x\<rparr>) = Some (rx', c', st'\<lparr>ctl_in := x\<rparr>))"
proof -
  let ?rx = "rx\<lparr>rx_hdr := data_hdr sid 0, rx_partial := 0, rx_len := 0\<rparr>" and ?st = "set_cur_stream (Some l) (st\<lparr>ctl_in := []\<rparr>)"
  have "ctl_in st = data_hdr sid 0 @ []" using inp by simp
  from idle_header [OF idle this length_data_hdr, of env fn c] known
  have "mux_turn env fn (int (length (ctl_in st))) rx c st = Some (Leave ?rx c ?st)"
    by (simp add: begin_frame_def Let_def data_hdr_facts get_stream_by_id_def)
  then have "recv_cb_mux env fn rx c st = Some (?rx, c, ?st)"
    unfolding recv_cb_loop using inp by (subst mux_loop.simps) simp
  moreover have "mux_turn env fn len ?rx c' (?st\<lparr>ctl_in := x\<rparr>) = Some (Leave ?rx c' (?st\<lparr>ctl_in := x\<rparr>))" for len c' x
    by (simp add: mux_turn_def get_cur_stream_def set_cur_stream_def dispatch_frame_def other_frame_def data_hdr_facts)
  then have "recv_cb_mux env fn ?rx c' (?st\<lparr>ctl_in := x\<rparr>) = Some (?rx, c', ?st\<lparr>ctl_in := x\<rparr>)" for c' x
    unfolding recv_cb_loop by (subst mux_loop.simps) simp
  ultimately show ?thesis by blast
qed

theorem empty_frame_wedges_witness:
  "\<exists>rx' st'. recv_cb_mux demo_env (\<lambda>data pa c st. Some (c, st)) rx_init () (live_mux\<lparr>ctl_in := data_hdr 3 0\<rparr>) = Some (rx', (), st') \<and>
     recv_cb_mux demo_env (\<lambda>data pa c st. Some (c, st)) rx' () (st'\<lparr>ctl_in := data_frame 3 [1, 2]\<rparr>) = Some (rx', (), st'\<lparr>ctl_in := data_frame 3 [1, 2]\<rparr>)"
proof -
  let ?st = "live_mux\<lparr>ctl_in := data_hdr 3 0\<rparr>"
  have idle: "cur_stream ?st = None" "rx_partial rx_init = 0" "length (rx_hdr rx_init) = 12" "get_stream_by_id 3 ?st = Some (PcLoc 0)" "ctl_in ?st = data_hdr 3 0"
    by (simp_all add: live_mux_def rx_init_def get_stream_by_id_def)
  show ?thesis using empty_frame_wedges [OF idle, of demo_env "\<lambda>data pa c st. Some (c, st)" "()"] by blast
qed

text \<open>C37. Use after free. While the rest of a payload is awaited, the loop keeps a pointer to the stream inside
  the client. When the client is removed in the meantime, as every failed write of its callback does, the
  next bytes from the server make the loop use the freed client.\<close>

theorem removed_client_used:
  assumes "heap st a = Some pc" "get_proxy_client (s_id (pc_stream pc)) st = Some a" "cur_stream st = Some (PcLoc a)"
    "rx_hdr rx = data_hdr (s_id (pc_stream pc)) (rx_len rx)" "0 < rx_len rx" "ctl_in st @ x \<noteq> []"
  shows "\<exists>st'. drop_client a st = Some st' \<and> recv_cb_mux env fn rx c (st'\<lparr>ctl_in := ctl_in st' @ x\<rparr>) = None"
proof -
  let ?sid = "s_id (pc_stream pc)"
  let ?st = "st\<lparr>all_stream := (all_stream st)(?sid := None), all_pc := filter (\<lambda>e. snd e \<noteq> a) (all_pc st), heap := (heap st)(a := None)\<rparr>"
  have d: "drop_client a st = Some ?st"
    using assms(1,2) by (auto simp: drop_client_def del_proxy_client_by_stream_id_def get_proxy_client_def del_stream_def
        del_proxy_client_def free_proxy_client_def split: if_splits)
  have "mux_turn env fn len rx c (?st\<lparr>ctl_in := y\<rparr>) = None" for len y
    using assms(3-5)
    by (simp add: mux_turn_def get_cur_stream_def dispatch_frame_def data_hdr_facts consume_payload_def Let_def get_strm_def)
  moreover have some: "\<not> int (length (ctl_in st)) + int (length x) \<le> 0" using assms(6) by (cases "ctl_in st"; cases x) auto
  ultimately have "recv_cb_mux env fn rx c (?st\<lparr>ctl_in := ctl_in ?st @ x\<rparr>) = None"
    unfolding recv_cb_loop using some by (subst mux_loop.simps) simp
  with d show ?thesis by blast
qed

theorem removed_client_used_witness:
  "\<exists>st'. drop_client 0 (live_mux\<lparr>cur_stream := Some (PcLoc 0)\<rparr>) = Some st' \<and>
     recv_cb_mux demo_env (\<lambda>data pa c st. Some (c, st)) \<lparr>rx_hdr = data_hdr 3 20, rx_len = 20, rx_partial = 0\<rparr> ()
       (st'\<lparr>ctl_in := ctl_in st' @ [1]\<rparr>) = None"
proof -
  let ?st = "live_mux\<lparr>cur_stream := Some (PcLoc 0)\<rparr>" and ?rx = "\<lparr>rx_hdr = data_hdr 3 20, rx_len = 20, rx_partial = 0\<rparr>"
  have 1: "heap ?st 0 = Some live_client" "get_proxy_client (s_id (pc_stream live_client)) ?st = Some 0" "cur_stream ?st = Some (PcLoc 0)"
    "rx_hdr ?rx = data_hdr (s_id (pc_stream live_client)) (rx_len ?rx)" "0 < rx_len ?rx" "ctl_in ?st @ [1] \<noteq> []"
    by (simp_all add: live_mux_def live_client_def get_proxy_client_def)
  show ?thesis by (rule removed_client_used [OF 1])
qed

end
