(* ===== verification/Json_Compat.thy ===== *)
theory Json_Compat
  imports Xfrpc_Prelude
begin

text \<open>
  The json-c shim of \<open>port/json_compat.c\<close>. A \<open>cJSON\<close> node is a tree; the wrapper objects only
  carry reference counts, so an operation on them is the operation on the tree. The text parser
  and printer (\<open>cJSON_Parse\<close>, \<open>cJSON_PrintUnformatted\<close>) and the \<open>%g\<close> conversion of a number
  are not part of the repository: the theories that need them take them as arguments.
  Numbers are whole numbers, the only ones the protocol messages hold.
\<close>

datatype json =
    JNull
  | JBool bool
  | JNum int
  | JStr string
  | JArr "json list"
  | JObj "(string \<times> json) list"

fun delete_first :: "string \<Rightarrow> (string \<times> 'v) list \<Rightarrow> (string \<times> 'v) list" where
  "delete_first k [] = []"
| "delete_first k ((k', v) # kvs) = (if k' = k then kvs else (k', v) # delete_first k kvs)"

text \<open>A NULL value deletes the key; an existing key is replaced, the new pair going last.\<close>

fun json_object_object_add :: "json \<Rightarrow> string \<Rightarrow> json option \<Rightarrow> json" where
  "json_object_object_add (JObj kvs) key None = JObj (delete_first key kvs)"
| "json_object_object_add (JObj kvs) key (Some v) = JObj (delete_first key kvs @ [(key, v)])"
| "json_object_object_add other key _ = other"

fun json_object_array_add :: "json \<Rightarrow> json option \<Rightarrow> int \<times> json" where
  "json_object_array_add (JArr vs) (Some v) = (0, JArr (vs @ [v]))"
| "json_object_array_add other _ = (-1, other)"

fun json_object_object_get_ex :: "json \<Rightarrow> string \<Rightarrow> json option" where
  "json_object_object_get_ex (JObj kvs) key = map_of kvs key"
| "json_object_object_get_ex _ key = None"

text \<open>Strings are returned as they are, numbers and booleans converted, everything else is NULL.\<close>

fun json_object_get_string :: "(int \<Rightarrow> string) \<Rightarrow> json \<Rightarrow> string option" where
  "json_object_get_string show_num (JStr s) = Some s"
| "json_object_get_string show_num (JBool b) = Some (if b then ''true'' else ''false'')"
| "json_object_get_string show_num (JNum n) = Some (show_num n)"
| "json_object_get_string show_num _ = None"

text \<open>A wellformed object has no key twice; building one by insertion keeps it so.\<close>

fun json_keys :: "json \<Rightarrow> string list" where
  "json_keys (JObj kvs) = map fst kvs"
| "json_keys _ = []"

lemma set_delete_first: "distinct (map fst kvs) \<Longrightarrow>
    set (map fst (delete_first k kvs)) = set (map fst kvs) - {k}"
  by (induction k kvs rule: delete_first.induct) (auto split: if_splits)

lemma distinct_delete_first: "distinct (map fst kvs) \<Longrightarrow> distinct (map fst (delete_first k kvs))"
  by (induction k kvs rule: delete_first.induct)
     (auto simp: set_delete_first[unfolded set_map] split: if_splits)

lemma map_of_delete_first:
  "distinct (map fst kvs) \<Longrightarrow> map_of (delete_first k kvs) x = (if x = k then None else map_of kvs x)"
  by (induction k kvs rule: delete_first.induct) (auto simp: map_of_eq_None_iff image_iff Bex_def)

lemma get_add_Some:
  assumes "distinct (json_keys (JObj kvs))"
  shows "json_object_object_get_ex (json_object_object_add (JObj kvs) k (Some v)) x =
    (if x = k then Some v else json_object_object_get_ex (JObj kvs) x)"
  using assms by (auto simp: map_of_delete_first map_add_def split: option.splits)

lemma get_add_None:
  assumes "distinct (json_keys (JObj kvs))"
  shows "json_object_object_get_ex (json_object_object_add (JObj kvs) k None) x =
    (if x = k then None else json_object_object_get_ex (JObj kvs) x)"
  using assms by (simp add: map_of_delete_first)

lemma distinct_keys_add:
  "distinct (json_keys j) \<Longrightarrow> distinct (json_keys (json_object_object_add j k v))"
  by (cases j; cases v)
     (auto simp: distinct_delete_first set_delete_first[unfolded set_map])

end
