(* ===== verification/Wire_V2.thy ===== *)
theory Wire_V2
  imports Byte_Order Json_Compat
begin

text \<open>
  Wire protocol v2 (\<open>src/wire_v2.c\<close>) and the v1 message header it is translated to
  (\<open>struct msg_hdr\<close>, \<open>enum msg_type\<close> of \<open>src/msg.h\<close>): the 8-byte frame codec, the message-type
  numbering, ClientHello/ServerHello, the key-derivation transcript, and the conversion of a v2
  message into a v1 message. SHA-256, base64, the random generator and the JSON text functions
  are arguments.
\<close>

section \<open>Message types\<close>

datatype msg_type =
    TypeLogin | TypeLoginResp | TypeNewProxy | TypeNewProxyResp | TypeCloseProxy
  | TypeNewWorkConn | TypeReqWorkConn | TypeStartWorkConn | TypeNewVisitorConn
  | TypeNewVisitorConnResp | TypePing | TypePong | TypeUDPPacket | TypeNatHoleVisitor
  | TypeNatHoleClient | TypeNatHoleResp | TypeNatHoleClientDetectOK | TypeNatHoleSid
  | TypeNatHoleReport

text \<open>The enumerators are the ASCII codes of single characters.\<close>

fun msg_type_char :: "msg_type \<Rightarrow> char" where
  "msg_type_char TypeLogin = CHR ''o''"
| "msg_type_char TypeLoginResp = CHR ''1''"
| "msg_type_char TypeNewProxy = CHR ''p''"
| "msg_type_char TypeNewProxyResp = CHR ''2''"
| "msg_type_char TypeCloseProxy = CHR ''c''"
| "msg_type_char TypeNewWorkConn = CHR ''w''"
| "msg_type_char TypeReqWorkConn = CHR ''r''"
| "msg_type_char TypeStartWorkConn = CHR ''s''"
| "msg_type_char TypeNewVisitorConn = CHR ''v''"
| "msg_type_char TypeNewVisitorConnResp = CHR ''3''"
| "msg_type_char TypePing = CHR ''h''"
| "msg_type_char TypePong = CHR ''4''"
| "msg_type_char TypeUDPPacket = CHR ''u''"
| "msg_type_char TypeNatHoleVisitor = CHR ''i''"
| "msg_type_char TypeNatHoleClient = CHR ''n''"
| "msg_type_char TypeNatHoleResp = CHR ''m''"
| "msg_type_char TypeNatHoleClientDetectOK = CHR ''d''"
| "msg_type_char TypeNatHoleSid = CHR ''5''"
| "msg_type_char TypeNatHoleReport = CHR ''6''"

definition msg_type_code :: "msg_type \<Rightarrow> u8" where
  "msg_type_code t = of_char (msg_type_char t)"

fun wire_v2_msg_type_to_id :: "msg_type \<Rightarrow> u16" where
  "wire_v2_msg_type_to_id TypeLogin = 1"
| "wire_v2_msg_type_to_id TypeLoginResp = 2"
| "wire_v2_msg_type_to_id TypeNewProxy = 3"
| "wire_v2_msg_type_to_id TypeNewProxyResp = 4"
| "wire_v2_msg_type_to_id TypeCloseProxy = 5"
| "wire_v2_msg_type_to_id TypeNewWorkConn = 6"
| "wire_v2_msg_type_to_id TypeReqWorkConn = 7"
| "wire_v2_msg_type_to_id TypeStartWorkConn = 8"
| "wire_v2_msg_type_to_id TypeNewVisitorConn = 9"
| "wire_v2_msg_type_to_id TypeNewVisitorConnResp = 10"
| "wire_v2_msg_type_to_id TypePing = 11"
| "wire_v2_msg_type_to_id TypePong = 12"
| "wire_v2_msg_type_to_id TypeUDPPacket = 13"
| "wire_v2_msg_type_to_id TypeNatHoleVisitor = 14"
| "wire_v2_msg_type_to_id TypeNatHoleClient = 15"
| "wire_v2_msg_type_to_id TypeNatHoleResp = 16"
| "wire_v2_msg_type_to_id TypeNatHoleSid = 17"
| "wire_v2_msg_type_to_id TypeNatHoleReport = 18"
| "wire_v2_msg_type_to_id _ = 0"

text \<open>\<open>None\<close> is the default case, where the C function returns 0.\<close>

definition wire_v2_id_to_msg_type :: "u16 \<Rightarrow> msg_type option" where
  "wire_v2_id_to_msg_type i =
    (if i = 1 then Some TypeLogin
     else if i = 2 then Some TypeLoginResp
     else if i = 3 then Some TypeNewProxy
     else if i = 4 then Some TypeNewProxyResp
     else if i = 5 then Some TypeCloseProxy
     else if i = 6 then Some TypeNewWorkConn
     else if i = 7 then Some TypeReqWorkConn
     else if i = 8 then Some TypeStartWorkConn
     else if i = 9 then Some TypeNewVisitorConn
     else if i = 10 then Some TypeNewVisitorConnResp
     else if i = 11 then Some TypePing
     else if i = 12 then Some TypePong
     else if i = 13 then Some TypeUDPPacket
     else if i = 14 then Some TypeNatHoleVisitor
     else if i = 15 then Some TypeNatHoleClient
     else if i = 16 then Some TypeNatHoleResp
     else if i = 17 then Some TypeNatHoleSid
     else if i = 18 then Some TypeNatHoleReport
     else None)"

section \<open>Frames\<close>

definition WIRE_V2_FRAME_CLIENT_HELLO :: u16 where "WIRE_V2_FRAME_CLIENT_HELLO = 1"
definition WIRE_V2_FRAME_SERVER_HELLO :: u16 where "WIRE_V2_FRAME_SERVER_HELLO = 2"
definition WIRE_V2_FRAME_MESSAGE :: u16 where "WIRE_V2_FRAME_MESSAGE = 16"

text \<open>
  \<open>total\<close> is computed in 32 bits. The payload is a pointer: \<open>None\<close> is NULL, \<open>Some p\<close> points to
  the bytes \<open>p\<close>, and reading more bytes than it has is undefined. The result is the return code
  and, on success, the frame.
\<close>

definition wire_v2_encode_frame ::
  "allocator \<Rightarrow> u16 \<Rightarrow> bytes option \<Rightarrow> u32 \<Rightarrow> (int \<times> bytes) option" where
  "wire_v2_encode_frame malloc ftype payload plen =
     (let total = 8 + plen in
      case malloc total of
        None \<Rightarrow> Some (-1, [])
      | Some buf \<Rightarrow> do {
          buf \<leftarrow> blit 0 [ucast (drop_bit 8 ftype), ucast ftype, 0, 0, ucast (drop_bit 24 plen),
                        ucast (drop_bit 16 plen), ucast (drop_bit 8 plen), ucast plen] buf;
          buf \<leftarrow> (case payload of
                   None \<Rightarrow> Some buf
                 | Some p \<Rightarrow>
                     if plen = 0 then Some buf
                     else if length p < unat plen then None
                     else blit 8 (take (unat plen) p) buf);
          Some (0, buf)
        })"

text \<open>Returns the bytes consumed, 0 if the frame is incomplete, -1 on error.\<close>

definition wire_v2_parse_frame :: "bytes \<Rightarrow> int \<times> (u16 \<times> bytes) option" where
  "wire_v2_parse_frame buf =
     (if length buf < 8 then (0, None)
      else let flags = rd16_at 2 buf in
        if flags \<noteq> 0 then (-1, None)
        else let l = rd32_at 4 buf in
          if 64 * 1024 < l then (-1, None)
          else if length buf < 8 + unat l then (0, None)
          else (int (8 + unat l), Some (rd16_at 0 buf, take (unat l) (drop 8 buf))))"

text \<open>A v2 message frame: the type id, then the JSON text.\<close>

definition wire_v2_encode_message ::
  "allocator \<Rightarrow> msg_type \<Rightarrow> bytes \<Rightarrow> (int \<times> bytes) option" where
  "wire_v2_encode_message malloc t json =
     (let i = wire_v2_msg_type_to_id t in
      if i = 0 then Some (-1, [])
      else let plen = of_nat (2 + length json) :: u32 in
        case malloc plen of
          None \<Rightarrow> Some (-1, [])
        | Some payload \<Rightarrow> do {
            payload \<leftarrow> blit 0 [ucast (drop_bit 8 i), ucast i] payload;
            payload \<leftarrow> (if json = [] then Some payload else blit 2 json payload);
            wire_v2_encode_frame malloc WIRE_V2_FRAME_MESSAGE (Some payload) plen
          })"

text \<open>\<open>struct msg_hdr\<close> in memory: one type byte, the length in network order, the data.\<close>

definition msg_hdr_bytes :: "u8 \<Rightarrow> u64 \<Rightarrow> bytes" where
  "msg_hdr_bytes t len = [t] @ le64 len"

abbreviation (input) sizeof_msg_hdr :: nat where
  "sizeof_msg_hdr \<equiv> 9"

definition wire_v2_payload_to_v1 ::
  "allocator \<Rightarrow> bytes \<Rightarrow> (int \<times> bytes) option" where
  "wire_v2_payload_to_v1 calloc payload =
     (if length payload < 2 then Some (-1, [])
      else case wire_v2_id_to_msg_type (rd16_at 0 payload) of
          None \<Rightarrow> Some (-1, [])
        | Some t \<Rightarrow>
            (let jlen = length payload - 2 in
             case calloc (of_nat (sizeof_msg_hdr + jlen)) of
               None \<Rightarrow> Some (-1, [])
             | Some buf \<Rightarrow> do {
                 buf \<leftarrow> blit 0 (msg_hdr_bytes (msg_type_code t) (hton64 (of_nat jlen))) buf;
                 buf \<leftarrow> (if jlen = 0 then Some buf else blit 9 (drop 2 payload) buf);
                 Some (0, buf)
               }))"

section \<open>Hello messages and transcript\<close>

definition wire_protocol_is_v2 :: "string option option \<Rightarrow> bool" where
  "wire_protocol_is_v2 c_wire_protocol =
     (case c_wire_protocol of Some (Some s) \<Rightarrow> s = ''v2'' | _ \<Rightarrow> False)"

definition WIRE_V2_ALG_AES256GCM :: string where
  "WIRE_V2_ALG_AES256GCM = ''aes-256-gcm''"

text \<open>
  \<open>rnd\<close> is the result of \<open>RAND_bytes\<close> (\<open>None\<close> on failure), \<open>b64\<close> of \<open>EVP_EncodeBlock\<close>,
  \<open>print\<close> of \<open>cJSON_PrintUnformatted\<close>.
\<close>

definition client_hello_object :: "string option \<Rightarrow> bool \<Rightarrow> bool \<Rightarrow> string \<Rightarrow> json" where
  "client_hello_object transport tls tcp_mux b64 =
    (let bootstrap = json_object_object_add (JObj []) ''transport''
           (Some (JStr (case transport of None \<Rightarrow> ''tcp'' | Some t \<Rightarrow> t)));
         bootstrap = (if tls then json_object_object_add bootstrap ''tls'' (Some (JBool True))
                      else bootstrap);
         bootstrap = (if tcp_mux then json_object_object_add bootstrap ''tcpMux'' (Some (JBool True))
                      else bootstrap);
         root = json_object_object_add (JObj []) ''bootstrap'' (Some bootstrap);
         codecs = snd (json_object_array_add (JArr []) (Some (JStr ''json'')));
         msg = json_object_object_add (JObj []) ''codecs'' (Some codecs);
         caps = json_object_object_add (JObj []) ''message'' (Some msg);
         algs = snd (json_object_array_add (JArr []) (Some (JStr WIRE_V2_ALG_AES256GCM)));
         crypto = json_object_object_add (JObj []) ''algorithms'' (Some algs);
         crypto = json_object_object_add crypto ''clientRandom'' (Some (JStr b64));
         caps = json_object_object_add caps ''crypto'' (Some crypto)
     in json_object_object_add root ''capabilities'' (Some caps))"

definition wire_v2_build_client_hello_json ::
  "(json \<Rightarrow> bytes option) \<Rightarrow> (bytes \<Rightarrow> string option) \<Rightarrow> bytes option \<Rightarrow>
   string option \<Rightarrow> bool \<Rightarrow> bool \<Rightarrow> int \<times> bytes" where
  "wire_v2_build_client_hello_json print b64 rnd transport tls tcp_mux =
    (case rnd of None \<Rightarrow> (-1, [])
     | Some r \<Rightarrow> (case b64 r of None \<Rightarrow> (-1, [])
       | Some s \<Rightarrow> (case print (client_hello_object transport tls tcp_mux s) of
                     None \<Rightarrow> (-1, []) | Some j \<Rightarrow> (0, j))))"

text \<open>
  The server's answer: an error text that is not empty rejects, and only AES-256-GCM is accepted.
  On success the algorithm name is returned.
\<close>

definition wire_v2_parse_server_hello_json ::
  "(bytes \<Rightarrow> json option) \<Rightarrow> (int \<Rightarrow> string) \<Rightarrow> bytes \<Rightarrow> int \<times> string" where
  "wire_v2_parse_server_hello_json parse show_num j =
    (case parse j of
       None \<Rightarrow> (-1, '''')
     | Some root \<Rightarrow>
        if (case json_object_object_get_ex root ''error'' of
              Some jerr \<Rightarrow> (case json_object_get_string show_num jerr of
                              Some s \<Rightarrow> s \<noteq> '''' | None \<Rightarrow> False)
            | None \<Rightarrow> False)
        then (-1, '''')
        else (case json_object_object_get_ex root ''selected'' of None \<Rightarrow> (-1, '''')
           | Some sel \<Rightarrow> (case json_object_object_get_ex sel ''crypto'' of None \<Rightarrow> (-1, '''')
           | Some crypto \<Rightarrow> (case json_object_object_get_ex crypto ''algorithm'' of
               None \<Rightarrow> (-1, '''')
             | Some jalg \<Rightarrow> (case json_object_get_string show_num jalg of
                 None \<Rightarrow> (-1, '''')
               | Some a \<Rightarrow> if a \<noteq> WIRE_V2_ALG_AES256GCM then (-1, '''') else (0, a))))))"

definition transcript_part :: "string \<Rightarrow> bytes \<Rightarrow> bytes" where
  "transcript_part label payload =
     [0] @ map of_char label @ [0] @ be64 (of_nat (length payload)) @ payload"

text \<open>\<open>sha256\<close> is the digest of everything fed to the context.\<close>

definition wire_v2_hash_transcript :: "(bytes \<Rightarrow> bytes) \<Rightarrow> bytes \<Rightarrow> bytes \<Rightarrow> bytes" where
  "wire_v2_hash_transcript sha256 ch sh =
     sha256 (map of_char ''frp wire v2 crypto transcript'' @
             transcript_part ''client hello'' ch @ transcript_part ''server hello'' sh)"

section \<open>Frame codec\<close>

text \<open>A frame as it is on the wire, the specification of the encoder.\<close>

definition v2_frame :: "u16 \<Rightarrow> bytes \<Rightarrow> bytes" where
  "v2_frame ftype payload = be16 ftype @ [0, 0] @ be32 (of_nat (length payload)) @ payload"

lemma length_v2_frame [simp]: "length (v2_frame t p) = 8 + length p"
  by (simp add: v2_frame_def)

lemma drop_v2_frame [simp]: "drop 8 (v2_frame t p) = p"
  by (simp add: v2_frame_def be16_def be32_def)

lemma unat_8_plus: "unat (plen :: u32) < 2 ^ 32 - 8 \<Longrightarrow> unat (8 + plen) = 8 + unat plen"
  by (simp add: unat_word_ariths)

lemma encode_frame_spec:
  assumes "malloc_spec malloc" "unat plen < 2 ^ 32 - 8" "unat plen \<le> length p"
  shows "wire_v2_encode_frame malloc ftype (Some p) plen =
    (case malloc (8 + plen) of None \<Rightarrow> Some (-1, [])
     | Some _ \<Rightarrow> Some (0, v2_frame ftype (take (unat plen) p)))"
proof (cases "malloc (8 + plen)")
  case None
  then show ?thesis by (simp add: wire_v2_encode_frame_def)
next
  case (Some buf)
  have len: "length buf = 8 + unat plen"
    using malloc_specD [OF assms(1) Some] unat_8_plus [OF assms(2)] by simp
  have "plen = 0 \<longleftrightarrow> unat plen = 0" by (simp add: unat_eq_zero)
  then show ?thesis
    using Some len assms(3)
    by (auto simp: wire_v2_encode_frame_def Let_def blit_fits v2_frame_def be16_def be32_def
        min_def take_Cons')
qed

lemma v2_frame_fields [wire_simps]:
  "rd16_at 0 (v2_frame ftype p @ rest) = ftype"
  "rd16_at 2 (v2_frame ftype p @ rest) = 0"
  "rd32_at 4 (v2_frame ftype p @ rest) = of_nat (length p)"
proof -
  show "rd16_at 0 (v2_frame ftype p @ rest) = ftype"
    by (simp add: v2_frame_def rd16_at_be16_append)
  show "rd16_at 2 (v2_frame ftype p @ rest) = 0"
    by (simp add: v2_frame_def rd16_at_def rd16_def be16_def)
  show "rd32_at 4 (v2_frame ftype p @ rest) = of_nat (length p)"
    using rd32_at_append [of "be16 ftype @ [0, 0]" 4 "be32 (of_nat (length p)) @ p @ rest"]
    by (simp add: v2_frame_def rd32_at_be32_append)
qed

lemma parse_v2_frame:
  assumes "length p \<le> 64 * 1024"
  shows "wire_v2_parse_frame (v2_frame ftype p @ rest) = (int (8 + length p), Some (ftype, p))"
proof -
  have l: "unat (of_nat (length p) :: u32) = length p"
    using assms by (intro unat_of_nat_u32) simp
  then have small: "\<not> (64 * 1024 :: u32) < of_nat (length p)"
    using assms by (simp add: less_u32_iff)
  show ?thesis
    using small by (simp add: wire_v2_parse_frame_def v2_frame_fields l Let_def)
qed

lemma header_of_fields:
  assumes "8 \<le> length buf"
  shows "take 8 buf = be16 (rd16_at 0 buf) @ be16 (rd16_at 2 buf) @ be32 (rd32_at 4 buf)"
proof -
  have "take 8 buf = map ((!) buf) [0..<8]"
    using assms by (intro nth_equalityI) simp_all
  also have "[0..<8] = [0, 1, 2, 3, 4, 5, 6, 7 :: nat]" by code_simp
  finally show ?thesis by (simp add: rd16_at_def rd32_at_def be16_rd16 be32_rd32)
qed

lemma parse_frame_SomeD:
  assumes "wire_v2_parse_frame buf = (n, Some (t, p))"
  shows "n = int (8 + length p)" "length p \<le> 64 * 1024" "8 + length p \<le> length buf"
    "buf = v2_frame t p @ drop (8 + length p) buf"
proof -
  let ?l = "rd32_at 4 buf"
  from assms have fl: "rd16_at 2 buf = 0" and small: "?l \<le> 64 * 1024"
    and fits: "8 + unat ?l \<le> length buf" and n: "n = int (8 + unat ?l)"
    and t: "t = rd16_at 0 buf" and p: "p = take (unat ?l) (drop 8 buf)"
    by (auto simp: wire_v2_parse_frame_def Let_def split: if_splits)
  have lp: "length p = unat ?l" using p fits by simp
  show "n = int (8 + length p)" "8 + length p \<le> length buf" using n lp fits by simp_all
  show "length p \<le> 64 * 1024" using small lp by (simp add: le_u32_iff)
  have "buf = take 8 buf @ drop 8 buf" by simp
  also have "take 8 buf = be16 t @ [0, 0] @ be32 ?l"
    using header_of_fields [of buf] fits fl t by (simp add: be16_def)
  also have "drop 8 buf = p @ drop (8 + unat ?l) buf"
    using append_take_drop_id [of "unat ?l" "drop 8 buf"] p by (simp add: add.commute)
  finally show "buf = v2_frame t p @ drop (8 + length p) buf"
    by (simp add: v2_frame_def lp)
qed

lemma rd_at_take:
  "i + 4 \<le> n \<Longrightarrow> n \<le> length b \<Longrightarrow> rd32_at i (take n b) = rd32_at i b"
  "i + 2 \<le> n \<Longrightarrow> n \<le> length b \<Longrightarrow> rd16_at i (take n b) = rd16_at i b"
  by (simp_all add: rd32_at_def rd16_at_def)

lemma parse_frame_prefix:
  assumes "length p \<le> 64 * 1024" "n < 8 + length p"
  shows "wire_v2_parse_frame (take n (v2_frame ftype p)) = (0, None)"
proof (cases "n < 8")
  case True
  then show ?thesis by (simp add: wire_v2_parse_frame_def)
next
  case False
  let ?b = "take n (v2_frame ftype p)"
  have l: "unat (of_nat (length p) :: u32) = length p"
    using assms by (intro unat_of_nat_u32) simp
  have small: "\<not> (64 * 1024 :: u32) < of_nat (length p)"
    using assms l by (simp add: less_u32_iff)
  have fl: "rd16_at 2 ?b = 0" and ln: "rd32_at 4 ?b = of_nat (length p)"
    using False assms v2_frame_fields(2,3) [of ftype p "[]"] by (simp_all add: rd_at_take)
  show ?thesis
    using False assms small by (simp add: wire_v2_parse_frame_def fl ln l Let_def)
qed

section \<open>Messages\<close>

lemma id_type_inverse:
  "wire_v2_msg_type_to_id t \<noteq> 0 \<Longrightarrow> wire_v2_id_to_msg_type (wire_v2_msg_type_to_id t) = Some t"
  by (cases t) (simp_all add: wire_v2_id_to_msg_type_def)

lemma type_id_inverse: "wire_v2_id_to_msg_type i = Some t \<Longrightarrow> wire_v2_msg_type_to_id t = i"
  by (auto simp: wire_v2_id_to_msg_type_def split: if_splits)

lemma type_to_id_zero: "wire_v2_msg_type_to_id t = 0 \<longleftrightarrow> t = TypeNatHoleClientDetectOK"
  by (cases t) simp_all

text \<open>A v1 message as it is on the wire.\<close>

definition v1_message :: "msg_type \<Rightarrow> bytes \<Rightarrow> bytes" where
  "v1_message t json = [msg_type_code t] @ be64 (of_nat (length json)) @ json"

lemma encode_message_spec:
  assumes "malloc_spec malloc" "\<And>n. malloc n \<noteq> None"
    and "length json < 2 ^ 32 - 10" "t \<noteq> TypeNatHoleClientDetectOK"
  shows "wire_v2_encode_message malloc t json =
    Some (0, v2_frame WIRE_V2_FRAME_MESSAGE (be16 (wire_v2_msg_type_to_id t) @ json))"
proof -
  let ?i = "wire_v2_msg_type_to_id t" and ?plen = "of_nat (2 + length json) :: u32"
  have i: "?i \<noteq> 0" using assms(4) type_to_id_zero by blast
  have pl: "unat ?plen = 2 + length json"
    using assms(3) by (intro unat_of_nat_u32) simp
  obtain buf where buf: "malloc ?plen = Some buf" using assms(2) by blast
  have lb: "length buf = 2 + length json" using malloc_specD [OF assms(1) buf] pl by simp
  have body: "(if json = [] then Some (be16 ?i @ drop 2 buf)
      else blit 2 json (be16 ?i @ drop 2 buf)) = Some (be16 ?i @ json)"
    using lb by (auto simp: blit_fits)
  have "wire_v2_encode_frame malloc WIRE_V2_FRAME_MESSAGE (Some (be16 ?i @ json)) ?plen =
      Some (0, v2_frame WIRE_V2_FRAME_MESSAGE (be16 ?i @ json))"
    using encode_frame_spec [OF assms(1), of ?plen "be16 ?i @ json"] assms(2,3) pl
    by (auto split: option.splits)
  then show ?thesis
    using i buf lb body
    by (cases "json = []")
       (simp_all add: wire_v2_encode_message_def Let_def blit_fits be16_def [symmetric])
qed

lemma payload_to_v1_spec:
  assumes "malloc_spec calloc" "\<And>n. calloc n \<noteq> None"
    and "length json < 2 ^ 32 - 10" "t \<noteq> TypeNatHoleClientDetectOK"
  shows "wire_v2_payload_to_v1 calloc (be16 (wire_v2_msg_type_to_id t) @ json) =
    Some (0, v1_message t json)"
proof -
  let ?i = "wire_v2_msg_type_to_id t"
  have ty: "wire_v2_id_to_msg_type ?i = Some t"
    using assms(4) type_to_id_zero id_type_inverse by blast
  have pl: "unat (of_nat (9 + length json) :: u32) = 9 + length json"
    using assms(3) by (intro unat_of_nat_u32) simp
  obtain buf where buf: "calloc (of_nat (9 + length json)) = Some buf" using assms(2) by blast
  have lb: "length buf = 9 + length json" using malloc_specD [OF assms(1) buf] pl by simp
  have hdr: "msg_hdr_bytes (msg_type_code t) (hton64 (of_nat (length json))) =
      [msg_type_code t] @ be64 (of_nat (length json))"
    by (simp add: msg_hdr_bytes_def le64_hton64)
  show ?thesis
    using buf lb
    by (auto simp: wire_v2_payload_to_v1_def Let_def ty hdr rd16_at_be16_append blit_fits v1_message_def)
qed

section \<open>Transcript\<close>

lemma transcript_part_inject:
  assumes "transcript_part l a @ x = transcript_part l b @ y"
    and "length a < 2 ^ 64" "length b < 2 ^ 64"
  shows "a = b \<and> x = y"
proof -
  from assms(1) have "be64 (of_nat (length a)) @ a @ x = be64 (of_nat (length b)) @ b @ y"
    by (simp add: transcript_part_def)
  then have "be64 (of_nat (length a)) = be64 (of_nat (length b))" and r: "a @ x = b @ y"
    by (simp_all add: append_eq_append_conv)
  then have "(of_nat (length a) :: u64) = of_nat (length b)" by simp
  then have "length a = length b"
    by (metis unat_of_nat_u64 assms(2,3))
  with r show ?thesis by simp
qed

section \<open>Properties of the wire protocol\<close>

text \<open>C25. Frames survive the wire: whatever \<open>wire_v2_encode_frame\<close> produced for a payload of at
  most 64 KiB, \<open>wire_v2_parse_frame\<close> recovers type and payload and consumes exactly the frame,
  whatever bytes follow; and while the frame has only partly arrived the parser asks for more.\<close>

theorem frame_roundtrip:
  assumes "malloc_spec malloc" "length p \<le> 64 * 1024"
    and "wire_v2_encode_frame malloc t (Some p) (of_nat (length p)) = Some (0, f)"
  shows "wire_v2_parse_frame (f @ rest) = (int (length f), Some (t, p)) \<and>
    (\<forall>n < length f. wire_v2_parse_frame (take n f) = (0, None))"
proof -
  have l: "unat (of_nat (length p) :: u32) = length p"
    using assms(2) by (intro unat_of_nat_u32) simp
  have "f = v2_frame t p"
    using encode_frame_spec [OF assms(1), of "of_nat (length p)" p t] assms(2,3) l
    by (auto split: option.splits)
  then show ?thesis
    using parse_v2_frame [OF assms(2)] parse_frame_prefix [OF assms(2)] by simp
qed

theorem frame_roundtrip_witness:
  "wire_v2_parse_frame ([0, 16, 0, 0, 0, 0, 0, 2, 7, 9] @ [42]) = (10, Some (16, [7, 9])) \<and>
   wire_v2_parse_frame (take 9 [0, 16, 0, 0, 0, 0, 0, 2, 7, 9]) = (0, None)"
proof -
  let ?m = "\<lambda>n :: u32. Some (replicate (unat n) (0 :: u8))"
  have m: "malloc_spec ?m" by (simp add: malloc_spec_def)
  have e: "wire_v2_encode_frame ?m 16 (Some [7, 9]) (of_nat (length [7, 9 :: u8])) =
      Some (0, [0, 16, 0, 0, 0, 0, 0, 2, 7, 9])"
    by code_simp
  note r = frame_roundtrip [OF m _ e, of "[42]"]
  have "\<forall>n < 10. wire_v2_parse_frame (take n [0, 16, 0, 0, 0, 0, 0, 2, 7, 9]) = (0, None)"
    using r by simp
  then show ?thesis using r by (auto dest: spec [of _ 9])
qed

text \<open>C26. The parser accepts nothing but frames: a successful parse means that the buffer starts
  with exactly the encoding of the returned type and payload, that the byte count returned is
  the length of that encoding and within the buffer, and that the payload is at most 64 KiB.\<close>

theorem parse_frame_sound:
  assumes "wire_v2_parse_frame buf = (n, Some (t, p))"
  shows "(\<exists>rest. buf = v2_frame t p @ rest) \<and> n = int (length (v2_frame t p)) \<and>
    n \<le> int (length buf) \<and> length p \<le> 64 * 1024"
  using parse_frame_SomeD [OF assms] by auto

theorem parse_frame_sound_witness:
  "(\<exists>rest. [0, 1, 0, 0, 0, 0, 0, 1, 5, 6] = v2_frame 1 [5] @ rest) \<and> length (v2_frame 1 [5]) = 9"
proof -
  have "wire_v2_parse_frame [0, 1, 0, 0, 0, 0, 0, 1, 5, 6] = (9, Some (1, [5]))" by code_simp
  from parse_frame_sound [OF this] show ?thesis by simp
qed

text \<open>C29. Memory safety of the frame encoder, and its limit: with a payload as long as announced
  and a successful allocation, encoding is undefined (it writes past the allocation) exactly when
  the 32-bit sum of header and payload size wraps around, that is for the last eight values of
  the announced length.\<close>

theorem encode_frame_memory_safe_iff:
  assumes "malloc_spec malloc" "malloc (8 + plen) \<noteq> None" "length p = unat plen"
  shows "wire_v2_encode_frame malloc t (Some p) plen = None \<longleftrightarrow> 2 ^ 32 - 8 \<le> unat plen"
proof (cases "2 ^ 32 - 8 \<le> unat plen")
  case True
  obtain buf where buf: "malloc (8 + plen) = Some buf" using assms(2) by blast
  have "unat (8 + plen) < 8"
    using True unat_u32_less [of plen] by (simp add: unat_word_ariths mod_if) arith
  then have "length buf < 8" using malloc_specD [OF assms(1) buf] by simp
  with buf have "wire_v2_encode_frame malloc t (Some p) plen = None"
    by (simp add: wire_v2_encode_frame_def Let_def blit_overflow)
  with True show ?thesis by simp
next
  case False
  then have "wire_v2_encode_frame malloc t (Some p) plen \<noteq> None"
    using encode_frame_spec [OF assms(1), of plen p t] assms(3) by (auto split: option.splits)
  with False show ?thesis by simp
qed

theorem encode_frame_memory_safe_iff_witness:
  "wire_v2_encode_frame (\<lambda>n. Some (replicate (unat n) 0)) 16 (Some [1, 2, 3]) 3 \<noteq> None"
  using encode_frame_memory_safe_iff [of "\<lambda>n. Some (replicate (unat n) 0)" 3 "[1, 2, 3]" 16]
  by (simp add: malloc_spec_def)

text \<open>A control message keeps its type and JSON text through protocol v2: encoding a message,
  parsing the frame and converting the payload gives the v1 message (type character, 64-bit
  network-order length, text) that the v1 dispatcher reads; every message type but
  \<open>NatHoleClientDetectOK\<close>, which v2 does not have, is carried.\<close>

theorem message_via_v2:
  assumes "malloc_spec malloc" "\<And>n. malloc n \<noteq> None"
    and "2 + length json \<le> 64 * 1024" "t \<noteq> TypeNatHoleClientDetectOK"
  shows "\<exists>f payload. wire_v2_encode_message malloc t json = Some (0, f) \<and>
    wire_v2_parse_frame (f @ rest) = (int (length f), Some (WIRE_V2_FRAME_MESSAGE, payload)) \<and>
    wire_v2_payload_to_v1 malloc payload =
      Some (0, [msg_type_code t] @ be64 (of_nat (length json)) @ json)"
proof (intro exI conjI)
  let ?p = "be16 (wire_v2_msg_type_to_id t) @ json"
  have small: "length json < 2 ^ 32 - 10" using assms(3) by simp
  show "wire_v2_encode_message malloc t json = Some (0, v2_frame WIRE_V2_FRAME_MESSAGE ?p)"
    using encode_message_spec [OF assms(1,2) small assms(4)] .
  show "wire_v2_parse_frame (v2_frame WIRE_V2_FRAME_MESSAGE ?p @ rest) =
      (int (length (v2_frame WIRE_V2_FRAME_MESSAGE ?p)), Some (WIRE_V2_FRAME_MESSAGE, ?p))"
    using parse_v2_frame [of ?p] assms(3) by simp
  show "wire_v2_payload_to_v1 malloc ?p =
      Some (0, [msg_type_code t] @ be64 (of_nat (length json)) @ json)"
    using payload_to_v1_spec [OF assms(1,2) small assms(4)] by (simp add: v1_message_def)
qed

theorem message_via_v2_witness:
  "\<exists>f payload. wire_v2_encode_message (\<lambda>n. Some (replicate (unat n) 0)) TypePing [123, 125] =
       Some (0, f) \<and>
     wire_v2_parse_frame (f @ []) = (int (length f), Some (WIRE_V2_FRAME_MESSAGE, payload)) \<and>
     wire_v2_payload_to_v1 (\<lambda>n. Some (replicate (unat n) 0)) payload =
       Some (0, [msg_type_code TypePing] @ be64 (of_nat (length [123, 125 :: u8])) @ [123, 125])"
  by (rule message_via_v2) (simp_all add: malloc_spec_def)

text \<open>The key-derivation transcript binds both hello messages: two handshakes with the same
  transcript hash have the same ClientHello and the same ServerHello text, unless they exhibit a
  collision of the hash function. The label, the separators and the 64-bit lengths leave no
  ambiguity between the two texts.\<close>

theorem transcript_binds_hellos:
  assumes "wire_v2_hash_transcript sha ch sh = wire_v2_hash_transcript sha ch' sh'"
    and "length ch < 2 ^ 64" "length ch' < 2 ^ 64" "length sh < 2 ^ 64" "length sh' < 2 ^ 64"
  shows "(ch = ch' \<and> sh = sh') \<or> (\<exists>a b. a \<noteq> b \<and> sha a = sha b)"
proof (cases "\<exists>a b. a \<noteq> b \<and> sha a = sha b")
  case False
  with assms(1) have "transcript_part ''client hello'' ch @ transcript_part ''server hello'' sh =
      transcript_part ''client hello'' ch' @ transcript_part ''server hello'' sh'"
    unfolding wire_v2_hash_transcript_def by (meson same_append_eq)
  from transcript_part_inject [OF this assms(2,3)]
  have "ch = ch'" and "transcript_part ''server hello'' sh @ [] = transcript_part ''server hello'' sh' @ []"
    by simp_all
  with transcript_part_inject [OF _ assms(4,5)] show ?thesis by blast
qed simp

theorem transcript_binds_hellos_witness:
  "wire_v2_hash_transcript id [1] [2] = wire_v2_hash_transcript id ([1] :: bytes) [2] \<and>
   (([1] = [1 :: u8] \<and> [2] = [2 :: u8]) \<or> (\<exists>a b :: bytes. a \<noteq> b \<and> id a = id b))"
  using transcript_binds_hellos [of id "[1]" "[2]" "[1]" "[2]"] by simp

end
