(* ===== verification/Msg.thy ===== *)
theory Msg
  imports Json_Compat Mux_State Wire_V2
begin

text \<open>
  The control messages, \<open>msg.c\<close>: the login request, the registration of a proxy, the request for a work
  connection, and the parsers of what the server answers. The parser and printer of JSON text and the
  \<open>%g\<close> conversion belong to cJSON and are the record \<open>json_lib\<close>.

  \<open>ok key i\<close> tells whether the \<open>i\<close>-th allocation for the field \<open>key\<close> succeeds. A parser gives \<open>None\<close> when the
  code passes \<open>NULL\<close> to \<open>strdup\<close> or converts something that is not a number, \<open>Some None\<close> when it returns \<open>NULL\<close>.
\<close>

record json_lib =
  parse_json :: "string \<Rightarrow> json option"
  print_json :: "json \<Rightarrow> string option"
  show_num :: "int \<Rightarrow> string"

type_synonym memory = "string \<Rightarrow> nat \<Rightarrow> bool"

section \<open>Strings\<close>

text \<open>The tokens \<open>strtok_r\<close> finds with the delimiter \<open>,\<close>: the nonempty pieces.\<close>

fun pieces :: "string \<Rightarrow> string \<Rightarrow> string list" where
  "pieces acc [] = [rev acc]"
| "pieces acc (c # cs) = (if c = CHR '','' then rev acc # pieces [] cs else pieces (c # acc) cs)"

definition comma_tokens :: "string \<Rightarrow> string list" where
  "comma_tokens s = filter (\<lambda>t. t \<noteq> []) (pieces [] s)"

definition to_lower :: "char \<Rightarrow> char" where
  "to_lower c = (let n = (of_char c :: nat) in if 65 \<le> n \<and> n \<le> 90 then char_of (n + 32) else c)"

text \<open>\<open>dns_unified\<close> of \<open>utils.c\<close> with a buffer that is large enough: the result code and the string. The loop
  ends at a slash; a dot at the very end of the name does not count.\<close>

fun unify_from :: "bool \<Rightarrow> string \<Rightarrow> string \<Rightarrow> int \<times> string" where
  "unify_from has_dot acc [] = (if has_dot then 0 else 1, rev acc)"
| "unify_from has_dot acc (c # cs) =
     (if c = CHR ''/'' then (if has_dot then 0 else 1, rev acc)
      else unify_from (has_dot \<or> (c = CHR ''.'' \<and> cs \<noteq> [])) (to_lower c # acc) cs)"

definition dns_unified :: "string \<Rightarrow> int \<times> string" where
  "dns_unified dname = unify_from False [] dname"

text \<open>\<open>wire_name\<close> is what the client sends for a proxy when a user is configured.\<close>

definition wire_name :: "string option \<Rightarrow> string \<Rightarrow> string" where
  "wire_name user name = (case user of None \<Rightarrow> name | Some u \<Rightarrow> if u = [] then name else u @ ''.'' @ name)"

definition xfrpc_strip_user_prefix :: "string option \<Rightarrow> string \<Rightarrow> string" where
  "xfrpc_strip_user_prefix user name =
     (case user of
        None \<Rightarrow> name
      | Some u \<Rightarrow> if u \<noteq> [] \<and> take (length u + 1) name = u @ ''.'' then drop (length u + 1) name else name)"

section \<open>Building a message\<close>

text \<open>\<open>JSON_MARSHAL_TYPE\<close>: a value that could not be allocated deletes the key. A \<open>NULL\<close> string has no value.\<close>

definition add_value :: "memory \<Rightarrow> string \<Rightarrow> json option \<Rightarrow> json \<Rightarrow> json" where
  "add_value ok key v j = json_object_object_add j key (if ok key 0 then v else None)"

definition safe_json_string :: "string option \<Rightarrow> string" where
  "safe_json_string s = (case s of None \<Rightarrow> [] | Some s \<Rightarrow> s)"

text \<open>The text of the object as a copy; 0 and no message on failure.\<close>

definition json_message :: "json_lib \<Rightarrow> memory \<Rightarrow> json \<Rightarrow> nat \<times> string option" where
  "json_message lib ok j =
     (case print_json lib j of
        None \<Rightarrow> (0, None)
      | Some s \<Rightarrow> if s = [] \<or> \<not> ok '''' 1 \<or> \<not> ok '''' 2 then (0, None) else (length s, Some s))"

definition new_work_conn_marshal :: "json_lib \<Rightarrow> memory \<Rightarrow> string option \<Rightarrow> nat \<times> string option" where
  "new_work_conn_marshal lib ok run_id =
     (if \<not> ok '''' 0 then (0, None)
      else json_message lib ok (add_value ok ''run_id'' (Some (JStr (safe_json_string run_id))) (JObj [])))"

section \<open>Registration of a proxy\<close>

text \<open>The fields of \<open>struct proxy_service\<close> that only the registration and the time control read.\<close>

record proxy_conf = proxy_service +
  pf_name :: "string option"
  pf_remote_port :: int
  pf_start_time :: int
  pf_end_time :: int
  pf_custom_domains :: "string option"
  pf_subdomain :: "string option"
  pf_locations :: "string option"
  pf_host_header_rewrite :: "string option"
  pf_http_user :: "string option"
  pf_http_pwd :: "string option"
  pf_request_headers :: "string option"
  pf_response_headers :: "string option"
  pf_group :: "string option"
  pf_group_key :: "string option"
  pf_multiplexer :: "string option"
  pf_route_by_http_user :: "string option"
  pf_sk :: "string option"
  pf_allow_users :: "string option"

text \<open>An array of strings; an element that could not be allocated is left out.\<close>

definition string_array :: "memory \<Rightarrow> string \<Rightarrow> string list \<Rightarrow> json" where
  "string_array ok key ss = JArr (map (JStr \<circ> snd) (filter (\<lambda>(i, s). ok key (3 + i)) (enumerate 0 ss)))"

text \<open>The array and the copy of the list need memory; without it the key is not touched.\<close>

definition fill_custom_domains :: "memory \<Rightarrow> string \<Rightarrow> json \<Rightarrow> json" where
  "fill_custom_domains ok domains j =
     (if ok ''custom_domains'' 1 \<and> ok ''custom_domains'' 2
      then add_value ok ''custom_domains'' (Some (string_array ok ''custom_domains'' (map (snd \<circ> dns_unified) (comma_tokens domains)))) j
      else j)"

definition on_wire_type :: "string \<Rightarrow> string" where
  "on_wire_type t = (if t \<in> {''socks5'', ''mstsc'', ''iod''} then ''tcp'' else t)"

definition add_string_if :: "memory \<Rightarrow> string \<Rightarrow> string option \<Rightarrow> json \<Rightarrow> json" where
  "add_string_if ok key s j = (case s of None \<Rightarrow> j | Some s \<Rightarrow> add_value ok key (Some (JStr s)) j)"

definition add_domains :: "memory \<Rightarrow> proxy_conf \<Rightarrow> json \<Rightarrow> json" where
  "add_domains ok c j =
     (case pf_custom_domains c of
        Some d \<Rightarrow> json_object_object_add (fill_custom_domains ok d j) ''remote_port'' None
      | None \<Rightarrow>
          (let j = json_object_object_add j ''custom_domains'' None in
           if pf_remote_port c \<noteq> -1 then add_value ok ''remote_port'' (Some (JNum (pf_remote_port c))) j
           else json_object_object_add j ''remote_port'' None))"

text \<open>Without an array \<open>json_object_array_add\<close> drops the elements and the key is deleted.\<close>

definition add_locations :: "memory \<Rightarrow> string option \<Rightarrow> json \<Rightarrow> json" where
  "add_locations ok locations j =
     (case locations of
        None \<Rightarrow> json_object_object_add j ''locations'' None
      | Some l \<Rightarrow>
          add_value ok ''locations''
            (if ok ''locations'' 1 then Some (string_array ok ''locations'' (if ok ''locations'' 2 then comma_tokens l else [])) else None) j)"

text \<open>A list \<open>k=v,k=v\<close> as an object; pairs without an equals sign are skipped, later pairs replace earlier
  ones, a value that could not be allocated deletes the key.\<close>

definition header_pair :: "string \<Rightarrow> (string \<times> string) option" where
  "header_pair p = (if CHR ''='' \<in> set p
     then Some (takeWhile (\<lambda>c. c \<noteq> CHR ''='') p, tl (dropWhile (\<lambda>c. c \<noteq> CHR ''='') p)) else None)"

definition headers_object :: "memory \<Rightarrow> string \<Rightarrow> string \<Rightarrow> json" where
  "headers_object ok key hdr =
     fold (\<lambda>(i, p) j. case header_pair p of
         None \<Rightarrow> j
       | Some (k, v) \<Rightarrow> json_object_object_add j k (if ok key (3 + i) then Some (JStr v) else None))
       (enumerate 0 (comma_tokens hdr)) (JObj [])"

definition add_headers :: "memory \<Rightarrow> string \<Rightarrow> string option \<Rightarrow> json \<Rightarrow> json" where
  "add_headers ok key hdr j =
     (case hdr of
        None \<Rightarrow> json_object_object_add j key None
      | Some h \<Rightarrow>
          if ok key 1 \<and> ok key 2 then add_value ok key (Some (headers_object ok key h)) j
          else json_object_object_add j key None)"

definition trim_left :: "string \<Rightarrow> string" where
  "trim_left s = dropWhile (\<lambda>c. c = CHR '' '' \<or> c = CHR 0x09) s"

text \<open>Fields of the secret proxy types.\<close>

definition add_secret :: "memory \<Rightarrow> proxy_conf \<Rightarrow> json \<Rightarrow> json" where
  "add_secret ok c j =
     (let j = add_string_if ok ''sk'' (pf_sk c) j in
      case pf_allow_users c of
        None \<Rightarrow> j
      | Some u \<Rightarrow>
          if \<not> ok ''allow_users'' 1 then j
          else add_value ok ''allow_users'' (Some (string_array ok ''allow_users''
            (if ok ''allow_users'' 2 then map trim_left (comma_tokens u) else []))) j)"

definition add_group :: "memory \<Rightarrow> string \<Rightarrow> proxy_conf \<Rightarrow> json \<Rightarrow> json" where
  "add_group ok t c j =
     (if t \<in> {''tcp'', ''http'', ''https'', ''tcpmux'', ''stcp'', ''xtcp'', ''sudp''}
      then add_string_if ok ''group_key'' (pf_group_key c) (add_string_if ok ''group'' (pf_group c) j) else j)"

definition add_multiplexer :: "memory \<Rightarrow> string \<Rightarrow> proxy_conf \<Rightarrow> json \<Rightarrow> json" where
  "add_multiplexer ok t c j =
     (if t = ''tcpmux'' then
        add_string_if ok ''route_by_http_user'' (pf_route_by_http_user c)
          (add_value ok ''multiplexer'' (Some (JStr (case pf_multiplexer c of None \<Rightarrow> ''httpconnect'' | Some m \<Rightarrow> m))) j)
      else j)"

definition proxy_object :: "memory \<Rightarrow> string \<Rightarrow> proxy_conf \<Rightarrow> json \<Rightarrow> json" where
  "proxy_object ok t c j =
     (let str = (\<lambda>key s. add_value ok key (Some (JStr (safe_json_string s))));
          j = add_value ok ''proxy_type'' (Some (JStr t)) j;
          j = add_value ok ''use_encryption'' (Some (JBool (ps_use_encryption c))) j;
          j = add_value ok ''use_compression'' (Some (JBool (ps_use_compression c))) j;
          j = add_domains ok c (add_group ok t c j);
          j = add_locations ok (pf_locations c) (str ''subdomain'' (pf_subdomain c) j);
          j = str ''http_pwd'' (pf_http_pwd c) (str ''http_user'' (pf_http_user c) (str ''host_header_rewrite'' (pf_host_header_rewrite c) j));
          j = add_headers ok ''response_headers'' (pf_response_headers c) (add_headers ok ''headers'' (pf_request_headers c) j);
          j = add_multiplexer ok t c j in
      if t \<in> {''stcp'', ''xtcp'', ''sudp''} then add_secret ok c j else j)"

text \<open>With a user the name is dereferenced, and so is the type in any case. A name that could not be prefixed
  ends the function.\<close>

definition new_proxy_service_marshal ::
  "json_lib \<Rightarrow> memory \<Rightarrow> string option \<Rightarrow> proxy_conf \<Rightarrow> (nat \<times> string option) option" where
  "new_proxy_service_marshal lib ok user c =
     (if \<not> ok '''' 0 then Some (0, None)
      else do {
        named \<leftarrow> (if user \<noteq> None \<and> user \<noteq> Some [] then do { n \<leftarrow> pf_name c; Some (ok ''proxy_name'' 1, Some (wire_name user n)) }
                  else Some (True, pf_name c));
        if \<not> fst named then Some (0, None)
        else do {
          t \<leftarrow> ps_proxy_type c;
          Some (json_message lib ok (proxy_object ok (on_wire_type t) c
            (add_value ok ''proxy_name'' (map_option JStr (snd named)) (JObj []))))
        }
      })"


section \<open>Login request\<close>

record login =
  lg_version :: "string option"
  lg_hostname :: "string option"
  lg_os :: "string option"
  lg_arch :: "string option"
  lg_user :: "string option"
  lg_privilege_key :: "string option"
  lg_timestamp :: int
  lg_run_id :: "string option"
  lg_pool_count :: int
  lg_logged :: bool

text \<open>The parts of \<open>struct common_conf\<close> that the messages read.\<close>

record auth_conf =
  cf_auth_method :: "string option"
  cf_auth_token :: "string option"
  cf_user :: "string option"

text \<open>\<open>%jd\<close> and \<open>%02x\<close>.\<close>

function nat_digits :: "nat \<Rightarrow> string" where
  "nat_digits n = (if n < 10 then [char_of (48 + n)] else nat_digits (n div 10) @ [char_of (48 + n mod 10)])"
  by auto
termination
  by (relation "measure id") auto

declare nat_digits.simps [simp del]

definition print_jd :: "int \<Rightarrow> string" where
  "print_jd n = (if n < 0 then CHR ''-'' # nat_digits (nat (- n)) else nat_digits (nat n))"

definition hex_digit :: "nat \<Rightarrow> char" where
  "hex_digit n = ''0123456789abcdef'' ! n"

definition print_02x :: "u8 \<Rightarrow> string" where
  "print_02x b = [hex_digit (unat b div 16), hex_digit (unat b mod 16)]"

text \<open>MD5 is the library's; the digest has 16 bytes.\<close>

definition calc_md5 :: "(bytes \<Rightarrow> bytes option) \<Rightarrow> bytes \<Rightarrow> bytes option" where
  "calc_md5 md5 data = (if data = [] then None else md5 data)"

definition auth_seed :: "string option \<Rightarrow> int \<Rightarrow> string" where
  "auth_seed token now = safe_json_string token @ print_jd now"

text \<open>The seed has to fit 128 bytes with its terminator.\<close>

definition get_auth_key :: "(bytes \<Rightarrow> bytes option) \<Rightarrow> bool \<Rightarrow> string option \<Rightarrow> int \<Rightarrow> string option" where
  "get_auth_key md5 mem token now =
     (let seed = auth_seed token now in
      if length seed \<ge> 128 then None
      else do {
        digest \<leftarrow> calc_md5 md5 (map of_char seed);
        if \<not> mem then None else Some (concat (map print_02x (take 16 digest)))
      })"

definition login_object :: "memory \<Rightarrow> login \<Rightarrow> json" where
  "login_object ok lg =
     (let j = add_value ok ''version'' (map_option JStr (lg_version lg)) (JObj []);
          j = add_value ok ''hostname'' (Some (JStr (safe_json_string (lg_hostname lg)))) j;
          j = add_value ok ''os'' (map_option JStr (lg_os lg)) j;
          j = add_value ok ''arch'' (map_option JStr (lg_arch lg)) j;
          j = add_value ok ''privilege_key'' (map_option JStr (lg_privilege_key lg)) j;
          j = add_value ok ''pool_count'' (Some (JNum (lg_pool_count lg))) j;
          j = add_value ok ''timestamp'' (Some (JNum (lg_timestamp lg))) j in
      add_string_if ok ''run_id'' (lg_run_id lg) (add_string_if ok ''user'' (lg_user lg) j))"

text \<open>OIDC is not compiled in: fetching its token always fails. The time is stored even when the key cannot be
  made; a failed copy of the key leaves no key.\<close>

definition login_request_marshal ::
  "json_lib \<Rightarrow> (bytes \<Rightarrow> bytes option) \<Rightarrow> memory \<Rightarrow> auth_conf \<Rightarrow> int \<Rightarrow> login \<Rightarrow> nat \<times> string option \<times> login" where
  "login_request_marshal lib md5 ok cf now lg =
     (if \<not> ok '''' 0 then (0, None, lg)
      else if cf_auth_method cf = Some ''oidc'' then (0, None, lg)
      else case get_auth_key md5 (ok ''privilege_key'' 1) (cf_auth_token cf) now of
        None \<Rightarrow> (0, None, lg\<lparr>lg_timestamp := now\<rparr>)
      | Some key \<Rightarrow>
          if \<not> ok ''privilege_key'' 2 then (0, None, lg\<lparr>lg_timestamp := now, lg_privilege_key := None\<rparr>)
          else let lg = lg\<lparr>lg_timestamp := now, lg_privilege_key := Some key\<rparr>; (n, s) = json_message lib ok (login_object ok lg) in
            (n, s, lg))"

section \<open>Reading a message\<close>

text \<open>\<open>json_tokener_parse\<close> and a zeroed result object.\<close>

definition parse_object :: "json_lib \<Rightarrow> memory \<Rightarrow> string \<Rightarrow> json option" where
  "parse_object lib ok s = (case parse_json lib s of None \<Rightarrow> None | Some j \<Rightarrow> if ok '''' 0 \<and> ok '''' 1 then Some j else None)"

text \<open>A field that is there: its wrapper, \<open>None\<close> inside when the wrapper could not be allocated.\<close>

definition get_field :: "memory \<Rightarrow> json \<Rightarrow> string \<Rightarrow> json option option" where
  "get_field ok j key = map_option (\<lambda>v. if ok key 0 then Some v else None) (json_object_object_get_ex j key)"

text \<open>\<open>json_object_get_string\<close> on a wrapper; the converted text of a number or a truth value needs memory.\<close>

definition field_string :: "json_lib \<Rightarrow> memory \<Rightarrow> string \<Rightarrow> json option \<Rightarrow> string option" where
  "field_string lib ok key w =
     (case w of
        None \<Rightarrow> None
      | Some (JStr s) \<Rightarrow> Some s
      | Some v \<Rightarrow> if ok key 1 then json_object_get_string (show_num lib) v else None)"

text \<open>\<open>strdup\<close>: undefined on \<open>NULL\<close>.\<close>

definition strdup :: "memory \<Rightarrow> string \<Rightarrow> string option \<Rightarrow> string option option" where
  "strdup ok key s = (case s of None \<Rightarrow> None | Some s \<Rightarrow> Some (if ok key 2 then Some s else None))"

text \<open>The copy of a field that has to be there; \<open>Some None\<close>: it is not, or there is no memory.\<close>

definition required_string :: "json_lib \<Rightarrow> memory \<Rightarrow> json \<Rightarrow> string \<Rightarrow> string option option" where
  "required_string lib ok j key =
     (case get_field ok j key of None \<Rightarrow> Some None | Some w \<Rightarrow> strdup ok key (field_string lib ok key w))"

text \<open>The copy of an optional field; outer \<open>None\<close>: the error exit.\<close>

definition optional_string :: "json_lib \<Rightarrow> memory \<Rightarrow> json \<Rightarrow> string \<Rightarrow> string option option" where
  "optional_string lib ok j key =
     (case get_field ok j key of
        None \<Rightarrow> Some None
      | Some w \<Rightarrow> (case field_string lib ok key w of None \<Rightarrow> Some None | Some s \<Rightarrow> if ok key 2 then Some (Some s) else None))"

record login_resp =
  lr_version :: string
  lr_run_id :: string
  lr_error :: "string option"

definition login_resp_unmarshal :: "json_lib \<Rightarrow> memory \<Rightarrow> string \<Rightarrow> login_resp option option" where
  "login_resp_unmarshal lib ok s =
     (case parse_object lib ok s of
        None \<Rightarrow> Some None
      | Some j \<Rightarrow> do {
          version \<leftarrow> required_string lib ok j ''version'';
          if version = None then Some None
          else do {
            run_id \<leftarrow> required_string lib ok j ''run_id'';
            Some (do {
              v \<leftarrow> version; r \<leftarrow> run_id;
              e \<leftarrow> optional_string lib ok j ''error'';
              Some \<lparr>lr_version = v, lr_run_id = r, lr_error = e\<rparr>
            })
          }
        })"

text \<open>\<open>atoi\<close> of newlib, which saturates.\<close>

fun digits_value :: "nat \<Rightarrow> string \<Rightarrow> nat" where
  "digits_value n [] = n"
| "digits_value n (c # cs) =
     (let d = (of_char c :: nat) in if 48 \<le> d \<and> d \<le> 57 then digits_value (10 * n + (d - 48)) cs else n)"

definition atoi :: "string \<Rightarrow> int" where
  "atoi s =
     (let s = dropWhile (\<lambda>c. of_char c \<in> {32, 9, 10, 11, 12, 13 :: nat}) s in
      if s \<noteq> [] \<and> hd s = CHR ''-'' then max (- (2 ^ 31)) (- int (digits_value 0 (tl s)))
      else min (2 ^ 31 - 1) (int (digits_value 0 (if s \<noteq> [] \<and> hd s = CHR ''+'' then tl s else s))))"

text \<open>What follows the last colon.\<close>

definition after_last_colon :: "string \<Rightarrow> string option" where
  "after_last_colon s = (if CHR '':'' \<in> set s then Some (rev (takeWhile (\<lambda>c. c \<noteq> CHR '':'') (rev s))) else None)"

record new_proxy_response =
  npr_run_id :: "string option"
  npr_proxy_name :: string
  npr_error :: "string option"
  npr_remote_port :: int

definition remote_port_of :: "json_lib \<Rightarrow> memory \<Rightarrow> json \<Rightarrow> int" where
  "remote_port_of lib ok j =
     (case get_field ok j ''remote_addr'' of
        None \<Rightarrow> 0
      | Some w \<Rightarrow>
          (case Option.bind (field_string lib ok ''remote_addr'' w) after_last_colon of None \<Rightarrow> 0 | Some p \<Rightarrow> atoi p))"

text \<open>The name without the prefix of the user.\<close>

definition proxy_name_of :: "json_lib \<Rightarrow> memory \<Rightarrow> string option \<Rightarrow> json \<Rightarrow> string option option" where
  "proxy_name_of lib ok user j =
     (case get_field ok j ''proxy_name'' of
        None \<Rightarrow> Some None
      | Some w \<Rightarrow> strdup ok ''proxy_name'' (map_option (xfrpc_strip_user_prefix user) (field_string lib ok ''proxy_name'' w)))"

definition new_proxy_resp_unmarshal ::
  "json_lib \<Rightarrow> memory \<Rightarrow> string option \<Rightarrow> string \<Rightarrow> new_proxy_response option option" where
  "new_proxy_resp_unmarshal lib ok user s =
     (case parse_object lib ok s of
        None \<Rightarrow> Some None
      | Some j \<Rightarrow>
          (case optional_string lib ok j ''run_id'' of
             None \<Rightarrow> Some None
           | Some run_id \<Rightarrow> do {
               name \<leftarrow> proxy_name_of lib ok user j;
               Some (do {
                 n \<leftarrow> name;
                 e \<leftarrow> optional_string lib ok j ''error'';
                 Some \<lparr>npr_run_id = run_id, npr_proxy_name = n, npr_error = e, npr_remote_port = remote_port_of lib ok j\<rparr>
               })
             }))"

text \<open>Here a name that is not a string is an error, not undefined.\<close>

definition start_work_conn_resp_unmarshal :: "json_lib \<Rightarrow> memory \<Rightarrow> string option \<Rightarrow> string \<Rightarrow> string option" where
  "start_work_conn_resp_unmarshal lib ok user s = do {
     j \<leftarrow> parse_object lib ok s;
     w \<leftarrow> get_field ok j ''proxy_name'';
     n \<leftarrow> field_string lib ok ''proxy_name'' w;
     if ok ''proxy_name'' 2 then Some (xfrpc_strip_user_prefix user n) else None
   }"

text \<open>\<open>json_object_get_int\<close>: what is not a number becomes NaN, whose conversion is undefined, like that of a
  number outside the range.\<close>

definition json_object_get_int :: "json option \<Rightarrow> int option" where
  "json_object_get_int w =
     (case w of
        None \<Rightarrow> Some 0
      | Some (JNum n) \<Rightarrow> if - (2 ^ 31) \<le> n \<and> n < 2 ^ 31 then Some n else None
      | Some _ \<Rightarrow> None)"

record control_response =
  cr_type :: int
  cr_code :: int
  cr_msg :: string

definition control_response_unmarshal :: "json_lib \<Rightarrow> memory \<Rightarrow> string \<Rightarrow> control_response option option" where
  "control_response_unmarshal lib ok s =
     (case parse_object lib ok s of
        None \<Rightarrow> Some None
      | Some j \<Rightarrow>
          (case get_field ok j ''type'' of
             None \<Rightarrow> Some None
           | Some wt \<Rightarrow> do {
               t \<leftarrow> json_object_get_int wt;
               (case get_field ok j ''code'' of
                  None \<Rightarrow> Some None
                | Some wc \<Rightarrow> do {
                    c \<leftarrow> json_object_get_int wc;
                    Some (do {
                      wm \<leftarrow> get_field ok j ''msg'';
                      m \<leftarrow> field_string lib ok ''msg'' wm;
                      if ok ''msg'' 2 then Some \<lparr>cr_type = t, cr_code = c, cr_msg = m\<rparr> else None
                    })
                  })
             }))"

section \<open>UDP packets\<close>

record udp_addr =
  ua_addr :: string
  ua_port :: int
  ua_zone :: string

record udp_packet =
  up_content :: "string option"
  up_laddr :: "udp_addr option"
  up_raddr :: "udp_addr option"

text \<open>Every allocation but the first is asserted; \<open>None\<close> is an assertion that fails. The zone is sent empty.\<close>

definition create_udp_addr_json :: "udp_addr option \<Rightarrow> json" where
  "create_udp_addr_json addr =
     (case addr of
        None \<Rightarrow> JObj []
      | Some a \<Rightarrow> json_object_object_add (json_object_object_add (json_object_object_add (JObj [])
          ''IP'' (Some (JStr (ua_addr a)))) ''Port'' (Some (JNum (ua_port a)))) ''Zone'' (Some (JStr [])))"

definition new_udp_packet_marshal :: "json_lib \<Rightarrow> memory \<Rightarrow> udp_packet \<Rightarrow> (int \<times> string option) option" where
  "new_udp_packet_marshal lib ok udp =
     (if \<not> ok [] 0 then Some (-1, None)
      else if \<not> ok [] 1 then None
      else let j = (case up_content udp of None \<Rightarrow> JObj [] | Some c \<Rightarrow> json_object_object_add (JObj []) ''c'' (Some (JStr c)));
             j = json_object_object_add j ''l'' (Some (create_udp_addr_json (up_laddr udp)));
             j = json_object_object_add j ''r'' (Some (create_udp_addr_json (up_raddr udp))) in
        case print_json lib j of None \<Rightarrow> Some (-1, None) | Some s \<Rightarrow> Some (0, Some s))"

definition parse_udp_addr :: "json_lib \<Rightarrow> memory \<Rightarrow> json option \<Rightarrow> udp_addr option option" where
  "parse_udp_addr lib ok w =
     (case w of
        None \<Rightarrow> Some None
      | Some j \<Rightarrow>
          (case (get_field ok j ''IP'', get_field ok j ''Port'') of
             (Some wi, Some wp) \<Rightarrow>
               if \<not> ok '''' 0 then Some None
               else do {
                 ip \<leftarrow> strdup ok ''IP'' (field_string lib ok ''IP'' wi);
                 zone \<leftarrow> (case get_field ok j ''Zone'' of
                    Some (Some wz) \<Rightarrow> strdup ok ''Zone'' (field_string lib ok ''Zone'' (Some wz))
                  | _ \<Rightarrow> strdup ok ''Zone'' (Some []));
                 port \<leftarrow> json_object_get_int wp;
                 Some (do { i \<leftarrow> ip; z \<leftarrow> zone; Some \<lparr>ua_addr = i, ua_port = port, ua_zone = z\<rparr> })
               }
           | _ \<Rightarrow> Some None))"

text \<open>\<open>oks\<close>: the memory for the packet itself and for its two addresses.\<close>

definition udp_packet_unmarshal :: "json_lib \<Rightarrow> (string \<Rightarrow> memory) \<Rightarrow> string \<Rightarrow> udp_packet option option" where
  "udp_packet_unmarshal lib oks s =
     (let ok = oks '''' in
      case parse_object lib ok s of
        None \<Rightarrow> Some None
      | Some j \<Rightarrow> do {
          content \<leftarrow> required_string lib ok j ''c'';
          if content = None then Some None
          else do {
            l \<leftarrow> (case get_field ok j ''l'' of None \<Rightarrow> Some None | Some w \<Rightarrow> parse_udp_addr lib (oks ''l'') w);
            r \<leftarrow> (case get_field ok j ''r'' of None \<Rightarrow> Some None | Some w \<Rightarrow> parse_udp_addr lib (oks ''r'') w);
            Some (Some \<lparr>up_content = content, up_laddr = l, up_raddr = r\<rparr>)
          }
        })"

end
