(* ===== verification/Control_Send.thy ===== *)
theory Control_Send
  imports Msg Mux_Receive
begin

text \<open>
  The control layer, \<open>control.c\<close>, sending side: framing and encrypting messages to the server,
  registering the proxies, requesting work connections, login and heartbeat. The build is the default
  one: wire protocol v1, and the visitor, XTCP, UDP, OIDC and health-check modules are the stubs of
  \<open>module_stubs.c\<close>.

  The static variables of \<open>control.c\<close>, \<open>crypto.c\<close> and \<open>login.c\<close> are the record \<open>ctl\<close>; the
  connection \<open>connect_bev\<close>, its buffers and the stream of the control connection are in \<open>mux\<close>.
\<close>

section \<open>State and environment\<close>

datatype xfrpc_state = XFRPC_STATE_INIT | XFRPC_STATE_CONNECTING | XFRPC_STATE_CONNECTED | XFRPC_STATE_LOGIN_OK
  | XFRPC_STATE_RECONNECTING | XFRPC_STATE_FATAL | XFRPC_STATE_STOPPED

text \<open>\<open>direct\<close>: what was written to a socket past the output buffer of its connection, by client (\<open>None\<close>: the
  control connection). \<open>reports\<close>: the states reported to the callback of the public interface. \<open>fatal\<close>:
  \<open>xfrpc_fatal\<close> has been called, which stops the event loop for good; \<open>loop_break\<close>: it has been asked to return.
  A timer is \<open>None\<close> when the pointer is \<open>NULL\<close>, otherwise the delay in seconds it was armed with, if it is
  pending. \<open>bev_enabled\<close>: the control connection is read and written.\<close>

type_synonym timer = "int option option"

record ctl =
  is_login :: bool
  xfrpc_status :: bool
  pong_time :: int
  coders :: coder_state
  c_login :: login
  direct :: "(nat option \<times> bytes) list"
  reports :: "xfrpc_state list"
  fatal :: bool
  ticker_ping :: timer
  reconnect_timer :: timer
  retry_times :: int
  reconnect_requested :: bool
  loop_break :: bool
  bev_enabled :: bool

text \<open>The environment: that of the data path, the JSON and digest libraries, memory for JSON objects, the clock and
  the hour of the day at a given time, the configured services in the order of the hash table, the authentication
  settings, whether there is an event base and a socket, and the result of writing \<open>n\<close> bytes to the socket (a
  negative result with the flag set is \<open>EAGAIN\<close>), the times of the heartbeat, whether TLS is wanted and can be set up.\<close>

record cenv =
  c_env :: env
  c_lib :: json_lib
  c_md5 :: "bytes \<Rightarrow> bytes option"
  c_mem :: "nat \<Rightarrow> string \<Rightarrow> memory"
  c_time :: "nat \<Rightarrow> int"
  c_hour :: "nat \<Rightarrow> int"
  c_services :: "proxy_conf list"
  c_auth :: auth_conf
  c_base :: bool
  c_fd :: bool
  c_write :: "nat \<Rightarrow> nat \<Rightarrow> int \<times> bool"
  c_heartbeat_interval :: int
  c_heartbeat_timeout :: int
  c_tls_enable :: bool
  c_tls_init :: bool

text \<open>\<open>malloc\<close> and \<open>calloc\<close> of \<open>n\<close> bytes; no object has 2 GiB or more.\<close>

definition alloc_n :: "nat \<Rightarrow> mux \<Rightarrow> bool \<times> mux" where
  "alloc_n n st = (let (ok, st) = alloc st in (ok \<and> n < 2 ^ 31, st))"

definition alloc_evp :: "mux \<Rightarrow> evp_ctx option \<times> mux" where
  "alloc_evp st = (let (ok, st) = alloc st in (if ok then Some EVP_CIPHER_CTX_new else None, st))"

definition text_bytes :: "string \<Rightarrow> bytes" where
  "text_bytes s = map of_char s"

section \<open>Messages\<close>

text \<open>\<open>prepare_message\<close>: header and content, \<open>None\<close> without memory.\<close>

definition prepare_message :: "msg_type \<Rightarrow> string \<Rightarrow> mux \<Rightarrow> bytes option \<times> mux" where
  "prepare_message t msg st =
     (let (ok, st) = alloc_n (length msg + 9) st in
      (if ok then Some (msg_hdr_bytes (msg_type_code t) (hton64 (of_nat (length msg))) @ text_bytes msg) else None, st))"

text \<open>The idiom of sending bytes through a stream: a temporary buffer, one write, the rest is dropped. The result
  is that of \<open>tmux_stream_write\<close>, 0 without a buffer.\<close>

definition send_through :: "bytes \<Rightarrow> loc \<Rightarrow> mux \<Rightarrow> (int \<times> mux) option" where
  "send_through d l st =
     (let (ok, st) = alloc st in
      if \<not> ok then Some (0, st)
      else let (rc, tmp, st) = buf_add [] d st in do {
        (w, tmp, st) \<leftarrow> tmux_stream_write tmp l st;
        Some (w, st)
      })"

text \<open>Writing to the socket directly: at most 100 attempts, which end with an error that is not \<open>EAGAIN\<close> or with
  a result of 0. Result: the bytes written.\<close>

fun write_tries :: "(nat \<Rightarrow> nat \<Rightarrow> int \<times> bool) \<Rightarrow> nat \<Rightarrow> bytes \<Rightarrow> mux \<Rightarrow> bytes \<times> mux" where
  "write_tries wr 0 tmp st = ([], st)"
| "write_tries wr (Suc tries) tmp st =
     (if tmp = [] then ([], st)
      else let (w, again) = wr (tick st) (length tmp); st = st\<lparr>tick := Suc (tick st)\<rparr> in
        if w < 0 then (if again then write_tries wr tries tmp st else ([], st))
        else if w = 0 then ([], st)
        else let (rest, st) = write_tries wr tries (drop (nat w) tmp) st in (take (nat w) tmp @ rest, st))"

text \<open>The output of a connection: of a client's own one, or of the control connection.\<close>

definition has_bout :: "nat option \<Rightarrow> mux \<Rightarrow> bool option" where
  "has_bout who st =
     (case who of None \<Rightarrow> Some (ctl_up st) | Some a \<Rightarrow> map_option (\<lambda>pc. pc_ctl_out pc \<noteq> None) (heap st a))"

definition bout_write :: "nat option \<Rightarrow> bytes \<Rightarrow> mux \<Rightarrow> mux option" where
  "bout_write who d st =
     (case who of
        None \<Rightarrow> Some (snd (ctl_write d st))
      | Some a \<Rightarrow> do { (rest, st) \<leftarrow> to_own_ctl a d st; Some st })"

text \<open>\<open>bev\<close>: the client whose own connection is passed; with multiplexing it is always the control connection.
  \<open>l\<close>: the stream, \<open>None\<close> is \<open>NULL\<close>. A QUIC work stream is written past its buffer, once.\<close>

definition send_msg_frp_server ::
  "cenv \<Rightarrow> nat option \<Rightarrow> msg_type \<Rightarrow> string \<Rightarrow> loc option \<Rightarrow> ctl \<Rightarrow> mux \<Rightarrow> (ctl \<times> mux) option" where
  "send_msg_frp_server env bev t msg l c st = do {
     v \<leftarrow> conf_tcp_mux st;
     up \<leftarrow> has_bout (if v = 0 then bev else None) st;
     if \<not> up then Some (c, st)
     else case prepare_message t msg st of
       (None, st) \<Rightarrow> Some (c, st)
     | (Some m, st) \<Rightarrow>
         if v \<noteq> 0 then
           (case l of None \<Rightarrow> Some (c, st) | Some l \<Rightarrow> do { (w, st) \<leftarrow> send_through m l st; Some (c, st) })
         else if e_quic (c_env env) \<and> bev \<noteq> None then
           (if c_fd env then
              (let (w, again) = c_write env (tick st) (length m) in
               Some (c\<lparr>direct := direct c @ [(bev, take (nat w) m)]\<rparr>, st\<lparr>tick := Suc (tick st)\<rparr>))
            else Some (c, st))
         else do { st \<leftarrow> bout_write bev m st; Some (c, st) }
   }"

section \<open>Encrypted messages\<close>

text \<open>\<open>initialize_encoder\<close>: with multiplexing the initialisation vector is sent at once.\<close>

definition initialize_encoder :: "cenv \<Rightarrow> loc \<Rightarrow> ctl \<Rightarrow> mux \<Rightarrow> (int \<times> ctl \<times> mux) option" where
  "initialize_encoder env l c st =
     (let (ok, st) = alloc st;
          cs = init_main_encoder (e_mbedtls (c_env env)) ok (e_rand (c_env env) (tick st)) (e_token (c_env env)) (coders c);
          c = c\<lparr>coders := cs\<rparr> in
      case main_encoder cs of
        None \<Rightarrow> Some (-1, c, st)
      | Some coder \<Rightarrow> do {
          v \<leftarrow> conf_tcp_mux st;
          if v \<noteq> 0 then do {
            (w, st) \<leftarrow> send_through (take 16 (fc_iv coder)) l st;
            Some (if w < 0 then -1 else 0, c, st)
          }
          else Some (0, c, st)
        })"

definition prepare_encrypted_message ::
  "cenv \<Rightarrow> msg_type \<Rightarrow> string \<Rightarrow> ctl \<Rightarrow> mux \<Rightarrow> bytes option \<times> ctl \<times> mux" where
  "prepare_encrypted_message env t msg c st =
     (case prepare_message t msg st of
        (None, st) \<Rightarrow> (None, c, st)
      | (Some m, st) \<Rightarrow>
          (let (ok, st) = alloc st; (evp, st) = alloc_evp st;
               (n, out, cs) = encrypt_data (e_mbedtls (c_env env)) ok evp m (main_encoder (coders c)) (coders c);
               c = c\<lparr>coders := cs\<rparr> in
           case out of None \<Rightarrow> (None, c, st) | Some out \<Rightarrow> (if n = 0 then None else Some (take n out), c, st)))"

text \<open>Without multiplexing the initialisation vector precedes the first message, in the same write. It counts as
  sent even when the temporary buffer could not be made. A message has been encrypted, so there is an encoder.\<close>

definition write_encrypted :: "cenv \<Rightarrow> bytes \<Rightarrow> ctl \<Rightarrow> mux \<Rightarrow> ctl \<times> mux" where
  "write_encrypted env enc c st =
     (case main_encoder (coders c) of
        None \<Rightarrow> (c, st)
      | Some e \<Rightarrow>
          (let (ok, st) = alloc st;
               (iv_rc, tmp, st) = (if ok \<and> \<not> fc_iv_sent e then buf_add [] (take 16 (fc_iv e)) st else (0, [], st));
               c = c\<lparr>coders := (coders c)\<lparr>main_encoder := Some (e\<lparr>fc_iv_sent := True\<rparr>)\<rparr>\<rparr>;
               (rc, tmp, st) = (if ok then buf_add tmp enc st else (-1, [], st)) in
           if c_fd env then
             (let (out, st) = write_tries (c_write env) 100 tmp st in (c\<lparr>direct := direct c @ [(None, out)]\<rparr>, st))
           else (c, st)))"

text \<open>Always to the control connection.\<close>

definition send_enc_msg_frp_server :: "cenv \<Rightarrow> msg_type \<Rightarrow> string \<Rightarrow> loc \<Rightarrow> ctl \<Rightarrow> mux \<Rightarrow> (ctl \<times> mux) option" where
  "send_enc_msg_frp_server env t msg l c st =
     (if \<not> ctl_up st then Some (c, st)
      else do {
        (rc, c, st) \<leftarrow> (if main_encoder (coders c) = None then initialize_encoder env l c st else Some (0, c, st));
        if rc \<noteq> 0 then Some (c, st)
        else case prepare_encrypted_message env t msg c st of
          (None, c, st) \<Rightarrow> Some (c, st)
        | (Some enc, c, st) \<Rightarrow> do {
            v \<leftarrow> conf_tcp_mux st;
            if v \<noteq> 0 then do { (w, st) \<leftarrow> send_through enc l st; Some (c, st) }
            else Some (write_encrypted env enc c st)
          }
      })"

section \<open>Requests\<close>

definition marshal_proxy_service :: "cenv \<Rightarrow> proxy_conf \<Rightarrow> mux \<Rightarrow> string option option" where
  "marshal_proxy_service env ps st = do {
     (n, msg) \<leftarrow> new_proxy_service_marshal (c_lib env) (c_mem env (tick st) '''') (cf_user (c_auth env)) ps;
     Some (if n = 0 then None else msg)
   }"

definition send_new_proxy :: "cenv \<Rightarrow> proxy_conf \<Rightarrow> ctl \<Rightarrow> mux \<Rightarrow> (ctl \<times> mux) option" where
  "send_new_proxy env ps c st = do {
     msg \<leftarrow> marshal_proxy_service env ps st;
     (case msg of None \<Rightarrow> Some (c, st) | Some m \<Rightarrow> send_enc_msg_frp_server env TypeNewProxy m CtlLoc c st)
   }"

fun register_all :: "cenv \<Rightarrow> proxy_conf list \<Rightarrow> ctl \<Rightarrow> mux \<Rightarrow> (ctl \<times> mux) option" where
  "register_all env [] c st = Some (c, st)"
| "register_all env (ps # rest) c st =
     (if ps_proxy_type ps = Some ''mstsc'' then register_all env rest c st
      else do { (c, st) \<leftarrow> send_new_proxy env ps c st; register_all env rest c st })"

text \<open>No visitors and no health checks are compiled in.\<close>

definition start_proxy_services :: "cenv \<Rightarrow> ctl \<Rightarrow> mux \<Rightarrow> (ctl \<times> mux) option" where
  "start_proxy_services env c st = register_all env (c_services env) c st"

definition ping :: "cenv \<Rightarrow> ctl \<Rightarrow> mux \<Rightarrow> (ctl \<times> mux) option" where
  "ping env c st = (if \<not> ctl_up st then Some (c, st) else send_enc_msg_frp_server env TypePing ''{}'' CtlLoc c st)"

definition new_work_connection :: "cenv \<Rightarrow> nat option \<Rightarrow> loc option \<Rightarrow> ctl \<Rightarrow> mux \<Rightarrow> (ctl \<times> mux) option" where
  "new_work_connection env bev l c st =
     (let (ok, st) = alloc st in
      if \<not> ok \<or> lg_run_id (c_login c) = None then Some (c, st)
      else case new_work_conn_marshal (c_lib env) (c_mem env (tick st) '''') (lg_run_id (c_login c)) of
        (n, None) \<Rightarrow> Some (c, st)
      | (n, Some msg) \<Rightarrow> if n = 0 then Some (c, st) else send_msg_frp_server env bev TypeNewWorkConn msg l c st)"

text \<open>The client's own connection is there; called with multiplexing it would use the control stream.\<close>

definition handle_client_connected :: "cenv \<Rightarrow> nat \<Rightarrow> ctl \<Rightarrow> mux \<Rightarrow> (ctl \<times> mux) option" where
  "handle_client_connected env a c st = do {
     (c, st) \<leftarrow> new_work_connection env (Some a) (if conf_tcp_mux st \<noteq> None \<and> conf_tcp_mux st \<noteq> Some 0 then Some CtlLoc else None) c st;
     Some (c\<lparr>xfrpc_status := True\<rparr>, st)
   }"

definition init_tcp_mux_client :: "cenv \<Rightarrow> nat \<Rightarrow> ctl \<Rightarrow> mux \<Rightarrow> (int \<times> ctl \<times> mux) option" where
  "init_tcp_mux_client env a c st =
     (if \<not> ctl_up st then Some (-1, c, st)
      else do {
        st \<leftarrow> send_window_update (PcLoc a) 0 st;
        (c, st) \<leftarrow> new_work_connection env (Some a) (Some (PcLoc a)) c st;
        Some (0, c, st)
      })"

definition init_direct_client :: "cenv \<Rightarrow> nat \<Rightarrow> ctl \<Rightarrow> mux \<Rightarrow> (int \<times> ctl \<times> mux) option" where
  "init_direct_client env a c st =
     (case connect_server (c_env env) (Some (fst (e_server (c_env env)))) (snd (e_server (c_env env))) st of
        (None, st) \<Rightarrow> Some (-1, c, st)
      | (Some bev, st) \<Rightarrow> do {
          st \<leftarrow> upd_pc a (\<lambda>pc. pc\<lparr>pc_ctl_out := Some []\<rparr>) st;
          if e_quic (c_env env) then do { (c, st) \<leftarrow> handle_client_connected env a c st; Some (0, c, st) }
          else Some (0, c, st)
        })"

definition new_client_connect :: "cenv \<Rightarrow> ctl \<Rightarrow> mux \<Rightarrow> (ctl \<times> mux) option" where
  "new_client_connect env c st = do {
     (client, st) \<leftarrow> new_proxy_client st;
     (case client of
        None \<Rightarrow> Some (c, st)
      | Some a \<Rightarrow> do {
          pc \<leftarrow> heap st a;
          (rc, c, st) \<leftarrow> (case conf_tcp_mux st of
             None \<Rightarrow> Some (-1, c, st)
           | Some v \<Rightarrow>
               if \<not> c_base env then Some (-1, c, st)
               else if v \<noteq> 0 then init_tcp_mux_client env a c st
               else init_direct_client env a c st);
          if rc \<noteq> 0 then do { st \<leftarrow> del_proxy_client_by_stream_id (pc_stream_id pc) st; Some (c, st) }
          else Some (c, st)
        })
   }"

section \<open>Login\<close>

definition prepare_login_message :: "cenv \<Rightarrow> ctl \<Rightarrow> mux \<Rightarrow> string option \<times> ctl" where
  "prepare_login_message env c st =
     (let (n, msg, lg) = login_request_marshal (c_lib env) (c_md5 env) (c_mem env (tick st) '''') (c_auth env)
            (c_time env (tick st)) (c_login c) in
      (if n = 0 then None else msg, c\<lparr>c_login := lg\<rparr>))"

text \<open>A login message that cannot be made stops the client.\<close>

definition login :: "cenv \<Rightarrow> ctl \<Rightarrow> mux \<Rightarrow> (ctl \<times> mux) option" where
  "login env c st =
     (case prepare_login_message env c st of
        (None, c) \<Rightarrow> Some (c\<lparr>fatal := True\<rparr>, st)
      | (Some msg, c) \<Rightarrow> send_msg_frp_server env None TypeLogin msg (Some CtlLoc) c st)"

end
