(* ===== verification/Control.thy ===== *)
theory Control
  imports Control_Send
begin

text \<open>
  The control layer, receiving side: the login response, the messages of the control channel and of work
  connections, reading without multiplexing, and the reconnection of the control connection. \<open>None\<close> as a
  result is undefined behaviour: reading or freeing memory that is not there, a failed assertion.
  \<open>handle_frps_msg\<close> is the function the multiplexer of \<open>Mux_Receive\<close> takes as its parameter.
\<close>

section \<open>Message headers\<close>

text \<open>The packed header in memory: the type, then the length in network order; a buffer shorter than a header is
  only looked at as far as it goes.\<close>

definition length_field :: "bytes \<Rightarrow> u64" where
  "length_field b = push_bit 32 (ucast (rd32 (b ! 8) (b ! 7) (b ! 6) (b ! 5))) OR ucast (rd32 (b ! 4) (b ! 3) (b ! 2) (b ! 1))"

definition msg_length :: "bytes \<Rightarrow> u64" where
  "msg_length b = hton64 (length_field b)"

text \<open>\<open>(int)msg_hton(msg->length)\<close>.\<close>

definition data_len :: "bytes \<Rightarrow> int" where
  "data_len b = sint (ucast (msg_length b) :: u32)"

definition c_string :: "bytes \<Rightarrow> string" where
  "c_string b = map (\<lambda>x. char_of (unat x)) (takeWhile (\<lambda>x. x \<noteq> 0) b)"

text \<open>The payload as a string: \<open>malloc(data_len + 1)\<close>, \<open>memcpy\<close>, a terminator. A negative length below -1 asks
  for an impossible size; -1 copies \<open>SIZE_MAX\<close> bytes when the allocation of nothing succeeds; the largest
  \<open>int\<close> overflows.\<close>

definition msg_data_to_json :: "bytes \<Rightarrow> mux \<Rightarrow> (string option \<times> mux) option" where
  "msg_data_to_json b st =
     (let n = data_len b in
      if n = 2 ^ 31 - 1 then None
      else if n < -1 then Some (None, st)
      else let (ok, st) = alloc st in
        if \<not> ok then Some (None, st)
        else if n = -1 \<or> int (length b) < 9 + n then None
        else Some (Some (c_string (take (nat n) (drop 9 b))), st))"

section \<open>Login response\<close>

text \<open>\<open>login.c\<close>. The copy of the run identifier is asserted.\<close>

definition login_resp_check :: "memory \<Rightarrow> login_resp \<Rightarrow> Msg.login \<Rightarrow> (bool \<times> Msg.login) option" where
  "login_resp_check ok lr lg =
     (if length (lr_run_id lr) \<le> 1 then Some (False, lg\<lparr>lg_logged := False\<rparr>)
      else if ok ''run_id'' 3 then Some (True, lg\<lparr>lg_run_id := Some (lr_run_id lr), lg_logged := True\<rparr>)
      else None)"

definition validate_login_msg :: "bytes \<Rightarrow> bool" where
  "validate_login_msg b = (b ! 0 = msg_type_code TypeLoginResp)"

definition process_login_response :: "cenv \<Rightarrow> bytes \<Rightarrow> ctl \<Rightarrow> mux \<Rightarrow> (bool \<times> ctl \<times> mux) option" where
  "process_login_response env b c st = do {
     (json, st) \<leftarrow> (if length b < 9 then None else msg_data_to_json b st);
     (case json of
        None \<Rightarrow> Some (False, c, st)
      | Some s \<Rightarrow> do {
          lres \<leftarrow> login_resp_unmarshal (c_lib env) (c_mem env (tick st) '''') s;
          (case lres of
             None \<Rightarrow> Some (False, c, st)
           | Some lr \<Rightarrow> do {
               (success, lg) \<leftarrow> login_resp_check (c_mem env (tick st) '''') lr (c_login c);
               Some (success, c\<lparr>c_login := lg\<rparr>, st)
             })
        })
   }"

text \<open>The first time, all proxies are registered.\<close>

definition go_online :: "cenv \<Rightarrow> ctl \<Rightarrow> mux \<Rightarrow> (ctl \<times> mux) option" where
  "go_online env c st =
     (if xfrpc_status c then Some (c, st)
      else do { (c, st) \<leftarrow> start_proxy_services env c st; Some (c\<lparr>xfrpc_status := True\<rparr>, st) })"

text \<open>The return value, the number of bytes consumed, is not used by \<open>handle_frps_msg\<close>.\<close>

definition handle_login_response :: "cenv \<Rightarrow> bytes \<Rightarrow> ctl \<Rightarrow> mux \<Rightarrow> (ctl \<times> mux) option" where
  "handle_login_response env b c st =
     (if b = [] \<or> \<not> validate_login_msg b then Some (c, st)
      else do {
        (ok, c, st) \<leftarrow> process_login_response env b c st;
        if \<not> ok then Some (c, st)
        else go_online env (c\<lparr>is_login := True, reports := reports c @ [XFRPC_STATE_LOGIN_OK]\<rparr>) st
      })"

section \<open>The control channel\<close>

text \<open>\<open>handle_enc_msg\<close>: the decrypted message, \<open>None\<close> inside when there is none. The first sixteen bytes ever
  received are the initialisation vector.\<close>

definition handle_enc_msg :: "cenv \<Rightarrow> bytes \<Rightarrow> ctl \<Rightarrow> mux \<Rightarrow> bytes option \<times> ctl \<times> mux" where
  "handle_enc_msg env enc c st =
     (let m = e_mbedtls (c_env env) in
      if enc = [] then (None, c, st)
      else if \<not> is_decoder_inited (coders c) \<and> length enc < 16 then (None, c, st)
      else let (buf, c, st) =
          (if is_decoder_inited (coders c) then (enc, c, st)
           else let (ok, st) = alloc st in
             (drop 16 enc, c\<lparr>coders := init_main_decoder m ok (e_rand (c_env env) (tick st)) (Some (e_token (c_env env))) (Some enc) (coders c)\<rparr>, st)) in
        if \<not> is_decoder_inited (coders c) \<or> buf = [] then (None, c, st)
        else let (ok, st) = alloc st; (evp, st) = alloc_evp st;
                 (n, out, cs) = decrypt_data m ok evp buf (main_decoder (coders c)) (coders c); c = c\<lparr>coders := cs\<rparr> in
          case out of None \<Rightarrow> (None, c, st) | Some out \<Rightarrow> (if n = 0 then None else Some (take n out), c, st))"

definition handle_type_req_work_conn :: "cenv \<Rightarrow> ctl \<Rightarrow> mux \<Rightarrow> (ctl \<times> mux) option" where
  "handle_type_req_work_conn env c st = do { (c, st) \<leftarrow> go_online env c st; new_client_connect env c st }"

definition get_proxy_service :: "cenv \<Rightarrow> string \<Rightarrow> proxy_conf option" where
  "get_proxy_service env name = find (\<lambda>ps. pf_name ps = Some name) (c_services env)"

text \<open>1 is a response that is refused.\<close>

definition proxy_service_resp_raw :: "cenv \<Rightarrow> new_proxy_response \<Rightarrow> int" where
  "proxy_service_resp_raw env npr =
     (if (case npr_error npr of None \<Rightarrow> False | Some e \<Rightarrow> length e > 2) then 1
      else if npr_proxy_name npr = [] then 1
      else case get_proxy_service env (npr_proxy_name npr) of
        None \<Rightarrow> 1
      | Some ps \<Rightarrow> if ps_proxy_type ps = None then 1 else 0)"

text \<open>The result of the check is dropped.\<close>

definition handle_type_new_proxy_resp :: "cenv \<Rightarrow> bytes \<Rightarrow> mux \<Rightarrow> mux option" where
  "handle_type_new_proxy_resp env b st = do {
     (json, st) \<leftarrow> msg_data_to_json b st;
     (case json of
        None \<Rightarrow> Some st
      | Some s \<Rightarrow> do {
          npr \<leftarrow> new_proxy_resp_unmarshal (c_lib env) (c_mem env (tick st) '''') (cf_user (c_auth env)) s;
          (case npr of None \<Rightarrow> Some st | Some r \<Rightarrow> (if proxy_service_resp_raw env r = 0 then Some st else Some st))
        })
   }"

definition is_service_available :: "proxy_conf \<Rightarrow> int \<Rightarrow> bool" where
  "is_service_available ps hour =
     (if pf_start_time ps = 0 \<and> pf_end_time ps = 0 then True
      else if pf_end_time ps < pf_start_time ps then hour \<ge> pf_start_time ps \<or> hour < pf_end_time ps
      else hour \<ge> pf_start_time ps \<and> hour < pf_end_time ps)"

definition set_client_work_start :: "nat \<Rightarrow> mux \<Rightarrow> mux option" where
  "set_client_work_start a st = do {
     pc \<leftarrow> heap st a;
     if pc_ps pc = None then Some st else put_pc a (pc\<lparr>pc_work_started := True\<rparr>) st
   }"

text \<open>What follows the message is payload for the service; \<open>None\<close> as the first result is the return without
  memory for it.\<close>

definition keep_tail :: "bytes \<Rightarrow> nat \<Rightarrow> mux \<Rightarrow> (bool \<times> mux) option" where
  "keep_tail b a st =
     (let tail = drop (9 + nat (data_len b)) b in
      if tail = [] then Some (True, st)
      else let (ok, st) = alloc st in
        if \<not> ok then Some (False, st)
        else do { st \<leftarrow> upd_pc a (\<lambda>pc. pc\<lparr>pc_data_tail := tail\<rparr>) st; Some (True, st) })"

definition start_client :: "cenv \<Rightarrow> proxy_conf \<Rightarrow> bytes \<Rightarrow> nat \<Rightarrow> mux \<Rightarrow> mux option" where
  "start_client env ps b a st = do {
     st \<leftarrow> upd_pc a (\<lambda>pc. pc\<lparr>pc_ps := Some (proxy_service.truncate ps)\<rparr>) st;
     (ok, st) \<leftarrow> keep_tail b a st;
     if \<not> ok \<or> ps_proxy_type ps = Some ''xtcp'' then Some st
     else do {
       (st, cbs) \<leftarrow> start_xfrp_tunnel (c_env env) a st;
       set_client_work_start a st
     }
   }"

definition handle_type_start_work_conn :: "cenv \<Rightarrow> bytes \<Rightarrow> nat option \<Rightarrow> mux \<Rightarrow> mux option" where
  "handle_type_start_work_conn env b ctx st = do {
     (json, st) \<leftarrow> msg_data_to_json b st;
     (case json of
        None \<Rightarrow> Some st
      | Some s \<Rightarrow>
          (case start_work_conn_resp_unmarshal (c_lib env) (c_mem env (tick st) '''') (cf_user (c_auth env)) s of
             None \<Rightarrow> Some st
           | Some name \<Rightarrow>
               (case (get_proxy_service env name, ctx) of
                  (Some ps, Some a) \<Rightarrow>
                    if is_service_available ps (c_hour env (tick st)) then start_client env ps b a st else Some st
                | _ \<Rightarrow> Some st)))
   }"

text \<open>The stub \<open>handle_udp_packet\<close> frees the packet, and so does the caller after it.\<close>

definition handle_type_udp_packet :: "cenv \<Rightarrow> bytes \<Rightarrow> nat option \<Rightarrow> mux \<Rightarrow> mux option" where
  "handle_type_udp_packet env b ctx st = do {
     (json, st) \<leftarrow> msg_data_to_json b st;
     (case json of
        None \<Rightarrow> Some st
      | Some s \<Rightarrow> do {
          udp \<leftarrow> udp_packet_unmarshal (c_lib env) (c_mem env (tick st)) s;
          (case (udp, ctx) of
             (Some p, Some a) \<Rightarrow> do { pc \<leftarrow> heap st a; if pc_ps pc = None then Some st else None }
           | _ \<Rightarrow> Some st)
        })
   }"

text \<open>The messages for modules that are not compiled in are copied and dropped.\<close>

definition drop_message :: "bytes \<Rightarrow> mux \<Rightarrow> mux option" where
  "drop_message b st = do { (json, st) \<leftarrow> msg_data_to_json b st; Some st }"

definition without_ctl :: "ctl \<Rightarrow> mux option \<Rightarrow> (ctl \<times> mux) option" where
  "without_ctl c x = map_option (Pair c) x"

text \<open>The dispatch of one message; the log of a message that is too short still reads its length.\<close>

definition dispatch_msg :: "cenv \<Rightarrow> bytes \<Rightarrow> nat option \<Rightarrow> ctl \<Rightarrow> mux \<Rightarrow> (ctl \<times> mux) option" where
  "dispatch_msg env b ctx c st =
     (if length b < 9 then None
      else if data_len b > int (length b) - 9 then Some (c, st)
      else let t = b ! 0 in
      if t = msg_type_code TypeReqWorkConn then handle_type_req_work_conn env c st
      else if t = msg_type_code TypeNewProxyResp then without_ctl c (handle_type_new_proxy_resp env b st)
      else if t = msg_type_code TypeStartWorkConn then without_ctl c (handle_type_start_work_conn env b ctx st)
      else if t = msg_type_code TypeUDPPacket then without_ctl c (handle_type_udp_packet env b ctx st)
      else if t = msg_type_code TypeNewVisitorConnResp \<or> t = msg_type_code TypeNatHoleResp
      then without_ctl c (drop_message b st)
      else if t = msg_type_code TypePong then Some (c\<lparr>pong_time := c_time env (tick st)\<rparr>, st)
      else Some (c, st))"

definition handle_control_work :: "cenv \<Rightarrow> bytes \<Rightarrow> nat option \<Rightarrow> ctl \<Rightarrow> mux \<Rightarrow> (ctl \<times> mux) option" where
  "handle_control_work env buf ctx c st =
     (if ctx = None then
        (case handle_enc_msg env buf c st of
           (None, c, st) \<Rightarrow> Some (c, st)
         | (Some cmd, c, st) \<Rightarrow> dispatch_msg env cmd ctx c st)
      else dispatch_msg env buf ctx c st)"

definition handle_frps_msg :: "cenv \<Rightarrow> ctl handle_data_fn" where
  "handle_frps_msg env buf ctx c st =
     (if buf = [] then Some (c, st)
      else if \<not> is_login c then handle_login_response env buf c st
      else handle_control_work env buf ctx c st)"

section \<open>Reading without multiplexing\<close>

text \<open>The buffer is contiguous, so the message is handled in place. Before login only the response is taken out of
  the buffer, if it is complete.\<close>

definition drain_len :: "bytes \<Rightarrow> ctl \<Rightarrow> nat" where
  "drain_len input c =
     (let len = int (length input); total = data_len input + 9 in
      if \<not> is_login c \<and> len > 9 \<and> input ! 0 = msg_type_code TypeLoginResp \<and> total > 0 \<and> total \<le> len then nat total else length input)"

definition handle_non_mux :: "cenv \<Rightarrow> bytes \<Rightarrow> nat option \<Rightarrow> ctl \<Rightarrow> mux \<Rightarrow> (bytes \<times> ctl \<times> mux) option" where
  "handle_non_mux env input ctx c st = do {
     (c', st) \<leftarrow> handle_frps_msg env input ctx c st;
     Some (drop (drain_len input c) input, c', st)
   }"

text \<open>\<open>recv_cb\<close>: after the login response the loop runs once more, on what is left; then the login is no longer
  new and it ends.\<close>

definition recv_cb_plain :: "cenv \<Rightarrow> bytes \<Rightarrow> nat option \<Rightarrow> ctl \<Rightarrow> mux \<Rightarrow> (bytes \<times> ctl \<times> mux) option" where
  "recv_cb_plain env input ctx c st =
     (if input = [] then Some (input, c, st)
      else do {
        (input, c', st) \<leftarrow> handle_non_mux env input ctx c st;
        if \<not> is_login c \<and> is_login c' \<and> input \<noteq> [] then handle_non_mux env input ctx c' st
        else Some (input, c', st)
      })"

section \<open>Reconnection\<close>

definition reconnect_backoff_seconds :: "int \<Rightarrow> int" where
  "reconnect_backoff_seconds retry_count =
     (let shift = retry_count - 1; shift = (if shift < 0 then 0 else shift); shift = (if shift > 5 then 5 else shift);
          delay = 2 * 2 ^ nat shift in
      if delay > 60 then 60 else delay)"

text \<open>Everything that belongs to the connection is given up, its timers included; the stream of the control
  connection starts anew.\<close>

definition clear_main_control :: "ctl \<Rightarrow> mux \<Rightarrow> (rx \<times> ctl \<times> mux) option" where
  "clear_main_control c st =
     (let c = c\<lparr>ticker_ping := None, reconnect_timer := None, xfrpc_status := False, is_login := False, pong_time := 0,
            reports := reports c @ [XFRPC_STATE_RECONNECTING]\<rparr>;
          (rx, st) = reset_tcp_mux st in do {
        st \<leftarrow> clear_all_proxy_client st;
        (let c = c\<lparr>coders := free_crypto_resources (coders c), bev_enabled := False\<rparr>; st = st\<lparr>ctl_up := False, ctl_in := [], ctl_out := []\<rparr> in
         if conf_tcp_mux st \<noteq> None \<and> conf_tcp_mux st \<noteq> Some 0 then
           (let (sid, st) = get_next_session_id st in do {
              st \<leftarrow> init_tmux_stream CtlLoc sid TMUX_INIT st;
              Some (rx, c, st)
            })
         else Some (rx, c, st))
      })"

text \<open>The sequence that asks for a new connection: the event loop is left and \<open>run_control\<close> connects again.\<close>

definition request_reconnect :: "cenv \<Rightarrow> ctl \<Rightarrow> mux \<Rightarrow> (rx \<times> ctl \<times> mux) option" where
  "request_reconnect env c st = do {
     (rx, c, st) \<leftarrow> clear_main_control c (reset_session_id st);
     Some (rx, c\<lparr>reconnect_requested := True, loop_break := loop_break c \<or> c_base env\<rparr>, st)
   }"

definition reconnect_timer_cb :: "cenv \<Rightarrow> ctl \<Rightarrow> mux \<Rightarrow> (rx \<times> ctl \<times> mux) option" where
  "reconnect_timer_cb env c st = request_reconnect env c st"

definition check_server_timeout :: "cenv \<Rightarrow> int \<Rightarrow> rx \<Rightarrow> ctl \<Rightarrow> mux \<Rightarrow> (rx \<times> ctl \<times> mux) option" where
  "check_server_timeout env now rx c st =
     (if pong_time c = 0 then Some (rx, c, st)
      else if sint (word_of_int (now - pong_time c) :: u32) > c_heartbeat_timeout env then request_reconnect env c st
      else Some (rx, c, st))"

text \<open>\<open>event_add\<close> on a timer that exists arms it; there is an event base whenever a timer callback runs.\<close>

definition schedule_heartbeat_timer :: "cenv \<Rightarrow> ctl \<Rightarrow> ctl" where
  "schedule_heartbeat_timer env c =
     (case ticker_ping c of None \<Rightarrow> c | Some t \<Rightarrow> c\<lparr>ticker_ping := Some (Some (c_heartbeat_interval env))\<rparr>)"

definition heartbeat_handler :: "cenv \<Rightarrow> rx \<Rightarrow> ctl \<Rightarrow> mux \<Rightarrow> (rx \<times> ctl \<times> mux) option" where
  "heartbeat_handler env rx c st = do {
     (c, st) \<leftarrow> (if xfrpc_status c then ping env c st else Some (c, st));
     (let c = schedule_heartbeat_timer env c; now = c_time env (tick st) in
      if now = -1 then Some (rx, c, st) else check_server_timeout env now rx c st)
   }"

text \<open>The first heartbeat comes after a second.\<close>

definition init_ping_ticker :: "cenv \<Rightarrow> ctl \<Rightarrow> mux \<Rightarrow> bool \<times> ctl \<times> mux" where
  "init_ping_ticker env c st =
     (if \<not> c_base env then (False, c, st)
      else let (ok, st) = alloc st in (ok, if ok then c\<lparr>ticker_ping := Some None\<rparr> else c, st))"

definition keep_control_alive :: "cenv \<Rightarrow> ctl \<Rightarrow> mux \<Rightarrow> ctl \<times> mux" where
  "keep_control_alive env c st =
     (let (ok, c, st) = init_ping_ticker env c st; now = c_time env (tick st) in
      if \<not> ok then (c, st)
      else if now = -1 then (c\<lparr>pong_time := now, ticker_ping := None\<rparr>, st)
      else (c\<lparr>pong_time := now, ticker_ping := Some (Some 1)\<rparr>, st))"

definition handle_connection_success :: "cenv \<Rightarrow> ctl \<Rightarrow> mux \<Rightarrow> (ctl \<times> mux) option" where
  "handle_connection_success env c st = do {
     v \<leftarrow> conf_tcp_mux st;
     st \<leftarrow> (if v \<noteq> 0 then send_window_update CtlLoc 0 st else Some st);
     (c, st) \<leftarrow> login env c st;
     Some (keep_control_alive env c st)
   }"

text \<open>A pending timer is replaced; without memory for a new one the reconnection is asked for at once.\<close>

definition handle_connection_failure :: "cenv \<Rightarrow> rx \<Rightarrow> ctl \<Rightarrow> mux \<Rightarrow> (rx \<times> ctl \<times> mux) option" where
  "handle_connection_failure env rx c st =
     (let c = c\<lparr>retry_times := retry_times c + 1, reconnect_timer := None\<rparr>; (ok, st) = alloc st in
      if ok then
        Some (rx, c\<lparr>reconnect_timer := Some (if c_base env then Some (reconnect_backoff_seconds (retry_times c)) else None)\<rparr>, st)
      else request_reconnect env c st)"

text \<open>A time-out, \<open>Bev_other\<close>, is ignored.\<close>

definition connect_event_cb :: "cenv \<Rightarrow> bev_event \<Rightarrow> rx \<Rightarrow> ctl \<Rightarrow> mux \<Rightarrow> (rx \<times> ctl \<times> mux) option" where
  "connect_event_cb env what rx c st =
     (case what of
        Bev_gone \<Rightarrow> handle_connection_failure env rx (c\<lparr>bev_enabled := False\<rparr>) st
      | Bev_connected \<Rightarrow> do {
          (c, st) \<leftarrow> handle_connection_success env (c\<lparr>retry_times := 0\<rparr>) st;
          Some (rx, c, st)
        }
      | Bev_other \<Rightarrow> Some (rx, c, st))"

section \<open>Connecting\<close>

text \<open>The QUIC transport is a stub that always fails. The result is 0 or -1.\<close>

definition init_server_connection :: "cenv \<Rightarrow> mux \<Rightarrow> int \<times> mux" where
  "init_server_connection env st =
     (if \<not> c_base env then (-1, st)
      else let st = st\<lparr>ctl_up := False, ctl_in := [], ctl_out := []\<rparr> in
        if e_quic (c_env env) then (-1, st)
        else case connect_server (c_env env) (Some (fst (e_server (c_env env)))) (snd (e_server (c_env env))) st of
          (None, st) \<Rightarrow> (-1, st)
        | (Some bev, st) \<Rightarrow> (0, st\<lparr>ctl_up := True\<rparr>))"

definition setup_server_callbacks :: "ctl \<Rightarrow> mux \<Rightarrow> int \<times> ctl" where
  "setup_server_callbacks c st = (if \<not> ctl_up st then (-1, c) else (0, c\<lparr>bev_enabled := True\<rparr>))"

definition start_base_connect :: "cenv \<Rightarrow> ctl \<Rightarrow> mux \<Rightarrow> ctl \<times> mux" where
  "start_base_connect env c st =
     (case init_server_connection env st of
        (rc, st) \<Rightarrow>
          if rc \<noteq> 0 then (c\<lparr>fatal := True\<rparr>, st)
          else case setup_server_callbacks c st of
            (rc, c) \<Rightarrow> if rc \<noteq> 0 then (c\<lparr>fatal := True\<rparr>, st\<lparr>ctl_up := False\<rparr>) else (c, st))"

text \<open>One turn of \<open>run_control\<close> up to the event loop, which forgets that it was asked to return.\<close>

definition run_control_turn :: "cenv \<Rightarrow> ctl \<Rightarrow> mux \<Rightarrow> ctl \<times> mux" where
  "run_control_turn env c st =
     (let (c, st) = start_base_connect env (c\<lparr>reconnect_requested := False\<rparr>) st in (c\<lparr>loop_break := False\<rparr>, st))"

text \<open>The first initialisation: the result tells whether there is a control structure. The DNS base is a stub
  that cannot fail.\<close>

definition init_main_control :: "cenv \<Rightarrow> ctl \<Rightarrow> mux \<Rightarrow> (bool \<times> ctl \<times> mux) option" where
  "init_main_control env c st =
     (let (ok, st) = alloc st; (base, st) = alloc st in
      if \<not> ok \<or> \<not> base then Some (False, c\<lparr>fatal := True\<rparr>, st)
      else do {
        v \<leftarrow> conf_tcp_mux st;
        st \<leftarrow> (if v \<noteq> 0 then let (sid, st) = get_next_session_id st in init_tmux_stream CtlLoc sid TMUX_INIT st else Some st);
        if c_tls_enable env \<and> \<not> c_tls_init env then Some (False, c\<lparr>fatal := True\<rparr>, st) else Some (True, c, st)
      })"

section \<open>Work connections of their own\<close>

text \<open>Without multiplexing a client has its own connection to the server. Its removal does not free that connection,
  so it is freed here.\<close>

definition handle_client_error :: "nat \<Rightarrow> mux \<Rightarrow> mux option" where
  "handle_client_error a st = do { pc \<leftarrow> heap st a; del_proxy_client_by_stream_id (pc_stream_id pc) st }"

definition client_start_event_cb :: "cenv \<Rightarrow> bev_event \<Rightarrow> nat \<Rightarrow> ctl \<Rightarrow> mux \<Rightarrow> (ctl \<times> mux) option" where
  "client_start_event_cb env what a c st =
     (case what of
        Bev_gone \<Rightarrow> without_ctl c (handle_client_error a st)
      | Bev_connected \<Rightarrow> handle_client_connected env a c st
      | Bev_other \<Rightarrow> Some (c, st))"

end
