(* ===== verification/Safety.thy ===== *)
theory Safety
  imports Client
begin

text \<open>
  No undefined behaviour in the proxy handlers: the lemmas that every handler of a
  proxy client is defined (\<open>returns\<close>) in every safe state, whatever fails and whatever arrives, and leaves a safe
  state. The locale \<open>stream_handler\<close> is the contract the multiplexer relies on when it hands a payload
  to a handler; it is interpreted on the SOCKS5 and the protocol check handlers.
\<close>

section \<open>Safe states\<close>

text \<open>The buffers of a client are consistent, and its writing context is one.\<close>

definition client_ok :: "proxy_client \<Rightarrow> bool" where
  "client_ok pc \<longleftrightarrow> buf_ok (pc_socks5_buf pc) \<and> buf_ok (pc_xdpi_buf pc) \<and>
     (\<forall>ctx. pc_encrypt_ctx pc = Some ctx \<longrightarrow> cc_is_writer ctx)"

definition safe :: "mux \<Rightarrow> bool" where
  "safe st \<longleftrightarrow> mux_ok st \<and> (\<forall>a pc. heap st a = Some pc \<longrightarrow> client_ok pc) \<and> conf_tcp_mux st \<noteq> None"

text \<open>Between two states the tables, the set of live clients and the environment are the same.\<close>

definition same_tables :: "mux \<Rightarrow> mux \<Rightarrow> bool" where
  "same_tables st st' \<longleftrightarrow> all_stream st' = all_stream st \<and> all_pc st' = all_pc st \<and> next_addr st' = next_addr st \<and>
     dom (heap st') = dom (heap st) \<and> cur_stream st' = cur_stream st \<and> ctl_in st' = ctl_in st \<and> ctl_up st' = ctl_up st \<and>
     conf_tcp_mux st' = conf_tcp_mux st"

definition evolves :: "mux \<Rightarrow> mux \<Rightarrow> bool" where
  "evolves st st' \<longleftrightarrow> safe st' \<and> same_tables st st'"

lemma safe_tick [simp]: "safe (st\<lparr>tick := n\<rparr>) = safe st"
  by (simp add: safe_def)

lemma evolves_refl [simp]: "evolves st st \<longleftrightarrow> safe st"
  by (simp add: evolves_def same_tables_def)

lemma evolves_tick [simp]: "evolves st0 (st\<lparr>tick := n\<rparr>) = evolves st0 st" "evolves (st\<lparr>tick := n\<rparr>) st' = evolves st st'"
  by (simp_all add: evolves_def same_tables_def)

lemma evolves_trans: "evolves a b \<Longrightarrow> evolves b c \<Longrightarrow> evolves a c"
  by (simp add: evolves_def same_tables_def)

lemma evolves_safe: "evolves a b \<Longrightarrow> safe b"
  by (simp add: evolves_def)

lemma evolves_alive: "evolves st st' \<Longrightarrow> heap st a = Some pc \<Longrightarrow> \<exists>pc'. heap st' a = Some pc'"
  by (auto simp: evolves_def same_tables_def)

lemma alloc_eq: "alloc st = (\<not> oom st (tick st), st\<lparr>tick := Suc (tick st)\<rparr>)"
  by (rule alloc_def)

lemma buf_add_cases:
  obtains out rc n where "buf_add b d st = (rc, out, st\<lparr>tick := n\<rparr>)"
  by (cases "oom st (tick st)") (simp_all add: buf_add_def alloc_def)

lemma buf_move_cases:
  obtains out rest n where "buf_move b d st = (out, rest, st\<lparr>tick := n\<rparr>)"
proof -
  have "\<exists>out rest n. buf_move b d st = (out, rest, st\<lparr>tick := n\<rparr>)"
  proof (cases "d = []")
    case True
    then show ?thesis by (intro exI [of _ b] exI [of _ "[]"] exI [of _ "tick st"]) (simp add: buf_move_def)
  next
    case False
    then show ?thesis by (auto simp: buf_move_def alloc_def)
  qed
  with that show thesis by blast
qed

lemma zc_transfer_cases:
  obtains k src' out n where "evbuffer_zc_transfer src dst len st = (k, src', out, st\<lparr>tick := n\<rparr>)" "k \<le> unat len"
proof (cases "len = 0 \<or> min (unat len) (length src) = 0")
  case True
  then show thesis by (intro that [of 0 src dst "tick st"]) (auto simp: evbuffer_zc_transfer_def)
next
  case False
  let ?k = "min (unat len) (length src)"
  show thesis
  proof (cases "oom st (tick st)")
    case True
    with False show thesis by (intro that [of 0 src dst "Suc (tick st)"]) (auto simp: evbuffer_zc_transfer_def alloc_def Let_def min_def split: if_splits)
  next
    case mem: False
    with False show thesis
      by (intro that [of ?k "drop ?k src" "dst @ take ?k src" "Suc (tick st)"]) (auto simp: evbuffer_zc_transfer_def alloc_def Let_def min_def split: if_splits)
  qed
qed

lemma evolves_strm:
  assumes "evolves st st'" "get_strm st l = Some s"
  obtains s' where "get_strm st' l = Some s'"
proof -
  have "dom (heap st') = dom (heap st)" using assms(1) by (simp add: evolves_def same_tables_def)
  then have "(heap st' a = None) = (heap st a = None)" for a by (auto simp: domIff)
  then have "get_strm st' l \<noteq> None" using assms(2) by (cases l) (auto simp: get_strm_def)
  with that show thesis by auto
qed

text \<open>Replacing a client by one with the same stream and consistent buffers.\<close>

lemma put_safe:
  assumes "evolves st0 st" "heap st a = Some pc" "pc_stream pc' = pc_stream pc" "pc_stream_id pc' = pc_stream_id pc" "client_ok pc'"
  shows "returns (\<lambda>st'. evolves st0 st' \<and> heap st' a = Some pc') (put_pc a pc' st)"
proof -
  have ok: "mux_ok st" using assms(1) by (simp add: evolves_def safe_def)
  note p = put_pc_ok [OF ok assms(2-4)]
  have "evolves st0 (st\<lparr>heap := (heap st)(a \<mapsto> pc')\<rparr>)"
    using assms p(2) unfolding evolves_def safe_def same_tables_def by auto
  then show ?thesis using p(1) by (simp add: returns_def)
qed

lemma client_ok_live: "safe st \<Longrightarrow> heap st a = Some pc \<Longrightarrow> client_ok pc"
  by (simp add: safe_def)

lemma evolves_client_ok: "evolves st0 st \<Longrightarrow> heap st a = Some pc \<Longrightarrow> client_ok pc"
  by (simp add: evolves_def safe_def)

text \<open>Only the streams change.\<close>

lemma only_streams_evolves:
  assumes "safe st" "only_streams st st'" "mux_ok st'"
  shows "evolves st st'"
proof -
  have r: "rel_option (\<lambda>pc pc'. \<exists>s. pc' = pc\<lparr>pc_stream := s\<rparr>) (heap st a) (heap st' a)" for a
    using assms(2) unfolding only_streams_def by blast
  have d: "a \<in> dom (heap st') \<longleftrightarrow> a \<in> dom (heap st)" for a using r [of a] by (auto elim: option.rel_cases)
  have c: "client_ok pc'" if "heap st' a = Some pc'" for a pc'
    using r [of a] that assms(1) by (auto simp: safe_def client_ok_def elim!: option.rel_cases)
  show ?thesis using assms d c by (auto simp: evolves_def safe_def same_tables_def only_streams_def)
qed

text \<open>A write is defined for a buffer of any length.\<close>

lemma frame_size_le: "frame_size n w \<le> w"
  by (auto simp: frame_size_def Let_def not_less)

lemma write_total:
  assumes ok: "mux_ok st" and s: "get_strm st l = Some s"
  obtains w src' st' where "tmux_stream_write src l st = Some (w, src', st')" "mux_ok st'"
proof -
  obtain f s1 where f: "get_send_flags s = (f, s1)" by force
  note k = get_send_flags_keeps [OF f]
  have sok: "strm_ok s1" using mux_ok_strm [OF ok s] k by simp
  have id1: "s_id s1 = s_id s" using k by simp
  obtain st1 where st1: "put_strm l s1 st = Some st1" "mux_ok st1" "get_strm st1 l = Some s1"
    by (rule put_strm_ok [OF ok s id1 sok])
  let ?n = "frame_size (of_nat (length src)) (s_send_window s)"
  obtain b2 st2 where c2: "ctl_write (header_bytes (tcp_mux_encode TMUX_DATA f (s_id s) ?n)) st1 = (b2, st2)" by force
  obtain b3 st3 where c3: "ctl_write (take (unat ?n) src) st2 = (b3, st3)" by force
  have so: "same_objects st1 st2" "same_objects st2 st3" using ctl_write_same c2 c3 by (metis snd_conv)+
  have ok23: "mux_ok st2" "mux_ok st3" "get_strm st3 l = Some s1"
    using st1 same_objects_mux_ok [OF so(1)] same_objects_mux_ok [OF so(2)] same_objects_get_strm [OF so(1)]
      same_objects_get_strm [OF so(2)] by simp_all
  have "s_send_window s - ?n \<le> s_send_window s" by (rule word_sub_le [OF frame_size_le])
  then have sok4: "strm_ok (s1\<lparr>s_send_window := s_send_window s - ?n\<rparr>)" using sok k by (auto simp: strm_ok_def)
  obtain st4 where st4: "put_strm l (s1\<lparr>s_send_window := s_send_window s - ?n\<rparr>) st3 = Some st4" "mux_ok st4"
    by (rule put_strm_ok [OF ok23(2,3) _ sok4]) simp
  have "\<exists>w src' st'. tmux_stream_write src l st = Some (w, src', st') \<and> mux_ok st'"
    using s f st1(1,2) ok23 st4 ok k c2 c3 by (simp add: tmux_stream_write_def Let_def del: get_send_flags.simps)
  with that show thesis by blast
qed

lemma write_safe:
  assumes "evolves st0 st" "get_strm st l = Some s"
  shows "returns (\<lambda>(w, src', st'). evolves st0 st') (tmux_stream_write src l st)"
proof -
  have s: "safe st" "mux_ok st" using assms(1) by (auto simp: evolves_def safe_def)
  obtain w src' st' where w: "tmux_stream_write src l st = Some (w, src', st')" "mux_ok st'"
    using write_total [OF s(2) assms(2)] .
  from only_streams_evolves [OF s(1) write_only [OF w(1)] w(2)] assms(1) w(1) evolves_trans show ?thesis
    by (auto simp: returns_def)
qed

lemma live_strm: "heap st a = Some pc \<Longrightarrow> get_strm st (PcLoc a) = Some (pc_stream pc)"
  by (simp add: get_strm_def)

lemma write_all_safe:
  assumes "evolves st0 st" "get_strm st l = Some s"
  shows "returns (\<lambda>(w, src', st'). evolves st0 st') (mux_write_all l src st)"
  using assms
proof (induction "length src" arbitrary: src st s rule: less_induct)
  case less
  show ?case
  proof (cases "src = []")
    case True
    with less.prems show ?thesis by (simp add: mux_write_all.simps)
  next
    case False
    have safe: "safe st" "mux_ok st" using less.prems(1) by (auto simp: evolves_def safe_def)
    obtain w src' st' where w: "tmux_stream_write src l st = Some (w, src', st')" "mux_ok st'"
      using write_total [OF safe(2) less.prems(2)] .
    have e: "evolves st0 st'" using only_streams_evolves [OF safe(1) write_only [OF w(1)] w(2)] less.prems(1) evolves_trans by blast
    show ?thesis
    proof (cases "w \<le> 0")
      case True
      then show ?thesis using False w e by (subst mux_write_all.simps) simp
    next
      case pos: False
      then have lt: "length src' < length src" using write_shrinks [OF w(1)] by simp
      obtain s' where s': "get_strm st' l = Some s'"
        using evolves_strm [OF only_streams_evolves [OF safe(1) write_only [OF w(1)] w(2)] less.prems(2)] .
      have "mux_write_all l src st = mux_write_all l src' st'" using False w(1) pos by (subst mux_write_all.simps) simp
      with less.hyps [OF lt e s'] show ?thesis by simp
    qed
  qed
qed

lemma reply_safe:
  assumes "evolves st0 st" "heap st a = Some pc"
  shows "returns (\<lambda>st'. evolves st0 st' \<and> (\<exists>pc'. heap st' a = Some pc' \<and> pc_socks5_buf pc' = pc_socks5_buf pc)) (proxy_reply resp a st)"
proof -
  obtain v where v: "conf_tcp_mux st = Some v" using assms(1) by (auto simp: evolves_def safe_def)
  consider (own) out where "v = 0" "pc_ctl_out pc = Some out" | (none) "v = 0" "pc_ctl_out pc = None" | (mux) "v \<noteq> 0" by blast
  then show ?thesis
  proof cases
    case none
    with v assms show ?thesis by (simp add: proxy_reply_def)
  next
    case own
    obtain rc o2 n where b: "buf_add out resp st = (rc, o2, st\<lparr>tick := n\<rparr>)" by (rule buf_add_cases)
    let ?pc = "pc\<lparr>pc_ctl_out := Some o2\<rparr>"
    have "returns (\<lambda>st'. evolves st0 st' \<and> heap st' a = Some ?pc) (put_pc a ?pc (st\<lparr>tick := n\<rparr>))"
      by (rule put_safe) (use assms evolves_client_ok [OF assms(1,2)] in \<open>auto simp: client_ok_def\<close>)
    then show ?thesis using own v assms(2) b by (auto simp: proxy_reply_def elim: returns_mono)
  next
    case mux
    obtain rc tmp n where b: "buf_add [] resp (st\<lparr>tick := Suc (tick st)\<rparr>) = (rc, tmp, st\<lparr>tick := Suc (tick st), tick := n\<rparr>)" by (rule buf_add_cases)
    have sf: "safe st" using assms(1) by (rule evolves_safe)
    have ok: "mux_ok (st\<lparr>tick := n\<rparr>)" "get_strm (st\<lparr>tick := n\<rparr>) (PcLoc a) = Some (pc_stream pc)"
      using sf assms(2) by (auto simp: safe_def get_strm_def)
    obtain w src' st' where w: "tmux_stream_write tmp (PcLoc a) (st\<lparr>tick := n\<rparr>) = Some (w, src', st')" "mux_ok st'"
      using write_total [OF ok] .
    have o: "only_streams (st\<lparr>tick := n\<rparr>) st'" by (rule write_only [OF w(1)])
    then have "rel_option (\<lambda>pc pc'. \<exists>s. pc' = pc\<lparr>pc_stream := s\<rparr>) (heap st a) (heap st' a)" by (simp add: only_streams_def)
    then obtain pc' where "heap st' a = Some pc'" "pc_socks5_buf pc' = pc_socks5_buf pc" using assms(2) by (auto elim: option.rel_cases)
    moreover have "evolves st0 st'" using only_streams_evolves [OF _ o w(2)] sf assms(1) evolves_trans by auto
    ultimately show ?thesis using mux v assms b w(1) by (simp add: proxy_reply_def alloc_def)
  qed
qed

section \<open>The SOCKS5 handler\<close>

text \<open>Making room and reading, whatever the allocation does.\<close>

lemma ensure_put_safe:
  assumes gb: "buf_ok b0" and fits: "length (content b0) + unat len \<le> 2 ^ 31" and init: "unat init = 2 ^ k" "k \<le> 30"
    and c: "length c \<le> unat len"
  obtains (full) n where "buf_ensure init b0 (gb_len b0 + len) st = Some (-1, b0, st\<lparr>tick := n\<rparr>)"
  | (room) b b' n where "buf_ensure init b0 (gb_len b0 + len) st = Some (0, b, st\<lparr>tick := n\<rparr>)"
      "gb_put b c = Some b'" "buf_ok b'" "content b' = content b0 @ c"
proof -
  have need: "unat (gb_len b0 + len) = length (content b0) + unat len"
    using fits buf_ok_gb [OF gb] unat_len_plus [of "gb_len b0" "unat len"] by (simp add: length_content)
  have put: "\<exists>b'. gb_put b c = Some b' \<and> buf_ok b' \<and> content b' = content b0 @ c"
    if that': "buf_ok b" "content b = content b0" "gb_len b0 + len \<le> gb_cap b" for b
  proof -
    have "length (content b) + length c \<le> unat (gb_cap b)" "length (content b) + length c \<le> 2 ^ 31"
      using that' need c fits by (simp_all add: le_u32_iff)
    then obtain b' where b': "gb_put b c = Some b'" "gb_ok b'" "content b' = content b @ c" by (rule gb_put_correct [OF buf_ok_gb [OF that'(1)]])
    moreover have "buf_ok b'" using b'(1,2) that'(1) by (auto simp: gb_put_def buf_ok_def split: bind_splits)
    ultimately show ?thesis using that'(2) by auto
  qed
  have n31: "unat (gb_len b0 + len) \<le> 2 ^ 31" using need fits by simp
  show thesis
  proof (cases rule: buf_ensure_ok [OF gb n31 init, of st])
    case (1 b)
    from put [OF 1(2-4)] 1(1) show thesis by (elim exE conjE) (rule room [of b "tick st"], auto)
  next
    case (2 b)
    from put [OF 2(2-4)] 2(1) show thesis by (elim exE conjE) (rule room [of b "Suc (tick st)"], auto simp: alloc_def)
  next
    case 3
    then show thesis by (intro full [of "Suc (tick st)"]) (simp add: alloc_def)
  qed
qed

lemma staged_bound: "buf_ok b \<Longrightarrow> length (content b) \<le> 2 ^ 30"
  unfolding buf_ok_def by (auto simp: length_content le_u32_iff gb_ok_def intro: order_trans)

definition flow_safe :: "mux \<Rightarrow> nat \<Rightarrow> flow \<Rightarrow> bool" where
  "flow_safe st0 a f =
     (case f of Break st' \<Rightarrow> evolves st0 st' | Continue st' \<Rightarrow> evolves st0 st' \<and> (\<exists>pc'. heap st' a = Some pc' \<and> pc_state pc' = 1))"

definition break_safe :: "mux \<Rightarrow> flow \<Rightarrow> bool" where
  "break_safe st0 f \<longleftrightarrow> (\<exists>st'. f = Break st' \<and> evolves st0 st')"

lemma break_flow: "returns (break_safe st0) x \<Longrightarrow> returns (flow_safe st0 a) x"
  by (erule returns_mono) (auto simp: break_safe_def flow_safe_def)

lemma put_break:
  assumes "evolves st0 st" "heap st a = Some pc" "pc_stream pc' = pc_stream pc" "pc_stream_id pc' = pc_stream_id pc" "client_ok pc'"
  shows "returns (break_safe st0) (do { st \<leftarrow> put_pc a pc' st; Some (Break st) })"
  by (rule returns_bind [OF put_safe [OF assms]]) (simp add: break_safe_def)

lemma greeting_safe:
  assumes e: "evolves st0 st" and h: "heap st a = Some pc"
  shows "returns (flow_safe st0 a) (socks5_greeting a st)"
proof -
  let ?buf = "content (pc_socks5_buf pc)" and ?n = "2 + unat (content (pc_socks5_buf pc) ! 1)"
  have ok: "client_ok pc" using e h by (rule evolves_client_ok)
  consider (short) "length ?buf < 3" | (bad) "3 \<le> length ?buf" "?buf ! 0 \<noteq> 5" | (good) "3 \<le> length ?buf" "?buf ! 0 = 5" by linarith
  then show ?thesis
  proof cases
    case short
    then show ?thesis using h e by (simp add: socks5_greeting_def flow_safe_def)
  next
    case bad
    have "returns (flow_safe st0 a) (do { st \<leftarrow> put_pc a (pc\<lparr>pc_state := 6\<rparr>) st; Some (Break st) })"
      by (rule break_flow [OF put_break [OF e h]]) (use ok in \<open>auto simp: client_ok_def\<close>)
    then show ?thesis using bad h by (simp add: socks5_greeting_def)
  next
    case good
    have "returns (flow_safe st0 a) (do {
        st \<leftarrow> proxy_reply [5, 0] a st; pc \<leftarrow> heap st a;
        if length ?buf < ?n then Some (Break st)
        else do { b \<leftarrow> buf_drop (of_nat ?n) (pc_socks5_buf pc);
          st \<leftarrow> put_pc a (pc\<lparr>pc_socks5_buf := b, pc_state := 1\<rparr>) st; Some (Continue st) } })"
    proof (rule returns_bind [OF reply_safe [OF e h]])
      fix st1 assume "evolves st0 st1 \<and> (\<exists>pc'. heap st1 a = Some pc' \<and> pc_socks5_buf pc' = pc_socks5_buf pc)"
      then obtain pc' where e1: "evolves st0 st1" and h1: "heap st1 a = Some pc'" and b1: "pc_socks5_buf pc' = pc_socks5_buf pc" by blast
      have ok1: "client_ok pc'" using e1 h1 by (rule evolves_client_ok)
      show "returns (flow_safe st0 a) (do { pc \<leftarrow> heap st1 a;
        if length ?buf < ?n then Some (Break st1)
        else do { b \<leftarrow> buf_drop (of_nat ?n) (pc_socks5_buf pc);
          st \<leftarrow> put_pc a (pc\<lparr>pc_socks5_buf := b, pc_state := 1\<rparr>) st1; Some (Continue st) } })"
      proof (cases "length ?buf < ?n")
        case True
        then show ?thesis using h1 e1 by (simp add: flow_safe_def)
      next
        case False
        have "unat (?buf ! 1) < 256" using unsigned_less [of "?buf ! 1"] by simp
        then have n: "unat (of_nat ?n :: u32) = ?n" by (intro unat_of_nat_u32) simp
        obtain b where b: "buf_drop (of_nat ?n) (pc_socks5_buf pc) = Some b" "buf_ok b"
          using buf_drop_staged [of "pc_socks5_buf pc" "of_nat ?n"] n False ok by (metis client_ok_def not_less)
        have "returns (flow_safe st0 a) (do { st \<leftarrow> put_pc a (pc'\<lparr>pc_socks5_buf := b, pc_state := 1\<rparr>) st1; Some (Continue st) })"
          by (rule returns_bind [OF put_safe [OF e1 h1]]) (use ok1 b in \<open>auto simp: client_ok_def flow_safe_def\<close>)
        then show ?thesis using False h1 b b1 by simp
      qed
    qed
    then show ?thesis using good h by (simp add: socks5_greeting_def Let_def del: add_2_eq_Suc add_2_eq_Suc' One_nat_def)
  qed
qed

lemma connect_to_tick: obtains lb n where "connect_to env p st = (lb, st\<lparr>tick := n\<rparr>)"
  by (simp add: connect_to_def connects_def)

lemma socks5_connect_tick: obtains lb n where "socks5_proxy_connect env ad st = (lb, st\<lparr>tick := n\<rparr>)"
proof -
  have "\<exists>lb n. socks5_proxy_connect env ad st = (lb, st\<lparr>tick := n\<rparr>)"
  proof (cases "socks5_dest ad")
    case None
    then show ?thesis by (auto simp: socks5_proxy_connect_def alloc_def)
  next
    case (Some p)
    obtain lb n where "connect_to env p (st\<lparr>tick := Suc (tick st)\<rparr>) = (lb, st\<lparr>tick := Suc (tick st), tick := n\<rparr>)" by (rule connect_to_tick)
    with Some show ?thesis by (cases "oom st (tick st)") (auto simp: socks5_proxy_connect_def alloc_def)
  qed
  with that show thesis by blast
qed

lemma request_safe:
  assumes e: "evolves st0 st" and h: "heap st a = Some pc"
  shows "returns (break_safe st0) (socks5_request env a st)"
proof -
  let ?buf = "content (pc_socks5_buf pc)"
  have ok: "client_ok pc" using e h by (rule evolves_client_ok)
  then have gb: "buf_ok (pc_socks5_buf pc)" by (simp add: client_ok_def)
  have upd: "returns (break_safe st0) (do { st \<leftarrow> put_pc a pc' (st\<lparr>tick := n\<rparr>); Some (Break st) })"
    if "pc_stream pc' = pc_stream pc" "pc_stream_id pc' = pc_stream_id pc" "buf_ok (pc_socks5_buf pc')"
      "pc_xdpi_buf pc' = pc_xdpi_buf pc" "pc_encrypt_ctx pc' = pc_encrypt_ctx pc" for pc' n
    by (rule put_break) (use e h that ok in \<open>auto simp: client_ok_def\<close>)
  note upd0 = upd [where n = "tick st", simplified]
  show ?thesis
  proof (cases "length ?buf < 4 \<or> ?buf ! 0 \<noteq> 5 \<or> ?buf ! 1 \<noteq> 1 \<or> ?buf ! 2 \<noteq> 0")
    case True
    then show ?thesis using h e upd0 [of "pc\<lparr>pc_state := 6\<rparr>"] gb by (auto simp: socks5_request_def break_safe_def Let_def simp del: One_nat_def)
  next
    case False
    then have "drop 3 ?buf \<noteq> []" by simp
    then obtain okp off ad where p: "parse_socks5_addr (drop 3 ?buf) = Some (okp, off, ad)"
      unfolding parse_socks5_addr_def Let_def by (metis prod.exhaust)
    obtain lb n where c: "socks5_proxy_connect env ad st = (lb, st\<lparr>tick := n\<rparr>)" by (rule socks5_connect_tick)
    consider "\<not> okp" | "okp" "lb = None" | lb' where "okp" "lb = Some lb'" by (cases lb) auto
    then show ?thesis
    proof cases
      case 1
      then show ?thesis using False h p upd0 [of "pc\<lparr>pc_remote_addr := ad\<rparr>"] gb by (simp add: socks5_request_def Let_def)
    next
      case 2
      then show ?thesis using False h p c upd [of "pc\<lparr>pc_remote_addr := ad, pc_local := None\<rparr>" n] gb
        by (simp add: socks5_request_def Let_def)
    next
      case 3
      have pt: "parse_socks5_addr (drop 3 ?buf) = Some (True, off, ad)" using p 3(1) by simp
      have "unat (of_nat (3 + off) :: u32) = 3 + off" using parse_append(3) [OF pt] by (intro unat_of_nat_u32) simp
      moreover have "3 + off \<le> length ?buf" using parse_append(2) [OF pt] False by auto
      ultimately obtain b where b: "buf_drop (of_nat (3 + off)) (pc_socks5_buf pc) = Some b" "buf_ok b"
        using buf_drop_staged [OF gb, of "of_nat (3 + off)"] by metis
      obtain rc out k where ba: "buf_add (lb_out lb') (content b) (st\<lparr>tick := n\<rparr>) = (rc, out, st\<lparr>tick := n, tick := k\<rparr>)" by (rule buf_add_cases)
      show ?thesis using False h pt c 3 b ba gb_reset [OF b(2)]
          upd [of "pc\<lparr>pc_remote_addr := ad, pc_local := Some lb', pc_socks5_buf := b, pc_state := 2\<rparr>" n]
          upd [of "pc\<lparr>pc_remote_addr := ad, pc_local := Some (lb'\<lparr>lb_out := out\<rparr>), pc_socks5_buf := b\<lparr>gb_len := 0\<rparr>, pc_state := 2\<rparr>" k]
        by (simp add: socks5_request_def Let_def)
    qed
  qed
qed

lemma loop_safe:
  assumes e: "evolves st0 st" and h: "heap st a = Some pc"
  shows "returns (evolves st0) (socks5_loop env a st)"
proof -
  have one: "returns (evolves st0) (socks5_loop env a st)"
    if e: "evolves st0 st" and h: "heap st a = Some pc" and s0: "pc_state pc \<noteq> 0" for st pc
  proof (cases "gb_len (pc_socks5_buf pc) = 0 \<or> pc_state pc \<noteq> 1")
    case True
    then show ?thesis using that by (subst socks5_loop.simps) auto
  next
    case False
    obtain f where f: "socks5_request env a st = Some f" "break_safe st0 f" using request_safe [OF e h] by (auto simp: returns_def)
    with False h show ?thesis by (subst socks5_loop.simps) (auto simp: break_safe_def)
  qed
  show ?thesis
  proof (cases "pc_state pc = 0 \<and> gb_len (pc_socks5_buf pc) \<noteq> 0")
    case False
    show ?thesis
    proof (cases "pc_state pc = 0")
      case True
      then show ?thesis using False e h by (subst socks5_loop.simps) simp
    qed (rule one [OF e h])
  next
    case True
    obtain f where f: "socks5_greeting a st = Some f" "flow_safe st0 a f" using greeting_safe [OF e h] by (auto simp: returns_def)
    show ?thesis
    proof (cases f)
      case (Break st')
      then show ?thesis using f True h by (subst socks5_loop.simps) (simp add: flow_safe_def)
    next
      case (Continue st')
      then obtain pc' where "evolves st0 st'" "heap st' a = Some pc'" "pc_state pc' = 1" using f(2) by (auto simp: flow_safe_def)
      then have "returns (evolves st0) (socks5_loop env a st')" by (intro one) auto
      then show ?thesis using f(1) True h Continue by (subst socks5_loop.simps) simp
    qed
  qed
qed

text \<open>What a handler of a payload promises the multiplexer.\<close>

locale stream_handler =
  fixes handler :: "nat \<Rightarrow> u32 \<Rightarrow> bytes \<Rightarrow> mux \<Rightarrow> (bytes \<times> mux) option"
    and accepts :: "u32 \<Rightarrow> proxy_client \<Rightarrow> bool"
  assumes handler_safe:
    "safe st \<Longrightarrow> heap st a = Some pc \<Longrightarrow> accepts len pc \<Longrightarrow>
       returns (\<lambda>(src', st'). evolves st st') (handler a len src st)"
begin

lemma handler_evolves:
  assumes "evolves st0 st" "heap st a = Some pc" "accepts len pc"
  shows "returns (\<lambda>(src', st'). evolves st0 st') (handler a len src st)"
  by (rule returns_mono [OF handler_safe [OF evolves_safe [OF assms(1)] assms(2,3)]])
     (use evolves_trans [OF assms(1)] in auto)

text \<open>The client is still there afterwards, with a well-formed stream.\<close>

lemma handler_keeps_client:
  assumes "safe st" "heap st a = Some pc" "accepts len pc" "handler a len src st = Some (src', st')"
  shows "\<exists>pc'. heap st' a = Some pc' \<and> strm_ok (pc_stream pc')"
proof -
  have e: "evolves st st'" using handler_safe [OF assms(1-3), of src] assms(4) by (auto simp: returns_def)
  obtain pc' where h: "heap st' a = Some pc'" using evolves_alive [OF e assms(2)] by blast
  moreover have "strm_ok (pc_stream pc')" using evolves_safe [OF e] h by (auto simp: safe_def mux_ok_def)
  ultimately show ?thesis by blast
qed

end

lemma handle_socks5_safe:
  assumes sf: "safe st" and h: "heap st a = Some pc" and small: "unat len \<le> 2 ^ 30"
  shows "returns (\<lambda>(src', st'). evolves st st') (handle_socks5 env a len src st)"
proof -
  have e: "evolves st (st\<lparr>tick := n\<rparr>)" and hn: "heap (st\<lparr>tick := n\<rparr>) a = Some pc" for n using sf h by simp_all
  have ok: "client_ok pc" using sf h by (rule client_ok_live)
  consider (zero) "len = 0" | (fwd) "len \<noteq> 0" "pc_state pc = 3" | (parse) "len \<noteq> 0" "pc_state pc \<noteq> 3" by blast
  then show ?thesis
  proof cases
    case zero
    then show ?thesis using sf by (simp add: handle_socks5_def)
  next
    case fwd
    show ?thesis
    proof (cases "pc_local pc")
      case None
      then show ?thesis using fwd h sf by (simp add: handle_socks5_def)
    next
      case (Some lb)
      obtain k src' out n where z: "evbuffer_zc_transfer src (lb_out lb) len st = (k, src', out, st\<lparr>tick := n\<rparr>)" by (rule zc_transfer_cases)
      let ?pc = "pc\<lparr>pc_local := Some (lb\<lparr>lb_out := out\<rparr>)\<rparr>"
      have "returns (\<lambda>(s, st'). evolves st st') (do { st \<leftarrow> put_pc a ?pc (st\<lparr>tick := n\<rparr>); Some (src', st) })"
        by (rule returns_bind [OF put_safe [OF e]]) (use h ok in \<open>auto simp: client_ok_def\<close>)
      then show ?thesis using fwd h Some z by (simp add: handle_socks5_def)
    qed
  next
    case parse
    let ?nr = "min (unat len) (length src)"
    have gb: "buf_ok (pc_socks5_buf pc)" using ok by (simp add: client_ok_def)
    have fits: "length (content (pc_socks5_buf pc)) + unat len \<le> 2 ^ 31" using staged_bound [OF gb] small by simp
    have c: "length (take ?nr src) \<le> unat len" by simp
    show ?thesis
    proof (cases rule: ensure_put_safe [OF gb fits _ _ c, of 256 8 st, simplified])
      case (1 n)
      then show ?thesis using parse h sf by (simp add: handle_socks5_def)
    next
      case (2 b b' n)
      let ?pc = "pc\<lparr>pc_socks5_buf := b'\<rparr>"
      have "returns (\<lambda>(s, st'). evolves st st') (do {
          st \<leftarrow> put_pc a ?pc (st\<lparr>tick := n\<rparr>);
          if ?nr = 0 then Some (src, st) else do { st \<leftarrow> socks5_loop env a st; Some (drop ?nr src, st) } })"
      proof (rule returns_bind [OF put_safe [OF e hn, of ?pc n]])
        fix st' assume "evolves st st' \<and> heap st' a = Some ?pc"
        then have e1: "evolves st st'" "heap st' a = Some ?pc" by blast+
        have "returns (\<lambda>(s, st'). evolves st st') (do { st \<leftarrow> socks5_loop env a st'; Some (drop ?nr src, st) })"
          by (rule returns_bind [OF loop_safe [OF e1]]) simp
        then show "returns (\<lambda>(s, st'). evolves st st') (if ?nr = 0 then Some (src, st') else do { st \<leftarrow> socks5_loop env a st'; Some (drop ?nr src, st) })"
          using e1(1) by simp
      qed (use h ok 2 in \<open>auto simp: client_ok_def\<close>)
      then show ?thesis using parse h 2 by (simp add: handle_socks5_def Let_def)
    qed
  qed
qed

definition socks5_room :: "u32 \<Rightarrow> proxy_client \<Rightarrow> bool" where
  "socks5_room len pc \<longleftrightarrow> unat len \<le> 2 ^ 30"

interpretation so: stream_handler "handle_socks5 env" socks5_room for env
  by unfold_locales (auto simp: socks5_room_def intro: handle_socks5_safe)

section \<open>The protocol check\<close>

lemma connect_server_tick: obtains lb n where "connect_server env name port st = (lb, st\<lparr>tick := n\<rparr>)"
proof -
  have t: "\<exists>n. snd (connect_to env p s) = s\<lparr>tick := n\<rparr>" for p s by (auto simp: connect_to_def connects_def)
  have "\<exists>n. snd (connect_server env name port st) = st\<lparr>tick := n\<rparr>"
  proof (cases name)
    case None
    then show ?thesis by (intro exI [of _ "tick st"]) (simp add: connect_server_def)
  next
    case (Some ip)
    let ?p = "if e_is_ip env ip then Addr_port ip port else Name_port ip port" and ?st = "st\<lparr>tick := Suc (tick st)\<rparr>"
    obtain lb n where c: "connect_to env ?p ?st = (lb, ?st\<lparr>tick := n\<rparr>)" by (rule connect_to_tick)
    obtain lb' n' where c': "connect_to env Tls_wrap (?st\<lparr>tick := n\<rparr>) = (lb', ?st\<lparr>tick := n, tick := n'\<rparr>)" by (rule connect_to_tick)
    obtain lb'' n'' where c'': "connect_to env Quic_stream st = (lb'', st\<lparr>tick := n''\<rparr>)" by (rule connect_to_tick)
    have same: "\<exists>n. st = st\<lparr>tick := n\<rparr>" by (rule exI [of _ "tick st"]) simp
    show ?thesis using Some c c' c'' same
      by (cases lb) (auto simp: connect_server_def alloc_def Let_def simp del: mux.update_convs)
  qed
  with that show thesis by (metis prod.collapse)
qed

definition xdpi_room :: "u32 \<Rightarrow> proxy_client \<Rightarrow> bool" where
  "xdpi_room len pc \<longleftrightarrow> pc_ps pc \<noteq> None \<and> unat len \<le> 2 ^ 30"

text \<open>The updates of a handler that keep the stream and the buffers of a client.\<close>

lemma put_tick_safe:
  assumes "safe st" "heap st a = Some pc" "pc_stream pc' = pc_stream pc" "pc_stream_id pc' = pc_stream_id pc" "client_ok pc'"
  shows "returns (evolves st) (put_pc a pc' (st\<lparr>tick := n\<rparr>))"
proof -
  have "evolves st (st\<lparr>tick := n\<rparr>)" "heap (st\<lparr>tick := n\<rparr>) a = Some pc" using assms(1,2) by simp_all
  from put_safe [OF this assms(3-5)] show ?thesis by (rule returns_mono) simp
qed

lemma xdpi_flush_safe:
  assumes "safe st" "heap st a = Some pc0" "pc_stream pc = pc_stream pc0" "pc_stream_id pc = pc_stream_id pc0" "client_ok pc"
  shows "returns (evolves st) (xdpi_flush a pc lb (st\<lparr>tick := n\<rparr>))"
proof -
  obtain rc out k where b: "buf_add (lb_out lb) (content (pc_xdpi_buf pc)) (st\<lparr>tick := n\<rparr>) = (rc, out, st\<lparr>tick := n, tick := k\<rparr>)" by (rule buf_add_cases)
  have gb: "buf_ok ((pc_xdpi_buf pc)\<lparr>gb_len := 0\<rparr>)" using gb_reset assms(5) by (auto simp: client_ok_def)
  have "returns (evolves st) (put_pc a ((xdpi_discard pc)\<lparr>pc_local := Some (lb\<lparr>lb_out := out\<rparr>), pc_xdpi_state := XDPI_VERIFIED\<rparr>) (st\<lparr>tick := k\<rparr>))"
    "returns (evolves st) (put_pc a (pc\<lparr>pc_local := Some lb, pc_xdpi_state := XDPI_VERIFIED\<rparr>) (st\<lparr>tick := n\<rparr>))"
    by (rule put_tick_safe [OF assms(1,2)], use assms gb in \<open>auto simp: client_ok_def xdpi_discard_def\<close>)+
  then show ?thesis using b by (simp add: xdpi_flush_def)
qed

lemma xdpi_connect_safe:
  assumes "safe st" "heap st a = Some pc0" "pc_stream pc = pc_stream pc0" "pc_stream_id pc = pc_stream_id pc0" "client_ok pc"
  shows "returns (evolves st) (xdpi_connect env a pc ps (st\<lparr>tick := n\<rparr>))"
proof (cases "pc_local pc")
  case (Some lb)
  then show ?thesis using xdpi_flush_safe [OF assms] by (simp add: xdpi_connect_def)
next
  case None
  obtain lb k where c: "connect_server env (ps_local_ip ps) (ps_local_port ps) (st\<lparr>tick := n\<rparr>) = (lb, st\<lparr>tick := n, tick := k\<rparr>)" by (rule connect_server_tick)
  have gb: "buf_ok ((pc_xdpi_buf pc)\<lparr>gb_len := 0\<rparr>)" using gb_reset assms(5) by (auto simp: client_ok_def)
  have "returns (evolves st) (put_pc a (xdpi_discard pc) (st\<lparr>tick := n\<rparr>))" "returns (evolves st) (put_pc a pc (st\<lparr>tick := k\<rparr>))"
    by (rule put_tick_safe [OF assms(1,2)], use assms gb in \<open>auto simp: client_ok_def xdpi_discard_def\<close>)+
  then show ?thesis using None c xdpi_flush_safe [OF assms] by (cases lb) (simp_all add: xdpi_connect_def)
qed

lemma xdpi_engine_keeps:
  "xdpi_engine pc d = (rc, pc') \<Longrightarrow> pc_stream pc' = pc_stream pc \<and> pc_stream_id pc' = pc_stream_id pc \<and>
     client_ok pc' = client_ok pc \<and> pc_ps pc' = pc_ps pc \<and> pc_xdpi_buf pc' = pc_xdpi_buf pc"
  by (auto simp: xdpi_engine_def client_ok_def split: if_splits option.splits xdpi_state.splits)

lemma handle_xdpi_safe:
  assumes sf: "safe st" and h: "heap st a = Some pc" and room: "xdpi_room len pc"
  shows "returns (\<lambda>(src', st'). evolves st st') (handle_xdpi env a len src st)"
proof -
  have ok: "client_ok pc" using sf h by (rule client_ok_live)
  have pair: "returns (\<lambda>(s, st'). evolves st st') (do { st \<leftarrow> x; Some (src', st) })" if "returns (evolves st) x" for x and src' :: bytes
    by (rule returns_bind [OF that]) simp
  consider (zero) "len = 0" | (fwd) lb where "len \<noteq> 0" "pc_xdpi_state pc = XDPI_VERIFIED" "pc_local pc = Some lb"
    | (stage) "len \<noteq> 0" "pc_xdpi_state pc \<noteq> XDPI_VERIFIED \<or> pc_local pc = None" by (cases "pc_local pc") auto
  then show ?thesis
  proof cases
    case zero
    then show ?thesis using sf by (simp add: handle_xdpi_def)
  next
    case fwd
    obtain k src' out n where z: "evbuffer_zc_transfer src (lb_out lb) len st = (k, src', out, st\<lparr>tick := n\<rparr>)" by (rule zc_transfer_cases)
    have "returns (evolves st) (put_pc a (pc\<lparr>pc_local := Some (lb\<lparr>lb_out := out\<rparr>)\<rparr>) (st\<lparr>tick := n\<rparr>))"
      by (rule put_tick_safe [OF sf h]) (use ok in \<open>auto simp: client_ok_def\<close>)
    from pair [OF this] fwd h z show ?thesis by (simp add: handle_xdpi_def)
  next
    case stage
    let ?nr = "min (unat len) (length src)"
    have gb: "buf_ok (pc_xdpi_buf pc)" using ok by (simp add: client_ok_def)
    have c: "length (take ?nr src) \<le> unat len" by simp
    have fits: "length (content (pc_xdpi_buf pc)) + unat len \<le> 2 ^ 31" using staged_bound [of "pc_xdpi_buf pc"] ok room by (simp add: xdpi_room_def client_ok_def)
    have al: "alloc (st\<lparr>tick := n\<rparr>) = (\<not> oom st n, st\<lparr>tick := Suc n\<rparr>)" for n by (simp add: alloc_def)
    show ?thesis
    proof (cases rule: ensure_put_safe [OF gb fits _ _ c, of 4096 12 st, simplified])
      case (1 n)
      then show ?thesis using stage h sf by (cases "pc_xdpi_state pc"; cases "pc_local pc") (simp_all add: handle_xdpi_def)
    next
      case (2 b b' n)
      let ?pc = "pc\<lparr>pc_xdpi_buf := b'\<rparr>"
      obtain rc pc1 where en: "xdpi_engine ?pc (content b') = (rc, pc1)" by force
      note k = xdpi_engine_keeps [OF en]
      have okp: "client_ok ?pc" "client_ok pc1" using ok 2(3) k by (auto simp: client_ok_def)
      obtain ps where ps: "pc_ps pc1 = Some ps" using room k by (auto simp: xdpi_room_def)
      have p1: "returns (evolves st) (put_pc a ?pc (st\<lparr>tick := m\<rparr>))" for m
        by (rule put_tick_safe [OF sf h]) (use okp in auto)
      have gb1: "buf_ok ((pc_xdpi_buf pc1)\<lparr>gb_len := 0\<rparr>)" using gb_reset okp(2) by (auto simp: client_ok_def)
      have p2: "returns (evolves st) (put_pc a (xdpi_discard (pc1\<lparr>pc_xdpi_state := XDPI_BLOCKED\<rparr>)) (st\<lparr>tick := m\<rparr>))" for m
        by (rule put_tick_safe [OF sf h]) (use okp(2) k gb1 in \<open>auto simp: client_ok_def xdpi_discard_def\<close>)
      have p3: "returns (evolves st) (xdpi_connect env a pc1 ps (st\<lparr>tick := m\<rparr>))" for m
        by (rule xdpi_connect_safe [OF sf h]) (use okp(2) k in auto)
      have p23: "returns (evolves st) (if rc < 0 then put_pc a (xdpi_discard (pc1\<lparr>pc_xdpi_state := XDPI_BLOCKED\<rparr>)) (st\<lparr>tick := m\<rparr>)
          else xdpi_connect env a pc1 ps (st\<lparr>tick := m\<rparr>))" for m using p2 p3 by simp
      show ?thesis using stage h 2 en ps al pair [OF p1] pair [OF p23]
        by (cases "pc_xdpi_state pc"; cases "pc_local pc") (simp_all add: handle_xdpi_def Let_def)
    qed
  qed
qed

interpretation xd: stream_handler "handle_xdpi env" xdpi_room for env
  by unfold_locales (rule handle_xdpi_safe)

section \<open>Encoding and decoding\<close>

text \<open>The library keeps to the sizes it announces.\<close>

definition snappy_safe :: "env \<Rightarrow> bool" where
  "snappy_safe env \<longleftrightarrow> (\<forall>s. e_snappy env = Some s \<longrightarrow>
     (\<forall>x c. sn_compress s x = Some c \<longrightarrow> length c \<le> unat (sn_max s (of_nat (length x)))) \<and>
     (\<forall>c x n. sn_uncompress s c = Some x \<longrightarrow> sn_length s c = Some n \<longrightarrow> length x \<le> unat n))"

text \<open>Only the clock differs.\<close>

definition ticked :: "mux \<Rightarrow> mux \<Rightarrow> bool" where
  "ticked st st' \<longleftrightarrow> (\<exists>n. st' = st\<lparr>tick := n\<rparr>)"

lemma ticked_simps [simp]: "ticked st st" "ticked st (st\<lparr>tick := n\<rparr>)"
proof -
  have "st = st\<lparr>tick := tick st\<rparr>" by simp
  then show "ticked st st" unfolding ticked_def by blast
qed (auto simp: ticked_def)

lemma ticked_trans: "ticked a b \<Longrightarrow> ticked b c \<Longrightarrow> ticked a c"
  by (auto simp: ticked_def)

definition recoded :: "proxy_client \<Rightarrow> proxy_client \<Rightarrow> bool" where
  "recoded pc pc' \<longleftrightarrow> (client_ok pc \<longrightarrow> client_ok pc') \<and> pc_stream pc' = pc_stream pc \<and> pc_stream_id pc' = pc_stream_id pc"

lemma recoded_refl [simp]: "recoded pc pc"
  by (simp add: recoded_def)

lemma compress_data_safe:
  assumes "snappy_safe env"
  shows "returns (\<lambda>(c, st'). ticked st st') (compress_data env pc d st)"
proof -
  have "xfrpc_compress (e_snappy env) ok d (replicate (unat (xfrpc_max_compressed_length (e_snappy env) (of_nat (length d)))) 0) \<noteq> None" for ok
    using assms by (auto simp: xfrpc_compress_def xfrpc_max_compressed_length_def snappy_safe_def blit_prefix split: option.splits)
  then obtain rc out n where "xfrpc_compress (e_snappy env) (\<not> oom st (Suc (tick st))) d
      (replicate (unat (xfrpc_max_compressed_length (e_snappy env) (of_nat (length d)))) 0) = Some (rc, out, n)" by (metis not_None_eq prod.exhaust)
  then show ?thesis by (simp add: compress_data_def alloc_def Let_def)
qed

lemma decompress_data_safe:
  assumes "snappy_safe env"
  shows "returns (\<lambda>(p, st'). ticked st st') (decompress_data env pc d st)"
proof -
  let ?out = "replicate (unat (of_nat (length d) * 4 :: u32)) (0 :: u8)"
  have fit: "length p \<le> length ?out" if "e_snappy env = Some s" "sn_length s d = Some n" "\<not> of_nat (length ?out) < n" "sn_uncompress s d = Some p" for s n p
  proof -
    have "length p \<le> unat n" using assms that(1,2,4) unfolding snappy_safe_def by blast
    moreover have "unat n \<le> length ?out" using that(3) by (simp add: not_less word_le_nat_alt)
    ultimately show ?thesis by simp
  qed
  then have "xfrpc_decompress (e_snappy env) d ?out \<noteq> None"
    by (auto simp: xfrpc_decompress_def blit_prefix split: option.splits)
  then obtain rc out n where "xfrpc_decompress (e_snappy env) d ?out = Some (rc, out, n)" by (metis not_None_eq prod.exhaust)
  then show ?thesis by (simp add: decompress_data_def alloc_def Let_def)
qed

lemma encrypt_step_safe:
  assumes "client_ok pc"
  shows "returns (\<lambda>(pc', dst', work', st'). ticked st st' \<and> recoded pc pc') (encrypt_data_step env pc dst work st)"
proof (cases "pc_use_encryption pc \<and> pc_encrypt_ctx pc \<noteq> None")
  case False
  then show ?thesis by (auto simp: encrypt_data_step_def split: bool.splits option.splits)
next
  case True
  then obtain ctx where c: "pc_use_encryption pc" "pc_encrypt_ctx pc = Some ctx" by auto
  then have w: "cc_is_writer ctx" using assms by (simp add: client_ok_def)
  have keep: "recoded pc (pc\<lparr>pc_encrypt_ctx := Some x\<rparr>)" if "cc_is_writer x" for x using that by (simp add: recoded_def client_ok_def)
  have enc: "cc_is_writer x" if "crypto_encrypt m y d = (rc, x, d')" "cc_is_writer y" for m x y d rc d'
    using that by (auto simp: crypto_encrypt_def split: if_splits option.splits)
  obtain rc dst' n where b: "buf_add dst (cc_iv ctx) st = (rc, dst', st\<lparr>tick := n\<rparr>)" by (rule buf_add_cases)
  obtain rc1 x1 d1 where e1: "crypto_encrypt (e_mbedtls env) ctx work = (rc1, x1, d1)" by (metis prod.exhaust)
  obtain rc2 x2 d2 where e2: "crypto_encrypt (e_mbedtls env) (crypto_writer_set_iv_sent ctx) work = (rc2, x2, d2)" by (metis prod.exhaust)
  have "cc_is_writer x1" "cc_is_writer x2" using enc [OF e1 w] enc [OF e2] w by (auto simp: crypto_writer_set_iv_sent_def)
  then show ?thesis using c w b e1 e2 keep
    by (cases "crypto_writer_iv_sent ctx") (simp_all add: encrypt_data_step_def crypto_get_iv_def)
qed

lemma encode_safe:
  assumes "snappy_safe env" "client_ok pc"
  shows "returns (\<lambda>(pc', src', dst', st'). ticked st st' \<and> recoded pc pc') (crypto_encode_evbuffer env pc src dst st)"
proof (cases "src = []")
  case True
  then show ?thesis by (simp add: crypto_encode_evbuffer_def)
next
  case False
  obtain comp st1 where c: "compress_data env pc src st = Some (comp, st1)" "ticked st st1"
    using compress_data_safe [OF assms(1)] by (fastforce simp: returns_def)
  obtain pc' dst' work' st2 where e: "encrypt_data_step env pc dst (case comp of Some c \<Rightarrow> c | None \<Rightarrow> src) st1 = Some (pc', dst', work', st2)"
    "ticked st1 st2" "recoded pc pc'" using encrypt_step_safe [OF assms(2)] by (fastforce simp: returns_def)
  obtain rc out n where b: "buf_add dst' work' st2 = (rc, out, st2\<lparr>tick := n\<rparr>)" by (rule buf_add_cases)
  have "ticked st (st2\<lparr>tick := n\<rparr>)" using c(2) e(2) ticked_trans ticked_simps(2) by blast
  then show ?thesis using False c(1) e b by (simp add: crypto_encode_evbuffer_def)
qed

lemma read_iv_keeps: "read_iv env pc src = (pc', src', go) \<Longrightarrow> recoded pc pc'"
  by (auto simp: read_iv_def recoded_def client_ok_def split: bool.splits option.splits if_splits prod.splits)

lemma decrypt_step_keeps: "decrypt_data_step env pc src = (pc', src') \<Longrightarrow> recoded pc pc'"
  by (auto simp: decrypt_data_step_def recoded_def client_ok_def split: bool.splits option.splits if_splits prod.splits)

lemma recoded_trans: "recoded a b \<Longrightarrow> recoded b c \<Longrightarrow> recoded a c"
  by (simp add: recoded_def)

lemma decode_safe:
  assumes "snappy_safe env"
  shows "returns (\<lambda>(pc', src', dst', st'). ticked st st' \<and> recoded pc pc') (proxy_crypto_decode_evbuffer env pc src dst st)"
proof -
  obtain pc1 src1 go where r: "read_iv env pc src = (pc1, src1, go)" by (metis prod.exhaust)
  obtain pc2 work where d: "decrypt_data_step env pc1 src1 = (pc2, work)" by force
  have k: "recoded pc pc1" "recoded pc pc2" using read_iv_keeps [OF r] decrypt_step_keeps [OF d] recoded_trans by blast+
  obtain plain st1 where p: "decompress_data env pc2 work (st\<lparr>tick := Suc (tick st)\<rparr>) = Some (plain, st1)" "ticked (st\<lparr>tick := Suc (tick st)\<rparr>) st1"
    using decompress_data_safe [OF assms] by (fastforce simp: returns_def)
  obtain rc out n where b: "buf_add dst (case plain of Some p \<Rightarrow> p | None \<Rightarrow> work) st1 = (rc, out, st1\<lparr>tick := n\<rparr>)" by (rule buf_add_cases)
  have "ticked st (st1\<lparr>tick := n\<rparr>)" using p(2) ticked_trans ticked_simps(2) by blast
  then show ?thesis using r d k p(1) b by (simp add: proxy_crypto_decode_evbuffer_def alloc_def)
qed

end
