(* ===== verification/Client_Safety.thy ===== *)
theory Client_Safety
  imports Safety
begin

text \<open>
  The callbacks of a proxy client never run into undefined behaviour: forwarding in both directions,
  starting the tunnel, the connection events and the removal of clients return in every safe state of
  the multiplexer, whatever allocation or connection fails, and leave a safe state. Some of them
  may remove the client, so what they promise is weaker than for the payload handlers: no client and no
  stream appears that was not there before.
\<close>

section \<open>States with fewer clients\<close>

definition shrinks :: "mux \<Rightarrow> mux \<Rightarrow> bool" where
  "shrinks st st' \<longleftrightarrow> safe st' \<and> dom (heap st') \<subseteq> dom (heap st) \<and> dom (all_stream st') \<subseteq> dom (all_stream st) \<and>
     cur_stream st' = cur_stream st \<and> ctl_in st' = ctl_in st \<and> ctl_up st' = ctl_up st \<and> conf_tcp_mux st' = conf_tcp_mux st"

lemma evolves_shrinks: "evolves st st' \<Longrightarrow> shrinks st st'"
  by (simp add: evolves_def shrinks_def same_tables_def)

lemma shrinks_trans: "shrinks a b \<Longrightarrow> shrinks b c \<Longrightarrow> shrinks a c"
  unfolding shrinks_def by (metis subset_trans)

lemma shrinks_safe: "shrinks a b \<Longrightarrow> safe b"
  by (simp add: shrinks_def)

lemma shrinks_refl [simp]: "shrinks st st \<longleftrightarrow> safe st"
  by (simp add: shrinks_def)

lemma del_safe:
  assumes "shrinks st0 st"
  shows "returns (shrinks st0) (del_proxy_client_by_stream_id i st)"
proof -
  have ok: "mux_ok st" using assms by (simp add: shrinks_def safe_def)
  obtain st' where d: "del_proxy_client_by_stream_id i st = Some st'" "mux_ok st'"
    "all_stream st' = (if i = 0 then all_stream st else (all_stream st)(i := None))"
    "heap st' = (case get_proxy_client i st of None \<Rightarrow> heap st | Some a \<Rightarrow> (heap st)(a := None))" "same_io st st'"
    by (rule del_client_ok [OF ok])
  have h: "heap st' a = Some pc \<Longrightarrow> heap st a = Some pc" for a pc using d(4) by (auto split: option.splits if_splits)
  then have "dom (heap st') \<subseteq> dom (heap st)" by (auto simp: dom_def)
  moreover have "dom (all_stream st') \<subseteq> dom (all_stream st)" using d(3) by (auto split: if_splits)
  moreover have "safe st'" unfolding safe_def using assms d(2,5) h by (metis same_io_def safe_def shrinks_def)
  ultimately have "shrinks st st'" using d(5) by (simp add: shrinks_def same_io_def)
  then show ?thesis using d(1) shrinks_trans [OF assms] by simp
qed

text \<open>A client that its identifier leads to. Removing by identifier removes this one and no other.\<close>

definition current :: "nat \<Rightarrow> mux \<Rightarrow> bool" where
  "current a st \<longleftrightarrow> (\<exists>pc. heap st a = Some pc \<and> get_proxy_client (pc_stream_id pc) st = Some a)"

definition only_loses :: "nat \<Rightarrow> mux \<Rightarrow> mux \<Rightarrow> bool" where
  "only_loses a st st' \<longleftrightarrow> shrinks st st' \<and> dom (heap st) - {a} \<subseteq> dom (heap st')"

lemma client_current:
  assumes "mux_ok st" "get_proxy_client i st = Some a"
  shows "current a st"
proof -
  have m: "i \<noteq> 0" "(i, a) \<in> set (all_pc st)" using assms(2) by (auto simp: get_proxy_client_def dest: map_of_SomeD split: if_splits)
  obtain pc where "heap st a = Some pc" "pc_stream_id pc = i" using assms(1) m(2) unfolding mux_ok_def by fastforce
  with assms(2) show ?thesis by (auto simp: current_def)
qed

lemma current_evolves:
  assumes "safe st" "evolves st st'" "current a st"
  shows "current a st'"
proof -
  obtain pc where pc: "heap st a = Some pc" "get_proxy_client (pc_stream_id pc) st = Some a" using assms(3) by (auto simp: current_def)
  obtain pc' where pc': "heap st' a = Some pc'" using evolves_alive [OF assms(2) pc(1)] by blast
  have ok: "mux_ok st" "mux_ok st'" "all_pc st' = all_pc st" using assms by (auto simp: safe_def evolves_def same_tables_def)
  have "(pc_stream_id pc, a) \<in> set (all_pc st)" "(pc_stream_id pc', a) \<in> set (all_pc st)" "distinct (map snd (all_pc st))"
    using ok pc(1) pc' unfolding mux_ok_def by auto
  then have "pc_stream_id pc' = pc_stream_id pc" by (metis distinct_map inj_onD prod.inject snd_conv)
  with pc pc' ok(3) show ?thesis by (auto simp: current_def get_proxy_client_def)
qed

lemma evolves_only_loses: "evolves st st' \<Longrightarrow> only_loses a st st'"
  by (auto simp: only_loses_def evolves_shrinks evolves_def same_tables_def)

lemma only_loses_refl [simp]: "only_loses a st st \<longleftrightarrow> safe st"
  by (simp add: only_loses_def)

lemma del_current:
  assumes e: "evolves st0 st" and h: "heap st a = Some pc" and cur: "current a st"
  shows "returns (only_loses a st0) (del_proxy_client_by_stream_id (pc_stream_id pc) st)"
proof -
  have ok: "mux_ok st" using e by (simp add: evolves_def safe_def)
  obtain st' where d: "del_proxy_client_by_stream_id (pc_stream_id pc) st = Some st'"
    "heap st' = (case get_proxy_client (pc_stream_id pc) st of None \<Rightarrow> heap st | Some a \<Rightarrow> (heap st)(a := None))"
    by (rule del_client_ok [OF ok])
  have "shrinks st0 st'" using del_safe [OF evolves_shrinks [OF e], of "pc_stream_id pc"] d(1) by simp
  moreover have "dom (heap st) - {a} \<subseteq> dom (heap st')" using d(2) cur h by (auto simp: current_def)
  ultimately show ?thesis using d(1) e by (simp add: only_loses_def evolves_def same_tables_def)
qed

lemma drop_safe:
  assumes "shrinks st0 st" "heap st a = Some pc"
  shows "returns (shrinks st0) (drop_client a st)"
  using assms del_safe [OF assms(1)] by (simp add: drop_client_def)

section \<open>Forwarding to the server\<close>

lemma evolves_live:
  assumes "evolves st st'" "heap st a = Some pc"
  obtains pc' where "heap st' a = Some pc'" "client_ok pc'"
  using evolves_alive [OF assms] evolves_client_ok [OF assms(1)] by blast

lemma ticked_evolves: "ticked st st' \<Longrightarrow> evolves st0 st \<Longrightarrow> evolves st0 st' \<and> heap st' = heap st \<and> conf_tcp_mux st' = conf_tcp_mux st"
  by (auto simp: ticked_def)

lemma own_ctl_safe:
  assumes "evolves st0 st" "heap st a = Some pc" "pc_ctl_out pc = Some out"
  shows "returns (\<lambda>(rest, st'). evolves st0 st') (to_own_ctl a src st)"
proof -
  obtain o2 rest n where b: "buf_move out src st = (o2, rest, st\<lparr>tick := n\<rparr>)" by (rule buf_move_cases)
  let ?pc = "pc\<lparr>pc_ctl_out := Some o2\<rparr>"
  have "returns (\<lambda>(rest, st'). evolves st0 st') (do { st \<leftarrow> put_pc a ?pc (st\<lparr>tick := n\<rparr>); Some (rest, st) })"
    by (rule returns_bind [OF put_safe]) (use assms evolves_client_ok [OF assms(1,2)] in \<open>auto simp: client_ok_def\<close>)
  then show ?thesis using assms b by (simp add: to_own_ctl_def)
qed

lemma upd_safe:
  assumes "evolves st0 st" "heap st a = Some pc" "\<And>pc. recoded pc (f pc)"
  shows "returns (evolves st0) (upd_pc a f st)"
  unfolding upd_pc_def using assms(2) put_safe [OF assms(1,2), of "f pc"] assms(3) [of pc] evolves_client_ok [OF assms(1,2)]
  by (auto simp: recoded_def elim: returns_mono)

lemma recoded_local [simp]: "recoded pc (pc\<lparr>pc_local := x\<rparr>)"
  by (simp add: recoded_def client_ok_def)

lemma take_pending_keeps:
  obtains d pc' n where "take_pending pc st = (d, pc', st\<lparr>tick := n\<rparr>)" "recoded pc pc'" "pc_ctl_out pc' = pc_ctl_out pc"
proof (cases "pc_enc_pending pc")
  case None
  then show thesis by (intro that [of "[]" pc "tick st"]) (simp_all add: take_pending_def)
next
  case (Some p)
  obtain d rest n where b: "buf_move [] p st = (d, rest, st\<lparr>tick := n\<rparr>)" by (rule buf_move_cases)
  show thesis using Some b
    by (intro that [of d "pc\<lparr>pc_enc_pending := Some rest\<rparr>" n]) (simp_all add: take_pending_def recoded_def client_ok_def)
qed

lemma stash_safe:
  assumes e: "evolves st0 st" and h: "heap st a = Some pc"
  shows "returns (evolves st0) (stash_pending a rest st)"
proof -
  let ?put = "\<lambda>pend st. put_pc a (pc\<lparr>pc_enc_pending := pend,
        pc_local := map_option (\<lambda>lb. lb\<lparr>lb_reading := False\<rparr>) (pc_local pc)\<rparr>) st"
  have put: "returns (evolves st0) (?put pend (st\<lparr>tick := n\<rparr>))" for pend n
    by (rule returns_mono [OF put_safe]) (use assms evolves_client_ok [OF assms] in \<open>auto simp: client_ok_def\<close>)
  have put0: "returns (evolves st0) (?put pend st)" for pend using put [of pend "tick st"] by simp
  show ?thesis
  proof (cases "pc_enc_pending pc")
    case (Some p)
    obtain q r n where b: "buf_move p rest st = (q, r, st\<lparr>tick := n\<rparr>)" by (rule buf_move_cases)
    show ?thesis using h Some b put by (simp add: stash_pending_def)
  next
    case None
    obtain q r n where b: "buf_move [] rest (st\<lparr>tick := Suc (tick st)\<rparr>) = (q, r, st\<lparr>tick := Suc (tick st), tick := n\<rparr>)" by (rule buf_move_cases)
    show ?thesis using h None b put [of _ n] put [of _ "Suc (tick st)"]
      by (cases "oom st (tick st)") (simp_all add: stash_pending_def alloc_def)
  qed
qed

lemma encrypt_ctl_out: "encrypt_data_step env pc dst work st = Some (pc', dst', work', st') \<Longrightarrow> pc_ctl_out pc' = pc_ctl_out pc"
  by (auto simp: encrypt_data_step_def Let_def split: if_splits option.splits prod.splits bind_splits bool.splits)

lemma encode_ctl_out: "crypto_encode_evbuffer env pc src dst st = Some (pc', src', dst', st') \<Longrightarrow> pc_ctl_out pc' = pc_ctl_out pc"
  by (auto simp: crypto_encode_evbuffer_def Let_def split: if_splits prod.splits bind_splits dest: encrypt_ctl_out)

lemma returns_shrinks: "returns (evolves st) x \<Longrightarrow> returns (shrinks st) x"
  by (erule returns_mono) (rule evolves_shrinks)


lemma c2s_encoded_safe:
  assumes sn: "snappy_safe env" and e: "safe st" and h: "heap st a = Some pc" and v: "conf_tcp_mux st = Some v"
    and c: "has_ctl_bev v pc st"
  shows "returns (shrinks st) (c2s_encoded env a v pc lb st)"
proof -
  let ?st = "st\<lparr>tick := Suc (tick st)\<rparr>"
  obtain d pc1 n where t: "take_pending pc ?st = (d, pc1, ?st\<lparr>tick := n\<rparr>)" "recoded pc pc1" "pc_ctl_out pc1 = pc_ctl_out pc"
    by (rule take_pending_keeps)
  have ok1: "client_ok pc1" using t(2) client_ok_live [OF e h] by (simp add: recoded_def)
  obtain pc2 src2 d2 st2 where en: "crypto_encode_evbuffer env pc1 (lb_in lb) d (?st\<lparr>tick := n\<rparr>) = Some (pc2, src2, d2, st2)"
    "ticked (?st\<lparr>tick := n\<rparr>) st2" "recoded pc1 pc2"
    using encode_safe [OF sn ok1] by (fastforce simp: returns_def)
  have keep: "pc_ctl_out pc2 = pc_ctl_out pc1" by (rule encode_ctl_out [OF en(1)])
  have r: "recoded pc pc2" using t(2) en(3) by (rule recoded_trans)
  obtain m where m: "st2 = st\<lparr>tick := m\<rparr>" using en(2) by (auto simp: ticked_def)
  let ?pc = "pc2\<lparr>pc_local := Some (lb\<lparr>lb_in := src2\<rparr>)\<rparr>"
  have rr: "recoded pc ?pc" using recoded_trans [OF r recoded_local] .
  have put: "returns (\<lambda>st'. evolves st st' \<and> heap st' a = Some ?pc) (put_pc a ?pc st2)"
    using m e h rr client_ok_live [OF e h] by (intro put_safe) (auto simp: recoded_def)
  have rest: "returns (shrinks st) (if v = 0 then do { (rest, st) \<leftarrow> to_own_ctl a d2 st3; Some st }
        else do {
          (w, rest, st) \<leftarrow> mux_write_all (PcLoc a) d2 st3;
          if w < 0 then drop_client a st else if w = 0 then stash_pending a rest st else Some st })"
    if s3: "evolves st st3" "heap st3 a = Some ?pc" for st3
  proof (cases "v = 0")
    case True
    then obtain out where out: "pc_ctl_out ?pc = Some out" using c keep t(3) by (auto simp: has_ctl_bev_def)
    have "returns (shrinks st) (do { (rest, st) \<leftarrow> to_own_ctl a d2 st3; Some st })"
      by (rule returns_bind [OF own_ctl_safe [OF s3 out]]) (auto intro: evolves_shrinks)
    with True show ?thesis by simp
  next
    case False
    have "returns (shrinks st) (do { (w, rest, st) \<leftarrow> mux_write_all (PcLoc a) d2 st3;
          if w < 0 then drop_client a st else if w = 0 then stash_pending a rest st else Some st })"
    proof (rule returns_bind [OF write_all_safe [OF s3(1) live_strm [OF s3(2)]]], clarify)
      fix w :: int and rest st4 assume e4: "evolves st st4"
      obtain pc4 where h4: "heap st4 a = Some pc4" using evolves_live [OF e4 h] .
      show "returns (shrinks st) (if w < 0 then drop_client a st4 else if w = 0 then stash_pending a rest st4 else Some st4)"
        using drop_safe [OF evolves_shrinks [OF e4] h4] returns_shrinks [OF stash_safe [OF e4 h4]] evolves_shrinks [OF e4] by simp
    qed
    then show ?thesis using False by simp
  qed
  have "returns (shrinks st) (do { st \<leftarrow> put_pc a ?pc st2; if v = 0 then do { (rest, st) \<leftarrow> to_own_ctl a d2 st; Some st }
        else do {
          (w, rest, st) \<leftarrow> mux_write_all (PcLoc a) d2 st;
          if w < 0 then drop_client a st else if w = 0 then stash_pending a rest st else Some st } })"
    by (rule returns_bind [OF put]) (use rest in blast)
  then show ?thesis using t(1) en(1) e by (cases "oom st (tick st)") (simp_all add: c2s_encoded_def alloc_def shrinks_def)
qed


lemma c2s_plain_safe:
  assumes e: "safe st" and h: "heap st a = Some pc" and v: "conf_tcp_mux st = Some v" and c: "has_ctl_bev v pc st"
  shows "returns (shrinks st) (c2s_plain a v lb st)"
proof (cases "v = 0")
  case True
  have e0: "evolves st st" using e by simp
  from True obtain out where out: "pc_ctl_out pc = Some out" using c by (auto simp: has_ctl_bev_def)
  have "returns (shrinks st) (do { (src, st) \<leftarrow> to_own_ctl a (lb_in lb) st; upd_pc a (\<lambda>pc. pc\<lparr>pc_local := Some (lb\<lparr>lb_in := src\<rparr>)\<rparr>) st })"
  proof (rule returns_bind [OF own_ctl_safe [OF e0 h out]], clarsimp)
    fix src st1 assume e1: "evolves st st1"
    obtain pc1 where "heap st1 a = Some pc1" using evolves_live [OF e1 h] .
    then show "returns (shrinks st) (upd_pc a (\<lambda>pc. pc\<lparr>pc_local := Some (lb\<lparr>lb_in := src\<rparr>)\<rparr>) st1)"
      using upd_safe [OF e1] returns_shrinks by auto
  qed
  with True show ?thesis by (simp add: c2s_plain_def)
next
  case False
  have e0: "evolves st st" using e by simp
  let ?upd = "\<lambda>w src st. upd_pc a (\<lambda>pc. pc\<lparr>pc_local := Some (if w = 0 then lb\<lparr>lb_in := src, lb_reading := False\<rparr> else lb\<lparr>lb_in := src\<rparr>)\<rparr>) st"
  have "returns (shrinks st) (do { (w :: int, src, st) \<leftarrow> mux_write_all (PcLoc a) (lb_in lb) st; st \<leftarrow> ?upd w src st;
      if w < 0 then drop_client a st else Some st })"
  proof (rule returns_bind [OF write_all_safe [OF e0 live_strm [OF h]]], clarify)
    fix w :: int and src st1 assume e1: "evolves st st1"
    obtain pc1 where h1: "heap st1 a = Some pc1" using evolves_live [OF e1 h] .
    show "returns (shrinks st) (do { st \<leftarrow> ?upd w src st1; if w < 0 then drop_client a st else Some st })"
    proof (rule returns_bind [OF upd_safe [OF e1 h1]], simp)
      fix st2 assume e2: "evolves st st2"
      obtain pc2 where h2: "heap st2 a = Some pc2" using evolves_live [OF e2 h] .
      show "returns (shrinks st) (if w < 0 then drop_client a st2 else Some st2)"
        using drop_safe [OF evolves_shrinks [OF e2] h2] evolves_shrinks [OF e2] by simp
    qed
  qed
  with False show ?thesis by (simp add: c2s_plain_def)
qed

lemma c2s_safe:
  assumes "snappy_safe env" "safe st" "heap st a = Some pc" "pc_local pc \<noteq> None"
  shows "returns (shrinks st) (tcp_proxy_c2s_cb env a st)"
proof -
  obtain lb v where "pc_local pc = Some lb" "conf_tcp_mux st = Some v" using assms by (auto simp: safe_def)
  then show ?thesis using assms c2s_encoded_safe [OF assms(1-3)] c2s_plain_safe [OF assms(2,3)]
    by (simp add: tcp_proxy_c2s_cb_def)
qed

section \<open>Delivery to the local service\<close>

lemma decoded_put_safe:
  assumes sn: "snappy_safe env" and e: "evolves st0 st" and h: "heap st a = Some pc"
    and f: "\<And>pc out. recoded pc (f pc out)"
  shows "returns (\<lambda>(rest, k, st'). evolves st0 st' \<and> (\<exists>pc'. heap st' a = Some pc')) (do {
     (pc, src, plain, st) \<leftarrow> proxy_crypto_decode_evbuffer env pc src [] st;
     (let (out, rest, st) = buf_move dst plain st in do { st \<leftarrow> put_pc a (f pc out) st; Some (src, plain, st) }) })"
proof (rule returns_bind [OF decode_safe [OF sn]], clarify)
  fix pc1 src1 plain st1 assume t: "ticked st st1" and r: "recoded pc pc1"
  obtain n where n: "st1 = st\<lparr>tick := n\<rparr>" using t by (auto simp: ticked_def)
  obtain out rest m where b: "buf_move dst plain st1 = (out, rest, st1\<lparr>tick := m\<rparr>)" by (rule buf_move_cases)
  have rr: "recoded pc (f pc1 out)" using recoded_trans [OF r f] .
  have "returns (\<lambda>(rest, k, st'). evolves st0 st' \<and> (\<exists>pc'. heap st' a = Some pc')) (do { st \<leftarrow> put_pc a (f pc1 out) (st1\<lparr>tick := m\<rparr>); Some (src1, plain, st) })"
    by (rule returns_bind [OF put_safe]) (use e h n rr evolves_client_ok [OF e h] in \<open>auto simp: recoded_def\<close>)
  then show "returns (\<lambda>(rest, k, st'). evolves st0 st' \<and> (\<exists>pc'. heap st' a = Some pc')) (let (out, rest, st) = buf_move dst plain st1 in do { st \<leftarrow> put_pc a (f pc1 out) st; Some (src1, plain, st) })"
    using b by simp
qed

lemma s2c_safe:
  assumes sn: "snappy_safe env" and e: "safe st" and h: "heap st a = Some pc"
  shows "returns (\<lambda>(src', st'). evolves st st') (tcp_proxy_s2c_cb env a src st)"
proof (cases "pc_local pc = None \<or> src = []")
  case True
  then show ?thesis using e h by (auto simp: tcp_proxy_s2c_cb_def split: option.split)
next
  case False
  then obtain lb where lb: "pc_local pc = Some lb" "src \<noteq> []" by auto
  obtain v where v: "conf_tcp_mux st = Some v" using e by (auto simp: safe_def)
  let ?f = "\<lambda>pc out. pc\<lparr>pc_local := Some (lb\<lparr>lb_out := out\<rparr>)\<rparr>"
  let ?st = "st\<lparr>tick := Suc (tick st)\<rparr>"
  have e1: "evolves st ?st" "heap ?st a = Some pc" using e h by simp_all
  have dec: "returns (\<lambda>(src', st'). evolves st st') (do {
     (pc, src, processed, st) \<leftarrow> proxy_crypto_decode_evbuffer env pc src [] ?st;
     (let (out, rest, st) = buf_move (lb_out lb) processed st in do { st \<leftarrow> put_pc a (?f pc out) st; Some (src, st) }) })"
    using returns_bind [OF decoded_put_safe [OF sn e1, of ?f src "lb_out lb"], of "\<lambda>(src', st'). evolves st st'" "\<lambda>(src, plain, st). Some (src, st)"]
    by (auto simp: case_prod_beta' Let_def)
  obtain out rest n where b: "buf_move (lb_out lb) src st = (out, rest, st\<lparr>tick := n\<rparr>)" by (rule buf_move_cases)
  have raw: "returns (\<lambda>(src', st'). evolves st st') (do { st \<leftarrow> put_pc a (?f pc out) (st\<lparr>tick := n\<rparr>); Some (rest, st) })"
    by (rule returns_bind [OF put_safe]) (use e h client_ok_live [OF e h] in \<open>auto simp: client_ok_def\<close>)
  show ?thesis using lb h v dec raw b e by (auto simp: tcp_proxy_s2c_cb_def alloc_def)
qed


lemma data_tail_safe:
  assumes sn: "snappy_safe env" and e: "safe st" and h: "heap st a = Some pc"
  shows "returns (\<lambda>(rc, st'). evolves st st') (send_client_data_tail env a st)"
proof (cases "pc_data_tail pc = [] \<or> pc_local pc = None")
  case True
  then show ?thesis using e h by (auto simp: send_client_data_tail_def split: option.split)
next
  case False
  then obtain lb where lb: "pc_data_tail pc \<noteq> []" "pc_local pc = Some lb" by auto
  have put: "returns (\<lambda>(rc, st'). evolves st st') (do { st \<leftarrow> put_pc a pc' (st\<lparr>tick := n\<rparr>); Some (rc, st) })"
    if "recoded pc pc'" for pc' n and rc :: int
    by (rule returns_bind [OF put_safe]) (use that e h client_ok_live [OF e h] in \<open>auto simp: recoded_def\<close>)
  obtain rc out n where b: "buf_add (lb_out lb) (pc_data_tail pc) st = (rc, out, st\<lparr>tick := n\<rparr>)" by (rule buf_add_cases)
  obtain rc2 src m where b2: "buf_add [] (pc_data_tail pc) (st\<lparr>tick := Suc (Suc (tick st))\<rparr>) = (rc2, src, st\<lparr>tick := Suc (Suc (tick st)), tick := m\<rparr>)"
    by (rule buf_add_cases)
  let ?f = "\<lambda>pc out. pc\<lparr>pc_local := Some (lb\<lparr>lb_out := out\<rparr>), pc_data_tail := []\<rparr>"
  have f: "recoded pc (?f pc out)" for pc out by (simp add: recoded_def client_ok_def)
  have e1: "evolves st (st\<lparr>tick := m\<rparr>)" "heap (st\<lparr>tick := m\<rparr>) a = Some pc" using e h by simp_all
  have dec: "returns (\<lambda>(rc, st'). evolves st st') (do {
     (pc, src, plain, st) \<leftarrow> proxy_crypto_decode_evbuffer env pc src [] (st\<lparr>tick := m\<rparr>);
     (let (out, rest, st) = buf_move (lb_out lb) plain st in do { st \<leftarrow> put_pc a (?f pc out) st; Some (int (length plain), st) }) })"
    using returns_bind [OF decoded_put_safe [OF sn e1 f, of src "lb_out lb"], of "\<lambda>(rc, st'). evolves st st'" "\<lambda>(src, plain, st). Some (int (length plain), st)"]
    by (auto simp: case_prod_beta' Let_def)
  show ?thesis
  proof (cases "pc_use_encryption pc \<or> pc_use_compression pc")
    case True
    have "recoded pc (pc\<lparr>pc_data_tail := []\<rparr>)" by (simp add: recoded_def client_ok_def)
    then show ?thesis using True lb h put [of "pc\<lparr>pc_data_tail := []\<rparr>" "Suc (Suc (tick st))" "-1"] dec b2
      by (auto simp: send_client_data_tail_def alloc_def)
  next
    case False
    then show ?thesis using lb h put [OF f, of out n rc] b by (simp add: send_client_data_tail_def)
  qed
qed

section \<open>Connection events\<close>

lemma flush_socks5_keeps:
  assumes "client_ok pc"
  obtains pc' n where "flush_socks5_buf pc st = (pc', st\<lparr>tick := n\<rparr>)" "recoded pc pc'"
proof (cases "pc_local pc = None \<or> gb_len (pc_socks5_buf pc) = 0")
  case True
  then show thesis by (intro that [of pc "tick st"]) (auto simp: flush_socks5_buf_def split: option.split)
next
  case False
  then obtain lb where lb: "pc_local pc = Some lb" "gb_len (pc_socks5_buf pc) \<noteq> 0" by auto
  obtain rc out n where b: "buf_add (lb_out lb) (content (pc_socks5_buf pc)) st = (rc, out, st\<lparr>tick := n\<rparr>)" by (rule buf_add_cases)
  have "buf_ok ((pc_socks5_buf pc)\<lparr>gb_len := 0\<rparr>)" using assms gb_reset by (auto simp: client_ok_def)
  then have "recoded pc (pc\<lparr>pc_local := Some (lb\<lparr>lb_out := out\<rparr>), pc_socks5_buf := (pc_socks5_buf pc)\<lparr>gb_len := 0\<rparr>\<rparr>)"
    by (simp add: recoded_def client_ok_def)
  then show thesis using lb b by (intro that) (simp_all add: flush_socks5_buf_def)
qed

lemma post_connection_safe:
  assumes sn: "snappy_safe env" and e: "safe st" and h: "heap st a = Some pc"
  shows "returns (\<lambda>(rc, st'). evolves st st') (handle_post_connection_data env a st)"
proof (cases "is_socks5_proxy (pc_ps pc)")
  case True
  obtain pc1 n where f: "flush_socks5_buf pc st = (pc1, st\<lparr>tick := n\<rparr>)" "recoded pc pc1"
    by (rule flush_socks5_keeps [OF client_ok_live [OF e h]])
  let ?rest = "\<lambda>st. do { st \<leftarrow> proxy_reply [5, 0, 0, 1, 0, 0, 0, 0, 0, 0] a st; st \<leftarrow> upd_pc a (\<lambda>pc. pc\<lparr>pc_state := 3\<rparr>) st; Some (0 :: int, st) }"
  have "returns (\<lambda>(rc, st'). evolves st st') (do { st \<leftarrow> put_pc a pc1 (st\<lparr>tick := n\<rparr>); ?rest st })"
  proof (rule returns_bind [OF put_safe])
    fix st1 assume "evolves st st1 \<and> heap st1 a = Some pc1"
    then have e1: "evolves st st1" "heap st1 a = Some pc1" by blast+
    show "returns (\<lambda>(rc, st'). evolves st st') (?rest st1)"
    proof (rule returns_bind [OF reply_safe [OF e1]], clarify)
      fix st2 pc2 assume e2: "evolves st st2" "heap st2 a = Some pc2"
      show "returns (\<lambda>(rc, st'). evolves st st') (do { st \<leftarrow> upd_pc a (\<lambda>pc. pc\<lparr>pc_state := 3\<rparr>) st2; Some (0 :: int, st) })"
        by (rule returns_bind [OF upd_safe [OF e2]]) (auto simp: recoded_def client_ok_def)
    qed
  qed (use e h f(2) client_ok_live [OF e h] in \<open>auto simp: recoded_def\<close>)
  then show ?thesis using True h f(1) by (simp add: handle_post_connection_data_def)
next
  case False
  then show ?thesis using h e data_tail_safe [OF sn e h] by (simp add: handle_post_connection_data_def)
qed


lemma put_strm_safe:
  assumes "evolves st0 st" "get_strm st l = Some s" "s_id s' = s_id s" "strm_ok s'"
  shows "returns (\<lambda>st'. evolves st0 st' \<and> get_strm st' l = Some s') (put_strm l s' st)"
proof -
  have sf: "safe st" "mux_ok st" using assms(1) by (auto simp: evolves_def safe_def)
  obtain st' where p: "put_strm l s' st = Some st'" "mux_ok st'" "get_strm st' l = Some s'"
    by (rule put_strm_ok [OF sf(2) assms(2-4)])
  have "evolves st st'" by (rule only_streams_evolves [OF sf(1) put_strm_only [OF p(1)] p(2)])
  with p evolves_trans [OF assms(1)] show ?thesis by simp
qed

lemma same_objects_evolves: "evolves st0 st \<Longrightarrow> same_objects st st' \<Longrightarrow> evolves st0 st'"
  by (rule evolves_trans, assumption, rule only_streams_evolves [OF evolves_safe same_objects_only])
     (auto simp: evolves_def safe_def same_objects_mux_ok)

lemma strm_ok_live: "evolves st0 st \<Longrightarrow> get_strm st l = Some s \<Longrightarrow> strm_ok s"
  by (auto simp: evolves_def safe_def dest: mux_ok_strm)

lemma close_safe:
  assumes e: "evolves st0 st" and s: "get_strm st l = Some s"
  shows "returns (\<lambda>(rc, st'). shrinks st0 st') (tmux_stream_close l st)"
proof (cases "close_transition (s_state s)")
  case None
  then show ?thesis using s evolves_shrinks [OF e] by (simp add: tmux_stream_close_def)
next
  case (Some xc)
  obtain x c where xc: "xc = (x, c)" by force
  obtain f s1 where f: "get_send_flags (s\<lparr>s_state := x\<rparr>) = (f, s1)" by force
  note k = get_send_flags_keeps [OF f]
  let ?send = "tcp_mux_send_win_update (f OR FIN) (s_id s1) 0"
  have "returns (\<lambda>(rc, st'). shrinks st0 st') (do { st \<leftarrow> put_strm l s1 st;
      let st = ?send st in if \<not> c then Some (1 :: int, st) else do { st \<leftarrow> del_proxy_client_by_stream_id (s_id s1) st; Some (0 :: int, st) } })"
  proof (rule returns_bind [OF put_strm_safe [OF e s]])
    fix st1 assume "evolves st0 st1 \<and> get_strm st1 l = Some s1"
    then have e2: "shrinks st0 (?send st1)" using same_objects_evolves send_win_update_same evolves_shrinks by blast
    have "returns (\<lambda>(rc, st'). shrinks st0 st') (do { st \<leftarrow> del_proxy_client_by_stream_id (s_id s1) (?send st1); Some (0 :: int, st) })"
      by (rule returns_bind [OF del_safe [OF e2]]) simp
    with e2 show "returns (\<lambda>(rc, st'). shrinks st0 st') (let st = ?send st1 in if \<not> c then Some (1 :: int, st)
        else do { st \<leftarrow> del_proxy_client_by_stream_id (s_id s1) st; Some (0 :: int, st) })" by (cases c) (simp_all only: Let_def returns_Some prod.case not_True_eq_False not_False_eq_True if_True if_False)
  qed (use k strm_ok_live [OF e s] in auto)
  then show ?thesis using s Some xc f by (simp add: tmux_stream_close_def del: get_send_flags.simps)
qed

lemma flush_local_safe:
  assumes e: "safe st" and h: "heap st a = Some pc"
  shows "returns (evolves st) (flush_local a st)"
proof (cases "pc_local pc")
  case None
  then show ?thesis using e h by (auto simp: flush_local_def safe_def)
next
  case (Some lb)
  obtain v where v: "conf_tcp_mux st = Some v" using e by (auto simp: safe_def)
  have e0: "evolves st st" using e by simp
  have own: "returns (evolves st) (do { (rest, st) \<leftarrow> to_own_ctl a (lb_in lb) st; Some st })" if c: "v = 0" "has_ctl_bev v pc st"
  proof -
    obtain out where out: "pc_ctl_out pc = Some out" using c by (auto simp: has_ctl_bev_def)
    show ?thesis by (rule returns_bind [OF own_ctl_safe [OF e0 h out]]) auto
  qed
  have "returns (evolves st) (do { (w, rest, st) \<leftarrow> mux_write_all (PcLoc a) (lb_in lb) st; Some st })"
    by (rule returns_bind [OF write_all_safe [OF e0 live_strm [OF h]]]) auto
  then show ?thesis using own Some h v e0 by (simp add: flush_local_def)
qed

lemma disconnect_safe:
  assumes e: "safe st" and h: "heap st a = Some pc"
  shows "returns (shrinks st) (handle_proxy_disconnect a st)"
proof (cases "pc_ps pc")
  case None
  then show ?thesis using e h by (simp add: handle_proxy_disconnect_def)
next
  case (Some ps)
  let ?fin = "\<lambda>st. do { pc \<leftarrow> heap st a;
       if s_send_window (pc_stream pc) = 0 then put_pc a (pc\<lparr>pc_pending_close := True\<rparr>) st
       else do { (rc, st) \<leftarrow> tmux_stream_close (PcLoc a) st; Some st } }"
  have fin: "returns (shrinks st) (?fin st2)" if e2: "evolves st st2" for st2
  proof -
    obtain pc2 where h2: "heap st2 a = Some pc2" "client_ok pc2" using evolves_live [OF e2 h] .
    have "returns (shrinks st) (put_pc a (pc2\<lparr>pc_pending_close := True\<rparr>) st2)"
      by (rule returns_mono [OF put_safe [OF e2 h2(1)]]) (use h2 in \<open>auto simp: client_ok_def intro: evolves_shrinks\<close>)
    moreover have "returns (shrinks st) (do { (rc, st) \<leftarrow> tmux_stream_close (PcLoc a) st2; Some st })"
      by (rule returns_bind [OF close_safe [OF e2 live_strm [OF h2(1)]]]) auto
    ultimately show ?thesis using h2(1) by simp
  qed
  have "returns (shrinks st) (do { st \<leftarrow> flush_local a st; st \<leftarrow> upd_pc a (\<lambda>pc. pc\<lparr>pc_local := None\<rparr>) st; ?fin st })"
  proof (rule returns_bind [OF flush_local_safe [OF e h]])
    fix st1 assume e1: "evolves st st1"
    obtain pc1 where h1: "heap st1 a = Some pc1" using evolves_live [OF e1 h] .
    show "returns (shrinks st) (do { st \<leftarrow> upd_pc a (\<lambda>pc. pc\<lparr>pc_local := None\<rparr>) st1; ?fin st })"
      by (rule returns_bind [OF upd_safe [OF e1 h1] fin]) auto
  qed
  then show ?thesis using h Some by (simp add: handle_proxy_disconnect_def)
qed

lemma proxy_event_safe:
  assumes "snappy_safe env" "safe st" "heap st a = Some pc"
  shows "returns (shrinks st) (xfrp_proxy_event_cb env what a st)"
proof -
  have "returns (shrinks st) (do { (rc, st) \<leftarrow> handle_post_connection_data env a st; Some st })"
    by (rule returns_bind [OF post_connection_safe [OF assms]]) (auto intro: evolves_shrinks)
  then show ?thesis using assms disconnect_safe [OF assms(2,3)]
    by (cases what) (simp_all add: xfrp_proxy_event_cb_def)
qed

lemma worker_event_safe:
  assumes "safe st" "heap st a = Some pc"
  shows "returns (evolves st) (xfrp_worker_event_cb what a st)"
  using assms upd_safe [of st st a pc "\<lambda>pc. pc\<lparr>pc_ctl_out := None\<rparr>"] by (simp add: xfrp_worker_event_cb_def recoded_def client_ok_def)


section \<open>Starting a tunnel\<close>

lemma setup_encryption_keeps:
  assumes "client_ok pc"
  obtains pc' n where "setup_encryption env pc ps st = (pc', st\<lparr>tick := n\<rparr>)" "recoded pc pc'"
proof -
  let ?pc = "pc\<lparr>pc_use_encryption := ps_use_encryption ps, pc_use_compression := ps_use_compression ps\<rparr>"
  have w: "cc_is_writer c" if "crypto_ctx_new_writer m ok e r k = Some c" for m ok e r k c
    using that by (auto simp: crypto_ctx_new_writer_def split: if_splits bind_splits)
  have r: "recoded pc ?pc" "recoded pc (?pc\<lparr>pc_encrypt_ctx := x, pc_decrypt_ctx := y\<rparr>)"
    if "\<And>c. x = Some c \<Longrightarrow> cc_is_writer c" for x y using that by (auto simp: recoded_def client_ok_def)
  have same: "\<exists>pc' n. (?pc, st) = (pc', st\<lparr>tick := n\<rparr>) \<and> recoded pc pc'"
    using r(1) [of None] by (intro exI [of _ ?pc] exI [of _ "tick st"]) simp
  have "\<exists>pc' n. setup_encryption env pc ps st = (pc', st\<lparr>tick := n\<rparr>) \<and> recoded pc pc'"
  proof (cases "ps_use_encryption ps \<and> e_token env \<noteq> None \<and> crypto_derive_key (e_mbedtls env) (e_token env) \<noteq> None")
    case False
    then have "setup_encryption env pc ps st = (?pc, st)" by (auto simp: setup_encryption_def Let_def split: option.splits)
    with same show ?thesis by metis
  next
    case True
    then obtain key where key: "crypto_derive_key (e_mbedtls env) (e_token env) = Some key" by auto
    obtain wr rd n where c: "new_contexts env key st = (wr, rd, st\<lparr>tick := n\<rparr>)" by (simp add: new_contexts_def alloc_def)
    have "cc_is_writer x" if "wr = Some x" for x using c that w by (auto simp: new_contexts_def alloc_def)
    then have "recoded pc (?pc\<lparr>pc_encrypt_ctx := wr, pc_decrypt_ctx := rd\<rparr>)" by (rule r(2))
    then show ?thesis using True key c
      by (intro exI [of _ "?pc\<lparr>pc_encrypt_ctx := wr, pc_decrypt_ctx := rd\<rparr>"] exI [of _ n]) (simp add: setup_encryption_def)
  qed
  with that show thesis by blast
qed

lemma local_connection_tick:
  "local_connection env ps st = Some (lb, st') \<Longrightarrow> ticked st st'"
proof -
  have "ticked st (snd (connect_udp_server env st))" by (auto simp: connect_udp_server_def connects_def alloc_def ticked_def)
  moreover obtain l n where "connect_server env (ps_local_ip ps) (ps_local_port ps) st = (l, st\<lparr>tick := n\<rparr>)" by (rule connect_server_tick)
  ultimately show "local_connection env ps st = Some (lb, st') \<Longrightarrow> ?thesis"
    by (auto simp: local_connection_def split: if_splits)
qed

lemma setup_local_safe:
  assumes e: "evolves st0 st" and h: "heap st a = Some pc" "pc_ps pc = Some ps" and cur: "current a st0" and sf: "safe st0"
  shows "returns (\<lambda>(rc, st'). if rc \<le> 0 then only_loses a st0 st' else evolves st0 st') (setup_local_connection env a st)"
proof (cases "local_connection env ps st")
  case None
  then show ?thesis using e h by (simp add: setup_local_connection_def evolves_only_loses)
next
  case (Some r)
  obtain lb st1 where r: "r = (lb, st1)" by force
  obtain n where n: "st1 = st\<lparr>tick := n\<rparr>" using local_connection_tick [of env ps st lb st1] Some r by (auto simp: ticked_def)
  have "returns (\<lambda>(rc, st'). if rc \<le> 0 then only_loses a st0 st' else evolves st0 st') (do {
      st \<leftarrow> put_pc a (pc\<lparr>pc_local := lb\<rparr>) st1;
      if lb = None then do { st \<leftarrow> del_proxy_client_by_stream_id (pc_stream_id pc) st; Some (-1 :: int, st) } else Some (1, st) })"
  proof (rule returns_bind [OF put_safe [of st0 st1 a pc]])
    fix st2 assume "evolves st0 st2 \<and> heap st2 a = Some (pc\<lparr>pc_local := lb\<rparr>)"
    then have e2: "evolves st0 st2" "heap st2 a = Some (pc\<lparr>pc_local := lb\<rparr>)" by blast+
    have "returns (\<lambda>(rc, st'). if rc \<le> 0 then only_loses a st0 st' else evolves st0 st')
        (do { st \<leftarrow> del_proxy_client_by_stream_id (pc_stream_id pc) st2; Some (-1 :: int, st) })"
      using del_current [OF e2 current_evolves [OF sf e2(1) cur]] by (auto intro: returns_bind)
    with e2(1) show "returns (\<lambda>(rc, st'). if rc \<le> 0 then only_loses a st0 st' else evolves st0 st') (if lb = None then do {
        st \<leftarrow> del_proxy_client_by_stream_id (pc_stream_id pc) st2; Some (-1 :: int, st) } else Some (1, st2))" by simp
  qed (use e h n evolves_client_ok [OF e h(1)] in \<open>auto simp: client_ok_def\<close>)
  then show ?thesis using h Some r by (simp add: setup_local_connection_def)
qed

lemma start_tunnel_safe:
  assumes e: "safe st" and h: "heap st a = Some pc" and cur: "current a st"
  shows "returns (\<lambda>(st', cbs). only_loses a st st') (start_xfrp_tunnel env a st)"
proof -
  obtain v where v: "conf_tcp_mux st = Some v" using e by (auto simp: safe_def)
  consider (skip) "pc_ps pc = None \<or> (\<exists>ps. pc_ps pc = Some ps \<and> (\<not> has_ctl_bev v pc st \<or> (ps_local_port ps = 0 \<and> \<not> is_uds_proxy (Some ps))))"
    | (go) ps where "pc_ps pc = Some ps" "\<not> (\<not> has_ctl_bev v pc st \<or> (ps_local_port ps = 0 \<and> \<not> is_uds_proxy (Some ps)))" by (cases "pc_ps pc") blast+
  then show ?thesis
  proof cases
    case skip
    then show ?thesis using e h v by (auto simp: start_xfrp_tunnel_def)
  next
    case go
    obtain pc1 n where s: "setup_encryption env pc ps st = (pc1, st\<lparr>tick := n\<rparr>)" "recoded pc pc1"
      by (rule setup_encryption_keeps [OF client_ok_live [OF e h]])
    have ps: "pc_ps pc1 = Some ps" using s(1) go(1) by (auto simp: setup_encryption_def Let_def split: if_splits option.splits prod.splits)
    obtain c2s s2c where cb: "setup_proxy_callbacks (Some ps) = (c2s, s2c)" by force
    let ?en = "\<lambda>st. upd_pc a (\<lambda>pc. pc\<lparr>pc_local := map_option (\<lambda>lb. lb\<lparr>lb_reading := True\<rparr>) (pc_local pc)\<rparr>) st"
    let ?go = "\<lambda>st. do { (rc, st) \<leftarrow> setup_local_connection env a st;
        if rc \<le> 0 then Some (st, None) else do { st \<leftarrow> ?en st; Some (st, Some (c2s, if v = 0 then Some s2c else None)) } }"
    have "returns (\<lambda>(st', cbs). only_loses a st st') (do { st \<leftarrow> put_pc a pc1 (st\<lparr>tick := n\<rparr>); ?go st })"
    proof (rule returns_bind [OF put_safe [of st]])
      fix st1 assume "evolves st st1 \<and> heap st1 a = Some pc1"
      then have e1: "evolves st st1" "heap st1 a = Some pc1" by blast+
      show "returns (\<lambda>(st', cbs). only_loses a st st') (?go st1)"
      proof (rule returns_bind [OF setup_local_safe [OF e1 ps cur e]], clarify)
        fix rc :: int and st2 assume r: "if rc \<le> 0 then only_loses a st st2 else evolves st st2"
        have "returns (\<lambda>(st', cbs). only_loses a st st') (do { st \<leftarrow> ?en st2; Some (st, Some (c2s, if v = 0 then Some s2c else None)) })"
          if pos: "\<not> rc \<le> 0"
        proof -
          have e2: "evolves st st2" using r pos by simp
          obtain pc2 where h2: "heap st2 a = Some pc2" using evolves_live [OF e2 h] .
          show ?thesis by (rule returns_bind [OF upd_safe [OF e2 h2]]) (auto intro: evolves_only_loses)
        qed
        with r show "returns (\<lambda>(st', cbs). only_loses a st st') (if rc \<le> 0 then Some (st2, None)
            else do { st \<leftarrow> ?en st2; Some (st, Some (c2s, if v = 0 then Some s2c else None)) })" by simp
      qed
    qed (use e h s(2) client_ok_live [OF e h] in \<open>auto simp: recoded_def\<close>)
    then show ?thesis using e h v go s(1) cb by (simp add: start_xfrp_tunnel_def cong: if_cong)
  qed
qed

section \<open>Creation and removal of clients\<close>

lemma new_client_safe:
  assumes "safe st"
  shows "returns (\<lambda>(a, st'). safe st' \<and> (\<forall>b. a = Some b \<longrightarrow> heap st' b \<noteq> None)) (new_proxy_client st)"
proof -
  have ok: "mux_ok st" using assms by (simp add: safe_def)
  have c: "client_ok (calloc_client\<lparr>pc_stream_id := i, pc_stream := s\<rparr>)" for i s by (simp add: client_ok_def calloc_client_def)
  have keep: "safe st'" if "new_proxy_client st = Some (a, st')" "mux_ok st'" for a st'
    using that assms c by (auto simp: new_proxy_client_def alloc_def get_next_session_id_def init_tmux_stream_def put_strm_def
        add_stream_def get_strm_def safe_def Let_def split: if_splits option.splits)
  show ?thesis
  proof (cases rule: new_proxy_client_ok [OF ok])
    case (1 a st')
    then show ?thesis using keep by auto
  next
    case (2 st')
    then show ?thesis using keep by auto
  qed
qed

end
