(* ===== verification/Receive_Safety.thy ===== *)
theory Receive_Safety
  imports Mux_Receive Client_Safety
begin

text \<open>
  The receiving side of the multiplexer never runs into undefined behaviour, whatever bytes arrive, with
  one exception that is a defect of the code: when the message handler removes the client whose frame is
  being processed, the stream inside that client is used afterwards. The locale \<open>message_handler\<close> is what
  the multiplexer relies on: the handler of control messages is defined, leaves a safe state and removes
  no client but the one it was called for.
\<close>

section \<open>What is kept\<close>

text \<open>Streams that were there are still there, except inside the given client.\<close>

definition spares :: "nat option \<Rightarrow> mux \<Rightarrow> mux \<Rightarrow> bool" where
  "spares pa st st' \<longleftrightarrow> safe st' \<and> (\<forall>l. get_strm st l \<noteq> None \<longrightarrow> (\<forall>a. pa = Some a \<longrightarrow> l \<noteq> PcLoc a) \<longrightarrow> get_strm st' l \<noteq> None)"

abbreviation keeps :: "mux \<Rightarrow> mux \<Rightarrow> bool" where
  "keeps \<equiv> spares None"

lemma evolves_keeps: "evolves st st' \<Longrightarrow> keeps st st'"
  unfolding spares_def using evolves_safe evolves_strm by (metis not_None_eq)

lemma spares_trans: "keeps a b \<Longrightarrow> spares pa b c \<Longrightarrow> spares pa a c" "spares pa a b \<Longrightarrow> keeps b c \<Longrightarrow> spares pa a c"
  by (auto simp: spares_def)

lemma spares_safe: "spares pa a b \<Longrightarrow> safe b"
  by (simp add: spares_def)

lemma keeps_in [simp]: "keeps st (st'\<lparr>ctl_in := x\<rparr>) = keeps st st'" "keeps (st\<lparr>ctl_in := x\<rparr>) st' = keeps st st'"
  by (simp_all add: spares_def safe_def get_strm_def cong: loc.case_cong)

lemma keeps_tick [simp]: "keeps st (st'\<lparr>tick := n\<rparr>) = keeps st st'" "keeps (st\<lparr>tick := n\<rparr>) st' = keeps st st'"
  by (simp_all add: spares_def get_strm_def cong: loc.case_cong)

lemma evolves_keeps_in: "evolves (st\<lparr>tick := n, ctl_in := x\<rparr>) st' \<Longrightarrow> keeps st st'"
  using evolves_keeps [of "st\<lparr>tick := n, ctl_in := x\<rparr>" st'] by simp

lemma safe_in [simp]: "safe (st\<lparr>ctl_in := x\<rparr>) = safe st"
  by (simp add: safe_def)

lemma safe_cur [simp]: "safe (st\<lparr>cur_stream := x\<rparr>) = safe st"
  by (simp add: safe_def)

lemma safe_go_away [simp]: "safe (st\<lparr>remote_go_away := x\<rparr>) = safe st"
  by (simp add: safe_def)

text \<open>What the multiplexer needs of the handler of messages: called for no client or for one its identifier
  leads to, it returns, leaves a safe state and removes no stream.\<close>

definition live_arg :: "nat option \<Rightarrow> mux \<Rightarrow> bool" where
  "live_arg pa st \<longleftrightarrow> (\<forall>a. pa = Some a \<longrightarrow> current a st)"

locale gentle_handler =
  fixes fn :: "'c handle_data_fn" and cinv :: "'c \<Rightarrow> bool"
  assumes fn_gentle:
    "safe st \<Longrightarrow> cinv c \<Longrightarrow> live_arg pa st \<Longrightarrow> returns (\<lambda>(c', st'). cinv c' \<and> keeps st st') (fn data pa c st)"
begin

lemma fn_keeps:
  assumes "keeps st0 st" "cinv c" "live_arg pa st"
  shows "returns (\<lambda>(c', st'). cinv c' \<and> keeps st0 st') (fn data pa c st)"
  by (rule returns_mono [OF fn_gentle [OF spares_safe [OF assms(1)] assms(2,3)]]) (use assms(1) spares_trans(1) in auto)

end

text \<open>What a handler can promise that may go wrong: when it returns, the state is safe and it has removed no
  client but the one it was called for.\<close>

locale message_handler =
  fixes fn :: "'c handle_data_fn" and cinv :: "'c \<Rightarrow> bool"
  assumes fn_spares:
    "safe st \<Longrightarrow> cinv c \<Longrightarrow> live_arg pa st \<Longrightarrow> fn data pa c st = Some (c', st') \<Longrightarrow> cinv c' \<and> spares pa st st'"

text \<open>A call that goes wrong: the handler itself is undefined, or it removes the client it was called for.\<close>

definition faulty_call :: "'c handle_data_fn \<Rightarrow> bytes \<Rightarrow> nat option \<Rightarrow> 'c \<Rightarrow> mux \<Rightarrow> bool" where
  "faulty_call fn data pa c st =
     (case fn data pa c st of
        None \<Rightarrow> True
      | Some (c', st') \<Rightarrow> (case pa of None \<Rightarrow> False | Some a \<Rightarrow> heap st' a = None))"

text \<open>The handler under observation: a call that would go wrong is left out and noted.\<close>

definition watch :: "'c handle_data_fn \<Rightarrow> ('c \<times> bool) handle_data_fn" where
  "watch fn data pa cb st =
     (if faulty_call fn data pa (fst cb) st then Some ((fst cb, True), st)
      else map_option (\<lambda>(c', st'). ((c', snd cb), st')) (fn data pa (fst cb) st))"

sublocale message_handler \<subseteq> w: gentle_handler "watch fn" "\<lambda>cb. cinv (fst cb)"
proof
  fix st and cb :: "'c \<times> bool" and pa data assume a: "safe st" "cinv (fst cb)" "live_arg pa st"
  show "returns (\<lambda>(c', st'). cinv (fst c') \<and> keeps st st') (watch fn data pa cb st)"
  proof (cases "faulty_call fn data pa (fst cb) st")
    case True
    then show ?thesis using a by (simp add: watch_def spares_def)
  next
    case False
    then obtain c' st' where r: "fn data pa (fst cb) st = Some (c', st')" "\<And>a. pa = Some a \<Longrightarrow> heap st' a \<noteq> None"
      by (auto simp: faulty_call_def split: option.splits)
    have "cinv c'" "spares pa st st'" using fn_spares [OF a r(1)] by auto
    with r False show ?thesis by (auto simp: watch_def spares_def get_strm_def)
  qed
qed

section \<open>Flags and windows\<close>

text \<open>After the flags were processed either all streams are still there, or the entry of this one is gone.\<close>

lemma flags_safe:
  assumes e: "evolves st0 st" and s: "get_strm st l = Some s"
  shows "returns (\<lambda>(ok, st'). evolves st0 st' \<or> (shrinks st0 st' \<and> get_stream_by_id (s_id s) st' = None)) (process_flags flags l st)"
proof -
  let ?P = "\<lambda>(ok, st'). evolves st0 st' \<or> (shrinks st0 st' \<and> get_stream_by_id (s_id s) st' = None)"
  let ?s = "s\<lparr>s_state := ack_transition flags (s_state s)\<rparr>"
  have put: "returns (\<lambda>st'. evolves st0 st' \<and> get_strm st' l = Some (s\<lparr>s_state := x\<rparr>)) (put_strm l (s\<lparr>s_state := x\<rparr>) st)" for x
    by (rule put_strm_safe [OF e s]) (use strm_ok_live [OF e s] in auto)
  have del: "returns ?P (do { st \<leftarrow> del_proxy_client_by_stream_id (s_id s) st1; Some (True, st) })" if e1: "evolves st0 st1" for st1
  proof -
    have ok: "mux_ok st1" using e1 by (simp add: evolves_def safe_def)
    obtain st2 where d: "del_proxy_client_by_stream_id (s_id s) st1 = Some st2"
      "all_stream st2 = (if s_id s = 0 then all_stream st1 else (all_stream st1)(s_id s := None))" by (rule del_client_ok [OF ok, of "s_id s"])
    have "shrinks st0 st2" using del_safe [OF evolves_shrinks [OF e1], of "s_id s"] d(1) by simp
    moreover have "s_id s = 0 \<Longrightarrow> st2 = st1" using d(1) by (simp add: del_proxy_client_by_stream_id_def)
    ultimately show ?thesis using d e1 by (auto simp: get_stream_by_id_def)
  qed
  show ?thesis
  proof (cases "fin_outcome flags (s_state ?s)")
    case (Fin_return r)
    have "returns ?P (do { st \<leftarrow> put_strm l ?s st; Some (r, st) })" by (rule returns_bind [OF put]) auto
    then show ?thesis using s Fin_return by (simp add: process_flags_def Let_def)
  next
    case (Fin_to x c)
    obtain y d where yd: "rst_outcome flags x c = (y, d)" by force
    have "returns ?P (do { st \<leftarrow> put_strm l (s\<lparr>s_state := y\<rparr>) st;
        st \<leftarrow> (if d then del_proxy_client_by_stream_id (s_id s) st else Some st); Some (True, st) })"
      by (rule returns_bind [OF put]) (use del in \<open>auto split: if_splits\<close>)
    then show ?thesis using process_flags_to [OF s _ yd] Fin_to by simp
  qed
qed

lemma window_update_safe:
  assumes e: "evolves st0 st" and s: "get_strm st l = Some s"
  shows "returns (evolves st0) (send_window_update l n st)"
proof -
  obtain f s1 where f: "get_send_flags s = (f, s1)" by force
  note k = get_send_flags_keeps [OF f]
  have sok: "strm_ok s" by (rule strm_ok_live [OF e s])
  let ?send = "\<lambda>d st. tcp_mux_send_win_update f (s_id s1) d st"
  have snd: "evolves st0 (?send d st')" if "evolves st0 st'" for d st' using same_objects_evolves [OF that send_win_update_same] .
  have 1: "returns (evolves st0) (do { st \<leftarrow> put_strm l s1 st; Some (if f \<noteq> 0 then ?send 0 st else st) })"
    by (rule returns_bind [OF put_strm_safe [OF e s]]) (use k sok snd in auto)
  have 2: "returns (evolves st0) (do { st \<leftarrow> put_strm l (s1\<lparr>s_recv_window := MAX_STREAM_WINDOW_SIZE\<rparr>) st; Some (?send d st) })" for d
    by (rule returns_bind [OF put_strm_safe [OF e s]]) (use k sok snd in \<open>auto simp: strm_ok_def\<close>)
  show ?thesis using 1 2 s f e by (simp add: send_window_update_def Let_def del: get_send_flags.simps)
qed


section \<open>Payloads\<close>

definition taken :: "mux \<Rightarrow> u32 option \<times> mux \<Rightarrow> bool" where
  "taken st0 r \<longleftrightarrow> keeps st0 (snd r)"

lemma handler_delivers:
  assumes "returns (\<lambda>(src', st'). evolves st st') (h a len (ctl_in st) st)"
  shows "returns (taken st) (deliver_handler h len a st)"
  using assms unfolding deliver_handler_def
  by (auto simp: returns_def taken_def dest: evolves_keeps)

lemma encrypted_delivers:
  assumes sn: "snappy_safe env" and e: "safe st" and h: "heap st a = Some pc" "pc_local pc = Some lb"
  shows "returns (taken st) (deliver_encrypted env len a st)"
proof (cases "oom st (tick st) \<or> oom st (Suc (tick st))")
  case True
  then show ?thesis using e by (auto simp: deliver_encrypted_def alloc_def taken_def spares_def get_strm_def)
next
  case False
  let ?st = "st\<lparr>tick := Suc (Suc (tick st))\<rparr>"
  obtain k src frame n where z: "evbuffer_zc_transfer (ctl_in st) [] len ?st = (k, src, frame, ?st\<lparr>tick := n\<rparr>)" by (rule zc_transfer_cases)
  let ?st1 = "st\<lparr>tick := n, ctl_in := src\<rparr>" and ?f = "\<lambda>pc out. pc\<lparr>pc_local := Some (lb\<lparr>lb_out := out\<rparr>)\<rparr>"
  have e1: "evolves ?st1 ?st1" "heap ?st1 a = Some pc" using e h by simp_all
  have "returns (taken ?st1) (do {
     (pc, frame, plain, st) \<leftarrow> proxy_crypto_decode_evbuffer env pc frame [] ?st1;
     (let (out, rest, st) = buf_move (lb_out lb) plain st in do { st \<leftarrow> put_pc a (?f pc out) st; Some (Some len, st) }) })"
    using returns_bind [OF decoded_put_safe [OF sn e1, of ?f frame "lb_out lb"], of "taken ?st1" "\<lambda>(src, plain, st). Some (Some len, st)"] evolves_keeps_in [where st = st and n = n and x = src]
    by (auto simp: case_prod_beta' Let_def taken_def)
  moreover have "taken ?st1 = taken st" by (auto simp: fun_eq_iff taken_def spares_def get_strm_def cong: loc.case_cong)
  ultimately show ?thesis using False z h by (simp add: deliver_encrypted_def alloc_def)
qed

lemma local_delivers:
  assumes e: "safe st" and h: "heap st a = Some pc" "pc_local pc = Some lb"
  shows "returns (taken st) (deliver_local len a st)"
proof -
  obtain k src out n where z: "evbuffer_zc_transfer (ctl_in st) (lb_out lb) len st = (k, src, out, st\<lparr>tick := n\<rparr>)" by (rule zc_transfer_cases)
  let ?st1 = "st\<lparr>tick := n, ctl_in := src\<rparr>" and ?pc = "pc\<lparr>pc_local := Some (lb\<lparr>lb_out := out\<rparr>)\<rparr>"
  have "returns (taken ?st1) (do { st \<leftarrow> put_pc a ?pc ?st1; Some (Some (of_nat k), st) })"
    by (rule returns_bind [OF put_safe [of ?st1 ?st1 a pc]])
       (use e h client_ok_live [OF e h(1)] in \<open>auto simp: client_ok_def taken_def evolves_keeps_in\<close>)
  moreover have "taken ?st1 = taken st" by (auto simp: fun_eq_iff taken_def spares_def get_strm_def cong: loc.case_cong)
  ultimately show ?thesis using z h by (simp add: deliver_local_def)
qed

lemma with_ctl_taken:
  "returns (taken st) x \<Longrightarrow> returns (\<lambda>(r, c', st'). c' = c \<and> keeps st st') (with_ctl c x)"
  by (auto simp: returns_def with_ctl_def taken_def)

lemma frame_small: "len \<le> MAX_STREAM_WINDOW_SIZE \<Longrightarrow> unat len \<le> 2 ^ 30"
  by (simp add: MAX_STREAM_WINDOW_SIZE_def le_u32_iff)

text \<open>The ways to deliver a payload that do not involve the message handler.\<close>

lemma service_delivers:
  assumes "snappy_safe env" "safe st" "heap st a = Some pc" "len \<le> MAX_STREAM_WINDOW_SIZE"
  shows "returns (taken st) (deliver_handler (handle_socks5 env) len a st)"
    "has_service_type (pc_ps pc) \<Longrightarrow> returns (taken st) (deliver_handler (handle_xdpi env) len a st)"
    "pc_local pc \<noteq> None \<Longrightarrow> returns (taken st) (deliver_encrypted env len a st)"
    "pc_local pc \<noteq> None \<Longrightarrow> returns (taken st) (deliver_local len a st)"
proof -
  show "returns (taken st) (deliver_handler (handle_socks5 env) len a st)"
    by (rule handler_delivers, rule so.handler_safe [OF assms(2,3)]) (use frame_small [OF assms(4)] in \<open>simp add: socks5_room_def\<close>)
  show "has_service_type (pc_ps pc) \<Longrightarrow> returns (taken st) (deliver_handler (handle_xdpi env) len a st)"
    by (rule handler_delivers, rule xd.handler_safe [OF assms(2,3)])
       (use frame_small [OF assms(4)] in \<open>auto simp: xdpi_room_def has_service_type_def split: option.splits\<close>)
qed (use encrypted_delivers [OF assms(1-3)] local_delivers [OF assms(2,3)] in blast)+

context gentle_handler
begin

lemma copy_delivers:
  assumes e: "safe st" and i: "cinv c" and live: "live_arg pa st"
  shows "returns (\<lambda>(r, c', st'). cinv c' \<and> keeps st st') (deliver_copy fn len pa c st)"
proof -
  let ?st = "st\<lparr>tick := Suc (tick st)\<rparr>"
  let ?st1 = "?st\<lparr>ctl_in := drop (unat len) (ctl_in st)\<rparr>"
  have k: "keeps st ?st1" "keeps st ?st" using e by (auto simp: spares_def get_strm_def cong: loc.case_cong)
  have "returns (\<lambda>(c', st'). cinv c' \<and> keeps st st') (fn (take (unat len) (ctl_in st)) pa c ?st1)"
    by (rule fn_keeps [OF k(1) i]) (use live in \<open>auto simp: live_arg_def current_def get_proxy_client_def split: if_splits\<close>)
  then have "returns (\<lambda>(r, c', st'). cinv c' \<and> keeps st st') (do { (c, st) \<leftarrow> fn (take (unat len) (ctl_in st)) pa c ?st1; Some (Some len, c, st) })"
    by (auto simp: returns_def)
  then show ?thesis using k i by (auto simp: deliver_copy_def alloc_def bev_read_def)
qed

lemma payload_delivers:
  assumes sn: "snappy_safe env" and e: "safe st" and i: "cinv c" and len: "len \<le> MAX_STREAM_WINDOW_SIZE"
    and live: "live_arg pa st"
  shows "returns (\<lambda>(r, c', st'). cinv c' \<and> keeps st st') (process_payload env fn len pa c st)"
proof (cases pa)
  case None
  then show ?thesis using copy_delivers [OF e i, of None] by (simp add: process_payload_def live_arg_def)
next
  case (Some a)
  then obtain pc where h: "heap st a = Some pc" using live by (auto simp: live_arg_def current_def)
  have "returns (\<lambda>(r, c', st'). cinv c' \<and> keeps st st') (with_ctl c x)" if "returns (taken st) x" for x
    by (rule returns_mono [OF with_ctl_taken [OF that, of c]]) (use i in auto)
  with service_delivers [OF sn e h len] copy_delivers [OF e i live] h Some show ?thesis
    by (auto simp: process_payload_def)
qed

end


section \<open>Frames\<close>

lemma put_strm_keeps:
  assumes "safe st" "get_strm st l = Some s" "s_id s' = s_id s" "strm_ok s'"
  shows "returns (keeps st) (put_strm l s' st)"
  by (rule returns_mono [OF put_strm_safe [OF _ assms(2-4)]]) (use assms(1) in \<open>auto intro: evolves_keeps\<close>)

lemma finish_safe:
  assumes e: "safe st" and s: "get_strm st l = Some s"
  shows "returns safe (finish_data l len processed st)"
proof -
  have e0: "evolves st st" using e by simp
  let ?st = "tcp_mux_send_win_update_rst (s_id s) st"
  have so: "same_objects st ?st" by (rule sends_same)
  have e1: "evolves st ?st" "get_strm ?st l = Some s"
    using same_objects_evolves [OF e0 so] s same_objects_get_strm [OF so] by auto
  have "returns safe (put_strm l (s\<lparr>s_state := TMUX_LOCAL_CLOSE\<rparr>) ?st)"
    by (rule returns_mono [OF put_strm_safe [OF e1]]) (use strm_ok_live [OF e0 s] in \<open>auto intro: evolves_safe\<close>)
  then show ?thesis using s returns_mono [OF window_update_safe [OF e0 s] evolves_safe]
    by (simp add: finish_data_def)
qed

lemma client_live_arg: "safe st \<Longrightarrow> live_arg (get_proxy_client i st) st"
  using client_current by (auto simp: live_arg_def safe_def)

context gentle_handler
begin

lemma take_safe:
  assumes sn: "snappy_safe env" and e: "safe st" and i: "cinv c" and len: "len \<le> MAX_STREAM_WINDOW_SIZE"
    and s: "get_strm st l = Some s" and live: "live_arg pa st"
  shows "returns (\<lambda>(r, c', st'). cinv c' \<and> safe st') (take_data env fn l len pa c st)"
proof (cases "len > s_recv_window s")
  case True
  then show ?thesis using s i e by (simp add: take_data_def)
next
  case w: False
  let ?P = "\<lambda>(r :: u32, c', st'). cinv c' \<and> safe st'"
  have e0: "evolves st st" using e by simp
  have "returns ?P (do {
         st \<leftarrow> put_strm l (s\<lparr>s_recv_window := s_recv_window s - len\<rparr>) st;
         (r, c, st) \<leftarrow> process_payload env fn len pa c st;
         (case r of None \<Rightarrow> Some (0, c, st)
          | Some processed \<Rightarrow> do { st \<leftarrow> finish_data l len processed st; Some (len, c, st) }) })"
  proof (rule returns_bind [OF put_strm_safe [OF e0 s]])
    fix st2 assume "evolves st st2 \<and> get_strm st2 l = Some (s\<lparr>s_recv_window := s_recv_window s - len\<rparr>)"
    then have e2: "evolves st st2" and s2: "get_strm st2 l \<noteq> None" by auto
    have live2: "live_arg pa st2" using live current_evolves [OF e e2] by (auto simp: live_arg_def)
    show "returns ?P (do { (r, c, st) \<leftarrow> process_payload env fn len pa c st2;
         (case r of None \<Rightarrow> Some (0, c, st)
          | Some processed \<Rightarrow> do { st \<leftarrow> finish_data l len processed st; Some (len, c, st) }) })"
    proof (rule returns_bind [OF payload_delivers [OF sn evolves_safe [OF e2] i len live2]], clarify)
      fix r c' st3 assume c': "cinv c'" and k: "keeps st2 st3"
      obtain s3 where s3: "get_strm st3 l = Some s3" using k s2 by (auto simp: spares_def)
      have "returns ?P (do { st \<leftarrow> finish_data l len processed st3; Some (len, c', st) })" for processed
        by (rule returns_bind [OF finish_safe [OF spares_safe [OF k] s3]]) (use c' in auto)
      then show "returns ?P (case r of None \<Rightarrow> Some (0, c', st3) | Some processed \<Rightarrow> do { st \<leftarrow> finish_data l len processed st3; Some (len, c', st) })"
        using c' spares_safe [OF k] by (auto split: option.split)
    qed
  qed (use strm_ok_live [OF e0 s] w in \<open>auto simp: strm_ok_def intro: order_trans [OF word_sub_le]\<close>)
  then show ?thesis using s w by (simp add: take_data_def)
qed

end

text \<open>After the flags, either nothing is done any more or the stream is still there.\<close>

lemma flags_then:
  assumes e: "safe st" and s: "get_strm st l = Some s" and live: "live_arg pa st"
  obtains (over) ok st1 where "process_flags flags l st = Some (ok, st1)" "\<not> ok \<or> get_stream_by_id (s_id s) st1 = None" "safe st1"
  | (on) st1 s1 where "process_flags flags l st = Some (True, st1)" "get_stream_by_id (s_id s) st1 \<noteq> None" "safe st1"
      "get_strm st1 l = Some s1" "live_arg pa st1"
proof -
  have e0: "evolves st st" using e by simp
  obtain ok st1 where r: "process_flags flags l st = Some (ok, st1)"
    "evolves st st1 \<or> (shrinks st st1 \<and> get_stream_by_id (s_id s) st1 = None)"
    using flags_safe [OF e0 s, of flags] by (auto simp: returns_def)
  have sf: "safe st1" using r(2) evolves_safe shrinks_safe by blast
  show thesis
  proof (cases "\<not> ok \<or> get_stream_by_id (s_id s) st1 = None")
    case True
    then show thesis using r(1) sf by (intro over)
  next
    case False
    then have e1: "evolves st st1" using r(2) by auto
    obtain s1 where "get_strm st1 l = Some s1" using evolves_strm [OF e1 s] by blast
    moreover have "live_arg pa st1" using live current_evolves [OF e e1] by (auto simp: live_arg_def)
    ultimately show thesis using r(1) sf False by (intro on) auto
  qed
qed

context gentle_handler
begin

lemma data_safe:
  assumes sn: "snappy_safe env" and e: "safe st" and i: "cinv c" and len: "len \<le> MAX_STREAM_WINDOW_SIZE"
    and s: "get_strm st l = Some s" and live: "live_arg pa st"
  shows "returns (\<lambda>(r, c', st'). cinv c' \<and> safe st') (process_data env fn l len flags pa c st)"
proof (rule flags_then [OF e s live, where flags = flags])
  fix ok st1 assume "process_flags flags l st = Some (ok, st1)" "\<not> ok \<or> get_stream_by_id (s_id s) st1 = None" "safe st1"
  then show ?thesis using s i by (auto simp: process_data_def)
next
  fix st1 s1 assume "process_flags flags l st = Some (True, st1)" "get_stream_by_id (s_id s) st1 \<noteq> None"
    and t: "safe st1" "get_strm st1 l = Some s1" "live_arg pa st1"
  then show ?thesis using take_safe [OF sn t(1) i len t(2,3)] s by (auto simp: process_data_def)
qed

end


section \<open>Window updates, ping, go-away\<close>

lemma window_plus_bound: "window_plus w inc = Some w' \<Longrightarrow> w' \<le> MAX_YAMUX_WINDOW_SIZE"
  by (auto simp: window_plus_def Let_def split: if_splits)

lemma window_opened_safe:
  assumes e: "evolves st0 st" and s: "get_strm st l = Some s"
  shows "returns safe (window_opened l sid old st)"
proof (cases "get_proxy_client sid st")
  case None
  then show ?thesis using evolves_safe [OF e] by (simp add: window_opened_def)
next
  case (Some a)
  have sf: "safe st" using e by (rule evolves_safe)
  then obtain pc where h: "heap st a = Some pc" using client_current [OF _ Some] by (auto simp: safe_def current_def)
  have "returns safe (do { (rc, st) \<leftarrow> tmux_stream_close l st; Some st })"
    by (rule returns_bind [OF close_safe [OF e s]]) (auto dest: shrinks_safe)
  moreover have "returns safe (put_pc a (pc\<lparr>pc_local := map_option (\<lambda>lb. lb\<lparr>lb_reading := True\<rparr>) (pc_local pc)\<rparr>) st)"
    by (rule returns_mono [OF put_safe [OF e h]]) (use client_ok_live [OF sf h] in \<open>auto simp: client_ok_def dest: evolves_safe\<close>)
  ultimately show ?thesis using Some h sf by (simp add: window_opened_def)
qed

lemma incr_window_safe:
  assumes e: "safe st" and s: "get_strm st l = Some s"
  shows "returns (\<lambda>(ok, st'). safe st') (incr_send_window hdr flags l st)"
proof (cases "ctl_up st")
  case False
  then show ?thesis using e by (simp add: incr_send_window_def)
next
  case True
  let ?P = "\<lambda>(ok :: bool, st'). safe st'"
  have e0: "evolves st st" using e by simp
  let ?win = "\<lambda>s1 w st1. do { st \<leftarrow> put_strm l (s1\<lparr>s_send_window := w\<rparr>) st1;
      if w = 0 then Some (True, st) else do { st \<leftarrow> window_opened l (s_id s) (s_send_window s1) st; Some (True, st) } }"
  have win: "returns ?P (?win s1 w st1)" if e1: "evolves st st1" and s1: "get_strm st1 l = Some s1" and w: "w \<le> MAX_YAMUX_WINDOW_SIZE" for st1 s1 w
  proof (rule returns_bind [OF put_strm_safe [OF e1 s1]])
    fix st2 assume 2: "evolves st st2 \<and> get_strm st2 l = Some (s1\<lparr>s_send_window := w\<rparr>)"
    have "returns ?P (do { st \<leftarrow> window_opened l (s_id s) (s_send_window s1) st2; Some (True, st) })"
      by (rule returns_bind [OF window_opened_safe]) (use 2 in auto)
    then show "returns ?P (if w = 0 then Some (True, st2) else do { st \<leftarrow> window_opened l (s_id s) (s_send_window s1) st2; Some (True, st) })"
      using 2 evolves_safe by auto
  qed (use strm_ok_live [OF e1 s1] w in \<open>auto simp: strm_ok_def\<close>)
  let ?rest = "\<lambda>ok st. if \<not> ok then Some (False, st)
        else if get_stream_by_id (s_id s) st = None then Some (True, st)
        else do { s' \<leftarrow> get_strm st l;
          (case window_plus (s_send_window s') (ntohl (h_length hdr)) of
             None \<Rightarrow> Some (False, st) | Some w \<Rightarrow> ?win s' w st) }"
  have "returns ?P (do { (ok, st) \<leftarrow> process_flags flags l st; ?rest ok st })"
  proof (rule returns_bind [OF flags_safe [OF e0 s]], clarify)
    fix ok st1 assume f: "evolves st st1 \<or> (shrinks st st1 \<and> get_stream_by_id (s_id s) st1 = None)"
    have sf: "safe st1" using f evolves_safe shrinks_safe by blast
    have "evolves st st1 \<and> (\<exists>s1. get_strm st1 l = Some s1)" if "get_stream_by_id (s_id s) st1 \<noteq> None"
      using f that evolves_strm [OF _ s] by metis
    then consider "\<not> ok \<or> get_stream_by_id (s_id s) st1 = None"
      | s1 where "ok" "get_stream_by_id (s_id s) st1 \<noteq> None" "evolves st st1" "get_strm st1 l = Some s1" by blast
    then show "returns ?P (?rest ok st1)"
    proof cases
      case 2
      then show ?thesis using sf win [OF 2(3,4) window_plus_bound] by (auto split: option.split)
    qed (use sf in auto)
  qed
  then show ?thesis using True s by (simp add: incr_send_window_def)
qed

lemma same_safe: "safe st \<Longrightarrow> same_objects st st' \<Longrightarrow> safe st'"
  using same_objects_evolves [of st st st'] evolves_safe by auto

lemma mux_stream_safe:
  assumes "safe st"
  shows "returns safe (handle_tcp_mux_stream hdr st)"
proof (cases "get_stream_by_id (ntohl (h_stream_id hdr)) st")
  case None
  then show ?thesis using assms same_safe [OF assms sends_same(4)]
    by (simp add: handle_tcp_mux_stream_def incoming_stream_def Let_def)
next
  case (Some l)
  then obtain s where s: "get_strm st l = Some s"
    using assms unfolding safe_def mux_ok_def get_stream_by_id_def by blast
  have "returns safe (do { (ok, st) \<leftarrow> incr_send_window hdr (ntohs (h_flags hdr)) l st; Some (if ok then st else tcp_mux_send_go_away 1 st) })"
    by (rule returns_bind [OF incr_window_safe [OF assms s]]) (use same_safe [OF _ go_away_same] in auto)
  then show ?thesis using Some assms same_safe [OF assms sends_same(4)]
    by (simp add: handle_tcp_mux_stream_def incoming_stream_def Let_def)
qed

lemma ping_safe: "safe st \<Longrightarrow> safe (handle_tcp_mux_ping hdr st)"
  by (auto simp: handle_tcp_mux_ping_def intro: same_safe sends_same)

section \<open>The frame loop\<close>

text \<open>Between two calls: the state is safe, the stream that waits for its payload exists, what was read of the
  header lies within it, and the payload that is awaited is one a frame can have.\<close>

definition ready :: "rx \<Rightarrow> mux \<Rightarrow> bool" where
  "ready rx st \<longleftrightarrow> safe st \<and> length (rx_hdr rx) = 12 \<and> rx_partial rx < 12 \<and>
     (\<forall>l. cur_stream st = Some l \<longrightarrow> get_strm st l \<noteq> None \<and> rx_len rx \<le> MAX_STREAM_WINDOW_SIZE)"

definition turn_ready :: "('c \<Rightarrow> bool) \<Rightarrow> 'c turn \<Rightarrow> bool" where
  "turn_ready cinv t = (case t of Leave rx c st \<Rightarrow> cinv c \<and> ready rx st | Again len rx c st \<Rightarrow> cinv c \<and> ready rx st)"

lemma ready_idle: "safe st \<Longrightarrow> length (rx_hdr rx) = 12 \<Longrightarrow> rx_partial rx < 12 \<Longrightarrow> ready rx (set_cur_stream None st)"
  by (simp add: ready_def set_cur_stream_def)

lemma other_ready:
  assumes "ready rx st" "cinv c"
  shows "returns (turn_ready cinv) (other_frame len rx c st)"
proof -
  have sf: "safe st" and r: "length (rx_hdr rx) = 12" "rx_partial rx < 12" using assms by (auto simp: ready_def)
  have "returns (turn_ready cinv) (do { st \<leftarrow> handle_tcp_mux_stream hdr st; Some (Again len rx c (set_cur_stream None st)) })" for hdr
    by (rule returns_bind [OF mux_stream_safe [OF sf]]) (use assms(2) r ready_idle in \<open>auto simp: turn_ready_def\<close>)
  moreover have "safe (handle_tcp_mux_go_away hdr st)" for hdr using sf by (simp add: handle_tcp_mux_go_away_def)
  ultimately show ?thesis using assms r ready_idle ping_safe [OF sf]
    by (auto simp: other_frame_def Let_def turn_ready_def)
qed

text \<open>What every turn keeps, the loop keeps; \<open>partial\<close>: a turn may also go wrong.\<close>

lemma mux_loop_invariant:
  assumes turn: "\<And>len rx c st. I rx c st \<Longrightarrow>
      (case mux_turn env fn len rx c st of None \<Rightarrow> partial
       | Some t \<Rightarrow> (case t of Leave rx c st \<Rightarrow> I rx c st | Again len rx c st \<Rightarrow> I rx c st))"
    and "I rx c st"
  shows "case mux_loop env fn len rx c st of None \<Rightarrow> partial | Some (rx, c, st) \<Rightarrow> I rx c st"
  using assms(2)
proof (induction "(nat len, turn_rank rx st)" arbitrary: len rx c st rule: wf_induct_rule [OF wf_lex_prod [OF wf_less_than wf_less_than]])
  case (1 len rx st c)
  show ?case
  proof (cases "0 < len")
    case False
    then show ?thesis using 1 by (simp add: mux_loop.simps)
  next
    case True
    note now = turn [OF 1(2), of len]
    show ?thesis
    proof (cases "mux_turn env fn len rx c st")
      case None
      then show ?thesis using now True by (subst mux_loop.simps) simp
    next
      case t: (Some t)
      show ?thesis
      proof (cases t)
        case (Leave rx' c' st')
        then show ?thesis using t now True by (subst mux_loop.simps) simp
      next
        case (Again len' rx' c' st')
        have "case mux_loop env fn len' rx' c' st' of None \<Rightarrow> partial | Some (rx, c, st) \<Rightarrow> I rx c st"
          by (rule 1(1)) (use t now Again turn_progress [of env fn len rx c st len' rx' c' st'] True in auto)
        then show ?thesis using t Again True by (subst mux_loop.simps) simp
      qed
    qed
  qed
qed

lemma abandon_ok:
  assumes "mux_ok st"
  shows "mux_ok (st\<lparr>abandon_stream := calloc_stream\<rparr>)"
proof -
  have "get_strm (st\<lparr>abandon_stream := calloc_stream\<rparr>) l = get_strm st l" if "l \<noteq> AbandonLoc" for l
    using that by (cases l) (simp_all add: get_strm_def)
  moreover have "strm_ok calloc_stream" by (simp add: strm_ok_def calloc_stream_def)
  ultimately show ?thesis using assms unfolding mux_ok_def by simp
qed

lemma frame_avail_le: "frame_avail len n \<le> n"
proof (cases "0 \<le> len \<and> len < uint n")
  case True
  then have "len < 2 ^ 32" using uint_lt2p [of n] by simp
  then have "uint (word_of_int len :: u32) = len" using True by (simp add: uint_word_of_int)
  then show ?thesis using True by (simp add: frame_avail_def word_le_def)
qed (auto simp: frame_avail_def)

context gentle_handler
begin

lemma consume_ready:
  assumes sn: "snappy_safe env" and r: "ready rx st" and i: "cinv c"
    and cur: "get_strm st cur \<noteq> None" and len: "rx_len rx \<le> MAX_STREAM_WINDOW_SIZE"
  shows "returns (turn_ready cinv) (consume_payload env fn cur len rx c st)"
proof -
  have sf: "safe st" and hd: "length (rx_hdr rx) = 12" "rx_partial rx < 12" using r by (auto simp: ready_def)
  obtain s where s: "get_strm st cur = Some s" using cur by auto
  have "returns (turn_ready cinv) (do { (r, c, st) \<leftarrow> process_data env fn cur (rx_len rx) flags (get_proxy_client (s_id s) st) c st;
      Some (Again n (rx\<lparr>rx_len := 0\<rparr>) c (set_cur_stream None st)) })" for flags n
    by (rule returns_bind [OF data_safe [OF sn sf i len s client_live_arg [OF sf]]])
       (use hd ready_idle in \<open>auto simp: turn_ready_def\<close>)
  moreover have "ready (rx\<lparr>rx_len := x\<rparr>) (st\<lparr>ctl_in := y\<rparr>)" if "x \<le> rx_len rx" for x y
    using r that len by (auto simp: ready_def get_strm_def cong: loc.case_cong split: loc.splits)
  moreover have "ready (rx\<lparr>rx_len := 0\<rparr>) (set_cur_stream None (st\<lparr>ctl_in := y, abandon_stream := calloc_stream\<rparr>))" for y
  proof -
    have "mux_ok (st\<lparr>ctl_in := y, abandon_stream := calloc_stream\<rparr>)" by (rule abandon_ok) (use sf in \<open>simp add: safe_def\<close>)
    then show ?thesis using sf hd by (simp add: ready_def set_cur_stream_def safe_def)
  qed
  moreover have "ready rx (set_cur_stream (Some cur) st)" using r cur len by (simp add: ready_def set_cur_stream_def)
  moreover have "frame_avail len (rx_len rx) \<le> rx_len rx" by (rule frame_avail_le)
  ultimately show ?thesis using s i by (auto simp: consume_payload_def Let_def turn_ready_def word_sub_le)
qed

lemma dispatch_ready:
  assumes sn: "snappy_safe env" and r: "ready rx st" and i: "cinv c"
    and cur: "\<And>l. cur = Some l \<Longrightarrow> get_strm st l \<noteq> None \<and> rx_len rx \<le> MAX_STREAM_WINDOW_SIZE"
    and data: "h_type (header_of (rx_hdr rx)) = TMUX_DATA \<Longrightarrow> cur \<noteq> None"
  shows "returns (turn_ready cinv) (dispatch_frame env fn cur len rx c st)"
  using consume_ready [OF sn r i] other_ready [of rx st cinv, OF r i] cur data
  by (cases cur) (auto simp: dispatch_frame_def)

lemma begin_ready:
  assumes sn: "snappy_safe env" and r: "ready rx st" and i: "cinv c" and idle: "cur_stream st = None"
  shows "returns (turn_ready cinv) (begin_frame env fn len rx c st)"
proof (cases "h_type (header_of (rx_hdr rx)) = TMUX_DATA")
  case False
  have "returns (turn_ready cinv) (dispatch_frame env fn None len rx c st)"
    by (rule dispatch_ready [OF sn r i]) (use False in auto)
  then show ?thesis using False r i by (simp add: begin_frame_def Let_def turn_ready_def)
next
  case True
  let ?hdr = "header_of (rx_hdr rx)"
  let ?rx = "rx\<lparr>rx_len := ntohl (h_length ?hdr)\<rparr>"
  have r1: "ready (rx\<lparr>rx_len := x\<rparr>) st" for x using r idle by (simp add: ready_def)
  have wait: "ready ?rx (set_cur_stream (Some l) st)" if "get_strm st l \<noteq> None" "\<not> rx_len ?rx > MAX_STREAM_WINDOW_SIZE" for l
    using r that by (auto simp: ready_def set_cur_stream_def)
  have go: "returns (turn_ready cinv) (dispatch_frame env fn (Some l) len ?rx c st)"
    if "get_strm st l \<noteq> None" "\<not> rx_len ?rx > MAX_STREAM_WINDOW_SIZE" for l
    by (rule dispatch_ready [OF sn r1 i]) (use that in auto)
  have ab: "get_strm st AbandonLoc \<noteq> None" by (simp add: get_strm_def)
  have known: "get_strm st l \<noteq> None" if "get_stream_by_id j st = Some l" for j l
    using r that unfolding ready_def safe_def mux_ok_def get_stream_by_id_def by force
  show ?thesis
  proof (cases "get_stream_by_id (ntohl (h_stream_id ?hdr)) st")
    case None
    then show ?thesis using True r r1 i wait [OF ab] go [OF ab] by (simp add: begin_frame_def Let_def turn_ready_def)
  next
    case (Some l)
    then show ?thesis using True r r1 i wait [OF known [OF Some]] go [OF known [OF Some]]
      by (simp add: begin_frame_def Let_def turn_ready_def)
  qed
qed

lemma header_ready:
  assumes "ready rx st" "cur_stream st = None" "read_header len rx st = (r, rx', st')"
  shows "ready rx' st' \<and> cur_stream st' = None"
  using assms by (auto simp: read_header_def bev_read_def Let_def ready_def split: if_splits)

lemma mux_turn_ready:
  assumes sn: "snappy_safe env" and r: "ready rx st" and i: "cinv c"
  shows "returns (turn_ready cinv) (mux_turn env fn len rx c st)"
proof (cases "cur_stream st")
  case (Some cur)
  have "returns (turn_ready cinv) (dispatch_frame env fn (Some cur) len rx c st)"
    by (rule dispatch_ready [OF sn r i]) (use r Some in \<open>auto simp: ready_def\<close>)
  then show ?thesis using Some by (simp add: mux_turn_def get_cur_stream_def)
next
  case None
  obtain o1 rx1 st1 where h: "read_header len rx st = (o1, rx1, st1)" by (metis prod.exhaust)
  note h1 = header_ready [OF r None h]
  show ?thesis using None h h1 i begin_ready [OF sn _ i, of rx1 st1]
    by (cases o1) (auto simp: mux_turn_def get_cur_stream_def turn_ready_def)
qed

lemma loop_ready:
  assumes sn: "snappy_safe env" and r: "ready rx st" and i: "cinv c"
  shows "returns (\<lambda>(rx', c', st'). cinv c' \<and> ready rx' st') (mux_loop env fn len rx c st)"
proof -
  have "case mux_loop env fn len rx c st of None \<Rightarrow> False | Some (rx, c, st) \<Rightarrow> cinv c \<and> ready rx st"
  proof (rule mux_loop_invariant)
    fix len rx c st assume "cinv c \<and> ready rx st"
    then obtain t where "mux_turn env fn len rx c st = Some t" "turn_ready cinv t"
      using mux_turn_ready [OF sn, of rx st c len] by (auto simp: returns_def)
    then show "case mux_turn env fn len rx c st of None \<Rightarrow> False
        | Some (Leave rx c st) \<Rightarrow> cinv c \<and> ready rx st | Some (Again len rx c st) \<Rightarrow> cinv c \<and> ready rx st"
      by (simp add: turn_ready_def)
  qed (use r i in simp)
  then show ?thesis by (auto simp: returns_def split: option.splits)
qed

end

section \<open>Runs without a fault\<close>

text \<open>When nothing was noted, the run with the observed handler is the run of the program.\<close>

definition noted :: "('c \<times> bool) turn \<Rightarrow> bool" where
  "noted t = (case t of Leave rx cb st \<Rightarrow> snd cb | Again len rx cb st \<Rightarrow> snd cb)"

lemma watch_sim:
  "watch fn data pa cb st = Some (cb', st') \<Longrightarrow>
     (snd cb \<longrightarrow> snd cb') \<and> (\<not> snd cb' \<longrightarrow> fn data pa (fst cb) st = Some (fst cb', st'))"
  by (auto simp: watch_def split: if_splits)

lemma copy_sim:
  assumes "deliver_copy (watch fn) len pa cb st = Some (r, cb', st')"
  shows "(snd cb \<longrightarrow> snd cb') \<and> (\<not> snd cb' \<longrightarrow> deliver_copy fn len pa (fst cb) st = Some (r, fst cb', st'))"
  using assms
  by (auto simp: deliver_copy_def Let_def alloc_def bev_read_def bind_eq_Some_conv split: if_splits dest!: watch_sim)

lemma with_ctl_sim: "with_ctl cb x = Some (r, cb', st') \<Longrightarrow> cb' = cb \<and> with_ctl (fst cb) x = Some (r, fst cb', st')"
  by (auto simp: with_ctl_def bind_eq_Some_conv)

lemma payload_sim:
  assumes "process_payload env (watch fn) len pa cb st = Some (r, cb', st')"
  shows "(snd cb \<longrightarrow> snd cb') \<and> (\<not> snd cb' \<longrightarrow> process_payload env fn len pa (fst cb) st = Some (r, fst cb', st'))"
proof (cases pa)
  case None
  then show ?thesis using assms copy_sim [of fn len None cb st r cb' st'] by (simp add: process_payload_def)
next
  case (Some a)
  then obtain pc where "heap st a = Some pc" using assms by (auto simp: process_payload_def bind_eq_Some_conv)
  then show ?thesis using assms Some with_ctl_sim [of cb _ r cb' st'] copy_sim [of fn len pa cb st r cb' st']
    by (auto simp: process_payload_def split: if_splits)
qed

lemma take_sim:
  assumes "take_data env (watch fn) l len pa cb st = Some (r, cb', st')"
  shows "(snd cb \<longrightarrow> snd cb') \<and> (\<not> snd cb' \<longrightarrow> take_data env fn l len pa (fst cb) st = Some (r, fst cb', st'))"
proof -
  obtain s where b: "get_strm st l = Some s" using assms by (auto simp: take_data_def bind_eq_Some_conv)
  show ?thesis
  proof (cases "len > s_recv_window s")
    case True
    then show ?thesis using assms b by (auto simp: take_data_def)
  next
    case w: False
    then obtain st2 r1 cb1 st3 where c: "put_strm l (s\<lparr>s_recv_window := s_recv_window s - len\<rparr>) st = Some st2"
      "process_payload env (watch fn) len pa cb st2 = Some (r1, cb1, st3)"
      using assms b by (auto simp: take_data_def bind_eq_Some_conv)
    have "cb' = cb1" using assms b w c by (auto simp: take_data_def bind_eq_Some_conv split: option.splits)
    with payload_sim [OF c(2)] assms b w c show ?thesis by (auto simp: take_data_def bind_eq_Some_conv split: option.splits)
  qed
qed

lemma data_sim:
  assumes "process_data env (watch fn) l len flags pa cb st = Some (r, cb', st')"
  shows "(snd cb \<longrightarrow> snd cb') \<and> (\<not> snd cb' \<longrightarrow> process_data env fn l len flags pa (fst cb) st = Some (r, fst cb', st'))"
proof -
  obtain s ok st1 where a: "get_strm st l = Some s" "process_flags flags l st = Some (ok, st1)"
    using assms by (auto simp: process_data_def bind_eq_Some_conv)
  show ?thesis using assms a take_sim [of env fn l len pa cb st1 r cb' st'] by (auto simp: process_data_def split: if_splits)
qed

lemma consume_sim:
  assumes "consume_payload env (watch fn) cur len rx cb st = Some t"
  shows "(snd cb \<longrightarrow> noted t) \<and> (\<not> noted t \<longrightarrow> consume_payload env fn cur len rx (fst cb) st = Some (map_turn fst t))"
  using assms
  by (auto simp: consume_payload_def Let_def noted_def bind_eq_Some_conv split: if_splits dest!: data_sim)

lemma other_sim:
  assumes "other_frame len rx cb st = Some t"
  shows "noted t = snd cb \<and> other_frame len rx (fst cb) st = Some (map_turn fst t)"
  using assms by (auto simp: other_frame_def Let_def noted_def bind_eq_Some_conv split: if_splits)

lemma dispatch_sim:
  assumes "dispatch_frame env (watch fn) cur len rx cb st = Some t"
  shows "(snd cb \<longrightarrow> noted t) \<and> (\<not> noted t \<longrightarrow> dispatch_frame env fn cur len rx (fst cb) st = Some (map_turn fst t))"
  using assms
  by (auto simp: dispatch_frame_def bind_eq_Some_conv split: if_splits dest!: consume_sim other_sim)

lemma begin_sim:
  assumes "begin_frame env (watch fn) len rx cb st = Some t"
  shows "(snd cb \<longrightarrow> noted t) \<and> (\<not> noted t \<longrightarrow> begin_frame env fn len rx (fst cb) st = Some (map_turn fst t))"
  using assms dispatch_sim [where env = env and fn = fn and cb = cb]
  by (auto simp: begin_frame_def Let_def noted_def split: if_splits option.splits)

lemma turn_sim:
  assumes "mux_turn env (watch fn) len rx cb st = Some t"
  shows "(snd cb \<longrightarrow> noted t) \<and> (\<not> noted t \<longrightarrow> mux_turn env fn len rx (fst cb) st = Some (map_turn fst t))"
  using assms
  by (auto simp: mux_turn_def noted_def split: option.splits prod.splits dest!: dispatch_sim begin_sim)

lemma loop_sim:
  "mux_loop env (watch fn) len rx cb st = Some (rx', cb', st') \<Longrightarrow>
     (snd cb \<longrightarrow> snd cb') \<and> (\<not> snd cb' \<longrightarrow> mux_loop env fn len rx (fst cb) st = Some (rx', fst cb', st'))"
proof (induction env "watch fn" len rx cb st rule: mux_loop.induct)
  case (1 env len rx cb st)
  show ?case
  proof (cases "len \<le> 0")
    case True
    then show ?thesis using 1(2) by (simp add: mux_loop.simps)
  next
    case False
    then obtain t where t: "mux_turn env (watch fn) len rx cb st = Some t"
      using 1(2) by (auto simp: mux_loop.simps [of env "watch fn"] split: option.splits)
    note sim = turn_sim [OF t]
    show ?thesis
    proof (cases t)
      case (Leave rx1 c1 st1)
      then show ?thesis using 1(2) False t sim by (auto simp: mux_loop.simps [of env _ len] noted_def)
    next
      case (Again len1 rx1 c1 st1)
      have r: "mux_loop env (watch fn) len1 rx1 c1 st1 = Some (rx', cb', st')"
        using 1(2) False t Again by (simp add: mux_loop.simps [of env _ len])
      from 1(1) [OF False t Again r] sim Again False show ?thesis
        by (auto simp: mux_loop.simps [of env fn len] noted_def)
    qed
  qed
qed

context message_handler
begin

text \<open>A run whose calls of the handler all go well returns and leaves a state that is ready.\<close>

lemma run_defined:
  assumes "snappy_safe env" "ready rx st" "cinv c"
  obtains rx' c' st' fault where "mux_loop env (watch fn) len rx (c, False) st = Some (rx', (c', fault), st')"
    "cinv c'" "ready rx' st'" "\<not> fault \<Longrightarrow> mux_loop env fn len rx c st = Some (rx', c', st')"
proof -
  obtain rx' cb' st' where r: "mux_loop env (watch fn) len rx (c, False) st = Some (rx', cb', st')" "cinv (fst cb')" "ready rx' st'"
    using w.loop_ready [OF assms(1,2), of "(c, False)" len] assms(3) by (auto simp: returns_def)
  show thesis using r loop_sim [OF r(1)] by (intro that [of rx' "fst cb'" "snd cb'" st']) auto
qed

end

end
