(* ===== verification/Receive_Partial.thy ===== *)
theory Receive_Partial
  imports Receive_Safety
begin

text \<open>
  Runs of the receiving side that come to an end. A message handler may go wrong, and the stream whose
  payload is awaited may belong to a client that has been freed in the meantime; whenever the frame loop
  returns nevertheless, the state it leaves is well formed. This is the invariant of the read callback in
  the state machine of the whole client.
\<close>

section \<open>What a returning handler leaves\<close>

lemma spares_heap:
  "spares pa st st' \<longleftrightarrow> safe st' \<and> (\<forall>b. heap st b \<noteq> None \<longrightarrow> pa \<noteq> Some b \<longrightarrow> heap st' b \<noteq> None)" (is "?l = ?r")
proof
  show "?r" if l: ?l
    using l unfolding spares_def by (auto dest!: spec [of _ "PcLoc _"] simp: get_strm_def)
  show "?l" if r: ?r
  proof -
    have "get_strm st' l \<noteq> None" if "get_strm st l \<noteq> None" "\<forall>a. pa = Some a \<longrightarrow> l \<noteq> PcLoc a" for l
      using that r by (cases l) (auto simp: get_strm_def)
    with r show ?thesis unfolding spares_def by blast
  qed
qed

lemma keeps_spares: "keeps st st' \<Longrightarrow> spares pa st st'"
  by (simp add: spares_heap)

lemma spares_adjust [simp]:
  "spares pa (st\<lparr>tick := n\<rparr>) st' = spares pa st st'" "spares pa (st\<lparr>ctl_in := x\<rparr>) st' = spares pa st st'"
  by (simp_all add: spares_heap)

text \<open>Between two calls, with a stream that may be gone.\<close>

definition steady :: "rx \<Rightarrow> mux \<Rightarrow> bool" where
  "steady rx st \<longleftrightarrow> safe st \<and> length (rx_hdr rx) = 12 \<and> rx_partial rx < 12 \<and>
     (cur_stream st \<noteq> None \<longrightarrow> rx_len rx \<le> MAX_STREAM_WINDOW_SIZE)"

lemma ready_steady: "ready rx st \<longleftrightarrow> steady rx st \<and> (\<forall>l. cur_stream st = Some l \<longrightarrow> get_strm st l \<noteq> None)"
  by (auto simp: ready_def steady_def)

definition turn_steady :: "('c \<Rightarrow> bool) \<Rightarrow> 'c turn \<Rightarrow> bool" where
  "turn_steady cinv t = (case t of Leave rx c st \<Rightarrow> cinv c \<and> steady rx st | Again len rx c st \<Rightarrow> cinv c \<and> steady rx st)"

context message_handler
begin

lemma copy_yields:
  assumes e: "safe st" and i: "cinv c" and live: "live_arg pa st"
  shows "yields (\<lambda>(r, c', st'). cinv c' \<and> spares pa st st') (deliver_copy fn len pa c st)"
proof -
  let ?st = "st\<lparr>tick := Suc (tick st)\<rparr>"
  let ?st1 = "?st\<lparr>ctl_in := drop (unat len) (ctl_in st)\<rparr>"
  have k: "spares pa st ?st1" "spares pa st ?st" using e by (simp_all add: spares_heap)
  have "safe ?st1" "live_arg pa ?st1"
    using e live by (auto simp: live_arg_def current_def get_proxy_client_def split: if_splits)
  then have "yields (\<lambda>(c', st'). cinv c' \<and> spares pa st st') (fn d pa c ?st1)" for d
    using fn_spares [OF _ i, of ?st1 pa d] by (auto simp: yields_def)
  then have "yields (\<lambda>(r, c', st'). cinv c' \<and> spares pa st st') (do { (c, st) \<leftarrow> fn d pa c ?st1; Some (Some len, c, st) })" for d
    by (rule yields_bind) auto
  then show ?thesis using k i by (auto simp: deliver_copy_def alloc_def bev_read_def)
qed

lemma payload_yields:
  assumes sn: "snappy_safe env" and e: "safe st" and i: "cinv c" and len: "len \<le> MAX_STREAM_WINDOW_SIZE"
    and live: "live_arg pa st"
  shows "yields (\<lambda>(r, c', st'). cinv c' \<and> spares pa st st') (process_payload env fn len pa c st)"
proof (cases pa)
  case None
  then show ?thesis using copy_yields [OF e i, of None] by (simp add: process_payload_def live_arg_def)
next
  case (Some a)
  then obtain pc where h: "heap st a = Some pc" using live by (auto simp: live_arg_def current_def)
  have "yields (\<lambda>(r, c', st'). cinv c' \<and> spares pa st st') (with_ctl c x)" if "returns (taken st) x" for x
    by (rule yields_mono [OF returns_yields [OF with_ctl_taken [OF that, of c]]]) (use i in \<open>auto intro: keeps_spares\<close>)
  with service_delivers [OF sn e h len] copy_yields [OF e i live] h Some show ?thesis by (auto simp: process_payload_def)
qed

text \<open>When the handler has removed the client of this very stream, the access to the stream after it goes wrong.\<close>

lemma take_yields:
  assumes sn: "snappy_safe env" and e: "safe st" and i: "cinv c" and len: "len \<le> MAX_STREAM_WINDOW_SIZE"
    and s: "get_strm st l = Some s" and live: "live_arg pa st"
  shows "yields (\<lambda>(r, c', st'). cinv c' \<and> safe st') (take_data env fn l len pa c st)"
proof (cases "len > s_recv_window s")
  case True
  then show ?thesis using s i e by (simp add: take_data_def)
next
  case w: False
  let ?P = "\<lambda>(r :: u32, c', st'). cinv c' \<and> safe st'"
  have e0: "evolves st st" using e by simp
  have "yields ?P (do {
         st \<leftarrow> put_strm l (s\<lparr>s_recv_window := s_recv_window s - len\<rparr>) st;
         (r, c, st) \<leftarrow> process_payload env fn len pa c st;
         (case r of None \<Rightarrow> Some (0, c, st)
          | Some processed \<Rightarrow> do { st \<leftarrow> finish_data l len processed st; Some (len, c, st) }) })"
  proof (rule yields_bind [OF returns_yields [OF put_strm_safe [OF e0 s]]])
    fix st2 assume "evolves st st2 \<and> get_strm st2 l = Some (s\<lparr>s_recv_window := s_recv_window s - len\<rparr>)"
    then have e2: "evolves st st2" by auto
    have live2: "live_arg pa st2" using live current_evolves [OF e e2] by (auto simp: live_arg_def)
    show "yields ?P (do { (r, c, st) \<leftarrow> process_payload env fn len pa c st2;
         (case r of None \<Rightarrow> Some (0, c, st)
          | Some processed \<Rightarrow> do { st \<leftarrow> finish_data l len processed st; Some (len, c, st) }) })"
    proof (rule yields_bind [OF payload_yields [OF sn evolves_safe [OF e2] i len live2]], clarify)
      fix r c' st3 assume c': "cinv c'" and k: "spares pa st2 st3"
      have fin: "yields safe (finish_data l len processed st3)" for processed
      proof (cases "get_strm st3 l")
        case None
        then show ?thesis by (simp add: finish_data_def send_window_update_def)
      next
        case (Some s3)
        then show ?thesis using returns_yields [OF finish_safe [OF spares_safe [OF k]]] by blast
      qed
      have "yields ?P (do { st \<leftarrow> finish_data l len processed st3; Some (len, c', st) })" for processed
        by (rule yields_bind [OF fin]) (use c' in auto)
      then show "yields ?P (case r of None \<Rightarrow> Some (0, c', st3) | Some processed \<Rightarrow> do { st \<leftarrow> finish_data l len processed st3; Some (len, c', st) })"
        using c' spares_safe [OF k] by (auto split: option.split)
    qed
  qed (use strm_ok_live [OF e0 s] w in \<open>auto simp: strm_ok_def intro: order_trans [OF word_sub_le]\<close>)
  then show ?thesis using s w by (simp add: take_data_def)
qed

lemma data_yields:
  assumes sn: "snappy_safe env" and e: "safe st" and i: "cinv c" and len: "len \<le> MAX_STREAM_WINDOW_SIZE"
    and live: "live_arg pa st"
  shows "yields (\<lambda>(r, c', st'). cinv c' \<and> safe st') (process_data env fn l len flags pa c st)"
proof (cases "get_strm st l")
  case None
  then show ?thesis by (simp add: process_data_def)
next
  case s: (Some s)
  show ?thesis
  proof (rule flags_then [OF e s live, where flags = flags])
    fix ok st1 assume "process_flags flags l st = Some (ok, st1)" "\<not> ok \<or> get_stream_by_id (s_id s) st1 = None" "safe st1"
    then show ?thesis using s i by (auto simp: process_data_def)
  next
    fix st1 s1 assume "process_flags flags l st = Some (True, st1)" "get_stream_by_id (s_id s) st1 \<noteq> None"
      and t: "safe st1" "get_strm st1 l = Some s1" "live_arg pa st1"
    then show ?thesis using take_yields [OF sn t(1) i len t(2,3)] s by (auto simp: process_data_def)
  qed
qed

end

section \<open>The frame loop\<close>

lemma steady_idle: "safe st \<Longrightarrow> length (rx_hdr rx) = 12 \<Longrightarrow> rx_partial rx < 12 \<Longrightarrow> steady rx (set_cur_stream None st)"
  by (simp add: steady_def set_cur_stream_def)

lemma steady_adjust:
  "steady rx st \<Longrightarrow> x \<le> rx_len rx \<Longrightarrow> steady (rx\<lparr>rx_len := x\<rparr>) (st\<lparr>ctl_in := y\<rparr>)"
  "steady rx st \<Longrightarrow> steady (rx\<lparr>rx_len := 0\<rparr>) (set_cur_stream None (st\<lparr>ctl_in := y, abandon_stream := calloc_stream\<rparr>))"
proof -
  show "steady rx st \<Longrightarrow> x \<le> rx_len rx \<Longrightarrow> steady (rx\<lparr>rx_len := x\<rparr>) (st\<lparr>ctl_in := y\<rparr>)"
    by (auto simp: steady_def intro: order_trans)
  assume s: "steady rx st"
  then have "mux_ok (st\<lparr>ctl_in := y, abandon_stream := calloc_stream\<rparr>)" by (intro abandon_ok) (simp add: steady_def safe_def)
  then show "steady (rx\<lparr>rx_len := 0\<rparr>) (set_cur_stream None (st\<lparr>ctl_in := y, abandon_stream := calloc_stream\<rparr>))"
    using s by (simp add: steady_def set_cur_stream_def safe_def)
qed

lemma other_steady:
  assumes "steady rx st" "cinv c"
  shows "yields (turn_steady cinv) (other_frame len rx c st)"
proof -
  have sf: "safe st" and r: "length (rx_hdr rx) = 12" "rx_partial rx < 12" using assms by (auto simp: steady_def)
  have "yields (turn_steady cinv) (do { st \<leftarrow> handle_tcp_mux_stream hdr st; Some (Again len rx c (set_cur_stream None st)) })" for hdr
    by (rule yields_bind [OF returns_yields [OF mux_stream_safe [OF sf]]]) (use assms(2) r steady_idle in \<open>auto simp: turn_steady_def\<close>)
  moreover have "safe (handle_tcp_mux_go_away hdr st)" for hdr using sf by (simp add: handle_tcp_mux_go_away_def)
  ultimately show ?thesis using assms r steady_idle ping_safe [OF sf]
    by (auto simp: other_frame_def Let_def turn_steady_def)
qed

context message_handler
begin

lemma consume_steady:
  assumes sn: "snappy_safe env" and r: "steady rx st" and i: "cinv c" and len: "rx_len rx \<le> MAX_STREAM_WINDOW_SIZE"
  shows "yields (turn_steady cinv) (consume_payload env fn cur len rx c st)"
proof -
  have sf: "safe st" and hd: "length (rx_hdr rx) = 12" "rx_partial rx < 12" using r by (auto simp: steady_def)
  have "yields (turn_steady cinv) (do { (r, c, st) \<leftarrow> process_data env fn cur (rx_len rx) flags (get_proxy_client (s_id s) st) c st;
      Some (Again n (rx\<lparr>rx_len := 0\<rparr>) c (set_cur_stream None st)) })" for flags n s
    by (rule yields_bind [OF data_yields [OF sn sf i len client_live_arg [OF sf]]])
       (use hd steady_idle in \<open>auto simp: turn_steady_def\<close>)
  moreover have "steady rx (set_cur_stream (Some cur) st)" using r len by (simp add: steady_def set_cur_stream_def)
  moreover have "frame_avail len (rx_len rx) \<le> rx_len rx" by (rule frame_avail_le)
  ultimately show ?thesis using i steady_adjust [OF r]
    by (cases "get_strm st cur") (auto simp: consume_payload_def Let_def turn_steady_def word_sub_le)
qed

lemma dispatch_steady:
  assumes sn: "snappy_safe env" and r: "steady rx st" and i: "cinv c"
    and cur: "cur \<noteq> None \<Longrightarrow> rx_len rx \<le> MAX_STREAM_WINDOW_SIZE"
  shows "yields (turn_steady cinv) (dispatch_frame env fn cur len rx c st)"
  using consume_steady [OF sn r i] other_steady [of rx st cinv, OF r i] cur
  by (cases cur) (auto simp: dispatch_frame_def)

lemma begin_steady:
  assumes sn: "snappy_safe env" and r: "steady rx st" and i: "cinv c" and idle: "cur_stream st = None"
  shows "yields (turn_steady cinv) (begin_frame env fn len rx c st)"
proof -
  let ?rx = "rx\<lparr>rx_len := ntohl (h_length (header_of (rx_hdr rx)))\<rparr>"
  have r1: "steady ?rx st" using r idle by (simp add: steady_def)
  have "steady ?rx (set_cur_stream (Some l) st)" if "\<not> rx_len ?rx > MAX_STREAM_WINDOW_SIZE" for l
    using r that by (auto simp: steady_def set_cur_stream_def)
  moreover have "yields (turn_steady cinv) (dispatch_frame env fn (Some l) len ?rx c st)"
    if "\<not> rx_len ?rx > MAX_STREAM_WINDOW_SIZE" for l
    by (rule dispatch_steady [OF sn r1 i]) (use that in auto)
  moreover have "yields (turn_steady cinv) (dispatch_frame env fn None len rx c st)"
    by (rule dispatch_steady [OF sn r i]) simp
  ultimately show ?thesis using r r1 i by (auto simp: begin_frame_def Let_def turn_steady_def split: option.split)
qed

lemma turn_steady:
  assumes sn: "snappy_safe env" and r: "steady rx st" and i: "cinv c"
  shows "yields (turn_steady cinv) (mux_turn env fn len rx c st)"
proof (cases "cur_stream st")
  case (Some cur)
  have "yields (turn_steady cinv) (dispatch_frame env fn (Some cur) len rx c st)"
    by (rule dispatch_steady [OF sn r i]) (use r Some in \<open>auto simp: steady_def\<close>)
  then show ?thesis using Some by (simp add: mux_turn_def get_cur_stream_def)
next
  case None
  obtain o1 rx1 st1 where h: "read_header len rx st = (o1, rx1, st1)" by (metis prod.exhaust)
  have "steady rx1 st1 \<and> cur_stream st1 = None"
    using r None h by (auto simp: read_header_def bev_read_def Let_def steady_def split: if_splits)
  then show ?thesis using None h i begin_steady [OF sn _ i, of rx1 st1]
    by (cases o1) (auto simp: mux_turn_def get_cur_stream_def turn_steady_def)
qed

lemma loop_steady:
  assumes sn: "snappy_safe env" and r: "steady rx st" and i: "cinv c"
  shows "yields (\<lambda>(rx', c', st'). cinv c' \<and> steady rx' st') (mux_loop env fn len rx c st)"
proof -
  have "case mux_loop env fn len rx c st of None \<Rightarrow> True | Some (rx, c, st) \<Rightarrow> cinv c \<and> steady rx st"
  proof (rule mux_loop_invariant)
    fix len rx c st assume "cinv c \<and> steady rx st"
    then show "case mux_turn env fn len rx c st of None \<Rightarrow> True
        | Some (Leave rx c st) \<Rightarrow> cinv c \<and> steady rx st | Some (Again len rx c st) \<Rightarrow> cinv c \<and> steady rx st"
      using turn_steady [OF sn, of rx st c len] by (auto simp: yields_def turn_steady_def split: option.split)
  qed (use r i in simp)
  then show ?thesis by (auto simp: yields_def split: option.splits)
qed

end

end
