(* ===== verification/Control_Safety.thy ===== *)
theory Control_Safety
  imports Control Receive_Partial
begin

text \<open>
  The control layer on top of the multiplexer. Sending never goes wrong in a safe state, whatever memory
  or the connection does. Handling a received message may: the lemmas show that whenever it returns, the
  state is safe and at most the client the message was for has been removed. That is the contract
  \<open>message_handler\<close> of the multiplexer, interpreted here on the model of \<open>handle_frps_msg\<close>.
\<close>

section \<open>Sending\<close>

text \<open>Sending changes nothing in the control layer but the encoder and what was written to the socket.\<close>

definition same_session :: "ctl \<Rightarrow> ctl \<Rightarrow> bool" where
  "same_session c c' \<longleftrightarrow> c' = c\<lparr>coders := coders c', direct := direct c'\<rparr>"

lemma same_session_simps [simp]: "same_session c c" "same_session c (c\<lparr>coders := x\<rparr>)" "same_session c (c\<lparr>direct := y\<rparr>)"
  by (simp_all add: same_session_def)

lemma same_session_fields:
  "same_session c c' \<Longrightarrow> is_login c' = is_login c \<and> xfrpc_status c' = xfrpc_status c \<and> c_login c' = c_login c \<and> reports c' = reports c"
  by (auto simp: same_session_def dest: arg_cong [of _ _ is_login] arg_cong [of _ _ xfrpc_status] arg_cong [of _ _ c_login] arg_cong [of _ _ reports])

lemma same_session_trans: "same_session a b \<Longrightarrow> same_session b c \<Longrightarrow> same_session a c"
proof -
  assume "same_session a b" "same_session b c"
  then have b: "b = a\<lparr>coders := coders b, direct := direct b\<rparr>" and c: "c = b\<lparr>coders := coders c, direct := direct c\<rparr>"
    by (simp_all add: same_session_def)
  have "c = a\<lparr>coders := coders c, direct := direct c\<rparr>" by (subst c, subst b) simp
  then show ?thesis by (simp add: same_session_def)
qed

lemma send_through_safe:
  assumes e: "evolves st0 st" and s: "get_strm st l = Some s"
  shows "returns (\<lambda>(w, st'). evolves st0 st') (send_through d l st)"
proof -
  obtain rc tmp n where b: "buf_add [] d (st\<lparr>tick := Suc (tick st)\<rparr>) = (rc, tmp, st\<lparr>tick := Suc (tick st), tick := n\<rparr>)"
    by (rule buf_add_cases)
  have "returns (\<lambda>(w, src', st'). evolves st0 st') (tmux_stream_write tmp l (st\<lparr>tick := n\<rparr>))"
    by (rule write_safe) (use e s in \<open>auto simp: get_strm_def cong: loc.case_cong\<close>)
  then show ?thesis using b e by (auto simp: send_through_def alloc_def returns_def)
qed

lemma prepare_cases:
  obtains m n where "prepare_message t msg st = (m, st\<lparr>tick := n\<rparr>)"
  by (auto simp: prepare_message_def alloc_n_def alloc_def Let_def)

lemma write_tries_ticked: "ticked st (snd (write_tries wr k tmp st))"
proof (induction wr k tmp st rule: write_tries.induct)
  case (2 wr tries tmp st)
  let ?st = "st\<lparr>tick := Suc (tick st)\<rparr>"
  obtain w again where w: "wr (tick st) (length tmp) = (w, again)" by force
  have "ticked ?st (snd (write_tries wr tries tmp ?st))" if "tmp \<noteq> []" "w < 0" "again" using 2(1) that w by simp
  moreover have "ticked ?st (snd (write_tries wr tries (drop (nat w) tmp) ?st))" if "tmp \<noteq> []" "\<not> w < 0" "w \<noteq> 0" using 2(2) that w by simp
  ultimately show ?case using w ticked_trans [of st ?st] by (simp add: Let_def split_beta)
qed simp

lemma bout_write_safe:
  assumes e: "evolves st0 st" and up: "has_bout bev st = Some True"
  shows "returns (evolves st0) (bout_write bev d st)"
proof (cases bev)
  case None
  then show ?thesis using same_objects_evolves [OF e ctl_write_same] by (simp add: bout_write_def)
next
  case (Some a)
  then obtain pc out where "heap st a = Some pc" "pc_ctl_out pc = Some out" using up by (auto simp: has_bout_def)
  then have "returns (\<lambda>(rest, st'). evolves st0 st') (to_own_ctl a d st)" by (rule own_ctl_safe [OF e])
  then show ?thesis using Some by (auto simp: bout_write_def returns_def)
qed

lemma strm_tick: "get_strm (st\<lparr>tick := n\<rparr>) l = get_strm st l"
  by (simp add: get_strm_def cong: loc.case_cong)

lemma send_msg_safe:
  assumes e: "evolves st0 st" and h: "\<And>a. bev = Some a \<Longrightarrow> heap st a \<noteq> None" and s: "\<And>k. l = Some k \<Longrightarrow> get_strm st k \<noteq> None"
  shows "returns (\<lambda>(c', st'). evolves st0 st' \<and> same_session c c') (send_msg_frp_server env bev t msg l c st)"
proof -
  obtain v where v: "conf_tcp_mux st = Some v" using e by (auto simp: evolves_def safe_def)
  have "\<exists>up. has_bout bv st = Some up" if "bv = None \<or> bv = bev" for bv
    using h that by (cases bv) (auto simp: has_bout_def)
  then obtain up where up: "has_bout (if v = 0 then bev else None) st = Some up" by (metis (full_types))
  obtain m n where m: "prepare_message t msg st = (m, st\<lparr>tick := n\<rparr>)" by (rule prepare_cases)
  have e1: "evolves st0 (st\<lparr>tick := n\<rparr>)" using e by simp
  have 1: "returns (\<lambda>(c', st'). evolves st0 st' \<and> same_session c c') (do { (w, st) \<leftarrow> send_through d k (st\<lparr>tick := n\<rparr>); Some (c, st) })" if lk: "l = Some k" for k d
  proof -
    obtain sk where "get_strm (st\<lparr>tick := n\<rparr>) k = Some sk" using s [OF lk] by (auto simp: strm_tick)
    from send_through_safe [OF e1 this, of d] show ?thesis by (auto simp: returns_def)
  qed
  have 2: "returns (\<lambda>(c', st'). evolves st0 st' \<and> same_session c c') (do { st \<leftarrow> bout_write bev d (st\<lparr>tick := n\<rparr>); Some (c, st) })" if "up" "v = 0" for d
    by (rule returns_bind [OF bout_write_safe [OF e1]]) (use up that in \<open>auto simp: has_bout_def split: option.splits\<close>)
  show ?thesis using v up m e1 e 1 2
    by (auto simp: send_msg_frp_server_def Let_def split: option.splits prod.splits)
qed

lemma initialize_encoder_safe:
  assumes e: "evolves st0 st" and s: "get_strm st l \<noteq> None"
  shows "returns (\<lambda>(rc, c', st'). evolves st0 st' \<and> same_session c c') (initialize_encoder env l c st)"
proof -
  let ?st = "st\<lparr>tick := Suc (tick st)\<rparr>"
  obtain v where v: "conf_tcp_mux st = Some v" using e by (auto simp: evolves_def safe_def)
  obtain sk where sk: "get_strm ?st l = Some sk" using s by (auto simp: strm_tick)
  have e1: "evolves st0 ?st" using e by simp
  have "returns (\<lambda>(rc :: int, c', st'). evolves st0 st' \<and> same_session c c') (do { (w, st) \<leftarrow> send_through d l ?st; Some (if w < 0 then -1 else 0, c\<lparr>coders := cs\<rparr>, st) })" for d cs
    using send_through_safe [OF e1 sk, of d] by (auto simp: returns_def)
  then show ?thesis using v e1 e by (auto simp: initialize_encoder_def alloc_def Let_def split: option.splits)
qed

lemma prepare_encrypted_cases:
  obtains m c' n where "prepare_encrypted_message env t msg c st = (m, c', st\<lparr>tick := n\<rparr>)" "same_session c c'"
proof -
  obtain m n where m: "prepare_message t msg st = (m, st\<lparr>tick := n\<rparr>)" by (rule prepare_cases)
  show thesis
  proof (cases m)
    case None
    then show thesis using m by (intro that [of None c n]) (auto simp: prepare_encrypted_message_def)
  next
    case (Some d)
    obtain k out cs where "encrypt_data (e_mbedtls (c_env env)) (\<not> oom st n) (if \<not> oom st (Suc n) then Some EVP_CIPHER_CTX_new else None) d
        (main_encoder (coders c)) (coders c) = (k, out, cs)" by (metis prod.exhaust)
    then show thesis using m Some
      by (intro that [of "case out of None \<Rightarrow> None | Some out \<Rightarrow> if k = 0 then None else Some (take k out)" "c\<lparr>coders := cs\<rparr>" "Suc (Suc n)"])
         (auto simp: prepare_encrypted_message_def alloc_def alloc_evp_def split: option.splits)
  qed
qed

lemma write_encrypted_keeps [simp]:
  "evolves st0 (snd (write_encrypted env d c st)) = evolves st0 st" "same_session c (fst (write_encrypted env d c st))"
proof -
  have [simp]: "evolves st0 (snd (write_tries wr k tmp st)) = evolves st0 st" for wr k tmp st
    using write_tries_ticked [of st wr k tmp] by (auto simp: ticked_def simp del: write_tries.simps)
  have [simp]: "evolves st0 (snd (alloc st)) = evolves st0 st" for st by (simp add: alloc_def)
  have [simp]: "evolves st0 (snd (snd (buf_add b d st))) = evolves st0 st" for b d st
    by (simp add: buf_add_def alloc_def)
  show "evolves st0 (snd (write_encrypted env d c st)) = evolves st0 st"
    by (auto simp: write_encrypted_def Let_def split_beta simp del: write_tries.simps split: option.splits)
  show "same_session c (fst (write_encrypted env d c st))"
    by (auto simp: write_encrypted_def Let_def split_beta same_session_def split: option.splits)
qed

lemma send_enc_safe:
  assumes e: "evolves st0 st" and s: "get_strm st l \<noteq> None"
  shows "returns (\<lambda>(c', st'). evolves st0 st' \<and> same_session c c') (send_enc_msg_frp_server env t msg l c st)"
proof -
  let ?P = "\<lambda>(c', st'). evolves st0 st' \<and> same_session c c'"
  let ?init = "if main_encoder (coders c) = None then initialize_encoder env l c st else Some (0, c, st)"
  have init: "returns (\<lambda>(rc, c', st'). evolves st0 st' \<and> same_session c c' \<and> (\<exists>y. get_strm st' l = Some y)) ?init"
  proof -
    have "returns (\<lambda>(rc, c', st'). evolves st st' \<and> same_session c c') (initialize_encoder env l c st)"
      by (rule initialize_encoder_safe [OF _ s]) (use e evolves_safe in auto)
    then obtain rc c1 st1 where i: "initialize_encoder env l c st = Some (rc, c1, st1)" "evolves st st1" "same_session c c1"
      by (auto simp: returns_def)
    obtain s0 where s0: "get_strm st l = Some s0" using s by auto
    show ?thesis using e s0 evolves_trans [OF e i(2)] evolves_strm [OF i(2) s0] i by auto
  qed
  have "returns ?P (do { (rc, c, st) \<leftarrow> ?init;
        if rc \<noteq> 0 then Some (c, st)
        else case prepare_encrypted_message env t msg c st of
          (None, c, st) \<Rightarrow> Some (c, st)
        | (Some enc, c, st) \<Rightarrow> do {
            v \<leftarrow> conf_tcp_mux st;
            if v \<noteq> 0 then do { (w, st) \<leftarrow> send_through enc l st; Some (c, st) }
            else Some (write_encrypted env enc c st) } })"
  proof (rule returns_bind [OF init], clarify)
    fix rc :: int and c1 :: ctl and st1 y assume r: "evolves st0 st1" "same_session c c1" and s1: "get_strm st1 l = Some y"
    obtain m c2 n where m: "prepare_encrypted_message env t msg c1 st1 = (m, c2, st1\<lparr>tick := n\<rparr>)" "same_session c1 c2"
      by (rule prepare_encrypted_cases)
    let ?st = "st1\<lparr>tick := n\<rparr>"
    have ss: "same_session c c2" by (rule same_session_trans [OF r(2) m(2)])
    have e2: "evolves st0 ?st" using r(1) by simp
    obtain v where v: "conf_tcp_mux ?st = Some v" using e2 by (auto simp: evolves_def safe_def)
    obtain sk where sk: "get_strm ?st l = Some sk" using s1 by (auto simp: strm_tick)
    have 1: "returns ?P (do { (w, st) \<leftarrow> send_through d l ?st; Some (c2, st) })" for d
      using send_through_safe [OF e2 sk, of d] ss by (auto simp: returns_def)
    have 2: "?P (write_encrypted env d c2 ?st)" for d
      using e2 same_session_trans [OF ss] by (simp add: split_beta)
    show "returns ?P (if rc \<noteq> 0 then Some (c1, st1)
        else case prepare_encrypted_message env t msg c1 st1 of
          (None, c, st) \<Rightarrow> Some (c, st)
        | (Some enc, c, st) \<Rightarrow> do {
            v \<leftarrow> conf_tcp_mux st;
            if v \<noteq> 0 then do { (w, st) \<leftarrow> send_through enc l st; Some (c, st) }
            else Some (write_encrypted env enc c st) })"
      using r m(1) v 1 2 e2 ss by (auto split: option.split)
  qed
  then show ?thesis using e by (simp add: send_enc_msg_frp_server_def)
qed

section \<open>Registering proxies and new clients\<close>

lemma send_new_proxy_yields:
  assumes "evolves st0 st"
  shows "yields (\<lambda>(c', st'). evolves st0 st') (send_new_proxy env ps c st)"
proof -
  have "yields (\<lambda>(c', st'). evolves st0 st') (send_enc_msg_frp_server env TypeNewProxy m CtlLoc c st)" for m
    by (rule returns_yields, rule returns_mono [OF send_enc_safe [OF assms]]) (auto simp: get_strm_def)
  then show ?thesis using assms
    by (cases "marshal_proxy_service env ps st") (auto simp: send_new_proxy_def split: option.splits)
qed

lemma register_all_yields:
  "evolves st0 st \<Longrightarrow> yields (\<lambda>(c', st'). evolves st0 st') (register_all env pss c st)"
proof (induction pss arbitrary: c st)
  case (Cons ps rest)
  have "yields (\<lambda>(c', st'). evolves st0 st') (do { (c, st) \<leftarrow> send_new_proxy env ps c st; register_all env rest c st })"
    by (rule yields_bind [OF send_new_proxy_yields [OF Cons.prems]]) (use Cons.IH in auto)
  then show ?case using Cons by simp
qed simp

lemma go_online_yields:
  assumes "evolves st0 st"
  shows "yields (\<lambda>(c', st'). evolves st0 st') (go_online env c st)"
proof -
  have "yields (\<lambda>(c', st'). evolves st0 st') (do { (c, st) \<leftarrow> start_proxy_services env c st; Some (c\<lparr>xfrpc_status := True\<rparr>, st) })"
    unfolding start_proxy_services_def by (rule yields_bind [OF register_all_yields [OF assms]]) auto
  with assms show ?thesis by (simp add: go_online_def)
qed

lemma work_connection_safe:
  assumes e: "evolves st0 st" and h: "\<And>a. bev = Some a \<Longrightarrow> heap st a \<noteq> None" and s: "\<And>k. l = Some k \<Longrightarrow> get_strm st k \<noteq> None"
  shows "returns (\<lambda>(c', st'). evolves st0 st') (new_work_connection env bev l c st)"
proof -
  have "returns (\<lambda>(c', st'). evolves st0 st') (send_msg_frp_server env bev t msg l c (st\<lparr>tick := Suc (tick st)\<rparr>))" for t msg
    by (rule returns_mono [OF send_msg_safe [of st0]]) (use e h s in \<open>auto simp: strm_tick\<close>)
  with e show ?thesis by (auto simp: new_work_connection_def alloc_def split: prod.splits option.splits)
qed

text \<open>A new client is a new object; all others stay.\<close>

lemma new_client_keeps:
  assumes "safe st"
  obtains (created) a st' where "new_proxy_client st = Some (Some a, st')" "safe st'" "keeps st st'" "heap st a = None"
      "\<exists>pc. heap st' a = Some pc \<and> (pc_stream_id pc = 0 \<or> current a st')"
  | (oom) st' where "new_proxy_client st = Some (None, st')" "keeps st st'"
proof -
  have ok: "mux_ok st" using assms by (simp add: safe_def)
  have fresh: "heap st (next_addr st) = None" using ok unfolding mux_ok_def by (metis less_irrefl not_None_eq)
  have others: "heap st b \<noteq> None \<Longrightarrow> heap st' b \<noteq> None" if "new_proxy_client st = Some (r, st')" for r st' b
    using that by (auto simp: new_proxy_client_def alloc_def get_next_session_id_def init_tmux_stream_def put_strm_def
        add_stream_def get_strm_def Let_def split: if_splits option.splits)
  have sf: "safe st'" if "new_proxy_client st = Some (r, st')" for r st'
    using new_client_safe [OF assms] that by (auto simp: returns_def)
  have k: "keeps st st'" if "new_proxy_client st = Some (r, st')" for r st'
    using sf [OF that] others [OF that] by (auto simp: spares_def get_strm_def split: loc.splits)
  show thesis
  proof (cases rule: new_proxy_client_ok [OF ok])
    case (1 a st')
    have "\<exists>pc. heap st' a = Some pc \<and> (pc_stream_id pc = 0 \<or> current a st')" using 1(4,5) by (auto simp: current_def)
    then show thesis using created [OF 1(1) sf [OF 1(1)] k [OF 1(1)]] 1(3) fresh by simp
  next
    case (2 st')
    then show thesis using oom k by blast
  qed
qed

lemma handle_connected_safe:
  assumes e: "evolves st0 st" and h: "heap st a \<noteq> None"
  shows "returns (\<lambda>(c', st'). evolves st0 st') (handle_client_connected env a c st)"
proof -
  have "returns (\<lambda>(c', st'). evolves st0 st') (new_work_connection env (Some a)
      (if conf_tcp_mux st \<noteq> None \<and> conf_tcp_mux st \<noteq> Some 0 then Some CtlLoc else None) c st)"
    by (rule work_connection_safe [OF e]) (use h in \<open>auto simp: get_strm_def split: if_splits\<close>)
  then show ?thesis by (auto simp: handle_client_connected_def returns_def)
qed

lemma direct_client_safe:
  assumes e: "evolves st0 st" and h: "heap st a = Some pc"
  shows "returns (\<lambda>(rc, c', st'). evolves st0 st') (init_direct_client env a c st)"
proof -
  let ?srv = "e_server (c_env env)"
  obtain lb n where cs: "connect_server (c_env env) (Some (fst ?srv)) (snd ?srv) st = (lb, st\<lparr>tick := n\<rparr>)" by (rule connect_server_tick)
  let ?f = "\<lambda>pc. pc\<lparr>pc_ctl_out := Some []\<rparr>"
  have "returns (\<lambda>(rc, c', st'). evolves st0 st') (do { st \<leftarrow> upd_pc a ?f (st\<lparr>tick := n\<rparr>);
      if e_quic (c_env env) then do { (c, st) \<leftarrow> handle_client_connected env a c st; Some (0 :: int, c, st) } else Some (0, c, st) })"
  proof (rule returns_bind [OF upd_safe [of st]])
    fix st1 assume "evolves st st1"
    then have r: "evolves st0 st1" "heap st1 a \<noteq> None" using evolves_trans [OF e] evolves_alive [OF _ h] by auto
    have "returns (\<lambda>(c', st'). evolves st0 st') (handle_client_connected env a c st1)"
      by (rule handle_connected_safe [OF r])
    then show "returns (\<lambda>(rc, c', st'). evolves st0 st') (if e_quic (c_env env) then do { (c, st) \<leftarrow> handle_client_connected env a c st1; Some (0 :: int, c, st) } else Some (0, c, st1))"
      using r by (auto simp: returns_def)
  qed (use e h in \<open>auto simp: recoded_def client_ok_def evolves_safe\<close>)
  then show ?thesis using cs e by (auto simp: init_direct_client_def split: option.splits)
qed

lemma mux_client_safe:
  assumes e: "evolves st0 st" and h: "heap st a = Some pc"
  shows "returns (\<lambda>(rc, c', st'). evolves st0 st') (init_tcp_mux_client env a c st)"
proof -
  have "returns (\<lambda>(rc, c', st'). evolves st0 st') (do { st \<leftarrow> send_window_update (PcLoc a) 0 st;
      (c, st) \<leftarrow> new_work_connection env (Some a) (Some (PcLoc a)) c st; Some (0 :: int, c, st) })"
  proof (rule returns_bind [OF window_update_safe [OF _ live_strm [OF h]]])
    show "evolves st st" using e by (simp add: evolves_safe)
    fix st1 assume e1: "evolves st st1"
    have h1: "heap st1 a \<noteq> None" using evolves_alive [OF e1 h] by auto
    have "returns (\<lambda>(c', st'). evolves st0 st') (new_work_connection env (Some a) (Some (PcLoc a)) c st1)"
      by (rule work_connection_safe [OF evolves_trans [OF e e1]]) (use h1 in \<open>auto simp: get_strm_def\<close>)
    then show "returns (\<lambda>(rc, c', st'). evolves st0 st') (do { (c, st) \<leftarrow> new_work_connection env (Some a) (Some (PcLoc a)) c st1; Some (0 :: int, c, st) })"
      by (auto simp: returns_def)
  qed
  with e show ?thesis by (simp add: init_tcp_mux_client_def)
qed

lemma only_loses_spares: "only_loses a st st' \<Longrightarrow> spares (Some a) st st'"
  unfolding spares_heap only_loses_def shrinks_def by blast

lemma only_loses_keeps:
  assumes "keeps st0 st1" "heap st0 a = None" "only_loses a st1 st2"
  shows "keeps st0 st2"
proof -
  have d: "safe st2" "dom (heap st1) - {a} \<subseteq> dom (heap st2)" using assms(3) by (auto simp: only_loses_def shrinks_def)
  have "heap st2 b \<noteq> None" if b: "heap st0 b \<noteq> None" for b
  proof -
    have "b \<in> dom (heap st1) - {a}" using b assms(1,2) by (auto simp: spares_heap)
    with d(2) show ?thesis by blast
  qed
  with d(1) show ?thesis by (simp add: spares_heap)
qed

lemma keeps_safe: "safe st \<Longrightarrow> keeps st st"
  by (simp add: spares_def)

text \<open>A client whose connection cannot be made is removed again.\<close>

lemma undo_client_safe:
  assumes k: "keeps st0 st1" and h: "heap st0 a = None" "heap st1 a = Some pc" "pc_stream_id pc = 0 \<or> current a st1"
    and e: "evolves st1 st2"
  shows "returns (keeps st0) (del_proxy_client_by_stream_id (pc_stream_id pc) st2)"
proof (cases "pc_stream_id pc = 0")
  case True
  then show ?thesis using spares_trans(1) [OF k evolves_keeps [OF e]] by (simp add: del_proxy_client_by_stream_id_def)
next
  case False
  have sf: "safe st1" using k by (rule spares_safe)
  obtain pc2 where pc2: "heap st2 a = Some pc2" using evolves_alive [OF e h(2)] by blast
  have cur: "current a st1" "current a st2" using h(3) False current_evolves [OF sf e] by auto
  have "pc_stream_id pc2 = pc_stream_id pc"
  proof -
    have ok: "mux_ok st1" "mux_ok st2" "all_pc st2 = all_pc st1" using sf e by (auto simp: safe_def evolves_def same_tables_def)
    have "(pc_stream_id pc, a) \<in> set (all_pc st1)" "(pc_stream_id pc2, a) \<in> set (all_pc st1)" "distinct (map snd (all_pc st1))"
      using ok h(2) pc2 unfolding mux_ok_def by auto
    then show ?thesis by (metis distinct_map inj_onD prod.inject snd_conv)
  qed
  then have "returns (only_loses a st1) (del_proxy_client_by_stream_id (pc_stream_id pc) st2)"
    using del_current [OF e pc2 cur(2)] by simp
  then show ?thesis using only_loses_keeps [OF k h(1)] by (auto elim: returns_mono)
qed

lemma new_connect_safe:
  assumes "safe st"
  shows "returns (\<lambda>(c', st'). keeps st st') (new_client_connect env c st)"
proof (cases rule: new_client_keeps [OF assms])
  case (2 st')
  then show ?thesis by (simp add: new_client_connect_def)
next
  case (1 a st1)
  obtain pc where pc: "heap st1 a = Some pc" "pc_stream_id pc = 0 \<or> current a st1" using 1(5) by blast
  obtain v where v: "conf_tcp_mux st1 = Some v" using 1(2) by (auto simp: safe_def)
  let ?init = "if \<not> c_base env then Some (-1 :: int, c, st1) else if v \<noteq> 0 then init_tcp_mux_client env a c st1 else init_direct_client env a c st1"
  have e1: "evolves st1 st1" using 1(2) by simp
  have "returns (\<lambda>(rc, c', st'). evolves st1 st') ?init" using mux_client_safe [OF e1 pc(1)] direct_client_safe [OF e1 pc(1)] 1(2) by simp
  then have "returns (\<lambda>(c', st'). keeps st st') (do { (rc, c, st) \<leftarrow> ?init;
      if rc \<noteq> 0 then do { st \<leftarrow> del_proxy_client_by_stream_id (pc_stream_id pc) st; Some (c, st) } else Some (c, st) })"
  proof (rule returns_bind, clarify)
    fix rc :: int and c1 st2 assume e2: "evolves st1 st2"
    have "returns (\<lambda>(c', st'). keeps st st') (do { st \<leftarrow> del_proxy_client_by_stream_id (pc_stream_id pc) st2; Some (c1, st) })"
      by (rule returns_bind [OF undo_client_safe [OF 1(3,4) pc e2]]) simp
    then show "returns (\<lambda>(c', st'). keeps st st') (if rc \<noteq> 0 then do { st \<leftarrow> del_proxy_client_by_stream_id (pc_stream_id pc) st2; Some (c1, st) } else Some (c1, st2))"
      using spares_trans(1) [OF 1(3) evolves_keeps [OF e2]] by simp
  qed
  then show ?thesis using 1(1) pc(1) v by (simp add: new_client_connect_def)
qed

section \<open>Received messages\<close>

lemma json_cases: "yields (\<lambda>(json, st'). ticked st st') (msg_data_to_json b st)"
  by (auto simp: msg_data_to_json_def alloc_def Let_def)

lemma ticked_safe: "ticked st st' \<Longrightarrow> safe st \<Longrightarrow> keeps st st' \<and> safe st'"
  by (auto simp: ticked_def spares_def strm_tick)

lemma set_work_evolves: "safe st \<Longrightarrow> yields (evolves st) (set_client_work_start a st)"
proof (cases "heap st a")
  case (Some pc)
  assume sf: "safe st"
  have "returns (\<lambda>st'. evolves st st' \<and> heap st' a = Some (pc\<lparr>pc_work_started := True\<rparr>)) (put_pc a (pc\<lparr>pc_work_started := True\<rparr>) st)"
    by (rule put_safe) (use sf Some client_ok_live [OF sf Some] in \<open>auto simp: client_ok_def\<close>)
  then show ?thesis using Some sf by (auto simp: set_client_work_start_def intro: returns_yields elim: returns_mono)
qed (simp add: set_client_work_start_def)

lemma keep_tail_safe:
  assumes e: "evolves st0 st" and h: "heap st a = Some pc"
  shows "returns (\<lambda>(ok, st'). evolves st0 st') (keep_tail b a st)"
proof -
  have "returns (\<lambda>(ok, st'). evolves st0 st') (do { st \<leftarrow> upd_pc a (\<lambda>pc. pc\<lparr>pc_data_tail := tail\<rparr>) (st\<lparr>tick := n\<rparr>); Some (True, st) })" for tail n
    by (rule returns_bind [OF upd_safe [of st0]]) (use e h in \<open>auto simp: recoded_def client_ok_def\<close>)
  with e show ?thesis by (auto simp: keep_tail_def alloc_def Let_def)
qed

lemma only_loses_trans: "evolves a b \<Longrightarrow> only_loses x b c \<Longrightarrow> only_loses x a c" "only_loses x a b \<Longrightarrow> evolves b c \<Longrightarrow> only_loses x a c"
  unfolding only_loses_def by (auto simp: evolves_def same_tables_def shrinks_def; blast)+

lemma start_client_yields:
  assumes sf: "safe st" and h: "heap st a = Some pc" and cur: "current a st"
  shows "yields (only_loses a st) (start_client env ps b a st)"
proof -
  let ?f = "\<lambda>pc. pc\<lparr>pc_ps := Some (proxy_service.truncate ps)\<rparr>"
  let ?start = "\<lambda>st. do { (st, cbs) \<leftarrow> start_xfrp_tunnel (c_env env) a st; set_client_work_start a st }"
  have start: "yields (only_loses a st) (?start st2)" if e2: "evolves st st2" for st2
  proof -
    obtain pc2 where pc2: "heap st2 a = Some pc2" using evolves_alive [OF e2 h] by blast
    note tunnel = start_tunnel_safe [OF evolves_safe [OF e2] pc2 current_evolves [OF sf e2 cur], of "c_env env"]
    show ?thesis
    proof (rule yields_bind [OF returns_yields [OF tunnel]], clarify)
      fix st3 assume "only_loses a st2 st3"
      then have l: "only_loses a st st3" "safe st3" using only_loses_trans(1) [OF e2] by (auto simp: only_loses_def shrinks_safe)
      show "yields (only_loses a st) (set_client_work_start a st3)"
        by (rule yields_mono [OF set_work_evolves [OF l(2)]]) (rule only_loses_trans(2) [OF l(1)])
    qed
  qed
  have "yields (only_loses a st) (do { st \<leftarrow> upd_pc a ?f st; (ok, st) \<leftarrow> keep_tail b a st;
      if \<not> ok \<or> ps_proxy_type ps = Some ''xtcp'' then Some st else ?start st })"
  proof (rule yields_bind [OF returns_yields [OF upd_safe [of st]]])
    fix st1 assume e1: "evolves st st1"
    obtain pc1 where pc1: "heap st1 a = Some pc1" using evolves_alive [OF e1 h] by blast
    show "yields (only_loses a st) (do { (ok, st) \<leftarrow> keep_tail b a st1; if \<not> ok \<or> ps_proxy_type ps = Some ''xtcp'' then Some st else ?start st })"
      by (rule yields_bind [OF returns_yields [OF keep_tail_safe [OF e1 pc1]]]) (use start evolves_only_loses in auto)
  qed (use sf h in \<open>auto simp: recoded_def client_ok_def\<close>)
  then show ?thesis by (simp add: start_client_def)
qed

lemma start_work_yields:
  assumes sf: "safe st" and live: "live_arg ctx st"
  shows "yields (spares ctx st) (handle_type_start_work_conn env b ctx st)"
proof -
  have k: "spares ctx st st1" if t: "ticked st st1" for st1 using sf t by (auto simp: spares_heap ticked_def)
  have go: "yields (spares (Some a) st) (start_client env ps b a st1)" if ctx: "ctx = Some a" and t: "ticked st st1" for ps a st1
  proof -
    obtain n where st1: "st1 = st\<lparr>tick := n\<rparr>" using t by (auto simp: ticked_def)
    have cur: "current a st1" "safe st1" using live sf ctx by (auto simp: live_arg_def current_def get_proxy_client_def st1 split: if_splits)
    then obtain pc where "heap st1 a = Some pc" by (auto simp: current_def)
    from start_client_yields [OF cur(2) this cur(1)] show ?thesis
    proof (rule yields_mono)
      fix st2 assume "only_loses a st1 st2"
      from only_loses_spares [OF this] show "spares (Some a) st st2" by (simp add: spares_heap st1)
    qed
  qed
  show ?thesis unfolding handle_type_start_work_conn_def
    by (rule yields_bind [OF json_cases]) (use k go in \<open>auto split: option.split\<close>)
qed

lemma ticked_spares: "safe st \<Longrightarrow> ticked st st' \<Longrightarrow> spares pa st st'"
  by (auto simp: ticked_def spares_heap)

lemma yields_ticked: "safe st \<Longrightarrow> yields (ticked st) x \<Longrightarrow> yields (spares pa st) x"
  using ticked_spares by (auto elim: yields_mono)

lemma quiet_handlers:
  "yields (ticked st) (handle_type_new_proxy_resp env b st)"
  "yields (ticked st) (handle_type_udp_packet env b ctx st)"
  "yields (ticked st) (drop_message b st)"
proof -
  show "yields (ticked st) (handle_type_new_proxy_resp env b st)"
    unfolding handle_type_new_proxy_resp_def
    by (rule yields_bind [OF json_cases]) (auto simp: yields_def bind_eq_Some_conv split: option.splits)
  show "yields (ticked st) (handle_type_udp_packet env b ctx st)"
    unfolding handle_type_udp_packet_def
    by (rule yields_bind [OF json_cases]) (auto simp: yields_def bind_eq_Some_conv split: option.splits if_splits)
  show "yields (ticked st) (drop_message b st)"
    unfolding drop_message_def by (rule yields_bind [OF json_cases]) auto
qed

lemma without_ctl_yields: "yields P x \<Longrightarrow> yields (\<lambda>(c', st'). P st') (without_ctl c x)"
  by (auto simp: without_ctl_def yields_def)

lemma req_work_yields:
  assumes "safe st"
  shows "yields (\<lambda>(c', st'). spares pa st st') (handle_type_req_work_conn env c st)"
  unfolding handle_type_req_work_conn_def
proof (rule yields_bind [OF go_online_yields [of st]], use assms in simp, clarify)
  fix c1 st1 assume e: "evolves st st1"
  have "returns (\<lambda>(c', st'). keeps st1 st') (new_client_connect env c1 st1)" by (rule new_connect_safe [OF evolves_safe [OF e]])
  then have "returns (\<lambda>(c', st'). keeps st st') (new_client_connect env c1 st1)"
    by (rule returns_mono) (use spares_trans(1) [OF evolves_keeps [OF e]] in auto)
  from returns_yields [OF this] show "yields (\<lambda>(c', st'). spares pa st st') (new_client_connect env c1 st1)"
    by (rule yields_mono) (auto intro: keeps_spares)
qed

lemma dispatch_yields:
  assumes sf: "safe st" and live: "live_arg ctx st"
  shows "yields (\<lambda>(c', st'). spares ctx st st') (dispatch_msg env b ctx c st)"
proof -
  have q: "yields (\<lambda>(c', st'). spares ctx st st') (without_ctl c (handle_type_new_proxy_resp env b st))"
    "yields (\<lambda>(c', st'). spares ctx st st') (without_ctl c (handle_type_udp_packet env b ctx st))"
    "yields (\<lambda>(c', st'). spares ctx st st') (without_ctl c (drop_message b st))"
    "yields (\<lambda>(c', st'). spares ctx st st') (without_ctl c (handle_type_start_work_conn env b ctx st))"
    using quiet_handlers start_work_yields [OF sf live] yields_ticked [OF sf]
    by (auto intro!: without_ctl_yields)
  have "spares ctx st st" using sf by (simp add: spares_heap)
  then show ?thesis unfolding dispatch_msg_def Let_def by (intro yields_if q req_work_yields [OF sf]) simp_all
qed

lemma login_yields:
  assumes sf: "safe st"
  shows "yields (\<lambda>(c', st'). spares pa st st') (handle_login_response env b c st)"
proof -
  have p: "yields (\<lambda>(ok, c', st'). ticked st st') (process_login_response env b c st)"
    unfolding process_login_response_def
    by (rule yields_bind [where Q = "\<lambda>(json, st'). ticked st st'"])
       (use json_cases in \<open>auto simp: yields_def bind_eq_Some_conv split: option.splits if_splits\<close>)
  have "yields (\<lambda>(c', st'). spares pa st st') (do { (ok, c, st) \<leftarrow> process_login_response env b c st;
        if \<not> ok then Some (c, st)
        else go_online env (c\<lparr>is_login := True, reports := reports c @ [XFRPC_STATE_LOGIN_OK]\<rparr>) st })"
  proof (rule yields_bind [OF p], clarify)
    fix ok c1 st1 assume t: "ticked st st1"
    have e: "evolves st st1" using t sf by (auto simp: ticked_def)
    have "yields (\<lambda>(c', st'). spares pa st st') (go_online env c2 st1)" for c2
      by (rule yields_mono [OF go_online_yields [OF e]]) (auto intro: keeps_spares evolves_keeps)
    then show "yields (\<lambda>(c', st'). spares pa st st') (if \<not> ok then Some (c1, st1)
        else go_online env (c1\<lparr>is_login := True, reports := reports c1 @ [XFRPC_STATE_LOGIN_OK]\<rparr>) st1)"
      using ticked_spares [OF sf t] by simp
  qed
  then show ?thesis using sf by (simp add: handle_login_response_def spares_heap)
qed

lemma enc_msg_ticked: "handle_enc_msg env b c st = (m, c', st') \<Longrightarrow> ticked st st'"
  by (auto simp: handle_enc_msg_def alloc_def alloc_evp_def Let_def split: if_splits prod.splits option.splits)

lemma control_yields:
  assumes sf: "safe st" and live: "live_arg ctx st"
  shows "yields (\<lambda>(c', st'). spares ctx st st') (handle_control_work env b ctx c st)"
proof (cases "ctx = None")
  case True
  obtain m c1 st1 where m: "handle_enc_msg env b c st = (m, c1, st1)" by (metis prod.exhaust)
  note t = enc_msg_ticked [OF m]
  have "safe st1" "live_arg ctx st1" using t sf True by (auto simp: ticked_def live_arg_def)
  then have "yields (\<lambda>(c', st'). spares ctx st1 st') (dispatch_msg env cmd ctx c1 st1)" for cmd by (rule dispatch_yields)
  then have "yields (\<lambda>(c', st'). spares ctx st st') (dispatch_msg env cmd ctx c1 st1)" for cmd
    by (rule yields_mono) (use t in \<open>auto simp: ticked_def spares_heap\<close>)
  then show ?thesis using True m ticked_spares [OF sf t] by (auto simp: handle_control_work_def split: option.split)
next
  case False
  then show ?thesis using dispatch_yields [OF assms, of env b c] unfolding handle_control_work_def by (simp only: if_False)
qed

lemma frps_msg_yields:
  assumes "safe st" "live_arg ctx st"
  shows "yields (\<lambda>(c', st'). spares ctx st st') (handle_frps_msg env b ctx c st)"
  using assms login_yields [OF assms(1)] control_yields [OF assms] by (simp add: handle_frps_msg_def spares_heap)

text \<open>The contract of the multiplexer holds for the handler of the program.\<close>

interpretation ms: message_handler "handle_frps_msg env" "\<lambda>c. True"
  by unfold_locales (use frps_msg_yields in \<open>fastforce simp: yields_def\<close>)

end
