(* ===== verification/Connection.thy ===== *)
theory Connection
  imports Control_Safety
begin

text \<open>
  The life of the control connection: clearing it, losing it, timing out, connecting again. Every callback
  of the connection and of its timers returns in every safe state, and a reconnection leaves nothing of the
  old session behind.
\<close>

section \<open>The state of the connection\<close>

text \<open>What message handlers do not touch.\<close>

definition link :: "ctl \<Rightarrow> timer \<times> timer \<times> int \<times> bool \<times> bool \<times> bool \<times> bool" where
  "link c = (ticker_ping c, reconnect_timer c, retry_times c, reconnect_requested c, loop_break c, bev_enabled c, fatal c)"

lemma link_simps [simp]:
  "link (c\<lparr>coders := a\<rparr>) = link c" "link (c\<lparr>direct := b\<rparr>) = link c" "link (c\<lparr>pong_time := d\<rparr>) = link c"
  "link (c\<lparr>is_login := e\<rparr>) = link c" "link (c\<lparr>xfrpc_status := e\<rparr>) = link c" "link (c\<lparr>c_login := f\<rparr>) = link c"
  "link (c\<lparr>reports := g\<rparr>) = link c"
  by (simp_all add: link_def)

abbreviation keeps_link :: "ctl \<Rightarrow> ctl \<times> mux \<Rightarrow> bool" where
  "keeps_link c r \<equiv> link (fst r) = link c"

named_theorems link_kept

lemma send_msg_link [link_kept]: "yields (keeps_link c) (send_msg_frp_server env bev t msg l c st)"
  by (auto simp: send_msg_frp_server_def yields_bind_iff Let_def split_beta split: option.split)

lemma prepare_encrypted_link: "link (fst (snd (prepare_encrypted_message env t msg c st))) = link c"
  by (auto simp: prepare_encrypted_message_def Let_def split_beta split: option.split)

lemma write_encrypted_link: "link (fst (write_encrypted env d c st)) = link c"
  by (auto simp: write_encrypted_def Let_def split_beta split: option.split)

lemma initialize_link: "yields (\<lambda>(rc, r). keeps_link c r) (initialize_encoder env l c st)"
  by (auto simp: initialize_encoder_def yields_bind_iff Let_def split_beta split: option.split)

lemma send_enc_link [link_kept]: "yields (keeps_link c) (send_enc_msg_frp_server env t msg l c st)"
proof -
  let ?init = "if main_encoder (coders c) = None then initialize_encoder env l c st else Some (0, c, st)"
  have "yields (\<lambda>(rc, r). keeps_link c r) ?init" using initialize_link by simp
  then have "yields (keeps_link c) (do { (rc, c, st) \<leftarrow> ?init;
        if rc \<noteq> 0 then Some (c, st)
        else case prepare_encrypted_message env t msg c st of
          (None, c, st) \<Rightarrow> Some (c, st)
        | (Some enc, c, st) \<Rightarrow> do {
            v \<leftarrow> conf_tcp_mux st;
            if v \<noteq> 0 then do { (w, st) \<leftarrow> send_through enc l st; Some (c, st) }
            else Some (write_encrypted env enc c st) } })"
  proof (rule yields_bind, clarify)
    fix rc :: int and c1 :: ctl and st1 :: mux assume l1: "link (fst (c1, st1)) = link c"
    obtain m c2 st2 where m: "prepare_encrypted_message env t msg c1 st1 = (m, c2, st2)" by (metis prod.exhaust)
    have "link c2 = link c" using prepare_encrypted_link [of env t msg c1 st1] m l1 by simp
    then show "yields (keeps_link c) (if rc \<noteq> 0 then Some (c1, st1)
        else case prepare_encrypted_message env t msg c1 st1 of
          (None, c, st) \<Rightarrow> Some (c, st)
        | (Some enc, c, st) \<Rightarrow> do {
            v \<leftarrow> conf_tcp_mux st;
            if v \<noteq> 0 then do { (w, st) \<leftarrow> send_through enc l st; Some (c, st) }
            else Some (write_encrypted env enc c st) })"
      using m l1 by (auto simp: yields_bind_iff write_encrypted_link split: option.split)
  qed
  then show ?thesis by (simp add: send_enc_msg_frp_server_def)
qed

lemma register_link [link_kept]: "yields (keeps_link c) (register_all env pss c st)"
proof (induction pss arbitrary: c st)
  case (Cons ps pss)
  have "yields (keeps_link c) (send_new_proxy env ps c st)"
    by (auto simp: send_new_proxy_def yields_bind_iff link_kept split: option.split)
  then have "yields (keeps_link c) (do { (c, st) \<leftarrow> send_new_proxy env ps c st; register_all env pss c st })"
  proof (rule yields_bind, clarify)
    fix c1 and st1 :: mux assume "link (fst (c1, st1)) = link c"
    then show "yields (keeps_link c) (register_all env pss c1 st1)" using Cons.IH [of c1 st1] by simp
  qed
  then show ?case using Cons.IH by simp
qed simp

lemma go_online_link [link_kept]: "yields (keeps_link c) (go_online env c st)"
  using register_link [of c env "c_services env" st]
  by (auto simp: go_online_def start_proxy_services_def yields_def bind_eq_Some_conv)

lemma work_connection_link [link_kept]: "yields (keeps_link c) (new_work_connection env bev l c st)"
  by (auto simp: new_work_connection_def Let_def link_kept split: prod.split option.split)

lemma client_connected_link [link_kept]: "yields (keeps_link c) (handle_client_connected env a c st)"
  unfolding handle_client_connected_def by (rule yields_bind [OF work_connection_link]) auto

lemma client_connect_link [link_kept]: "yields (keeps_link c) (new_client_connect env c st)"
proof -
  let ?P = "\<lambda>(rc :: int, r). keeps_link c r"
  have 1: "yields ?P (init_tcp_mux_client env a c st0)" for a st0
    by (auto simp: init_tcp_mux_client_def yields_bind_iff dest: yieldsD [OF work_connection_link])
  have 2: "yields ?P (init_direct_client env a c st0)" for a st0
    by (auto simp: init_direct_client_def yields_bind_iff split: prod.split option.split dest: yieldsD [OF client_connected_link])
  show ?thesis
    unfolding new_client_connect_def
  proof (rule yields_bind [where Q = "\<lambda>_. True"], simp add: yields_def, clarify, goal_cases)
    case (1 client st1)
    show ?case
    proof (cases client)
      case (Some a)
      have "yields ?P (case conf_tcp_mux st1 of
             None \<Rightarrow> Some (-1, c, st1)
           | Some v \<Rightarrow>
               if \<not> c_base env then Some (-1, c, st1)
               else if v \<noteq> 0 then init_tcp_mux_client env a c st1
               else init_direct_client env a c st1)"
        using \<open>\<And>a st0. yields ?P (init_tcp_mux_client env a c st0)\<close> 2 by (auto split: option.split)
      then show ?thesis using Some by (auto simp: yields_bind_iff intro: yields_bind)
    qed simp
  qed
qed

lemma login_response_link [link_kept]: "yields (keeps_link c) (handle_login_response env b c st)"
proof -
  have "yields (\<lambda>(ok, r). keeps_link c r) (process_login_response env b c st)"
    by (auto simp: process_login_response_def yields_bind_iff split: option.split)
  then have "yields (keeps_link c) (do { (ok, c, st) \<leftarrow> process_login_response env b c st;
        if \<not> ok then Some (c, st)
        else go_online env (c\<lparr>is_login := True, reports := reports c @ [XFRPC_STATE_LOGIN_OK]\<rparr>) st })"
  proof (rule yields_bind, clarify)
    fix ok and c1 :: ctl and st1 :: mux assume "link (fst (c1, st1)) = link c"
    then show "yields (keeps_link c) (if \<not> ok then Some (c1, st1)
        else go_online env (c1\<lparr>is_login := True, reports := reports c1 @ [XFRPC_STATE_LOGIN_OK]\<rparr>) st1)"
      using go_online_link [of "c1\<lparr>is_login := True, reports := reports c1 @ [XFRPC_STATE_LOGIN_OK]\<rparr>" env st1] by simp
  qed
  then show ?thesis by (simp add: handle_login_response_def)
qed

lemma enc_msg_link: "link (fst (snd (handle_enc_msg env b c st))) = link c"
  by (auto simp: handle_enc_msg_def Let_def split_beta split: option.split)

lemma dispatch_link [link_kept]: "yields (keeps_link c) (dispatch_msg env b ctx c st)"
proof -
  have w: "yields (keeps_link c) (without_ctl c x)" for x by (auto simp: without_ctl_def yields_def)
  have r: "yields (keeps_link c) (handle_type_req_work_conn env c st)"
    unfolding handle_type_req_work_conn_def
    by (rule yields_bind [OF go_online_link]) (auto intro: yields_mono [OF client_connect_link])
  show ?thesis unfolding dispatch_msg_def Let_def by (intro yields_if w r) simp_all
qed

lemma frps_msg_link: "yields (keeps_link c) (handle_frps_msg env b ctx c st)"
proof -
  obtain m c1 st1 where m: "handle_enc_msg env b c st = (m, c1, st1)" by (metis prod.exhaust)
  have "link c1 = link c" using enc_msg_link [of env b c st] m by simp
  then have "yields (keeps_link c) (handle_control_work env b ctx c st)"
    using m dispatch_link [of c1 env _ None st1] dispatch_link [of c env b ctx st]
    by (auto simp: handle_control_work_def split: option.split)
  then show ?thesis using login_response_link by (simp add: handle_frps_msg_def)
qed

text \<open>The contract of the multiplexer, with the state of the connection as what the handler keeps.\<close>

interpretation ml: message_handler "handle_frps_msg env" "\<lambda>c. link c = k"
  by unfold_locales (use frps_msg_yields frps_msg_link in \<open>fastforce simp: yields_def\<close>)

section \<open>Clearing the connection\<close>

lemma free_all_eq:
  assumes "distinct (map snd es)" "\<forall>e \<in> set es. heap st (snd e) \<noteq> None"
  shows "free_all es st = Some (st\<lparr>heap := (\<lambda>a. if a \<in> snd ` set es then None else heap st a),
      all_pc := filter (\<lambda>e. snd e \<notin> snd ` set es) (all_pc st)\<rparr>)"
  using assms
proof (induction es arbitrary: st)
  case Nil
  show ?case by (simp add: mux.equality)
next
  case (Cons e es)
  let ?st = "st\<lparr>all_pc := filter (\<lambda>x. snd x \<noteq> snd e) (all_pc st), heap := (heap st)(snd e := None)\<rparr>"
  have d: "del_proxy_client (snd e) st = Some ?st" using Cons.prems(2) by (auto simp: del_proxy_client_def free_proxy_client_def)
  have i: "free_all es ?st = Some (?st\<lparr>heap := (\<lambda>a. if a \<in> snd ` set es then None else heap ?st a),
      all_pc := filter (\<lambda>e. snd e \<notin> snd ` set es) (all_pc ?st)\<rparr>)"
    by (rule Cons.IH) (use Cons.prems in \<open>auto simp: rev_image_eqI\<close>)
  show ?case unfolding free_all.simps d Option.bind.bind_lunit i
    by (rule arg_cong [of _ _ Some], rule mux.equality) (auto simp: fun_eq_iff intro!: filter_cong)
qed

text \<open>A state without clients and streams.\<close>

definition bare :: "mux \<Rightarrow> mux" where
  "bare st = st\<lparr>all_stream := Map.empty, all_pc := [], heap := Map.empty\<rparr>"

lemma clear_all_eq:
  assumes "mux_ok st"
  shows "clear_all_proxy_client st = Some (bare st)"
proof -
  have ok: "distinct (map snd (all_pc st))" "\<forall>e \<in> set (all_pc st). heap st (snd e) \<noteq> None"
    using assms unfolding mux_ok_def by (simp, force)
  have live: "heap st a = None" if "a \<notin> snd ` set (all_pc st)" for a
  proof (rule ccontr)
    assume "heap st a \<noteq> None"
    then obtain pc where "heap st a = Some pc" by auto
    with assms have "(pc_stream_id pc, a) \<in> set (all_pc st)" unfolding mux_ok_def by simp
    with that show False by force
  qed
  show ?thesis
  proof (cases "all_pc st = []")
    case True
    then have "heap st = Map.empty" using live by (simp add: fun_eq_iff)
    with True show ?thesis by (simp add: clear_all_proxy_client_def clear_stream_def bare_def)
  next
    case False
    have "free_all (all_pc st) (clear_stream st) = Some (bare st)"
      using free_all_eq [OF ok(1), of "clear_stream st"] ok(2) live
      by (auto simp: clear_stream_def bare_def fun_eq_iff filter_empty_conv intro!: mux.equality)
    with False show ?thesis by (simp add: clear_all_proxy_client_def clear_stream_def)
  qed
qed

text \<open>The control stream of a new session, and the state after the connection was cleared.\<close>

definition new_stream :: "u32 \<Rightarrow> tmux_stream" where
  "new_stream i = \<lparr>s_id = i, s_recv_window = MAX_STREAM_WINDOW_SIZE, s_send_window = 256 * 1024, s_state = TMUX_INIT,
     s_v2_magic_sent = False, s_v2_magic_seen = False, s_v2_rx = gb_empty\<rparr>"

definition cleared :: "mux \<Rightarrow> mux" where
  "cleared st =
     (let st' = (bare st)\<lparr>cur_stream := None, ctl_up := False, ctl_in := [], ctl_out := []\<rparr> in
      if conf_tcp_mux st \<noteq> None \<and> conf_tcp_mux st \<noteq> Some 0
      then st'\<lparr>g_session_id := g_session_id st + 2, ctl_stream := new_stream (g_session_id st), all_stream := [g_session_id st \<mapsto> CtlLoc]\<rparr>
      else st')"

definition signed_off :: "ctl \<Rightarrow> ctl" where
  "signed_off c = c\<lparr>ticker_ping := None, reconnect_timer := None, xfrpc_status := False, is_login := False, pong_time := 0,
     reports := reports c @ [XFRPC_STATE_RECONNECTING], coders := free_crypto_resources (coders c), bev_enabled := False\<rparr>"

lemma clear_main_eq:
  assumes "mux_ok st"
  shows "clear_main_control c st = Some (rx_init, signed_off c, cleared st)"
proof -
  have "mux_ok (st\<lparr>cur_stream := None\<rparr>)" using assms by simp
  from clear_all_eq [OF this] show ?thesis
    by (simp add: clear_main_control_def reset_tcp_mux_def set_cur_stream_def get_next_session_id_def init_tmux_stream_def
        put_strm_def add_stream_def get_strm_def cleared_def signed_off_def bare_def new_stream_def Let_def)
qed

lemma strm_ok_new: "strm_ok (new_stream i)"
  by (simp add: strm_ok_def new_stream_def MAX_YAMUX_WINDOW_SIZE_def)

lemma cleared_safe: "safe st \<Longrightarrow> safe (cleared st)"
  using strm_ok_new by (auto simp: safe_def mux_ok_def cleared_def bare_def get_strm_def new_stream_def Let_def)

lemma cleared_steady: "safe st \<Longrightarrow> steady rx_init (cleared st)"
  using cleared_safe [of st] by (auto simp: steady_def rx_init_def cleared_def Let_def)

lemma request_reconnect_eq:
  assumes "safe st"
  shows "request_reconnect env c st = Some (rx_init,
      (signed_off c)\<lparr>reconnect_requested := True, loop_break := loop_break c \<or> c_base env\<rparr>, cleared (reset_session_id st))"
proof -
  have "mux_ok (reset_session_id st)" using assms by (simp add: safe_def reset_session_id_def)
  from clear_main_eq [OF this] show ?thesis by (simp add: request_reconnect_def signed_off_def)
qed

section \<open>Callbacks of the connection return\<close>

lemma login_safe:
  assumes "safe st"
  shows "returns (\<lambda>(c', st'). evolves st st') (login env c st)"
proof -
  obtain m c1 where m: "prepare_login_message env c st = (m, c1)" by force
  have "returns (\<lambda>(c', st'). evolves st st' \<and> same_session c1 c') (send_msg_frp_server env None TypeLogin msg (Some CtlLoc) c1 st)" for msg
    by (rule send_msg_safe) (use assms in \<open>auto simp: get_strm_def\<close>)
  then have "returns (\<lambda>(c', st'). evolves st st') (send_msg_frp_server env None TypeLogin msg (Some CtlLoc) c1 st)" for msg
    by (rule returns_mono) auto
  with m assms show ?thesis by (auto simp: login_def split: option.split)
qed

lemma keep_alive_ticked: "keep_control_alive env c st = (c', st') \<Longrightarrow> ticked st st'"
  by (auto simp: keep_control_alive_def init_ping_ticker_def alloc_def Let_def split: if_splits)

lemma connection_success_safe:
  assumes "safe st"
  shows "returns (\<lambda>(c', st'). evolves st st') (handle_connection_success env c st)"
proof -
  obtain v where v: "conf_tcp_mux st = Some v" using assms by (auto simp: safe_def)
  have w: "returns (evolves st) (if v \<noteq> 0 then send_window_update CtlLoc 0 st else Some st)"
    using window_update_safe [of st st CtlLoc] assms by (simp add: get_strm_def)
  have "returns (\<lambda>(c', st'). evolves st st') (do { st \<leftarrow> (if v \<noteq> 0 then send_window_update CtlLoc 0 st else Some st);
      (c, st) \<leftarrow> login env c st; Some (keep_control_alive env c st) })"
  proof (rule returns_bind [OF w])
    fix st1 assume e1: "evolves st st1"
    show "returns (\<lambda>(c', st'). evolves st st') (do { (c, st) \<leftarrow> login env c st1; Some (keep_control_alive env c st) })"
    proof (rule returns_bind [OF login_safe [OF evolves_safe [OF e1]]], clarify)
      fix c2 st2 assume "evolves st1 st2"
      then have e2: "evolves st st2" by (rule evolves_trans [OF e1])
      obtain c3 st3 where k: "keep_control_alive env c2 st2 = (c3, st3)" by force
      with ticked_evolves [OF keep_alive_ticked [OF k] e2] show "returns (\<lambda>(c', st'). evolves st st') (Some (keep_control_alive env c2 st2))" by simp
    qed
  qed
  then show ?thesis using v by (simp add: handle_connection_success_def)
qed

text \<open>What a callback leaves: a steady state, with the receiver either as it was or reset.\<close>

lemma steady_evolves: "steady rx st \<Longrightarrow> evolves st st' \<Longrightarrow> steady rx st'"
  by (auto simp: steady_def evolves_def same_tables_def)

lemma steady_shrinks: "steady rx st \<Longrightarrow> shrinks st st' \<Longrightarrow> steady rx st'"
  by (auto simp: steady_def shrinks_def)

lemma steady_safe: "steady rx st \<Longrightarrow> safe st"
  by (simp add: steady_def)

lemma reconnect_steady:
  assumes "safe st"
  shows "returns (\<lambda>(rx', c', st'). steady rx' st') (request_reconnect env c st)"
proof -
  have "safe (reset_session_id st)" using assms by (simp add: safe_def reset_session_id_def)
  then show ?thesis using request_reconnect_eq [OF assms] cleared_steady by simp
qed

lemma heartbeat_ping:
  assumes "safe st"
  shows "returns (\<lambda>(c', st'). evolves st st' \<and> link c' = link c) (if xfrpc_status c then ping env c st else Some (c, st))"
proof -
  have "returns (\<lambda>(c', st'). evolves st st' \<and> same_session c c') (send_enc_msg_frp_server env TypePing ''{}'' CtlLoc c st)"
    by (rule send_enc_safe) (use assms in \<open>simp_all add: get_strm_def\<close>)
  then have "returns (\<lambda>(c', st'). evolves st st' \<and> link c' = link c) (send_enc_msg_frp_server env TypePing ''{}'' CtlLoc c st)"
    using send_enc_link [of c env TypePing "''{}''" CtlLoc st] by (auto simp: returns_def)
  then show ?thesis using assms by (simp add: ping_def)
qed

lemma steady_io [simp]:
  "steady rx (st\<lparr>ctl_up := b\<rparr>) = steady rx st" "steady rx (st\<lparr>ctl_in := d\<rparr>) = steady rx st"
  "steady rx (st\<lparr>ctl_out := d\<rparr>) = steady rx st" "steady rx (st\<lparr>tick := n\<rparr>) = steady rx st"
  by (simp_all add: steady_def safe_def mux_ok_def get_strm_def cong: loc.case_cong)

lemma run_turn_steady: "steady rx st \<Longrightarrow> run_control_turn env c st = (c', st') \<Longrightarrow> steady rx st'"
proof -
  assume s: "steady rx st" and r: "run_control_turn env c st = (c', st')"
  have "steady rx st1" if i: "init_server_connection env st = (rc, st1)" for rc st1
  proof -
    let ?st = "st\<lparr>ctl_up := False, ctl_in := [], ctl_out := []\<rparr>"
    obtain lb n where "connect_server (c_env env) (Some (fst (e_server (c_env env)))) (snd (e_server (c_env env))) ?st = (lb, ?st\<lparr>tick := n\<rparr>)"
      by (rule connect_server_tick)
    with s i show ?thesis
      by (auto simp: init_server_connection_def Let_def split: if_splits option.splits)
  qed
  with r s show "steady rx st'"
    by (auto simp: run_control_turn_def start_base_connect_def setup_server_callbacks_def Let_def split: prod.splits if_splits)
qed

end
