(* ===== verification/Msg_Roundtrip.thy ===== *)
theory Msg_Roundtrip
  imports Msg
begin

text \<open>
  What the messages carry. The name under which a proxy is registered, echoed by the server, is resolved to
  the local name again; a UDP packet survives printing and parsing; the login response parser is
  undefined exactly on fields that have no text. The printer and parser of JSON are assumed to be inverse to
  each other where a statement needs both.
\<close>

section \<open>Fields of built objects\<close>

lemma get_delete_other: "x \<noteq> k \<Longrightarrow> map_of (delete_first k kvs) x = map_of kvs x"
  by (induction k kvs rule: delete_first.induct) auto

lemma get_add_other [simp]: "x \<noteq> k \<Longrightarrow> json_object_object_get_ex (json_object_object_add j k v) x = json_object_object_get_ex j x"
  by (cases j; cases v) (auto simp: get_delete_other map_add_def split: option.splits)

lemma get_add_value_other [simp]: "x \<noteq> k \<Longrightarrow> json_object_object_get_ex (add_value ok k v j) x = json_object_object_get_ex j x"
  by (simp add: add_value_def)

lemma get_string_if_other [simp]: "x \<noteq> k \<Longrightarrow> json_object_object_get_ex (add_string_if ok k v j) x = json_object_object_get_ex j x"
  by (simp add: add_string_if_def split: option.split)

lemma get_domains [simp]: "json_object_object_get_ex (add_domains ok c j) ''proxy_name'' = json_object_object_get_ex j ''proxy_name''"
  by (simp add: add_domains_def fill_custom_domains_def Let_def split: option.split)

lemma get_locations [simp]: "json_object_object_get_ex (add_locations ok l j) ''proxy_name'' = json_object_object_get_ex j ''proxy_name''"
  by (simp add: add_locations_def split: option.split)

lemma get_headers [simp]: "x \<noteq> k \<Longrightarrow> json_object_object_get_ex (add_headers ok k h j) x = json_object_object_get_ex j x"
  by (simp add: add_headers_def split: option.split)

lemma get_secret [simp]: "json_object_object_get_ex (add_secret ok c j) ''proxy_name'' = json_object_object_get_ex j ''proxy_name''"
  by (simp add: add_secret_def Let_def split: option.split)

lemma get_group [simp]: "json_object_object_get_ex (add_group ok t c j) ''proxy_name'' = json_object_object_get_ex j ''proxy_name''"
  by (simp add: add_group_def)

lemma get_multiplexer [simp]: "json_object_object_get_ex (add_multiplexer ok t c j) ''proxy_name'' = json_object_object_get_ex j ''proxy_name''"
  by (simp add: add_multiplexer_def)

lemma get_proxy_object: "json_object_object_get_ex (proxy_object ok t c j) ''proxy_name'' = json_object_object_get_ex j ''proxy_name''"
  by (simp add: proxy_object_def Let_def)

lemma strip_wire_name [simp]: "user \<noteq> None \<Longrightarrow> xfrpc_strip_user_prefix user (wire_name user name) = name"
  by (auto simp: xfrpc_strip_user_prefix_def wire_name_def)

lemma strip_no_user [simp]: "xfrpc_strip_user_prefix None name = name" "wire_name None name = name"
  by (simp_all add: xfrpc_strip_user_prefix_def wire_name_def)

lemma strip_wire: "xfrpc_strip_user_prefix user (wire_name user name) = name"
  by (cases user) auto

text \<open>The name in a registration.\<close>

lemma registered_name:
  assumes m: "new_proxy_service_marshal lib ok user c = Some (n, Some s)" and name: "pf_name c = Some name"
    and lib: "\<And>j t. print_json lib j = Some t \<Longrightarrow> parse_json lib t = Some j" and mem: "ok ''proxy_name'' 0"
  obtains j where "parse_json lib s = Some j" "json_object_object_get_ex j ''proxy_name'' = Some (JStr (wire_name user name))"
proof -
  have w: "wire_name user name = name" if "\<not> (user \<noteq> None \<and> user \<noteq> Some [])" using that by (auto simp: wire_name_def)
  obtain t where j: "json_message lib ok (proxy_object ok t c (add_value ok ''proxy_name'' (Some (JStr (wire_name user name))) (JObj []))) = (n, Some s)"
    using m name w by (auto simp: new_proxy_service_marshal_def bind_eq_Some_conv split: if_splits)
  let ?j = "proxy_object ok t c (add_value ok ''proxy_name'' (Some (JStr (wire_name user name))) (JObj []))"
  have "print_json lib ?j = Some s" using j by (auto simp: json_message_def split: option.splits if_splits)
  from lib [OF this] show thesis by (rule that) (simp add: get_proxy_object add_value_def mem)
qed

text \<open>C27. A proxy is registered under the name of the user, a dot and its own name. When the server answers with
  that name, in a response to the registration or in the request to start a work connection, the
  client finds its own name of the proxy again, for every user name, also an empty one or none.\<close>

theorem proxy_name_echoed:
  assumes "new_proxy_service_marshal lib ok user c = Some (n, Some s)" "pf_name c = Some name" "ok ''proxy_name'' 0"
    and lib: "\<And>j t. print_json lib j = Some t \<Longrightarrow> parse_json lib t = Some j"
    and echo: "parse_json lib s = Some j" "parse_json lib s' = Some j'"
      "json_object_object_get_ex j' ''proxy_name'' = json_object_object_get_ex j ''proxy_name''"
    and mem: "\<And>k i. ok' k i"
  shows "start_work_conn_resp_unmarshal lib ok' user s' = Some name \<and>
    (\<exists>npr. new_proxy_resp_unmarshal lib ok' user s' = Some (Some npr) \<and> npr_proxy_name npr = name)"
proof -
  obtain j1 where "parse_json lib s = Some j1" "json_object_object_get_ex j1 ''proxy_name'' = Some (JStr (wire_name user name))"
    by (rule registered_name [OF assms(1,2) lib assms(3)])
  then have f: "json_object_object_get_ex j' ''proxy_name'' = Some (JStr (wire_name user name))" using echo by simp
  have opt: "\<exists>r. optional_string lib ok' j' key = Some r" for key
    using mem by (auto simp: optional_string_def split: option.split)
  obtain r e where "optional_string lib ok' j' ''run_id'' = Some r" "optional_string lib ok' j' ''error'' = Some e" using opt by blast
  then show ?thesis using f echo(2) mem
    by (simp add: start_work_conn_resp_unmarshal_def new_proxy_resp_unmarshal_def parse_object_def proxy_name_of_def get_field_def
        field_string_def strdup_def strip_wire)
qed

text \<open>A library for one object, and a service.\<close>

definition one_object_lib :: "json \<Rightarrow> json_lib" where
  "one_object_lib j = \<lparr>parse_json = (\<lambda>s. if s = ''x'' then Some j else None), print_json = (\<lambda>k. if k = j then Some ''x'' else None),
     show_num = (\<lambda>n. [])\<rparr>"

lemma one_object_law: "print_json (one_object_lib j) k = Some t \<Longrightarrow> parse_json (one_object_lib j) t = Some k"
  by (auto simp: one_object_lib_def split: if_splits)

definition demo_service :: proxy_conf where
  "demo_service = \<lparr>ps_proxy_type = Some ''tcp'', ps_service_type = NO_XDPI, ps_use_encryption = False, ps_use_compression = False,
     ps_local_ip = Some ''127.0.0.1'', ps_local_port = 80, ps_plugin = None, ps_plugin_unix_path = None,
     pf_name = Some ''web'', pf_remote_port = 8080, pf_start_time = 0, pf_end_time = 0, pf_custom_domains = None,
     pf_subdomain = None, pf_locations = None, pf_host_header_rewrite = None, pf_http_user = None, pf_http_pwd = None,
     pf_request_headers = None, pf_response_headers = None, pf_group = None, pf_group_key = None, pf_multiplexer = None,
     pf_route_by_http_user = None, pf_sk = None, pf_allow_users = None\<rparr>"

definition demo_registration :: json where
  "demo_registration = proxy_object (\<lambda>k i. True) ''tcp'' demo_service (JObj [(''proxy_name'', JStr ''ann.web'')])"

lemma demo_marshal:
  "new_proxy_service_marshal (one_object_lib demo_registration) (\<lambda>k i. True) (Some ''ann'') demo_service = Some (1, Some ''x'')"
  by (simp add: new_proxy_service_marshal_def demo_service_def on_wire_type_def json_message_def one_object_lib_def
      demo_registration_def add_value_def wire_name_def)

theorem proxy_name_echoed_witness:
  "start_work_conn_resp_unmarshal (one_object_lib demo_registration) (\<lambda>k i. True) (Some ''ann'') ''x'' = Some ''web''"
  using proxy_name_echoed [OF demo_marshal _ _ one_object_law, of "''web''" demo_registration "''x''" demo_registration "\<lambda>k i. True"]
  by (simp add: demo_service_def one_object_lib_def)

section \<open>UDP packets\<close>

definition without_zone :: "udp_addr \<Rightarrow> udp_addr" where
  "without_zone a = a\<lparr>ua_zone := []\<rparr>"

definition port_ok :: "udp_addr option \<Rightarrow> bool" where
  "port_ok a = (case a of None \<Rightarrow> True | Some a \<Rightarrow> - (2 ^ 31) \<le> ua_port a \<and> ua_port a < 2 ^ 31)"

lemma parse_created:
  assumes "\<And>k i. ok k i" "port_ok a"
  shows "parse_udp_addr lib ok (Some (create_udp_addr_json a)) = Some (map_option without_zone a)"
  using assms by (cases a) (auto simp: parse_udp_addr_def create_udp_addr_json_def get_field_def field_string_def strdup_def
      json_object_get_int_def without_zone_def port_ok_def)

text \<open>A UDP packet that was printed and is parsed again has the same content and the same addresses and
  ports; only the zones are gone. An address that is missing stays missing.\<close>

theorem udp_packet_roundtrip:
  assumes "new_udp_packet_marshal lib ok udp = Some (0, Some s)" "up_content udp \<noteq> None"
    and "port_ok (up_laddr udp)" "port_ok (up_raddr udp)"
    and "\<And>j t. print_json lib j = Some t \<Longrightarrow> parse_json lib t = Some j" and mem: "\<And>a k i. oks a k i"
  shows "udp_packet_unmarshal lib oks s = Some (Some (udp\<lparr>up_laddr := map_option without_zone (up_laddr udp),
    up_raddr := map_option without_zone (up_raddr udp)\<rparr>))"
proof -
  obtain c where c: "up_content udp = Some c" using assms(2) by auto
  let ?j = "JObj [(''c'', JStr c), (''l'', create_udp_addr_json (up_laddr udp)), (''r'', create_udp_addr_json (up_raddr udp))]"
  have "print_json lib ?j = Some s" using assms(1) c by (auto simp: new_udp_packet_marshal_def split: if_splits option.splits)
  then have p: "parse_json lib s = Some ?j" by (rule assms(5))
  note a = parse_created [of "oks ''l''", OF mem assms(3), of lib] parse_created [of "oks ''r''", OF mem assms(4), of lib]
  show ?thesis using p a c mem
    by (cases udp) (simp add: udp_packet_unmarshal_def parse_object_def required_string_def get_field_def field_string_def strdup_def)
qed

definition demo_packet :: json where
  "demo_packet = JObj [(''c'', JStr ''aGk=''), (''l'', JObj [(''IP'', JStr ''10.0.0.1''), (''Port'', JNum 53), (''Zone'', JStr [])]), (''r'', JObj [])]"

theorem udp_packet_roundtrip_witness:
  "udp_packet_unmarshal (one_object_lib demo_packet) (\<lambda>a k i. True) ''x'' =
     Some (Some \<lparr>up_content = Some ''aGk='', up_laddr = Some \<lparr>ua_addr = ''10.0.0.1'', ua_port = 53, ua_zone = []\<rparr>, up_raddr = None\<rparr>)"
proof -
  let ?u = "\<lparr>up_content = Some ''aGk='', up_laddr = Some \<lparr>ua_addr = ''10.0.0.1'', ua_port = 53, ua_zone = ''eth0''\<rparr>, up_raddr = None\<rparr>"
  have "new_udp_packet_marshal (one_object_lib demo_packet) (\<lambda>k i. True) ?u = Some (0, Some ''x'')"
    by (simp add: new_udp_packet_marshal_def one_object_lib_def create_udp_addr_json_def demo_packet_def)
  from udp_packet_roundtrip [OF this _ _ _ one_object_law] show ?thesis by (simp add: port_ok_def without_zone_def)
qed

section \<open>Undefined behaviour of the login response parser\<close>

text \<open>A field with no text: present, but \<open>null\<close>, an array or an object.\<close>

definition textless :: "json \<Rightarrow> string \<Rightarrow> bool" where
  "textless j key \<longleftrightarrow> (case json_object_object_get_ex j key of
     Some JNull \<Rightarrow> True | Some (JArr vs) \<Rightarrow> True | Some (JObj kvs) \<Rightarrow> True | _ \<Rightarrow> False)"

lemma required_undefined:
  assumes "\<And>k i. ok k i"
  shows "required_string lib ok j key = None \<longleftrightarrow> textless j key"
    and "required_string lib ok j key = Some None \<longleftrightarrow> json_object_object_get_ex j key = None"
  using assms by (auto simp: required_string_def get_field_def field_string_def strdup_def textless_def split: option.splits json.splits)

text \<open>C38. With memory available the parser of the login response passes \<open>NULL\<close> to \<open>strdup\<close> exactly when the
  version is null, an array or an object, or when there is a version and the run identifier is one of these.\<close>

theorem login_response_undefined_iff:
  assumes "\<And>k i. ok k i" "parse_json lib s = Some j"
  shows "login_resp_unmarshal lib ok s = None \<longleftrightarrow>
    textless j ''version'' \<or> (json_object_object_get_ex j ''version'' \<noteq> None \<and> textless j ''run_id'')"
proof -
  have p: "parse_object lib ok s = Some j" using assms by (simp add: parse_object_def)
  have d: "required_string lib ok j ''version'' = None \<longleftrightarrow> textless j ''version''"
    "required_string lib ok j ''version'' = Some None \<longleftrightarrow> json_object_object_get_ex j ''version'' = None"
    "required_string lib ok j ''run_id'' = None \<longleftrightarrow> textless j ''run_id''"
    using required_undefined [OF assms(1)] by simp_all
  show ?thesis using d by (auto simp: login_resp_unmarshal_def p textless_def bind_eq_None_conv split: option.splits)
qed

theorem login_response_undefined_iff_witness:
  "login_resp_unmarshal (one_object_lib (JObj [(''version'', JNull)])) (\<lambda>k i. True) ''x'' = None"
  using login_response_undefined_iff [of "\<lambda>k i. True" "one_object_lib (JObj [(''version'', JNull)])" "''x''" "JObj [(''version'', JNull)]"]
  by (simp add: one_object_lib_def textless_def)

end
