(* ===== verification/System.thy ===== *)
theory System
  imports Connection Msg_Roundtrip
begin

text \<open>
  The client as a state machine. A state is the receiver's position in the frame stream, the static
  variables of the control layer and the multiplexer with its clients; a step is one callback of the event
  loop, or the reconnection that \<open>run_control\<close> makes when the loop was left. Multiplexing is on, the default
  of the protocol. A callback that runs into undefined behaviour has no step.
\<close>

section \<open>Steps\<close>

type_synonym sys = "rx \<times> ctl \<times> mux"

definition running :: "ctl \<Rightarrow> bool" where
  "running c \<longleftrightarrow> \<not> loop_break c \<and> \<not> fatal c"

text \<open>Bytes that a local service has sent.\<close>

definition local_input :: "nat \<Rightarrow> bytes \<Rightarrow> mux \<Rightarrow> mux option" where
  "local_input a d st = do {
     pc \<leftarrow> heap st a;
     lb \<leftarrow> pc_local pc;
     put_pc a (pc\<lparr>pc_local := Some (lb\<lparr>lb_in := lb_in lb @ d\<rparr>)\<rparr>) st
   }"

inductive step :: "cenv \<Rightarrow> sys \<Rightarrow> sys \<Rightarrow> bool" for env where
  receive: "running c \<Longrightarrow> ctl_up st \<Longrightarrow> bev_enabled c \<Longrightarrow>
     recv_cb_mux (c_env env) (handle_frps_msg env) rx c (st\<lparr>ctl_in := ctl_in st @ d\<rparr>) = Some s' \<Longrightarrow> step env (rx, c, st) s'"
| control_event: "running c \<Longrightarrow> ctl_up st \<Longrightarrow> connect_event_cb env what rx c st = Some s' \<Longrightarrow> step env (rx, c, st) s'"
| heartbeat: "running c \<Longrightarrow> ticker_ping c = Some (Some d) \<Longrightarrow>
     heartbeat_handler env rx (c\<lparr>ticker_ping := Some None\<rparr>) st = Some s' \<Longrightarrow> step env (rx, c, st) s'"
| reconnect: "running c \<Longrightarrow> reconnect_timer c = Some (Some d) \<Longrightarrow>
     reconnect_timer_cb env (c\<lparr>reconnect_timer := Some None\<rparr>) st = Some s' \<Longrightarrow> step env (rx, c, st) s'"
| local_data: "running c \<Longrightarrow> heap st a = Some pc \<Longrightarrow> pc_local pc \<noteq> None \<Longrightarrow> \<not> is_udp_proxy (pc_ps pc) \<Longrightarrow>
     local_input a d st = Some st1 \<Longrightarrow> tcp_proxy_c2s_cb (c_env env) a st1 = Some st' \<Longrightarrow> step env (rx, c, st) (rx, c, st')"
| local_event: "running c \<Longrightarrow> heap st a = Some pc \<Longrightarrow> pc_local pc \<noteq> None \<Longrightarrow>
     xfrp_proxy_event_cb (c_env env) what a st = Some st' \<Longrightarrow> step env (rx, c, st) (rx, c, st')"
| sent: "running c \<Longrightarrow> step env (rx, c, st) (rx, c, st\<lparr>ctl_out := drop n (ctl_out st)\<rparr>)"
| restart: "loop_break c \<Longrightarrow> reconnect_requested c \<Longrightarrow> \<not> fatal c \<Longrightarrow>
     run_control_turn env c st = (c', st') \<Longrightarrow> step env (rx, c, st) (rx, c', st')"

inductive_cases step_cases: "step env (rx, c, st) s'"

text \<open>The static variables before the start, and the first turn of \<open>run_control\<close>.\<close>

definition cold_mux :: "int \<Rightarrow> (nat \<Rightarrow> bool) \<Rightarrow> mux" where
  "cold_mux v full = \<lparr>heap = Map.empty, next_addr = 0, all_stream = Map.empty, all_pc = [], ctl_stream = calloc_stream,
     abandon_stream = calloc_stream, cur_stream = None, g_session_id = 1, local_go_away = False, remote_go_away = False,
     mux_cached = -1, conf_tcp_mux = Some v, ctl_up = False, ctl_in = [], ctl_out = [], oom = full, tick = 0\<rparr>"

definition cold_ctl :: "Msg.login \<Rightarrow> ctl" where
  "cold_ctl lg = \<lparr>is_login = False, xfrpc_status = False, pong_time = 0, coders = no_coders, c_login = lg, direct = [],
     reports = [], fatal = False, ticker_ping = None, reconnect_timer = None, retry_times = 0, reconnect_requested = False,
     loop_break = False, bev_enabled = False\<rparr>"

inductive reachable :: "cenv \<Rightarrow> sys \<Rightarrow> bool" for env where
  boot: "c_base env \<Longrightarrow> v \<noteq> 0 \<Longrightarrow> init_main_control env (cold_ctl lg) (cold_mux v full) = Some (True, c0, st0) \<Longrightarrow>
     run_control_turn env c0 st0 = (c, st) \<Longrightarrow> reachable env (rx_init, c, st)"
| onward: "reachable env s \<Longrightarrow> step env s s' \<Longrightarrow> reachable env s'"

section \<open>Invariant\<close>

text \<open>There is always a way on: the event loop has been left to connect again, a reconnection is scheduled, or
  the control connection is being read and written; unless the client has given up.\<close>

definition alive :: "ctl \<Rightarrow> bool" where
  "alive c \<longleftrightarrow> fatal c \<or> (loop_break c \<and> reconnect_requested c) \<or> (\<exists>d. reconnect_timer c = Some (Some d)) \<or> bev_enabled c"

definition sys_ok :: "cenv \<Rightarrow> sys \<Rightarrow> bool" where
  "sys_ok env s = (case s of (rx, c, st) \<Rightarrow> c_base env \<and> steady rx st \<and> alive c)"

lemma alive_link: "link c' = link c \<Longrightarrow> alive c' = alive c"
  by (simp add: link_def alive_def)

lemma reconnect_alive:
  "c_base env \<Longrightarrow> safe st \<Longrightarrow> returns (\<lambda>(rx', c', st'). steady rx' st' \<and> alive c') (request_reconnect env c st)"
  using reconnect_steady [of st env c] request_reconnect_eq [of st env c] by (auto simp: alive_def returns_def)

lemma cold_safe:
  assumes "init_main_control env c (cold_mux v full) = Some (True, c', st)"
  shows "steady rx_init st \<and> c' = c"
  using assms strm_ok_new
  by (auto simp: init_main_control_def cold_mux_def alloc_def get_next_session_id_def init_tmux_stream_def put_strm_def add_stream_def
      get_strm_def steady_def safe_def mux_ok_def rx_init_def Let_def calloc_stream_def strm_ok_def MAX_YAMUX_WINDOW_SIZE_def
      bind_eq_Some_conv split: if_splits)

lemma run_turn_alive: "run_control_turn env c st = (c', st') \<Longrightarrow> alive c'"
  by (auto simp: run_control_turn_def start_base_connect_def setup_server_callbacks_def alive_def Let_def split: prod.splits if_splits)

lemma login_alive: "yields (\<lambda>r. alive (fst r) \<or> link (fst r) = link c) (login env c st)"
proof -
  obtain m c1 where m: "prepare_login_message env c st = (m, c1)" by force
  have l: "link c1 = link c" using m by (auto simp: prepare_login_message_def split: prod.splits)
  have "yields (\<lambda>r. alive (fst r) \<or> link (fst r) = link c) (send_msg_frp_server env None TypeLogin msg (Some CtlLoc) c1 st)" for msg
    by (rule yields_mono [OF send_msg_link]) (use l in simp)
  then show ?thesis using m by (auto simp: login_def alive_def split: option.split)
qed

lemma keep_alive_alive: "alive (fst (keep_control_alive env c st)) = alive c"
  by (auto simp: keep_control_alive_def init_ping_ticker_def alive_def Let_def split_beta)

lemma success_alive:
  assumes "alive c"
  shows "yields (\<lambda>r. alive (fst r)) (handle_connection_success env c st)"
proof -
  have "yields (\<lambda>r. alive (fst r)) (do { (c, st) \<leftarrow> login env c st; Some (keep_control_alive env c st) })" for st
  proof (rule yields_bind [OF login_alive], clarify)
    fix c1 st1 assume "alive (fst (c1, st1 :: mux)) \<or> link (fst (c1, st1)) = link c"
    then have "alive c1" using assms alive_link [of c1 c] by auto
    then show "yields (\<lambda>r. alive (fst r)) (Some (keep_control_alive env c1 st1))" by (simp add: keep_alive_alive)
  qed
  then show ?thesis by (auto simp: handle_connection_success_def yields_bind_iff)
qed

lemma connect_event_ok:
  assumes "c_base env" "steady rx st" "alive c"
  shows "returns (\<lambda>(rx', c', st'). steady rx' st' \<and> alive c') (connect_event_cb env what rx c st)"
proof (cases what)
  case Bev_gone
  have "safe (st\<lparr>tick := Suc (tick st)\<rparr>)" using assms(2) by (simp add: steady_def)
  from reconnect_alive [OF assms(1) this] Bev_gone assms show ?thesis
    by (auto simp: connect_event_cb_def handle_connection_failure_def alloc_def Let_def alive_def)
next
  case Bev_connected
  have a: "alive (c\<lparr>retry_times := 0\<rparr>)" using assms(3) by (simp add: alive_def)
  obtain c' st' where r: "handle_connection_success env (c\<lparr>retry_times := 0\<rparr>) st = Some (c', st')" "evolves st st'"
    using connection_success_safe [OF steady_safe [OF assms(2)], of env "c\<lparr>retry_times := 0\<rparr>"] by (auto simp: returns_def)
  have "alive c'" using yieldsD [OF success_alive [OF a] r(1)] by simp
  with Bev_connected r steady_evolves [OF assms(2)] show ?thesis by (simp add: connect_event_cb_def)
qed (use assms in \<open>simp add: connect_event_cb_def\<close>)

lemma heartbeat_ok:
  assumes "c_base env" "steady rx st" "alive c"
  shows "returns (\<lambda>(rx', c', st'). steady rx' st' \<and> alive c') (heartbeat_handler env rx c st)"
proof -
  obtain c1 st1 where p: "(if xfrpc_status c then ping env c st else Some (c, st)) = Some (c1, st1)"
    and e: "evolves st st1" and l: "link c1 = link c"
    using heartbeat_ping [OF steady_safe [OF assms(2)], of c env] by (auto simp: returns_def)
  have "alive (schedule_heartbeat_timer env c1)"
    using assms(3) alive_link [OF l] by (auto simp: schedule_heartbeat_timer_def alive_def split: option.split)
  then show ?thesis using p steady_evolves [OF assms(2) e] reconnect_alive [OF assms(1) evolves_safe [OF e]]
    by (simp add: heartbeat_handler_def check_server_timeout_def Let_def)
qed

lemma local_input_ok:
  assumes "safe st" "heap st a = Some pc" "pc_local pc \<noteq> None"
  obtains st1 pc1 where "local_input a d st = Some st1" "evolves st st1" "heap st1 a = Some pc1" "pc_local pc1 \<noteq> None"
proof -
  obtain lb where lb: "pc_local pc = Some lb" using assms(3) by auto
  let ?pc = "pc\<lparr>pc_local := Some (lb\<lparr>lb_in := lb_in lb @ d\<rparr>)\<rparr>"
  let ?st = "st\<lparr>heap := (heap st)(a \<mapsto> ?pc)\<rparr>"
  have i: "local_input a d st = Some ?st" using assms lb by (simp add: local_input_def put_pc_def)
  have e0: "evolves st st" using assms(1) by simp
  have "returns (\<lambda>st'. evolves st st') (put_pc a ?pc st)"
    by (rule returns_mono [OF put_safe [OF e0 assms(2)]])
       (use evolves_client_ok [OF e0 assms(2)] in \<open>auto simp: recoded_def client_ok_def\<close>)
  then have "evolves st ?st" using assms by (simp add: put_pc_def)
  with i show thesis by (intro that [of ?st ?pc]) simp_all
qed

lemma receive_ok:
  assumes "snappy_safe (c_env env)" "steady rx st" "alive c"
  shows "yields (\<lambda>(rx', c', st'). steady rx' st' \<and> alive c') (recv_cb_mux (c_env env) (handle_frps_msg env) rx c st)"
proof -
  have "yields (\<lambda>(rx', c', st'). link c' = link c \<and> steady rx' st') (mux_loop (c_env env) (handle_frps_msg env) n rx c st)" for n
    by (rule ml.loop_steady [OF assms(1,2) refl])
  then have "yields (\<lambda>(rx', c', st'). steady rx' st' \<and> alive c') (mux_loop (c_env env) (handle_frps_msg env) n rx c st)" for n
    by (rule yields_mono) (use assms(3) alive_link in blast)
  then show ?thesis using assms by (simp add: recv_cb_mux_def handle_tcp_mux_def)
qed

lemma step_keeps:
  assumes "step env s s'" "snappy_safe (c_env env)" "sys_ok env s"
  shows "sys_ok env s'"
  using assms
proof (induction rule: step.induct)
  case (receive c st rx d s')
  then have "steady rx (st\<lparr>ctl_in := ctl_in st @ d\<rparr>)" "alive c" by (simp_all add: sys_ok_def)
  from yieldsD [OF receive_ok [OF receive(5) this] receive(4)] receive show ?case by (auto simp: sys_ok_def)
next
  case (control_event c st what rx s')
  then show ?case using connect_event_ok [of env rx st c what] by (auto simp: sys_ok_def returns_def)
next
  case (heartbeat c d rx st s')
  then have "alive (c\<lparr>ticker_ping := Some None\<rparr>)" by (simp add: sys_ok_def alive_def)
  with heartbeat show ?case using heartbeat_ok [of env rx st "c\<lparr>ticker_ping := Some None\<rparr>"] by (auto simp: sys_ok_def returns_def)
next
  case (reconnect c d st s' rx)
  then show ?case using reconnect_alive [OF _ steady_safe, of env rx st "c\<lparr>reconnect_timer := Some None\<rparr>"]
    by (auto simp: sys_ok_def returns_def reconnect_timer_cb_def)
next
  case (local_data c st a pc d st1 st' rx)
  then have sf: "safe st" using steady_safe by (auto simp: sys_ok_def)
  obtain pc1 where e: "evolves st st1" "heap st1 a = Some pc1" "pc_local pc1 \<noteq> None"
    using local_input_ok [OF sf local_data(2,3), of d] local_data(5) by (metis option.sel)
  have "returns (shrinks st1) (tcp_proxy_c2s_cb (c_env env) a st1)" by (rule c2s_safe [OF local_data(7) evolves_safe [OF e(1)] e(2,3)])
  then have "shrinks st st'" using local_data(6) shrinks_trans [OF evolves_shrinks [OF e(1)]] by (auto simp: returns_def)
  with local_data show ?case using steady_shrinks by (auto simp: sys_ok_def)
next
  case (local_event c st a pc what st' rx)
  then have sf: "safe st" using steady_safe by (auto simp: sys_ok_def)
  have "shrinks st st'" using proxy_event_safe [OF local_event(5) sf local_event(2), of what] local_event(4) by (auto simp: returns_def)
  with local_event show ?case using steady_shrinks by (auto simp: sys_ok_def)
next
  case (sent c rx st n)
  then show ?case by (simp add: sys_ok_def)
next
  case (restart c st c' st' rx)
  then show ?case using run_turn_steady [OF _ restart(4), of rx] run_turn_alive [OF restart(4)] by (simp add: sys_ok_def)
qed

lemma reachable_ok:
  assumes "reachable env s" "snappy_safe (c_env env)"
  shows "sys_ok env s"
  using assms
proof (induction rule: reachable.induct)
  case (boot v lg full c0 st0 c st)
  then show ?case using cold_safe [OF boot(3)] run_turn_steady [OF _ boot(4)] run_turn_alive [OF boot(4)] by (simp add: sys_ok_def)
next
  case (onward s s')
  then show ?case using step_keeps by blast
qed

section \<open>An example of a configuration\<close>

text \<open>No services, memory never runs out, the connection to the server can be opened.\<close>

definition demo_login :: Msg.login where
  "demo_login = \<lparr>lg_version = Some ''0.62.1'', lg_hostname = None, lg_os = Some ''esp32'', lg_arch = Some ''xtensa'', lg_user = None,
     lg_privilege_key = None, lg_timestamp = 0, lg_run_id = None, lg_pool_count = 1, lg_logged = False\<rparr>"

definition demo_cenv :: "proxy_conf list \<Rightarrow> json \<Rightarrow> cenv" where
  "demo_cenv services j = \<lparr>c_env = demo_env\<lparr>e_server := (''10.0.0.1'', 7000)\<rparr>, c_lib = one_object_lib j, c_md5 = (\<lambda>d. Some (replicate 16 0)),
     c_mem = (\<lambda>n s k i. True), c_time = (\<lambda>n. 1000), c_hour = (\<lambda>n. 12), c_services = services,
     c_auth = \<lparr>cf_auth_method = None, cf_auth_token = Some ''secret'', cf_user = None\<rparr>, c_base = True, c_fd = True,
     c_write = (\<lambda>n k. (int k, False)), c_heartbeat_interval = 30, c_heartbeat_timeout = 90, c_tls_enable = False, c_tls_init = True\<rparr>"

definition demo_ctl :: ctl where
  "demo_ctl = (cold_ctl demo_login)\<lparr>bev_enabled := True\<rparr>"

definition demo_start :: mux where
  "demo_start = (cold_mux 1 (\<lambda>n. False))\<lparr>g_session_id := 3, ctl_stream := new_stream 1, all_stream := [1 \<mapsto> CtlLoc],
     ctl_up := True, tick := 4\<rparr>"

lemma demo_snappy: "snappy_safe (c_env (demo_cenv ps j))"
  by (simp add: snappy_safe_def demo_cenv_def demo_env_def)

lemma demo_reachable: "reachable (demo_cenv ps j) (rx_init, demo_ctl, demo_start)"
proof (rule reachable.boot [where v = 1 and lg = demo_login and full = "\<lambda>n. False"])
  show "init_main_control (demo_cenv ps j) (cold_ctl demo_login) (cold_mux 1 (\<lambda>n. False)) =
      Some (True, cold_ctl demo_login, (cold_mux 1 (\<lambda>n. False))\<lparr>g_session_id := 3, ctl_stream := new_stream 1, all_stream := [1 \<mapsto> CtlLoc], tick := 2\<rparr>)"
    by (simp add: init_main_control_def cold_mux_def alloc_def demo_cenv_def get_next_session_id_def init_tmux_stream_def put_strm_def
        add_stream_def get_strm_def new_stream_def)
  show "run_control_turn (demo_cenv ps j) (cold_ctl demo_login) ((cold_mux 1 (\<lambda>n. False))\<lparr>g_session_id := 3, ctl_stream := new_stream 1,
      all_stream := [1 \<mapsto> CtlLoc], tick := 2\<rparr>) = (demo_ctl, demo_start)"
    by (simp add: run_control_turn_def start_base_connect_def init_server_connection_def setup_server_callbacks_def demo_cenv_def demo_env_def
        connect_server_def connect_to_def connects_def alloc_def cold_mux_def cold_ctl_def demo_ctl_def demo_start_def)
qed (simp_all add: demo_cenv_def)

section \<open>Properties\<close>

text \<open>C2. In every state the client can reach, whatever the server and the local services send, whatever fails and in
  whatever order the callbacks come, the tables of streams and clients are well formed: every entry of the stream table
  leads to an object that exists and has that identifier, every client is registered once under its own identifier,
  windows are within their bounds, the buffers of every client are consistent, and the parser of frame headers stays
  within its twelve bytes and never waits for more payload than a window.\<close>

theorem reachable_well_formed:
  assumes "snappy_safe (c_env env)" "reachable env (rx, c, st)"
  shows "mux_ok st \<and> (\<forall>a pc. heap st a = Some pc \<longrightarrow> client_ok pc) \<and> length (rx_hdr rx) = 12 \<and> rx_partial rx < 12 \<and>
    (cur_stream st \<noteq> None \<longrightarrow> rx_len rx \<le> MAX_STREAM_WINDOW_SIZE)"
  using reachable_ok [OF assms(2,1)] by (simp add: sys_ok_def steady_def safe_def)

theorem reachable_well_formed_witness: "mux_ok demo_start \<and> length (rx_hdr rx_init) = 12"
  using reachable_well_formed [OF demo_snappy [of "[]" JNull] demo_reachable] by blast

text \<open>C1. No callback but the one that reads from the server can run into undefined behaviour: in every reachable state
  each event of the control connection, the heartbeat, the reconnection timer, data from a local service and each event
  of a local connection is handled completely, whatever allocations, writes or connections fail meanwhile.\<close>

theorem callbacks_return:
  assumes "snappy_safe (c_env env)" "reachable env (rx, c, st)"
  shows "(\<exists>r. connect_event_cb env what rx c st = Some r) \<and>
    (\<exists>r. heartbeat_handler env rx (c\<lparr>ticker_ping := Some None\<rparr>) st = Some r) \<and>
    (\<exists>r. reconnect_timer_cb env (c\<lparr>reconnect_timer := Some None\<rparr>) st = Some r) \<and>
    (\<forall>a pc. heap st a = Some pc \<longrightarrow> pc_local pc \<noteq> None \<longrightarrow>
       (\<exists>st1 st'. local_input a d st = Some st1 \<and> tcp_proxy_c2s_cb (c_env env) a st1 = Some st') \<and>
       (\<exists>st'. xfrp_proxy_event_cb (c_env env) ev a st = Some st'))"
proof -
  have ok: "c_base env" "steady rx st" "alive c" using reachable_ok [OF assms(2,1)] by (simp_all add: sys_ok_def)
  note sf = steady_safe [OF ok(2)]
  have a: "alive (c\<lparr>ticker_ping := Some None\<rparr>)" using ok(3) by (simp add: alive_def)
  have l: "(\<exists>st1 st'. local_input a d st = Some st1 \<and> tcp_proxy_c2s_cb (c_env env) a st1 = Some st') \<and>
      (\<exists>st'. xfrp_proxy_event_cb (c_env env) ev a st = Some st')" if h: "heap st a = Some pc" "pc_local pc \<noteq> None" for a pc
  proof -
    obtain st1 pc1 where i: "local_input a d st = Some st1" "evolves st st1" "heap st1 a = Some pc1" "pc_local pc1 \<noteq> None"
      by (rule local_input_ok [OF sf h, of d])
    with c2s_safe [OF assms(1) evolves_safe [OF i(2)] i(3,4)] proxy_event_safe [OF assms(1) sf h(1), of ev] show ?thesis
      by (auto simp: returns_def)
  qed
  show ?thesis using connect_event_ok [OF ok, of what] heartbeat_ok [OF ok(1,2) a] request_reconnect_eq [OF sf] l
    by (auto simp: returns_def reconnect_timer_cb_def)
qed

theorem callbacks_return_witness: "\<exists>r. connect_event_cb (demo_cenv [] JNull) Bev_connected rx_init demo_ctl demo_start = Some r"
  using callbacks_return [OF demo_snappy demo_reachable, of "[]" JNull Bev_connected] by blast

text \<open>C11. A reconnection starts from scratch. Whatever state the client is in when the timer fires, afterwards there is no
  client and no stream but the control stream, which is new and has identifier 1 again; nothing is left of received or unsent bytes, of the
  frame being read, of the encryption contexts and of the login; all timers are gone, and the event loop returns to connect again.\<close>

theorem reconnect_is_clean:
  assumes "snappy_safe (c_env env)" "reachable env (rx, c, st)" "conf_tcp_mux st = Some v" "v \<noteq> 0"
  shows "\<exists>c' st'. reconnect_timer_cb env c st = Some (rx_init, c', st') \<and>
    heap st' = Map.empty \<and> all_pc st' = [] \<and> all_stream st' = [1 \<mapsto> CtlLoc] \<and> ctl_stream st' = new_stream 1 \<and> g_session_id st' = 3 \<and>
    cur_stream st' = None \<and> \<not> ctl_up st' \<and> ctl_in st' = [] \<and> ctl_out st' = [] \<and> coders c' = no_coders \<and>
    \<not> is_login c' \<and> \<not> xfrpc_status c' \<and> pong_time c' = 0 \<and> ticker_ping c' = None \<and> reconnect_timer c' = None \<and>
    reconnect_requested c' \<and> loop_break c'"
proof -
  have ok: "c_base env" "safe st" using reachable_ok [OF assms(2,1)] by (simp_all add: sys_ok_def steady_def)
  show ?thesis using request_reconnect_eq [OF ok(2), of env c] ok(1) assms(3,4)
    by (simp add: reconnect_timer_cb_def cleared_def bare_def signed_off_def reset_session_id_def free_crypto_resources_def
        free_all_frp_coders_def no_coders_def Let_def)
qed

theorem reconnect_is_clean_witness:
  "\<exists>c' st'. reconnect_timer_cb (demo_cenv [] JNull) demo_ctl demo_start = Some (rx_init, c', st') \<and> all_stream st' = [1 \<mapsto> CtlLoc]"
  using reconnect_is_clean [OF demo_snappy demo_reachable, of 1 "[]" JNull] by (auto simp: demo_start_def cold_mux_def)

lemma backoff_bounds: "2 \<le> reconnect_backoff_seconds n \<and> reconnect_backoff_seconds n \<le> 60"
proof -
  have "(2 :: int) ^ nat k \<ge> 1" for k by simp
  then show ?thesis by (auto simp: reconnect_backoff_seconds_def Let_def)
qed

text \<open>Whether the server's connection opens in a state: the code has no QUIC, and the address, memory, DNS and sockets allow it.\<close>

definition server_opens :: "cenv \<Rightarrow> mux \<Rightarrow> bool" where
  "server_opens env st \<longleftrightarrow> \<not> e_quic (c_env env) \<and>
     fst (connect_server (c_env env) (Some (fst (e_server (c_env env)))) (snd (e_server (c_env env))) st) \<noteq> None"

text \<open>What a turn of the main loop leaves, by the outcome of the opening.\<close>

definition reopened :: "bool \<Rightarrow> ctl \<Rightarrow> mux \<Rightarrow> bool" where
  "reopened opened c st \<longleftrightarrow> (if opened then running c \<and> ctl_up st \<and> bev_enabled c \<and> \<not> is_login c else fatal c)"

lemma connect_server_cong:
  assumes "oom s = oom st" "tick s = tick st"
  shows "fst (connect_server e n p s) = fst (connect_server e n p st)"
  using assms by (auto simp: connect_server_def connect_to_def connects_def alloc_def Let_def split: option.splits if_splits)

lemma server_opens_cong: "oom s = oom st \<Longrightarrow> tick s = tick st \<Longrightarrow> server_opens env s = server_opens env st"
  using connect_server_cong [of s st] by (simp add: server_opens_def)

lemma turn_outcome:
  assumes "c_base env" "\<not> fatal c" "\<not> is_login c" "run_control_turn env c st = (c', st')"
  shows "reopened (server_opens env st) c' st'"
proof -
  have "server_opens env (st\<lparr>ctl_up := False, ctl_in := [], ctl_out := []\<rparr>) = server_opens env st" by (rule server_opens_cong) simp_all
  with assms show ?thesis
    by (auto simp: reopened_def server_opens_def run_control_turn_def start_base_connect_def init_server_connection_def
        setup_server_callbacks_def running_def Let_def split: prod.splits if_splits option.splits)
qed

lemma after_reconnect:
  assumes "c_base env" "safe st" "\<not> fatal c"
  shows "\<exists>c1 st1 c' st'. request_reconnect env c st = Some (rx_init, c1, st1) \<and> step env (rx_init, c1, st1) (rx_init, c', st') \<and>
    reopened (server_opens env st) c' st'"
proof -
  let ?c = "(signed_off c)\<lparr>reconnect_requested := True, loop_break := loop_break c \<or> c_base env\<rparr>"
  let ?st = "cleared (reset_session_id st)"
  obtain c' st' where r: "run_control_turn env ?c ?st = (c', st')" by force
  have "server_opens env ?st = server_opens env st"
    by (rule server_opens_cong) (simp_all add: cleared_def bare_def reset_session_id_def Let_def)
  with turn_outcome [OF assms(1) _ _ r] assms(3) have "reopened (server_opens env st) c' st'" by (simp add: signed_off_def)
  with step.restart [OF _ _ _ r] assms request_reconnect_eq [OF assms(2), of env c] show ?thesis by (auto simp: signed_off_def)
qed

text \<open>C3. A lost connection is replaced. When the control connection is reported as gone, in any reachable state of a running
  client, the callback returns, and the client can go on by itself: after the reconnection timer, armed for 2 to 60 seconds
  (at once when there is no memory for it), and the turn of the main loop that follows, it is connecting again with a connection that is
  read and written and without a login, if the server's connection opens at that attempt; it has ended exactly if the opening fails.
  Whether it opens is what the code's connecting function answers in the state behind the timer's allocation.\<close>

theorem lost_connection_recovers:
  assumes "snappy_safe (c_env env)" "reachable env (rx, c, st)" "running c"
  shows "\<exists>rx1 c1 st1 rx' c' st'. connect_event_cb env Bev_gone rx c st = Some (rx1, c1, st1) \<and>
    (\<forall>d. reconnect_timer c1 = Some (Some d) \<longrightarrow> 2 \<le> d \<and> d \<le> 60) \<and> (step env)\<^sup>*\<^sup>* (rx1, c1, st1) (rx', c', st') \<and>
    (if server_opens env (st\<lparr>tick := Suc (tick st)\<rparr>) then running c' \<and> ctl_up st' \<and> bev_enabled c' \<and> \<not> is_login c' else fatal c')"
proof -
  have ok: "c_base env" "steady rx st" using reachable_ok [OF assms(2,1)] by (simp_all add: sys_ok_def)
  obtain m st0 where a: "alloc st = (m, st0)" "st0 = st\<lparr>tick := Suc (tick st)\<rparr>" by (force simp: alloc_def)
  have s0: "safe st0" using ok(2) a(2) steady_safe [of rx st0] by simp
  define c0 where "c0 = c\<lparr>bev_enabled := False, retry_times := retry_times c + 1, reconnect_timer := None\<rparr>"
  have f: "\<not> fatal c0" "running c0" using assms(3) by (simp_all add: c0_def running_def)
  have "\<exists>rx1 c1 st1 rx' c' st'. connect_event_cb env Bev_gone rx c st = Some (rx1, c1, st1) \<and>
    (\<forall>d. reconnect_timer c1 = Some (Some d) \<longrightarrow> 2 \<le> d \<and> d \<le> 60) \<and> (step env)\<^sup>*\<^sup>* (rx1, c1, st1) (rx', c', st') \<and>
    reopened (server_opens env st0) c' st'"
  proof (cases m)
    case True
    let ?c1 = "c0\<lparr>reconnect_timer := Some (Some (reconnect_backoff_seconds (retry_times c + 1)))\<rparr>"
    have e: "connect_event_cb env Bev_gone rx c st = Some (rx, ?c1, st0)"
      using True a(1) ok(1) by (simp add: connect_event_cb_def handle_connection_failure_def c0_def)
    obtain c2 st2 c' st' where r: "request_reconnect env (?c1\<lparr>reconnect_timer := Some None\<rparr>) st0 = Some (rx_init, c2, st2)"
      "step env (rx_init, c2, st2) (rx_init, c', st')" "reopened (server_opens env st0) c' st'"
      using after_reconnect [OF ok(1) s0, of "?c1\<lparr>reconnect_timer := Some None\<rparr>"] f(1) by auto
    have "step env (rx, ?c1, st0) (rx_init, c2, st2)"
      by (rule step.reconnect) (use r(1) f(2) in \<open>simp_all add: reconnect_timer_cb_def running_def\<close>)
    with r(2) have "(step env)\<^sup>*\<^sup>* (rx, ?c1, st0) (rx_init, c', st')" by (meson converse_rtranclp_into_rtranclp rtranclp.rtrancl_refl)
    with e r(3) backoff_bounds show ?thesis by fastforce
  next
    case False
    obtain c2 st2 c' st' where r: "request_reconnect env c0 st0 = Some (rx_init, c2, st2)"
      "step env (rx_init, c2, st2) (rx_init, c', st')" "reopened (server_opens env st0) c' st'"
      using after_reconnect [OF ok(1) s0 f(1)] by auto
    have e: "connect_event_cb env Bev_gone rx c st = Some (rx_init, c2, st2)"
      using False a(1) r(1) by (simp add: connect_event_cb_def handle_connection_failure_def c0_def)
    have "reconnect_timer c2 = None" using request_reconnect_eq [OF s0, of env c0] r(1) by (auto simp: signed_off_def)
    then have "\<forall>d. reconnect_timer c2 = Some (Some d) \<longrightarrow> 2 \<le> d \<and> d \<le> 60" by simp
    with e r_into_rtranclp [of "step env", OF r(2)] r(3) show ?thesis by blast
  qed
  then show ?thesis by (simp add: reopened_def a(2))
qed

lemma demo_opens: "server_opens (demo_cenv [] JNull) (demo_start\<lparr>tick := n\<rparr>)"
  by (simp add: server_opens_def demo_cenv_def demo_env_def demo_start_def cold_mux_def connect_server_def connect_to_def connects_def alloc_def)

theorem lost_connection_recovers_witness:
  "\<exists>rx1 c1 st1 rx' c' st'. connect_event_cb (demo_cenv [] JNull) Bev_gone rx_init demo_ctl demo_start = Some (rx1, c1, st1) \<and>
    (step (demo_cenv [] JNull))\<^sup>*\<^sup>* (rx1, c1, st1) (rx', c', st') \<and> running c' \<and> ctl_up st' \<and> bev_enabled c' \<and> \<not> is_login c'"
proof -
  have "running demo_ctl" by (simp add: running_def demo_ctl_def cold_ctl_def)
  from lost_connection_recovers [OF demo_snappy demo_reachable this] demo_opens show ?thesis by fastforce
qed

end
