(* ===== verification/Session_V2.thy ===== *)
theory Session_V2
  imports Wire_V2 Aead_Stream
begin

text \<open>
  The protocol v2 session of the control connection, \<open>v2_handle_bytes\<close> and what it calls in \<open>control.c\<close>: the hello of
  the server, the plain frames up to the login response, then the AEAD stream whose plaintext is again cut into frames. The
  handlers of messages are arguments that work on a state of type \<open>'w\<close>, as are the libraries. \<open>ctx\<close> is whether
  the bytes belong to a work connection, which stays unencrypted.
\<close>

section \<open>State\<close>

text \<open>The static variables of the session, and the receiving side of a stream.\<close>

record v2g =
  v2_ch_json :: bytes
  v2_got_hello :: bool
  v2_aead_ready :: bool
  v2_aw :: aead_writer
  v2_ar :: aead_reader

record v2st =
  v2_rx :: gbuf
  v2_magic_seen :: bool
  v2_magic_sent :: bool

record 'w v2env =
  e_is_login :: "'w \<Rightarrow> bool"
  e_login_response :: "bytes \<Rightarrow> 'w \<Rightarrow> 'w option"
  e_control_work :: "bytes \<Rightarrow> 'w \<Rightarrow> 'w option"
  e_malloc :: allocator
  e_realloc :: reallocator
  e_dec :: gcm_dec
  e_hmac :: "bytes \<Rightarrow> bytes \<Rightarrow> bytes option"
  e_sha256 :: "bytes \<Rightarrow> bytes"
  e_json :: "bytes \<Rightarrow> json option"
  e_show_num :: "int \<Rightarrow> string"
  e_auth_token :: bytes
  e_nonce :: "bytes option"

definition WIRE_V2_MAGIC :: bytes where
  "WIRE_V2_MAGIC = [0x46, 0x52, 0x50, 0x00, 0x02, 0x0D, 0x0A]"

definition buf_reset :: "gbuf \<Rightarrow> gbuf" where
  "buf_reset b = b\<lparr>gb_len := 0\<rparr>"

definition v2_session_reset :: "v2g \<Rightarrow> v2g" where
  "v2_session_reset g = g\<lparr>v2_ch_json := [], v2_got_hello := False, v2_aead_ready := False,
     v2_aw := aead_writer_free (v2_aw g), v2_ar := aead_reader_free (v2_ar g)\<rparr>"

section \<open>Receiving\<close>

definition v2_init_aead_from_hello :: "'w v2env \<Rightarrow> bytes \<Rightarrow> v2g \<Rightarrow> (int \<times> v2g) option" where
  "v2_init_aead_from_hello e sh g =
     (let (rc, alg) = wire_v2_parse_server_hello_json (e_json e) (e_show_num e) sh in
      if rc \<noteq> 0 then Some (-1, g)
      else let transcript = wire_v2_hash_transcript (e_sha256 e) (v2_ch_json g) sh in do {
        (rc, c2s, s2c) \<leftarrow> derive_v2_control_keys (e_malloc e) (e_hmac e) (e_auth_token e) transcript (map of_char alg);
        if rc \<noteq> 0 then Some (-1, g)
        else let (rc, aw) = aead_writer_init (e_nonce e) c2s; g = g\<lparr>v2_aw := aw\<rparr> in
          if rc \<noteq> 0 then Some (-1, g)
          else let (rc, ar) = aead_reader_init s2c; g = g\<lparr>v2_ar := ar\<rparr> in
            if rc \<noteq> 0 then Some (-1, g) else Some (0, g\<lparr>v2_got_hello := True\<rparr>)
      })"

definition v2_dispatch_v1_buf :: "'w v2env \<Rightarrow> bytes \<Rightarrow> 'w \<Rightarrow> 'w option" where
  "v2_dispatch_v1_buf e v1 w = (if \<not> e_is_login e w then e_login_response e v1 w else e_control_work e v1 w)"

text \<open>What is done with one frame; the flag: the function returns after the frame has been removed.\<close>

definition v2_frame_action :: "'w v2env \<Rightarrow> bool \<Rightarrow> u16 \<Rightarrow> bytes \<Rightarrow> v2g \<Rightarrow> 'w \<Rightarrow> (bool \<times> v2g \<times> 'w) option" where
  "v2_frame_action e ctx type pl g w =
     (if \<not> v2_got_hello g \<and> \<not> ctx then
        (if type \<noteq> WIRE_V2_FRAME_SERVER_HELLO then Some (True, g, w)
         else do { (rc, g) \<leftarrow> v2_init_aead_from_hello e pl g; Some (rc \<noteq> 0, g, w) })
      else if type = WIRE_V2_FRAME_MESSAGE then do {
        (rc, v1) \<leftarrow> wire_v2_payload_to_v1 (e_malloc e) pl;
        if rc = 0 then do { w \<leftarrow> v2_dispatch_v1_buf e v1 w; Some (False, g, w) } else Some (False, g, w)
      }
      else Some (False, g, w))"

text \<open>After the login response what is left in the buffer belongs to the AEAD stream; the plaintext takes its place. The flag: there is
  plaintext to look at.\<close>

definition v2_switch :: "'w v2env \<Rightarrow> v2g \<Rightarrow> gbuf \<Rightarrow> (bool \<times> v2g \<times> gbuf) option" where
  "v2_switch e g b =
     (let g = g\<lparr>v2_aead_ready := True\<rparr> in
      if gb_len b = 0 then Some (False, g, b)
      else do {
        (rc, ar) \<leftarrow> aead_reader_feed (e_dec e) (e_malloc e) (e_realloc e) (v2_ar g) (content b);
        (let g = g\<lparr>v2_ar := ar\<rparr> in
         if rc = 0 \<and> gb_len (r_pt ar) > 0 \<and> e_malloc e (gb_len (r_pt ar)) \<noteq> None then do {
           (rc, b) \<leftarrow> buf_append (e_realloc e) (buf_reset b) (content (r_pt ar));
           Some (True, g\<lparr>v2_ar := ar\<lparr>r_pt := buf_reset (r_pt ar)\<rparr>\<rparr>, b)
         }
         else Some (False, g, buf_reset b))
      })"

lemma init_keeps_ready: "v2_init_aead_from_hello e sh g = Some (rc, g') \<Longrightarrow> v2_aead_ready g' = v2_aead_ready g"
  by (auto simp: v2_init_aead_from_hello_def Let_def split: if_splits prod.splits Option.bind_splits)

lemma action_keeps_ready: "v2_frame_action e ctx type pl g w = Some (stop, g', w') \<Longrightarrow> v2_aead_ready g' = v2_aead_ready g"
  by (auto simp: v2_frame_action_def split: if_splits prod.splits Option.bind_splits dest: init_keeps_ready)

lemma switch_ready: "v2_switch e g b = Some (again, g', b') \<Longrightarrow> v2_aead_ready g'"
  by (auto simp: v2_switch_def Let_def split: if_splits prod.splits Option.bind_splits)

lemma drop_shrinks:
  assumes "buf_drop (of_nat (nat n)) b = Some b'" "wire_v2_parse_frame (content b) = (n, Some tp)"
  shows "unat (gb_len b') < unat (gb_len b)"
proof -
  obtain t p where tp: "tp = (t, p)" by force
  have n: "n = int (8 + length p)" "length p \<le> 64 * 1024" using parse_frame_SomeD [OF assms(2) [unfolded tp]] by auto
  then have "unat (of_nat (nat n) :: u32) = 8 + length p" by (intro unat_of_nat_u32 [THEN trans]) auto
  then show ?thesis using buf_drop_gb_len [OF assms(1)] by (simp add: unat_sub_no_wrap le_u32_iff)
qed

function v2_consume_plain_frames :: "'w v2env \<Rightarrow> bool \<Rightarrow> v2g \<Rightarrow> v2st \<Rightarrow> 'w \<Rightarrow> (v2g \<times> v2st \<times> 'w) option" where
  "v2_consume_plain_frames e ctx g st w =
     (if gb_len (v2_rx st) < 8 then Some (g, st, w)
      else case wire_v2_parse_frame (content (v2_rx st)) of
        (n, None) \<Rightarrow> if n = 0 then Some (g, st, w) else Some (g, st\<lparr>v2_rx := buf_reset (v2_rx st)\<rparr>, w)
      | (n, Some (type, pl)) \<Rightarrow>
          (case v2_frame_action e ctx type pl g w of
             None \<Rightarrow> None
           | Some (stop, g1, w1) \<Rightarrow>
               (case buf_drop (of_nat (nat n)) (v2_rx st) of
                  None \<Rightarrow> None
                | Some b \<Rightarrow>
                    if stop then Some (g1, st\<lparr>v2_rx := b\<rparr>, w1)
                    else if \<not> ctx \<and> e_is_login e w1 \<and> v2_got_hello g1 \<and> \<not> v2_aead_ready g1 then
                      (case v2_switch e g1 b of
                         None \<Rightarrow> None
                       | Some (again, g2, b2) \<Rightarrow>
                           if again then v2_consume_plain_frames e ctx g2 (st\<lparr>v2_rx := b2\<rparr>) w1 else Some (g2, st\<lparr>v2_rx := b2\<rparr>, w1))
                    else v2_consume_plain_frames e ctx g1 (st\<lparr>v2_rx := b\<rparr>) w1)))"
  by pat_completeness auto
termination
  by (relation "measures [\<lambda>(e, ctx, g, st, w). if v2_aead_ready g then 0 else 1, \<lambda>(e, ctx, g, st, w). unat (gb_len (v2_rx st))]")
     (auto dest: action_keeps_ready switch_ready drop_shrinks [OF _ sym])

declare v2_consume_plain_frames.simps [simp del]

definition v2_handle_bytes :: "'w v2env \<Rightarrow> bool \<Rightarrow> bytes \<Rightarrow> v2g \<Rightarrow> v2st \<Rightarrow> 'w \<Rightarrow> (v2g \<times> v2st \<times> 'w) option" where
  "v2_handle_bytes e ctx buf g st w =
     (let magic = (\<not> v2_magic_seen st \<and> length buf \<ge> 7 \<and> take 7 buf = WIRE_V2_MAGIC);
          p = (if magic then drop 7 buf else buf);
          st = (if magic then st\<lparr>v2_magic_seen := True\<rparr> else st) in
      if v2_aead_ready g \<and> \<not> ctx then do {
        (rc, ar) \<leftarrow> aead_reader_feed (e_dec e) (e_malloc e) (e_realloc e) (v2_ar g) p;
        (let g = g\<lparr>v2_ar := ar\<rparr> in
         if rc \<noteq> 0 then Some (g, st, w)
         else if gb_len (r_pt ar) \<noteq> 0 then do {
           (rc, b) \<leftarrow> buf_append (e_realloc e) (v2_rx st) (content (r_pt ar));
           if rc \<noteq> 0 then Some (g, st\<lparr>v2_rx := b\<rparr>, w)
           else v2_consume_plain_frames e ctx (g\<lparr>v2_ar := ar\<lparr>r_pt := buf_reset (r_pt ar)\<rparr>\<rparr>) (st\<lparr>v2_rx := b\<rparr>) w
         }
         else Some (g, st, w))
      }
      else do {
        (rc, b) \<leftarrow> buf_append (e_realloc e) (v2_rx st) p;
        if rc \<noteq> 0 then Some (g, st\<lparr>v2_rx := b\<rparr>, w) else v2_consume_plain_frames e ctx g (st\<lparr>v2_rx := b\<rparr>) w
      })"

text \<open>The pieces in the order they arrive.\<close>

fun v2_receive :: "'w v2env \<Rightarrow> bool \<Rightarrow> bytes list \<Rightarrow> v2g \<Rightarrow> v2st \<Rightarrow> 'w \<Rightarrow> (v2g \<times> v2st \<times> 'w) option" where
  "v2_receive e ctx [] g st w = Some (g, st, w)"
| "v2_receive e ctx (c # cs) g st w = do { (g, st, w) \<leftarrow> v2_handle_bytes e ctx c g st w; v2_receive e ctx cs g st w }"


section \<open>Sending\<close>

text \<open>The first bytes of the session: the magic bytes, the hello and the login message; \<open>login\<close> is the login message, if it
  could be made. What is returned is what is handed to \<open>v2_write_bytes\<close>.\<close>

definition v2_send_login_handshake ::
  "allocator \<Rightarrow> int \<times> bytes \<Rightarrow> bytes option \<Rightarrow> v2g \<Rightarrow> (bytes option \<times> v2g) option" where
  "v2_send_login_handshake malloc hello login g =
     (let (rc, hello_json) = hello in
      if rc \<noteq> 0 then Some (None, g)
      else do {
        (rc, hello_frame) \<leftarrow> wire_v2_encode_frame malloc WIRE_V2_FRAME_CLIENT_HELLO (Some hello_json) (of_nat (length hello_json));
        if rc \<noteq> 0 then Some (None, g)
        else let g = g\<lparr>v2_ch_json := hello_json\<rparr> in
          case login of
            None \<Rightarrow> Some (None, g)
          | Some msg \<Rightarrow> do {
              (rc, login_frame) \<leftarrow> wire_v2_encode_message malloc TypeLogin msg;
              if rc \<noteq> 0 then Some (None, g)
              else case malloc (of_nat (7 + length hello_frame + length login_frame)) of
                None \<Rightarrow> Some (None, g)
              | Some blob \<Rightarrow> do {
                  blob \<leftarrow> blit 0 WIRE_V2_MAGIC blob;
                  blob \<leftarrow> blit 7 hello_frame blob;
                  blob \<leftarrow> blit (7 + length hello_frame) login_frame blob;
                  Some (Some blob, g)
                }
            }
      })"

text \<open>A message of an established session: framed, then sealed.\<close>

definition v2_seal_message :: "gcm_enc \<Rightarrow> allocator \<Rightarrow> msg_type \<Rightarrow> bytes \<Rightarrow> v2g \<Rightarrow> (bytes option \<times> v2g) option" where
  "v2_seal_message enc malloc t msg g = do {
     (rc, frame) \<leftarrow> wire_v2_encode_message malloc t msg;
     if rc \<noteq> 0 \<or> \<not> v2_got_hello g then Some (None, g)
     else do {
       (rc, out, aw) \<leftarrow> aead_writer_seal enc malloc (v2_aw g) frame;
       Some (if rc \<noteq> 0 then None else Some out, g\<lparr>v2_aw := aw\<rparr>)
     }
   }"

section \<open>One frame after the other\<close>

lemma parse_split:
  assumes "content b @ u = v2_frame t p @ rest" "length p \<le> 64 * 1024"
  obtains (waits) "length (content b) < 8 + length p" "wire_v2_parse_frame (content b) = (0, None)"
  | (frame) r where "content b = v2_frame t p @ r" "r @ u = rest" "wire_v2_parse_frame (content b) = (int (8 + length p), Some (t, p))"
proof (cases "length (content b) < 8 + length p")
  case True
  then have "content b = take (length (content b)) (v2_frame t p)"
    using arg_cong [OF assms(1), of "take (length (content b))"] by simp
  then have "wire_v2_parse_frame (content b) = (0, None)" using parse_frame_prefix [OF assms(2) True, of t] by simp
  with True show ?thesis by (rule waits)
next
  case False
  have "take (8 + length p) (content b) = v2_frame t p"
    using arg_cong [OF assms(1), of "take (8 + length p)"] False by simp
  then have c: "content b = v2_frame t p @ drop (8 + length p) (content b)" by (metis append_take_drop_id)
  then have "drop (8 + length p) (content b) @ u = rest" using assms(1) by (metis append.assoc same_append_eq)
  moreover have "wire_v2_parse_frame (content b) = (int (8 + length p), Some (t, p))" using parse_v2_frame [OF assms(2)] c by metis
  ultimately show ?thesis using c frame by blast
qed

lemma consume_waits:
  assumes "wire_v2_parse_frame (content (v2_rx st)) = (0, None)"
  shows "v2_consume_plain_frames e ctx g st w = Some (g, st, w)"
  using assms by (subst v2_consume_plain_frames.simps) simp

lemma consume_frame:
  assumes "gb_ok (v2_rx st)" "content (v2_rx st) = v2_frame t p @ r"
    "wire_v2_parse_frame (content (v2_rx st)) = (int (8 + length p), Some (t, p))" "length p \<le> 64 * 1024"
    "v2_frame_action e ctx t p g w = Some (False, g1, w1)"
  obtains b where "gb_ok b" "content b = r"
    "\<not> (\<not> ctx \<and> e_is_login e w1 \<and> v2_got_hello g1 \<and> \<not> v2_aead_ready g1) \<Longrightarrow>
       v2_consume_plain_frames e ctx g st w = v2_consume_plain_frames e ctx g1 (st\<lparr>v2_rx := b\<rparr>) w1"
    "\<not> ctx \<and> e_is_login e w1 \<and> v2_got_hello g1 \<and> \<not> v2_aead_ready g1 \<Longrightarrow>
       v2_consume_plain_frames e ctx g st w = (case v2_switch e g1 b of None \<Rightarrow> None | Some (again, g2, b2) \<Rightarrow>
         if again then v2_consume_plain_frames e ctx g2 (st\<lparr>v2_rx := b2\<rparr>) w1 else Some (g2, st\<lparr>v2_rx := b2\<rparr>, w1))"
proof -
  have n: "unat (of_nat (8 + length p) :: u32) = 8 + length p" using assms(4) by (intro unat_of_nat_u32) simp
  have "unat (of_nat (8 + length p) :: u32) \<le> length (content (v2_rx st))" unfolding n using assms(2) by simp
  then obtain b where b: "buf_drop (of_nat (8 + length p)) (v2_rx st) = Some b" "gb_ok b"
    "content b = drop (unat (of_nat (8 + length p) :: u32)) (content (v2_rx st))"
    using buf_drop_correct [OF assms(1)] by blast
  have c: "content b = r" using b(3) assms(2) by (simp only: n) simp
  have "unat (gb_len (v2_rx st)) = length (content (v2_rx st))" using length_content [OF assms(1)] by simp
  then have l: "\<not> gb_len (v2_rx st) < 8" using assms(2) by (simp add: less_u32_iff)
  have d: "nat (int (8 + length p)) = 8 + length p" by simp
  show thesis
  proof (rule that [OF b(2) c])
    show "v2_consume_plain_frames e ctx g st w = v2_consume_plain_frames e ctx g1 (st\<lparr>v2_rx := b\<rparr>) w1"
      if "\<not> (\<not> ctx \<and> e_is_login e w1 \<and> v2_got_hello g1 \<and> \<not> v2_aead_ready g1)"
      using that by (subst v2_consume_plain_frames.simps) (simp only: l assms(3,5) d b(1) if_False option.case prod.case)
    show "v2_consume_plain_frames e ctx g st w = (case v2_switch e g1 b of None \<Rightarrow> None | Some (again, g2, b2) \<Rightarrow>
         if again then v2_consume_plain_frames e ctx g2 (st\<lparr>v2_rx := b2\<rparr>) w1 else Some (g2, st\<lparr>v2_rx := b2\<rparr>, w1))"
      if "\<not> ctx \<and> e_is_login e w1 \<and> v2_got_hello g1 \<and> \<not> v2_aead_ready g1"
      using that assms(5) by (subst v2_consume_plain_frames.simps) (simp only: l assms(3) d b(1) if_False option.case prod.case simp_thms if_True)
  qed
qed


section \<open>Messages in order\<close>

text \<open>A message is its type and its JSON text; how it is framed, and how the handler is called with it.\<close>

type_synonym message = "msg_type \<times> bytes"

definition message_frame :: "message \<Rightarrow> bytes" where
  "message_frame m = v2_frame WIRE_V2_FRAME_MESSAGE (be16 (wire_v2_msg_type_to_id (fst m)) @ snd m)"

definition message_ok :: "message \<Rightarrow> bool" where
  "message_ok m \<longleftrightarrow> fst m \<noteq> TypeNatHoleClientDetectOK \<and> length (snd m) \<le> 65534"

fun deliver :: "'w v2env \<Rightarrow> message list \<Rightarrow> 'w \<Rightarrow> 'w option" where
  "deliver e [] w = Some w"
| "deliver e (m # ms) w = do { w \<leftarrow> e_control_work e (v1_message (fst m) (snd m)) w; deliver e ms w }"

text \<open>What the session relies on: the cipher, memory, and that the handler of control messages does not log out.\<close>

definition env_ok :: "gcm_enc \<Rightarrow> 'w v2env \<Rightarrow> bool" where
  "env_ok enc e \<longleftrightarrow> gcm_spec enc (e_dec e) \<and> malloc_total (e_malloc e) \<and> realloc_total (e_realloc e) \<and>
     (\<forall>v w w'. e_is_login e w \<longrightarrow> e_control_work e v w = Some w' \<longrightarrow> e_is_login e w')"

lemma env_okD:
  assumes "env_ok enc e"
  shows "gcm_spec enc (e_dec e)" "malloc_total (e_malloc e)" "realloc_total (e_realloc e)"
    "malloc_spec (e_malloc e)" "e_malloc e n \<noteq> None"
    "e_is_login e w \<Longrightarrow> e_control_work e v w = Some w' \<Longrightarrow> e_is_login e w'"
  using assms by (auto simp: env_ok_def malloc_total_def)

lemma message_action:
  assumes "env_ok enc e" "message_ok m" "v2_got_hello g"
  shows "v2_frame_action e False WIRE_V2_FRAME_MESSAGE (be16 (wire_v2_msg_type_to_id (fst m)) @ snd m) g w =
    map_option (\<lambda>w. (False, g, w)) (v2_dispatch_v1_buf e (v1_message (fst m) (snd m)) w)"
proof -
  have "wire_v2_payload_to_v1 (e_malloc e) (be16 (wire_v2_msg_type_to_id (fst m)) @ snd m) = Some (0, v1_message (fst m) (snd m))"
    by (rule payload_to_v1_spec) (use assms env_okD [OF assms(1)] in \<open>auto simp: message_ok_def\<close>)
  then show ?thesis using assms(3) by (cases "v2_dispatch_v1_buf e (v1_message (fst m) (snd m)) w") (simp_all add: v2_frame_action_def)
qed

text \<open>The plaintext buffer holds whole frames and a piece of the next: the whole ones are handled.\<close>

lemma consume_messages:
  assumes "env_ok enc e" "v2_got_hello g" "v2_aead_ready g"
  shows "\<forall>m \<in> set ms. message_ok m \<Longrightarrow> gb_ok (v2_rx st) \<Longrightarrow> content (v2_rx st) @ u = concat (map message_frame ms) \<Longrightarrow>
    e_is_login e w \<Longrightarrow> deliver e ms w = Some w2 \<Longrightarrow>
    \<exists>ms' w' b. v2_consume_plain_frames e False g st w = Some (g, st\<lparr>v2_rx := b\<rparr>, w') \<and> gb_ok b \<and>
      content b @ u = concat (map message_frame ms') \<and> e_is_login e w' \<and> deliver e ms' w' = Some w2 \<and>
      set ms' \<subseteq> set ms \<and> (u = [] \<longrightarrow> ms' = []) \<and> length (content b) \<le> length (content (v2_rx st))"
proof (induction ms arbitrary: st w)
  case Nil
  then have "wire_v2_parse_frame (content (v2_rx st)) = (0, None)" by (simp add: wire_v2_parse_frame_def)
  with Nil show ?case by (intro exI [of _ "[]"] exI [of _ w] exI [of _ "v2_rx st"]) (simp add: consume_waits)
next
  case (Cons m ms)
  let ?p = "be16 (wire_v2_msg_type_to_id (fst m)) @ snd m"
  have ok: "message_ok m" "length ?p \<le> 64 * 1024" using Cons.prems(1) by (auto simp: message_ok_def)
  have split: "content (v2_rx st) @ u = v2_frame WIRE_V2_FRAME_MESSAGE ?p @ concat (map message_frame ms)"
    using Cons.prems(3) message_frame_def [of m] by simp
  show ?case
  proof (cases rule: parse_split [OF split ok(2)])
    case 1
    then have "u \<noteq> []" using split by auto
    with 1 Cons.prems show ?thesis
      by (intro exI [of _ "m # ms"] exI [of _ w] exI [of _ "v2_rx st"]) (simp add: consume_waits)
  next
    case (2 r)
    obtain w1 where w1: "e_control_work e (v1_message (fst m) (snd m)) w = Some w1" "deliver e ms w1 = Some w2"
      using Cons.prems(5) by (auto split: Option.bind_splits)
    have l1: "e_is_login e w1" using env_okD(6) [OF assms(1) Cons.prems(4) w1(1)] .
    have act: "v2_frame_action e False WIRE_V2_FRAME_MESSAGE ?p g w = Some (False, g, w1)"
      using message_action [OF assms(1) ok(1) assms(2)] Cons.prems(4) w1(1) by (simp add: v2_dispatch_v1_buf_def)
    obtain b where b: "gb_ok b" "content b = r" "v2_consume_plain_frames e False g st w = v2_consume_plain_frames e False g (st\<lparr>v2_rx := b\<rparr>) w1"
      by (rule consume_frame [OF Cons.prems(2) 2(1,3) ok(2) act]) (use assms(3) in simp)
    from Cons.IH [of "st\<lparr>v2_rx := b\<rparr>" w1] Cons.prems(1) b 2(1,2) l1 w1(2) show ?thesis by fastforce
  qed
qed


section \<open>The encrypted phase\<close>

lemma buf_reset_ok: "gb_ok b \<Longrightarrow> gb_ok (buf_reset b)" "content (buf_reset b) = []"
  by (auto simp: buf_reset_def gb_ok_def content_def)

lemma expects_reset: "reader_expects enc ps u r \<Longrightarrow> reader_expects enc ps u (r\<lparr>r_pt := buf_reset (r_pt r)\<rparr>)"
  by (auto simp: reader_expects_def reader_ok_def buf_reset_ok split: if_splits)

lemma message_frame_nonempty [simp]: "message_frame m \<noteq> []"
  by (simp add: message_frame_def flip: length_0_conv)

lemma no_frames: "concat (map message_frame ms) = [] \<longleftrightarrow> ms = []"
  by (cases ms) simp_all

text \<open>The session is encrypted; what is still to come, \<open>u\<close>, and what the reader and the buffer hold are the messages that
  remain, and these take the state to \<open>w2\<close>.\<close>

definition v2_streaming :: "gcm_enc \<Rightarrow> 'w v2env \<Rightarrow> 'w \<Rightarrow> bytes \<Rightarrow> v2g \<Rightarrow> v2st \<Rightarrow> 'w \<Rightarrow> bool" where
  "v2_streaming enc e w2 u g st w \<longleftrightarrow> v2_got_hello g \<and> v2_aead_ready g \<and> e_is_login e w \<and> gb_ok (v2_rx st) \<and> content (r_pt (v2_ar g)) = [] \<and>
     (\<exists>ps ms. reader_expects enc ps u (v2_ar g) \<and> content (v2_rx st) @ concat ps = concat (map message_frame ms) \<and>
        length (content (v2_rx st) @ concat ps) \<le> 2 ^ 31 \<and> (\<forall>m \<in> set ms. message_ok m) \<and> deliver e ms w = Some w2 \<and>
        (concat ps = [] \<longrightarrow> ms = []) \<and> (u = [] \<longrightarrow> ps = []))"

lemma streaming_end: "v2_streaming enc e w2 [] g st w \<Longrightarrow> w = w2 \<and> content (v2_rx st) = []"
  by (auto simp: v2_streaming_def)

text \<open>Plaintext has been appended to the buffer: the frames in it are handled.\<close>

lemma consume_streams:
  assumes "env_ok enc e" "v2_got_hello g" "v2_aead_ready g" "e_is_login e w" "gb_ok (v2_rx st)" "content (r_pt (v2_ar g)) = []"
    "reader_expects enc ps u (v2_ar g)" "content (v2_rx st) @ concat ps = concat (map message_frame ms)"
    "length (content (v2_rx st) @ concat ps) \<le> 2 ^ 31" "\<forall>m \<in> set ms. message_ok m" "deliver e ms w = Some w2" "u = [] \<longrightarrow> ps = []"
  shows "\<exists>st' w'. v2_consume_plain_frames e False g st w = Some (g, st', w') \<and> v2_streaming enc e w2 u g st' w' \<and> v2_magic_seen st' = v2_magic_seen st"
proof -
  obtain ms' w' b where c: "v2_consume_plain_frames e False g st w = Some (g, st\<lparr>v2_rx := b\<rparr>, w')" "gb_ok b"
      "content b @ concat ps = concat (map message_frame ms')" "e_is_login e w'" "deliver e ms' w' = Some w2"
      "set ms' \<subseteq> set ms" "concat ps = [] \<longrightarrow> ms' = []" "length (content b) \<le> length (content (v2_rx st))"
    using consume_messages [OF assms(1-3,10,5,8,4,11)] by blast
  have "v2_streaming enc e w2 u g (st\<lparr>v2_rx := b\<rparr>) w'"
    unfolding v2_streaming_def using c(2-) assms(2,3,6,7,9,10,12) by (auto intro!: exI [of _ ps] exI [of _ ms'])
  with c(1) show ?thesis by auto
qed


lemma feed_streams:
  assumes "env_ok enc e" "reader_expects enc ps (chunk @ u) r" "content (r_pt r) = []"
  obtains r' ps1 ps2 where "aead_reader_feed (e_dec e) (e_malloc e) (e_realloc e) r chunk = Some (0, r')" "ps = ps1 @ ps2"
    "reader_expects enc ps2 u r'" "content (r_pt r') = concat ps1" "gb_len (r_pt r') = 0 \<longleftrightarrow> concat ps1 = []" "u = [] \<longrightarrow> ps2 = []"
proof -
  obtain r' where f: "aead_reader_feed (e_dec e) (e_malloc e) (e_realloc e) r chunk = Some (0, r')" "reader_progress enc ps u r r'"
    using feed_expects [OF env_okD(1-3) [OF assms(1)] assms(2)] by blast
  then obtain ps1 ps2 where p: "ps = ps1 @ ps2" "reader_expects enc ps2 u r'" "content (r_pt r') = concat ps1" "u = [] \<longrightarrow> ps2 = []"
    using assms(3) by (auto simp: reader_progress_def)
  have "gb_ok (r_pt r')" using p(2) by (simp add: reader_expects_def reader_ok_def)
  then have "gb_len (r_pt r') = 0 \<longleftrightarrow> length (content (r_pt r')) = 0" by (simp add: length_content unat_eq_zero)
  then have "gb_len (r_pt r') = 0 \<longleftrightarrow> concat ps1 = []" unfolding p(3) by simp
  with f(1) p show thesis using that by blast
qed

lemma handle_streams:
  assumes "env_ok enc e" "v2_streaming enc e w2 (chunk @ u) g st w" "take 7 chunk \<noteq> WIRE_V2_MAGIC"
  shows "\<exists>g' st' w'. v2_handle_bytes e False chunk g st w = Some (g', st', w') \<and> v2_streaming enc e w2 u g' st' w'"
proof -
  obtain ps ms where s: "v2_got_hello g" "v2_aead_ready g" "e_is_login e w" "gb_ok (v2_rx st)" "content (r_pt (v2_ar g)) = []"
    "reader_expects enc ps (chunk @ u) (v2_ar g)" "content (v2_rx st) @ concat ps = concat (map message_frame ms)"
    "length (content (v2_rx st) @ concat ps) \<le> 2 ^ 31" "\<forall>m \<in> set ms. message_ok m" "deliver e ms w = Some w2"
    "concat ps = [] \<longrightarrow> ms = []"
    using assms(2) unfolding v2_streaming_def by blast
  obtain ar ps1 ps2 where f: "aead_reader_feed (e_dec e) (e_malloc e) (e_realloc e) (v2_ar g) chunk = Some (0, ar)" "ps = ps1 @ ps2"
    "reader_expects enc ps2 u ar" "content (r_pt ar) = concat ps1" "gb_len (r_pt ar) = 0 \<longleftrightarrow> concat ps1 = []" "u = [] \<longrightarrow> ps2 = []"
    using feed_streams [OF assms(1) s(6,5)] by metis
  show ?thesis
  proof (cases "concat ps1 = []")
    case True
    then have "v2_handle_bytes e False chunk g st w = Some (g\<lparr>v2_ar := ar\<rparr>, st, w)"
      using s(2) f(1,5) assms(3) by (simp add: v2_handle_bytes_def Let_def)
    moreover have "v2_streaming enc e w2 u (g\<lparr>v2_ar := ar\<rparr>) st w"
      unfolding v2_streaming_def using s f True by (intro conjI exI [of _ ps2] exI [of _ ms]) simp_all
    ultimately show ?thesis by blast
  next
    case False
    obtain b where b: "buf_append (e_realloc e) (v2_rx st) (concat ps1) = Some (0, b)" "gb_ok b" "content b = content (v2_rx st) @ concat ps1"
      by (rule buf_append_total [OF env_okD(3) [OF assms(1)] s(4), of "concat ps1"]) (use s(8) f(2) in simp_all)
    let ?g = "g\<lparr>v2_ar := ar\<lparr>r_pt := buf_reset (r_pt ar)\<rparr>\<rparr>"
    have "v2_handle_bytes e False chunk g st w = v2_consume_plain_frames e False ?g (st\<lparr>v2_rx := b\<rparr>) w"
      using s(2) f(1,4,5) assms(3) False b(1) by (simp add: v2_handle_bytes_def Let_def)
    moreover have "\<exists>st' w'. v2_consume_plain_frames e False ?g (st\<lparr>v2_rx := b\<rparr>) w = Some (?g, st', w') \<and> v2_streaming enc e w2 u ?g st' w' \<and>
        v2_magic_seen st' = v2_magic_seen (st\<lparr>v2_rx := b\<rparr>)"
      by (rule consume_streams [OF assms(1), where ps = ps2 and ms = ms])
         (use s f b expects_reset [OF f(3)] in \<open>simp_all add: buf_reset_ok\<close>)
    ultimately show ?thesis by auto
  qed
qed

section \<open>From the first byte\<close>

lemma switch_streams:
  assumes "env_ok enc e" "v2_got_hello g" "v2_ar g = snd (aead_reader_init key)" "e_is_login e w" "gb_ok b"
    "content b @ u = n0 @ s" "length n0 = 12" "sealed enc key n0 n0 ps s" "length (n0 @ s) \<le> 2 ^ 31"
    "concat ps = concat (map message_frame ms)" "\<forall>m \<in> set ms. message_ok m" "deliver e ms w = Some w2"
  shows "\<exists>g' st' w'. (case v2_switch e g b of None \<Rightarrow> None | Some (again, g2, b2) \<Rightarrow>
         if again then v2_consume_plain_frames e False g2 (st\<lparr>v2_rx := b2\<rparr>) w else Some (g2, st\<lparr>v2_rx := b2\<rparr>, w)) = Some (g', st', w') \<and>
      v2_streaming enc e w2 u g' st' w'"
proof -
  let ?g = "g\<lparr>v2_aead_ready := True\<rparr>"
  have pt: "content (r_pt (v2_ar g)) = []" using assms(3) by (simp add: aead_reader_init_def)
  have len: "length (concat ps) \<le> 2 ^ 31" using sealed_length [OF env_okD(1) [OF assms(1)] assms(8)] assms(9) by simp
  have ex: "reader_expects enc ps (content b @ u) (v2_ar g)"
    using assms(3,6-9) len by (auto simp: reader_expects_def reader_ok_def aead_reader_init_def)
  show ?thesis
  proof (cases "content b = []")
    case True
    then have "gb_len b = 0" using length_content [OF assms(5)] by (simp add: unat_eq_zero)
    then have "v2_switch e g b = Some (False, ?g, b)" by (simp add: v2_switch_def)
    moreover have "u \<noteq> []" using True assms(6,7) by auto
    then have "v2_streaming enc e w2 u ?g (st\<lparr>v2_rx := b\<rparr>) w"
      unfolding v2_streaming_def using assms(2,4,5,10-12) True pt ex len no_frames [of ms] by (intro conjI exI [of _ ps] exI [of _ ms]) simp_all
    ultimately show ?thesis by simp
  next
    case False
    then have l: "gb_len b \<noteq> 0" using length_content [OF assms(5)] by auto
    obtain ar ps1 ps2 where f: "aead_reader_feed (e_dec e) (e_malloc e) (e_realloc e) (v2_ar g) (content b) = Some (0, ar)" "ps = ps1 @ ps2"
      "reader_expects enc ps2 u ar" "content (r_pt ar) = concat ps1" "gb_len (r_pt ar) = 0 \<longleftrightarrow> concat ps1 = []" "u = [] \<longrightarrow> ps2 = []"
      using feed_streams [OF assms(1) ex pt] by metis
    show ?thesis
    proof (cases "concat ps1 = []")
      case True
      then have "v2_switch e g b = Some (False, ?g\<lparr>v2_ar := ar\<rparr>, buf_reset b)" using l f(1,5) by (simp add: v2_switch_def Let_def)
      moreover have "v2_streaming enc e w2 u (?g\<lparr>v2_ar := ar\<rparr>) (st\<lparr>v2_rx := buf_reset b\<rparr>) w"
        unfolding v2_streaming_def using assms(2,4,5,10-12) f True len no_frames [of ms]
        by (intro conjI exI [of _ ps2] exI [of _ ms]) (simp_all add: buf_reset_ok)
      ultimately show ?thesis by simp
    next
      case False
      obtain b2 where b2: "buf_append (e_realloc e) (buf_reset b) (concat ps1) = Some (0, b2)" "gb_ok b2" "content b2 = concat ps1"
        by (rule buf_append_total [OF env_okD(3) [OF assms(1)] buf_reset_ok(1) [OF assms(5)], of "concat ps1"])
           (use len f(2) in \<open>simp_all add: buf_reset_ok\<close>)
      let ?g2 = "?g\<lparr>v2_ar := ar\<lparr>r_pt := buf_reset (r_pt ar)\<rparr>\<rparr>"
      have "gb_len (r_pt ar) > 0" using f(5) False word_neq_0_conv by blast
      then have "v2_switch e g b = Some (True, ?g2, b2)"
        using l f(1,4) b2(1) env_okD(5) [OF assms(1)] by (simp add: v2_switch_def Let_def)
      moreover have "\<exists>st' w'. v2_consume_plain_frames e False ?g2 (st\<lparr>v2_rx := b2\<rparr>) w = Some (?g2, st', w') \<and> v2_streaming enc e w2 u ?g2 st' w' \<and>
          v2_magic_seen st' = v2_magic_seen (st\<lparr>v2_rx := b2\<rparr>)"
        by (rule consume_streams [OF assms(1), where ps = ps2 and ms = ms])
           (use assms(2,4,10-12) f b2 len expects_reset [OF f(3)] in \<open>simp_all add: buf_reset_ok\<close>)
      ultimately show ?thesis by auto
    qed
  qed
qed


text \<open>The session as a whole: what the server sends, and what it does to the state.\<close>

record 'w session =
  ss_hello :: bytes
  ss_login :: message
  ss_nonce :: bytes
  ss_sealed :: bytes
  ss_plain :: "bytes list"
  ss_messages :: "message list"
  ss_key :: bytes
  ss_start :: 'w
  ss_logged_in :: 'w
  ss_end :: 'w

definition session_ok :: "gcm_enc \<Rightarrow> 'w v2env \<Rightarrow> v2g \<Rightarrow> 'w session \<Rightarrow> bool" where
  "session_ok enc e g ss \<longleftrightarrow>
     \<not> v2_got_hello g \<and> \<not> v2_aead_ready g \<and> length (ss_hello ss) \<le> 65536 \<and>
     (\<exists>g'. v2_init_aead_from_hello e (ss_hello ss) g = Some (0, g') \<and> v2_ar g' = snd (aead_reader_init (ss_key ss))) \<and>
     message_ok (ss_login ss) \<and> \<not> e_is_login e (ss_start ss) \<and> e_is_login e (ss_logged_in ss) \<and>
     e_login_response e (v1_message (fst (ss_login ss)) (snd (ss_login ss))) (ss_start ss) = Some (ss_logged_in ss) \<and>
     length (ss_nonce ss) = 12 \<and> sealed enc (ss_key ss) (ss_nonce ss) (ss_nonce ss) (ss_plain ss) (ss_sealed ss) \<and>
     concat (ss_plain ss) = concat (map message_frame (ss_messages ss)) \<and> (\<forall>m \<in> set (ss_messages ss). message_ok m) \<and>
     deliver e (ss_messages ss) (ss_logged_in ss) = Some (ss_end ss)"

definition session_bytes :: "'w session \<Rightarrow> bytes" where
  "session_bytes ss = v2_frame WIRE_V2_FRAME_SERVER_HELLO (ss_hello ss) @ message_frame (ss_login ss) @ ss_nonce ss @ ss_sealed ss"

definition v2_phase :: "gcm_enc \<Rightarrow> 'w v2env \<Rightarrow> v2g \<Rightarrow> 'w session \<Rightarrow> bytes \<Rightarrow> v2g \<Rightarrow> v2st \<Rightarrow> 'w \<Rightarrow> bool" where
  "v2_phase enc e g0 ss u g st w \<longleftrightarrow>
     v2_streaming enc e (ss_end ss) u g st w \<or>
     gb_ok (v2_rx st) \<and> w = ss_start ss \<and> \<not> v2_aead_ready g \<and> length (content (v2_rx st)) + length u \<le> 2 ^ 31 \<and> u \<noteq> [] \<and>
     (g = g0 \<and> content (v2_rx st) @ u = session_bytes ss \<or>
      v2_init_aead_from_hello e (ss_hello ss) g0 = Some (0, g) \<and> content (v2_rx st) @ u = message_frame (ss_login ss) @ ss_nonce ss @ ss_sealed ss)"

lemma init_got_hello: "v2_init_aead_from_hello e sh g = Some (0, g') \<Longrightarrow> v2_got_hello g'"
  by (auto simp: v2_init_aead_from_hello_def Let_def split: if_splits prod.splits Option.bind_splits)

lemma consume_login:
  assumes "env_ok enc e" "session_ok enc e g0 ss" "v2_init_aead_from_hello e (ss_hello ss) g0 = Some (0, g)" "\<not> v2_aead_ready g"
    "gb_ok (v2_rx st)" "content (v2_rx st) @ u = message_frame (ss_login ss) @ ss_nonce ss @ ss_sealed ss" "length (content (v2_rx st)) + length u \<le> 2 ^ 31"
  shows "\<exists>g' st' w'. v2_consume_plain_frames e False g st (ss_start ss) = Some (g', st', w') \<and> v2_phase enc e g0 ss u g' st' w'"
proof -
  let ?m = "ss_login ss"
  let ?p = "be16 (wire_v2_msg_type_to_id (fst ?m)) @ snd ?m"
  have ok: "message_ok ?m" "length ?p \<le> 64 * 1024" using assms(2) by (auto simp: session_ok_def message_ok_def)
  have split: "content (v2_rx st) @ u = v2_frame WIRE_V2_FRAME_MESSAGE ?p @ ss_nonce ss @ ss_sealed ss"
    using assms(6) message_frame_def [of ?m] by simp
  show ?thesis
  proof (cases rule: parse_split [OF split ok(2)])
    case 1
    then have "u \<noteq> []" using split by auto
    then show ?thesis using consume_waits [OF 1(2), of e False g "ss_start ss"] assms(3-7) by (auto simp: v2_phase_def)
  next
    case (2 r)
    have h: "v2_got_hello g" using init_got_hello [OF assms(3)] .
    have act: "v2_frame_action e False WIRE_V2_FRAME_MESSAGE ?p g (ss_start ss) = Some (False, g, ss_logged_in ss)"
      using message_action [OF assms(1) ok(1) h] assms(2) by (simp add: v2_dispatch_v1_buf_def session_ok_def)
    obtain b where b: "gb_ok b" "content b = r" "v2_consume_plain_frames e False g st (ss_start ss) = (case v2_switch e g b of None \<Rightarrow> None | Some (again, g2, b2) \<Rightarrow>
         if again then v2_consume_plain_frames e False g2 (st\<lparr>v2_rx := b2\<rparr>) (ss_logged_in ss) else Some (g2, st\<lparr>v2_rx := b2\<rparr>, ss_logged_in ss))"
      by (rule consume_frame [OF assms(5) 2(1,3) ok(2) act]) (use assms(2,4) h in \<open>simp add: session_ok_def\<close>)
    have k: "v2_ar g = snd (aead_reader_init (ss_key ss))" using assms(2,3) by (auto simp: session_ok_def)
    have l: "length (ss_nonce ss @ ss_sealed ss) \<le> 2 ^ 31" using arg_cong [OF assms(6), of length] assms(7) by simp
    show ?thesis
      unfolding b(3) v2_phase_def
      using switch_streams [OF assms(1) h k _ b(1), of "ss_logged_in ss" u "ss_nonce ss" "ss_sealed ss" "ss_plain ss" "ss_messages ss" "ss_end ss" st]
        b(2) 2(2) l assms(2) by (fastforce simp: session_ok_def)
  qed
qed

lemma consume_hello:
  assumes "env_ok enc e" "session_ok enc e g0 ss" "gb_ok (v2_rx st)" "content (v2_rx st) @ u = session_bytes ss" "length (content (v2_rx st)) + length u \<le> 2 ^ 31"
  shows "\<exists>g' st' w'. v2_consume_plain_frames e False g0 st (ss_start ss) = Some (g', st', w') \<and> v2_phase enc e g0 ss u g' st' w'"
proof -
  have split: "content (v2_rx st) @ u = v2_frame WIRE_V2_FRAME_SERVER_HELLO (ss_hello ss) @ message_frame (ss_login ss) @ ss_nonce ss @ ss_sealed ss"
    using assms(4) by (simp add: session_bytes_def)
  have len: "length (ss_hello ss) \<le> 64 * 1024" "\<not> v2_aead_ready g0" "\<not> v2_got_hello g0" "\<not> e_is_login e (ss_start ss)"
    using assms(2) by (simp_all add: session_ok_def)
  show ?thesis
  proof (cases rule: parse_split [OF split len(1)])
    case 1
    then have "u \<noteq> []" using split by auto
    then show ?thesis using consume_waits [OF 1(2), of e False g0 "ss_start ss"] assms(3-5) len(2) by (auto simp: v2_phase_def)
  next
    case (2 r)
    obtain g where g: "v2_init_aead_from_hello e (ss_hello ss) g0 = Some (0, g)" using assms(2) by (auto simp: session_ok_def)
    have act: "v2_frame_action e False WIRE_V2_FRAME_SERVER_HELLO (ss_hello ss) g0 (ss_start ss) = Some (False, g, ss_start ss)"
      using len(3) g by (simp add: v2_frame_action_def)
    obtain b where b: "gb_ok b" "content b = r"
      "v2_consume_plain_frames e False g0 st (ss_start ss) = v2_consume_plain_frames e False g (st\<lparr>v2_rx := b\<rparr>) (ss_start ss)"
      by (rule consume_frame [OF assms(3) 2(1,3) len(1) act]) (use len(4) in simp)
    have "length (content (v2_rx (st\<lparr>v2_rx := b\<rparr>))) + length u \<le> 2 ^ 31" using b(2) 2(1) assms(5) by simp
    then show ?thesis unfolding b(3)
      by (intro consume_login [OF assms(1,2) g]) (use b 2(2) init_keeps_ready [OF g] len(2) in simp_all)
  qed
qed

lemma handle_phase:
  assumes "env_ok enc e" "session_ok enc e g0 ss" "v2_phase enc e g0 ss (chunk @ u) g st w" "take 7 chunk \<noteq> WIRE_V2_MAGIC"
  shows "\<exists>g' st' w'. v2_handle_bytes e False chunk g st w = Some (g', st', w') \<and> v2_phase enc e g0 ss u g' st' w'"
proof (cases "v2_streaming enc e (ss_end ss) (chunk @ u) g st w")
  case True
  from handle_streams [OF assms(1) True assms(4)] show ?thesis by (auto simp: v2_phase_def)
next
  case False
  then have p: "gb_ok (v2_rx st)" "w = ss_start ss" "\<not> v2_aead_ready g" "length (content (v2_rx st)) + length (chunk @ u) \<le> 2 ^ 31"
    "g = g0 \<and> content (v2_rx st) @ chunk @ u = session_bytes ss \<or>
      v2_init_aead_from_hello e (ss_hello ss) g0 = Some (0, g) \<and> content (v2_rx st) @ chunk @ u = message_frame (ss_login ss) @ ss_nonce ss @ ss_sealed ss"
    using assms(3) unfolding v2_phase_def by blast+
  obtain b where b: "buf_append (e_realloc e) (v2_rx st) chunk = Some (0, b)" "gb_ok b" "content b = content (v2_rx st) @ chunk"
    by (rule buf_append_total [OF env_okD(3) [OF assms(1)] p(1), of chunk]) (use p(4) in simp_all)
  have h: "v2_handle_bytes e False chunk g st w = v2_consume_plain_frames e False g (st\<lparr>v2_rx := b\<rparr>) w"
    using p(3) b(1) assms(4) by (simp add: v2_handle_bytes_def Let_def)
  have l: "length (content (v2_rx (st\<lparr>v2_rx := b\<rparr>))) + length u \<le> 2 ^ 31" using b(3) p(4) by simp
  from p(5) show ?thesis
  proof
    assume "g = g0 \<and> content (v2_rx st) @ chunk @ u = session_bytes ss"
    with consume_hello [OF assms(1,2), of "st\<lparr>v2_rx := b\<rparr>" u] b(2,3) l p(2) h show ?thesis by simp
  next
    assume "v2_init_aead_from_hello e (ss_hello ss) g0 = Some (0, g) \<and> content (v2_rx st) @ chunk @ u = message_frame (ss_login ss) @ ss_nonce ss @ ss_sealed ss"
    with consume_login [OF assms(1,2), of g "st\<lparr>v2_rx := b\<rparr>" u] b(2,3) l p(2,3) h show ?thesis by simp
  qed
qed

lemma receive_phase:
  assumes "env_ok enc e" "session_ok enc e g0 ss"
  shows "v2_phase enc e g0 ss (concat chunks) g st w \<Longrightarrow> \<forall>c \<in> set chunks. take 7 c \<noteq> WIRE_V2_MAGIC \<Longrightarrow>
    \<exists>g' st' w'. v2_receive e False chunks g st w = Some (g', st', w') \<and> v2_phase enc e g0 ss [] g' st' w'"
proof (induction chunks arbitrary: g st w)
  case (Cons c cs)
  then obtain g' st' w' where "v2_handle_bytes e False c g st w = Some (g', st', w')" "v2_phase enc e g0 ss (concat cs) g' st' w'"
    using handle_phase [OF assms, of c "concat cs" g st w] by auto
  with Cons.IH [of g' st' w'] Cons.prems(2) show ?case by auto
qed simp

section \<open>Properties\<close>

text \<open>C7. The v2 session delivers: in whatever pieces, of which none starts with the seven magic bytes, the bytes of the server arrive, its hello, its plain login
  response and the sealed stream of its messages, the login response is handled first and then every message once and
  in order, also when a piece holds the end of the plain part and the start of the encrypted one; nothing is left over. (Memory is
  available, the session has at most 2 GiB.)\<close>

theorem v2_session_delivers:
  assumes "env_ok enc e" "session_ok enc e g ss" "concat chunks = session_bytes ss" "length (session_bytes ss) \<le> 2 ^ 31"
    "\<forall>c \<in> set chunks. take 7 c \<noteq> WIRE_V2_MAGIC" "gb_ok (v2_rx st)" "content (v2_rx st) = []"
  shows "\<exists>g' st'. v2_receive e False chunks g st (ss_start ss) = Some (g', st', ss_end ss) \<and> content (v2_rx st') = []"
proof -
  have "session_bytes ss \<noteq> []" using assms(2) by (auto simp: session_bytes_def session_ok_def)
  then have "v2_phase enc e g ss (concat chunks) g st (ss_start ss)"
    using assms by (simp add: v2_phase_def session_ok_def)
  then obtain g' st' w' where r: "v2_receive e False chunks g st (ss_start ss) = Some (g', st', w')" "v2_phase enc e g ss [] g' st' w'"
    using receive_phase [OF assms(1,2)] assms(5) by blast
  then have "v2_streaming enc e (ss_end ss) [] g' st' w'" by (simp add: v2_phase_def)
  from streaming_end [OF this] r(1) show ?thesis by blast
qed


definition demo_env :: "(bool \<times> bytes list) v2env" where
  "demo_env = \<lparr>e_is_login = fst, e_login_response = (\<lambda>v w. Some (True, snd w @ [v])), e_control_work = (\<lambda>v w. Some (fst w, snd w @ [v])),
     e_malloc = zero_malloc, e_realloc = zero_realloc, e_dec = plain_dec, e_hmac = (\<lambda>k d. Some [7]), e_sha256 = (\<lambda>d. [1]),
     e_json = (\<lambda>t. Some (JObj [(''selected'', JObj [(''crypto'', JObj [(''algorithm'', JStr WIRE_V2_ALG_AES256GCM)])])])),
     e_show_num = (\<lambda>n. []), e_auth_token = [], e_nonce = Some (replicate 12 0)\<rparr>"

definition demo_g :: v2g where
  "demo_g = \<lparr>v2_ch_json = [], v2_got_hello = False, v2_aead_ready = False, v2_aw = snd (aead_writer_init None []), v2_ar = snd (aead_reader_init [])\<rparr>"

definition demo_pong :: bytes where
  "demo_pong = message_frame (TypePong, [2])"

definition demo_session :: "(bool \<times> bytes list) session" where
  "demo_session = \<lparr>ss_hello = [123, 125], ss_login = (TypeLoginResp, [1]), ss_nonce = replicate 12 0,
     ss_sealed = frame_header demo_pong @ demo_pong @ replicate 16 0, ss_plain = [demo_pong], ss_messages = [(TypePong, [2])], ss_key = [7],
     ss_start = (False, []), ss_logged_in = (True, [v1_message TypeLoginResp [1]]), ss_end = (True, [v1_message TypeLoginResp [1], v1_message TypePong [2]])\<rparr>"

lemma demo_env_ok: "env_ok plain_enc demo_env"
  by (simp add: env_ok_def demo_env_def plain_gcm)

lemma demo_hello: "\<exists>g'. v2_init_aead_from_hello demo_env [123, 125] demo_g = Some (0, g') \<and> v2_ar g' = snd (aead_reader_init [7])"
proof -
  have h: "hkdf_sha256_32 zero_malloc (\<lambda>k d. Some [7]) [] (Some [1]) info = Some (0, [7])" if "length info < 200" for info
  proof -
    have "unat (of_nat (length info) + 1 :: u32) = length info + 1"
      using that unat_of_nat_u32 [of "length info"] by (simp add: unat_add_no_wrap)
    then show ?thesis by (simp add: hkdf_sha256_32_def zero_malloc_def blit_fits)
  qed
  have k: "snprintf_read 128 (v2_key_info (map of_char WIRE_V2_ALG_AES256GCM) d) = Some i \<Longrightarrow> length i < 200" for d i
    by (auto simp: snprintf_read_def split: if_splits)
  have "\<exists>i. snprintf_read 128 (v2_key_info (map of_char WIRE_V2_ALG_AES256GCM) d) = Some i" if "length d \<le> 20" for d
    using that by (simp add: snprintf_read_def v2_key_info_def WIRE_V2_ALG_AES256GCM_def)
  then obtain i1 i2 where i: "snprintf_read 128 (v2_key_info (map of_char WIRE_V2_ALG_AES256GCM) '' client-to-server'') = Some i1"
    "snprintf_read 128 (v2_key_info (map of_char WIRE_V2_ALG_AES256GCM) '' server-to-client'') = Some i2" by fastforce
  have "derive_v2_control_keys zero_malloc (\<lambda>k d. Some [7]) [] [1] (map of_char WIRE_V2_ALG_AES256GCM) = Some (0, [7], [7])"
    using i h [OF k [OF i(1)]] h [OF k [OF i(2)]] by (simp add: derive_v2_control_keys_def)
  then show ?thesis
    by (simp add: v2_init_aead_from_hello_def demo_env_def demo_g_def wire_v2_parse_server_hello_json_def wire_v2_hash_transcript_def
      aead_writer_init_def aead_reader_init_def)
qed

lemma demo_session_ok: "session_ok plain_enc demo_env demo_g demo_session"
proof -
  have "fst (increment_nonce (replicate 12 0))" by code_simp
  then have "sealed plain_enc [7] (replicate 12 0) (replicate 12 0) [demo_pong] (frame_header demo_pong @ demo_pong @ replicate 16 0 @ [])"
    by (intro sealed.intros) (simp_all add: plain_enc_def demo_pong_def message_frame_def)
  then show ?thesis
    using demo_hello
    by (simp add: session_ok_def demo_session_def demo_g_def message_ok_def demo_pong_def) (simp add: demo_env_def)
qed

theorem v2_session_delivers_witness:
  "\<exists>g' st'. v2_receive demo_env False
      [v2_frame WIRE_V2_FRAME_SERVER_HELLO [123, 125], message_frame (TypeLoginResp, [1]) @ replicate 12 0, frame_header demo_pong @ demo_pong @ replicate 16 0]
      demo_g \<lparr>v2_rx = gb_empty, v2_magic_seen = False, v2_magic_sent = True\<rparr> (False, []) =
    Some (g', st', (True, [v1_message TypeLoginResp [1], v1_message TypePong [2]])) \<and> content (v2_rx st') = []"
proof -
  let ?cs = "[v2_frame WIRE_V2_FRAME_SERVER_HELLO [123, 125], message_frame (TypeLoginResp, [1]) @ replicate 12 0, frame_header demo_pong @ demo_pong @ replicate 16 0]"
  have c: "concat ?cs = session_bytes demo_session" by (simp add: session_bytes_def demo_session_def)
  have l: "length (session_bytes demo_session) \<le> 2 ^ 31" by (simp add: session_bytes_def demo_session_def message_frame_def demo_pong_def)
  have m: "\<forall>c \<in> set ?cs. take 7 c \<noteq> WIRE_V2_MAGIC"
    by (simp add: v2_frame_def message_frame_def frame_header_def be16_def be32_def WIRE_V2_MAGIC_def WIRE_V2_FRAME_SERVER_HELLO_def WIRE_V2_FRAME_MESSAGE_def demo_pong_def)
  show ?thesis
    using v2_session_delivers [OF demo_env_ok demo_session_ok c l m, of "\<lparr>v2_rx = gb_empty, v2_magic_seen = False, v2_magic_sent = True\<rparr>"]
    by (simp add: demo_session_def)
qed

end
