(* ===== verification/Intrusive_List.thy ===== *)
theory Intrusive_List
  imports Xfrpc_Prelude
begin

text \<open>
  The intrusive lists of \<open>port/mini_event.c\<close>, on which timers and bufferevents of an event base hang: every object
  has a field \<open>next\<close> and a field \<open>prev_next\<close> that points to the pointer leading to it, the head of the base or the
  \<open>next\<close> of another object, and is NULL while the object is not linked. The objects' other fields are kept
  elsewhere; an address without node is not allocated, and touching it is undefined (\<open>None\<close>).
  \<open>holds L xs\<close> says that the pointers of \<open>L\<close> form the list \<open>xs\<close>; the interface at the end is what the event
  base relies on.
\<close>

section \<open>Nodes\<close>

datatype slot = Head | Next nat

record node =
  nd_next :: "nat option"
  nd_prev :: "slot option"

record dlist =
  dl_head :: "nat option"
  dl_node :: "nat \<rightharpoonup> node"

definition free_node :: node where
  "free_node = \<lparr>nd_next = None, nd_prev = None\<rparr>"

definition upd_node :: "nat \<Rightarrow> (node \<Rightarrow> node) \<Rightarrow> dlist \<Rightarrow> dlist option" where
  "upd_node a f L = do { n \<leftarrow> dl_node L a; Some (L\<lparr>dl_node := (dl_node L)(a \<mapsto> f n)\<rparr>) }"

text \<open>Assignment through a pointer to a pointer.\<close>

definition set_slot :: "slot \<Rightarrow> nat option \<Rightarrow> dlist \<Rightarrow> dlist option" where
  "set_slot s p L = (case s of Head \<Rightarrow> Some (L\<lparr>dl_head := p\<rparr>) | Next b \<Rightarrow> upd_node b (\<lambda>n. n\<lparr>nd_next := p\<rparr>) L)"

text \<open>Allocation with \<open>calloc\<close> and release.\<close>

definition dl_alloc :: "nat \<Rightarrow> dlist \<Rightarrow> dlist" where
  "dl_alloc a L = L\<lparr>dl_node := (dl_node L)(a \<mapsto> free_node)\<rparr>"

definition dl_release :: "nat \<Rightarrow> dlist \<Rightarrow> dlist" where
  "dl_release a L = L\<lparr>dl_node := (dl_node L)(a := None)\<rparr>"

text \<open>Putting an object at the front, and taking an object out wherever it is.\<close>

definition link_front :: "nat \<Rightarrow> dlist \<Rightarrow> dlist option" where
  "link_front a L = do {
     L1 \<leftarrow> upd_node a (\<lambda>n. n\<lparr>nd_next := dl_head L\<rparr>) L;
     L2 \<leftarrow> (case dl_head L of None \<Rightarrow> Some L1 | Some b \<Rightarrow> upd_node b (\<lambda>n. n\<lparr>nd_prev := Some (Next a)\<rparr>) L1);
     upd_node a (\<lambda>n. n\<lparr>nd_prev := Some Head\<rparr>) (L2\<lparr>dl_head := Some a\<rparr>)
   }"

definition unlink :: "nat \<Rightarrow> dlist \<Rightarrow> dlist option" where
  "unlink a L = do {
     n \<leftarrow> dl_node L a;
     (case nd_prev n of
        None \<Rightarrow> Some L
      | Some s \<Rightarrow> do {
          L1 \<leftarrow> set_slot s (nd_next n) L;
          L2 \<leftarrow> (case nd_next n of None \<Rightarrow> Some L1 | Some b \<Rightarrow> upd_node b (\<lambda>m. m\<lparr>nd_prev := Some s\<rparr>) L1);
          upd_node a (\<lambda>m. free_node) L2
        })
   }"

definition is_linked :: "nat \<Rightarrow> dlist \<Rightarrow> bool" where
  "is_linked a L = (case dl_node L a of None \<Rightarrow> False | Some n \<Rightarrow> nd_prev n \<noteq> None)"

text \<open>The objects met when following \<open>next\<close> from a pointer. There is no value for a path that runs into a
  dangling pointer or never ends.\<close>

partial_function (option) chain :: "(nat \<rightharpoonup> node) \<Rightarrow> nat option \<Rightarrow> nat list option" where
  "chain h p = (case p of None \<Rightarrow> Some [] | Some a \<Rightarrow> do { n \<leftarrow> h a; xs \<leftarrow> chain h (nd_next n); Some (a # xs) })"

section \<open>The list behind the pointers\<close>

fun span :: "(nat \<rightharpoonup> node) \<Rightarrow> slot \<Rightarrow> nat option \<Rightarrow> nat list \<Rightarrow> slot \<Rightarrow> nat option \<Rightarrow> bool" where
  "span h s p [] t q = (s = t \<and> p = q)"
| "span h s p (x # xs) t q = (p = Some x \<and> (\<exists>r. h x = Some \<lparr>nd_next = r, nd_prev = Some s\<rparr> \<and> span h (Next x) r xs t q))"

definition holds :: "dlist \<Rightarrow> nat list \<Rightarrow> bool" where
  "holds L xs \<longleftrightarrow> distinct xs \<and> (\<exists>t. span (dl_node L) Head (dl_head L) xs t None) \<and>
     (\<forall>a n. dl_node L a = Some n \<longrightarrow> a \<notin> set xs \<longrightarrow> n = free_node)"

lemma span_outside: "a \<notin> set xs \<Longrightarrow> span (h(a := v)) s p xs t q = span h s p xs t q"
  by (induction xs arbitrary: s p) auto

lemma span_append: "span h s p (xs @ ys) t q \<longleftrightarrow> (\<exists>u r. span h s p xs u r \<and> span h u r ys t q)"
  by (induction xs arbitrary: s p) auto

lemma span_alloc: "span h s p xs t q \<Longrightarrow> x \<in> set xs \<Longrightarrow> \<exists>r u. h x = Some \<lparr>nd_next = r, nd_prev = Some u\<rparr>"
  by (induction xs arbitrary: s p) auto

lemma span_chain: "span h s p xs t None \<Longrightarrow> chain h p = Some xs"
proof (induction xs arbitrary: s p)
  case Nil
  then show ?case by (simp add: chain.simps)
next
  case (Cons x xs)
  then show ?case by (auto simp: chain.simps [of h "Some x"])
qed

lemma holds_empty: "holds \<lparr>dl_head = None, dl_node = Map.empty\<rparr> []"
  by (simp add: holds_def)

lemma holds_unique: "holds L xs \<Longrightarrow> holds L ys \<Longrightarrow> xs = ys"
  unfolding holds_def using span_chain by (metis option.inject)

lemma holds_chain: "holds L xs \<Longrightarrow> chain (dl_node L) (dl_head L) = Some xs"
  by (auto simp: holds_def span_chain)

lemma holds_node:
  assumes "holds L xs" "dl_node L a = Some n"
  shows "nd_prev n \<noteq> None \<longleftrightarrow> a \<in> set xs"
  using assms span_alloc [of "dl_node L" Head "dl_head L" xs _ None a] by (fastforce simp: holds_def free_node_def)

lemma holds_allocated: "holds L xs \<Longrightarrow> set xs \<subseteq> dom (dl_node L)"
  using span_alloc by (fastforce simp: holds_def)

lemma holds_linked: "holds L xs \<Longrightarrow> is_linked a L = (a \<in> set xs)"
  using holds_node [of L xs a] holds_allocated [of L xs] by (auto simp: is_linked_def split: option.split)

lemma alloc_holds: "holds L xs \<Longrightarrow> dl_node L a = None \<Longrightarrow> holds (dl_alloc a L) xs"
  using holds_allocated [of L xs] span_outside by (fastforce simp: holds_def dl_alloc_def)

lemma release_holds: "holds L xs \<Longrightarrow> a \<notin> set xs \<Longrightarrow> holds (dl_release a L) xs"
  using span_outside by (fastforce simp: holds_def dl_release_def)

lemma link_front_holds:
  assumes "holds L xs" "a \<in> dom (dl_node L)" "a \<notin> set xs"
  shows "\<exists>L'. link_front a L = Some L' \<and> holds L' (a # xs) \<and> dom (dl_node L') = dom (dl_node L)"
proof (cases xs)
  case Nil
  have a: "dl_node L a = Some free_node" and h: "dl_head L = None" using assms Nil by (auto simp: holds_def)
  let ?n = "\<lparr>nd_next = None, nd_prev = Some Head\<rparr>"
  have "link_front a L = Some (L\<lparr>dl_head := Some a, dl_node := (dl_node L)(a \<mapsto> ?n)\<rparr>)"
    using a h by (simp add: link_front_def upd_node_def free_node_def)
  then show ?thesis using assms Nil by (auto simp: holds_def)
next
  case (Cons b ys)
  then obtain r t where h: "dl_head L = Some b" and b: "dl_node L b = Some \<lparr>nd_next = r, nd_prev = Some Head\<rparr>"
    and t: "span (dl_node L) (Next b) r ys t None"
    using assms(1) by (auto simp: holds_def)
  have a: "dl_node L a = Some free_node" using assms by (auto simp: holds_def)
  let ?h = "(dl_node L)(b \<mapsto> \<lparr>nd_next = r, nd_prev = Some (Next a)\<rparr>, a \<mapsto> \<lparr>nd_next = Some b, nd_prev = Some Head\<rparr>)"
  have "link_front a L = Some (L\<lparr>dl_head := Some a, dl_node := ?h\<rparr>)"
    using a b h assms(3) Cons by (auto simp: link_front_def upd_node_def free_node_def)
  moreover have "span ?h Head (Some a) (a # b # ys) t None" using t assms Cons by (auto simp: span_outside holds_def)
  moreover have "dom ?h = dom (dl_node L)" using a b by auto
  ultimately show ?thesis using assms Cons by (auto simp: holds_def)
qed

lemma unlinked_unchanged: "holds L xs \<Longrightarrow> a \<in> dom (dl_node L) \<Longrightarrow> a \<notin> set xs \<Longrightarrow> unlink a L = Some L"
  using holds_node [of L xs a] by (auto simp: unlink_def)

lemma unlink_linked:
  assumes "holds L (ys @ a # zs)"
  shows "\<exists>L'. unlink a L = Some L' \<and> holds L' (ys @ zs) \<and> dom (dl_node L') = dom (dl_node L)"
proof -
  let ?h = "dl_node L"
  obtain s q t where l: "span ?h Head (dl_head L) ys s (Some a)" and a: "?h a = Some \<lparr>nd_next = q, nd_prev = Some s\<rparr>"
    and r: "span ?h (Next a) q zs t None" and d: "distinct (ys @ a # zs)"
    and f: "\<forall>x n. ?h x = Some n \<longrightarrow> x \<notin> set (ys @ a # zs) \<longrightarrow> n = free_node"
    using assms by (auto simp: holds_def span_append)
  show ?thesis
  proof (cases ys rule: rev_cases)
    case Nil
    then show ?thesis
    proof (cases zs)
      case (Cons z zs')
      with Nil l a r d f show ?thesis by (auto simp: unlink_def set_slot_def upd_node_def holds_def span_outside insert_absorb)
    qed (use l a r d f in \<open>auto simp: unlink_def set_slot_def upd_node_def holds_def insert_absorb\<close>)
  next
    case (snoc ys' b)
    then show ?thesis
    proof (cases zs)
      case Nil
      with snoc l a r d f show ?thesis
        by (auto simp: unlink_def set_slot_def upd_node_def holds_def span_outside span_append insert_absorb)
    next
      case (Cons z zs')
      with snoc l a r d f show ?thesis
        by (auto simp: unlink_def set_slot_def upd_node_def holds_def span_outside span_append insert_absorb)
    qed
  qed
qed

lemma unlink_holds:
  assumes "holds L xs" "a \<in> dom (dl_node L)"
  shows "\<exists>L'. unlink a L = Some L' \<and> holds L' (remove1 a xs) \<and> dom (dl_node L') = dom (dl_node L)"
proof (cases "a \<in> set xs")
  case True
  then obtain ys zs where xs: "xs = ys @ a # zs" using split_list by force
  then have "remove1 a xs = ys @ zs" using assms(1) by (auto simp: holds_def remove1_append)
  with unlink_linked [of L ys a zs] assms xs show ?thesis by simp
qed (use assms unlinked_unchanged in \<open>auto simp: remove1_idem\<close>)

section \<open>Interface\<close>

text \<open>What an event base relies on.\<close>

locale object_list =
  fixes holds :: "'l \<Rightarrow> nat list \<Rightarrow> bool" and allocated :: "'l \<Rightarrow> nat set" and objects :: "'l \<Rightarrow> nat list option"
    and linked :: "nat \<Rightarrow> 'l \<Rightarrow> bool" and alloc release :: "nat \<Rightarrow> 'l \<Rightarrow> 'l" and insert_front remove :: "nat \<Rightarrow> 'l \<Rightarrow> 'l option"
  assumes objects: "holds L xs \<Longrightarrow> objects L = Some xs"
    and nodup: "holds L xs \<Longrightarrow> distinct xs \<and> set xs \<subseteq> allocated L"
    and linked: "holds L xs \<Longrightarrow> linked a L = (a \<in> set xs)"
    and alloc: "holds L xs \<Longrightarrow> a \<notin> allocated L \<Longrightarrow> holds (alloc a L) xs \<and> allocated (alloc a L) = insert a (allocated L)"
    and release: "holds L xs \<Longrightarrow> a \<notin> set xs \<Longrightarrow> holds (release a L) xs \<and> allocated (release a L) = allocated L - {a}"
    and insert_front: "holds L xs \<Longrightarrow> a \<in> allocated L \<Longrightarrow> a \<notin> set xs \<Longrightarrow>
      \<exists>L'. insert_front a L = Some L' \<and> holds L' (a # xs) \<and> allocated L' = allocated L"
    and remove: "holds L xs \<Longrightarrow> a \<in> allocated L \<Longrightarrow>
      \<exists>L'. remove a L = Some L' \<and> holds L' (remove1 a xs) \<and> allocated L' = allocated L"
begin

text \<open>Creating an object that is linked at once, linking one that may be linked already, and destroying one.\<close>

lemma create: "holds L xs \<Longrightarrow> a \<notin> allocated L \<Longrightarrow>
    \<exists>L'. insert_front a (alloc a L) = Some L' \<and> holds L' (a # xs) \<and> allocated L' = insert a (allocated L)"
  using alloc [of L xs a] nodup [of L xs] insert_front [of "alloc a L" xs a] by auto

lemma ensure: "holds L xs \<Longrightarrow> a \<in> allocated L \<Longrightarrow>
    \<exists>L'. (if linked a L then Some L else insert_front a L) = Some L' \<and> holds L' (if a \<in> set xs then xs else a # xs) \<and>
      allocated L' = allocated L"
  using insert_front linked by auto

lemma destroy:
  assumes "holds L xs" "a \<in> allocated L"
  shows "\<exists>L'. map_option (release a) (remove a L) = Some L' \<and> holds L' (remove1 a xs) \<and> allocated L' = allocated L - {a}"
proof -
  obtain L1 where "remove a L = Some L1" "holds L1 (remove1 a xs)" "allocated L1 = allocated L" using remove assms by blast
  moreover have "a \<notin> set (remove1 a xs)" using nodup [OF assms(1)] by simp
  ultimately show ?thesis using release by simp
qed

end

definition allocated :: "dlist \<Rightarrow> nat set" where
  "allocated L = dom (dl_node L)"

definition objects :: "dlist \<Rightarrow> nat list option" where
  "objects L = chain (dl_node L) (dl_head L)"

interpretation il: object_list holds allocated objects is_linked dl_alloc dl_release link_front unlink
proof (unfold_locales, goal_cases)
  case (1 L xs)
  then show ?case by (simp add: objects_def holds_chain)
next
  case (2 L xs)
  then show ?case using holds_allocated [of L xs] by (simp add: allocated_def holds_def)
next
  case (3 L xs a)
  then show ?case by (rule holds_linked)
next
  case (4 L xs a)
  then show ?case using alloc_holds [of L xs a] by (auto simp: allocated_def dl_alloc_def)
next
  case (5 L xs a)
  then show ?case using release_holds [of L xs a] by (auto simp: allocated_def dl_release_def)
next
  case (6 L xs a)
  then show ?case using link_front_holds [of L xs a] by (simp add: allocated_def)
next
  case (7 L xs a)
  then show ?case using unlink_holds [of L xs a] by (simp add: allocated_def)
qed

end
