(* ===== verification/Evbuffer.thy ===== *)
theory Evbuffer
  imports Grow_Buffer
begin

text \<open>
  The \<open>evbuffer\<close> of the libevent replacement, \<open>port/mini_event.c\<close> lines 72 to 246: one contiguous
  growable allocation. The record \<open>gbuf\<close> is \<open>struct evbuffer\<close> (data, len, cap). Buffers are
  passed as values, so the guards against NULL and \<open>dst == src\<close> have no counterpart.
  The lemmas show that every operation refines the byte-list operation its name promises.
\<close>

section \<open>Operations\<close>

definition MINI_EVBUF_INIT_CAP :: u32 where
  "MINI_EVBUF_INIT_CAP = 4096"

definition evbuffer_reserve :: "reallocator \<Rightarrow> gbuf \<Rightarrow> u32 \<Rightarrow> (int \<times> gbuf) option" where
  "evbuffer_reserve realloc buf need =
     (if gb_len buf + need \<le> gb_cap buf then Some (0, buf)
      else gb_grow realloc (if gb_cap buf \<noteq> 0 then gb_cap buf else MINI_EVBUF_INIT_CAP)
             (gb_len buf + need) buf)"

definition evbuffer_new :: gbuf where
  "evbuffer_new = gb_empty"

definition evbuffer_add :: "reallocator \<Rightarrow> gbuf \<Rightarrow> bytes \<Rightarrow> (int \<times> gbuf) option" where
  "evbuffer_add realloc buf data = do {
     (rc, buf) \<leftarrow> evbuffer_reserve realloc buf (of_nat (length data));
     if rc < 0 then Some (-1, buf)
     else do { buf \<leftarrow> gb_put buf data; Some (0, buf) }
   }"

text \<open>Result: return code, destination, source.\<close>

definition evbuffer_add_buffer :: "reallocator \<Rightarrow> gbuf \<Rightarrow> gbuf \<Rightarrow> (int \<times> gbuf \<times> gbuf) option" where
  "evbuffer_add_buffer realloc dst src =
     (if gb_len src = 0 then Some (0, dst, src)
      else do {
        (rc, dst) \<leftarrow> evbuffer_add realloc dst (content src);
        if rc < 0 then Some (-1, dst, src)
        else Some (0, dst, src\<lparr>gb_len := 0\<rparr>)
      })"

definition evbuffer_prepend :: "reallocator \<Rightarrow> gbuf \<Rightarrow> bytes \<Rightarrow> (int \<times> gbuf) option" where
  "evbuffer_prepend realloc buf data =
     (if data = [] then Some (0, buf)
      else do {
        (rc, buf) \<leftarrow> evbuffer_reserve realloc buf (of_nat (length data));
        if rc < 0 then Some (-1, buf)
        else do {
          m \<leftarrow> blit (length data) (content buf) (gb_mem buf);
          m \<leftarrow> blit 0 data m;
          Some (0, buf\<lparr>gb_mem := m, gb_len := gb_len buf + of_nat (length data)\<rparr>)
        }
      })"

definition evbuffer_get_length :: "gbuf \<Rightarrow> u32" where
  "evbuffer_get_length buf = gb_len buf"

text \<open>Returns the number of bytes removed, the bytes, and the buffer.\<close>

definition evbuffer_remove :: "gbuf \<Rightarrow> u32 \<Rightarrow> (int \<times> bytes \<times> gbuf) option" where
  "evbuffer_remove buf len =
     (let len = (if gb_len buf < len then gb_len buf else len) in do {
        buf' \<leftarrow> buf_drop len buf;
        Some (sint len, take (unat len) (gb_mem buf), buf')
      })"

text \<open>Returns the number of bytes moved, the source and the destination.\<close>

definition evbuffer_remove_buffer ::
  "reallocator \<Rightarrow> gbuf \<Rightarrow> gbuf \<Rightarrow> u32 \<Rightarrow> (u32 \<times> gbuf \<times> gbuf) option" where
  "evbuffer_remove_buffer realloc src dst len =
     (let len = (if gb_len src < len then gb_len src else len) in
      if len = 0 then Some (0, src, dst)
      else do {
        (rc, dst) \<leftarrow> evbuffer_add realloc dst (take (unat len) (gb_mem src));
        if rc < 0 then Some (0, src, dst)
        else do { src \<leftarrow> buf_drop len src; Some (len, src, dst) }
      })"

definition evbuffer_drain :: "gbuf \<Rightarrow> u32 \<Rightarrow> gbuf option" where
  "evbuffer_drain buf len = buf_drop (if gb_len buf < len then gb_len buf else len) buf"

text \<open>\<open>evbuffer_pullup\<close> returns the data pointer: the live bytes are contiguous.\<close>

definition evbuffer_pullup :: "gbuf \<Rightarrow> bytes" where
  "evbuffer_pullup buf = content buf"

text \<open>\<open>evbuffer_peek\<close> with one vector: the number of vectors filled, and all live bytes.\<close>

definition evbuffer_peek :: "gbuf \<Rightarrow> int \<Rightarrow> int \<times> bytes" where
  "evbuffer_peek buf len =
     (if len < 0 then (0, []) else if len = 0 \<or> gb_len buf = 0 then (0, []) else (1, content buf))"

text \<open>The first position at or after \<open>off\<close> where \<open>what\<close> occurs, -1 if there is none.\<close>

function search_from :: "bytes \<Rightarrow> bytes \<Rightarrow> nat \<Rightarrow> int" where
  "search_from d what i =
     (if length d < i + length what then -1
      else if take (length what) (drop i d) = what then int i
      else search_from d what (Suc i))"
  by pat_completeness auto
termination
  by (relation "measure (\<lambda>(d, what, i). Suc (length d) - i)") auto

declare search_from.simps [simp del]

definition evbuffer_search :: "gbuf \<Rightarrow> bytes \<Rightarrow> nat \<Rightarrow> int" where
  "evbuffer_search buf what off =
     (if what = [] then -1
      else if length what \<le> unat (gb_len buf) \<and> off \<le> unat (gb_len buf) - length what
      then search_from (content buf) what off
      else -1)"

text \<open>
  \<open>evbuffer_write\<close> calls \<open>send\<close> until the buffer is empty. What the calls return is a list;
  a run that needs more results than the list has is \<open>None\<close>. Result: the return value, the bytes
  handed to the socket, the buffer.
\<close>

datatype send_result = Sent u32 | Send_EINTR | Send_error

fun evbuffer_write_loop ::
  "send_result list \<Rightarrow> gbuf \<Rightarrow> int \<Rightarrow> bytes \<Rightarrow> (int \<times> bytes \<times> gbuf) option" where
  "evbuffer_write_loop rs buf tot out =
     (if gb_len buf = 0 then Some (tot, out, buf)
      else case rs of
        [] \<Rightarrow> None
      | Send_EINTR # rs' \<Rightarrow> evbuffer_write_loop rs' buf tot out
      | Send_error # rs' \<Rightarrow> Some (if 0 < tot then tot else -1, out, buf)
      | Sent w # rs' \<Rightarrow> do {
          buf' \<leftarrow> buf_drop w buf;
          let out' = out @ take (unat w) (content buf) in
          if w = 0 then Some (tot, out', buf')
          else evbuffer_write_loop rs' buf' (tot + int (unat w)) out'
        })"

declare evbuffer_write_loop.simps [simp del]

definition evbuffer_write :: "send_result list \<Rightarrow> gbuf \<Rightarrow> (int \<times> bytes \<times> gbuf) option" where
  "evbuffer_write rs buf =
     (if gb_len buf = 0 then Some (0, [], buf) else evbuffer_write_loop rs buf 0 [])"

section \<open>Refinement of byte-list operations\<close>

lemma reserve_correct:
  assumes ok: "gb_ok buf" and re: "realloc_spec realloc"
    and fits: "length (content buf) + m \<le> 2 ^ 31"
  obtains (reserved) b' where "evbuffer_reserve realloc buf (of_nat m) = Some (0, b')" "gb_ok b'"
      "content b' = content buf" "gb_len b' = gb_len buf"
      "length (content buf) + m \<le> unat (gb_cap b')"
  | (failed) "evbuffer_reserve realloc buf (of_nat m) = Some (-1, buf)"
proof -
  let ?need = "gb_len buf + of_nat m"
  let ?start = "if gb_cap buf \<noteq> 0 then gb_cap buf else MINI_EVBUF_INIT_CAP"
  have need: "unat ?need = length (content buf) + m"
    using fits ok unat_len_plus by (simp add: length_content)
  show thesis
  proof (cases "?need \<le> gb_cap buf")
    case True
    then show thesis
      using ok need by (intro reserved [of buf]) (simp_all add: evbuffer_reserve_def le_u32_iff)
  next
    case False
    obtain k where k: "unat ?start = 2 ^ k" "k \<le> 31"
    proof (cases "gb_cap buf = 0")
      case True
      then show thesis by (intro that [of 12]) (simp_all add: MINI_EVBUF_INIT_CAP_def)
    next
      case False
      then show thesis using gb_cap_positive_pow2 [OF ok] that by auto
    qed
    have n31: "unat ?need \<le> 2 ^ 31" and le: "gb_cap buf \<le> ?need"
      using need fits False by simp_all
    have eq: "evbuffer_reserve realloc buf (of_nat m) = gb_grow realloc ?start ?need buf"
      using False by (simp add: evbuffer_reserve_def)
    show thesis
    proof (cases rule: gb_grow_correct [OF ok re k n31 le])
      case (1 b')
      have "gb_len b' = gb_len buf" using 1(1) by (auto simp: gb_grow_def bind_eq_Some_conv split: option.splits)
      then show thesis using 1 eq need by (intro reserved [of b']) (simp_all add: le_u32_iff)
    next
      case 2
      then show thesis using eq by (intro failed) simp
    qed
  qed
qed

lemma add_correct:
  assumes ok: "gb_ok buf" and re: "realloc_spec realloc"
    and fits: "length (content buf) + length data \<le> 2 ^ 31"
  obtains (added) b' where "evbuffer_add realloc buf data = Some (0, b')" "gb_ok b'"
      "content b' = content buf @ data"
  | (failed) "evbuffer_add realloc buf data = Some (-1, buf)"
proof (cases rule: reserve_correct [OF assms])
  case (1 b)
  then obtain b' where "gb_put b data = Some b'" "gb_ok b'" "content b' = content b @ data"
    using gb_put_correct [OF 1(2)] fits by metis
  then show thesis using 1 by (intro added [of b']) (simp_all add: evbuffer_add_def)
next
  case 2
  then show thesis by (intro failed) (simp add: evbuffer_add_def)
qed

interpretation ev: append_buffer evbuffer_add content gb_ok
proof unfold_locales
  fix re b and p :: bytes
  assume a: "realloc_spec re" "gb_ok b" "length (content b) + length p \<le> 2 ^ 31"
  show "(\<exists>b'. evbuffer_add re b p = Some (0, b') \<and> gb_ok b' \<and> content b' = content b @ p) \<or>
      evbuffer_add re b p = Some (-1, b)"
    by (cases rule: add_correct [OF a(2,1,3)]) auto
qed

lemma content_take: "gb_ok b \<Longrightarrow> unat n \<le> length (content b) \<Longrightarrow>
    take (unat n) (gb_mem b) = take (unat n) (content b)"
  by (auto simp: content_def)

lemma capped_len:
  "gb_ok b \<Longrightarrow> unat (if gb_len b < n then gb_len b else n) = min (length (content b)) (unat n)"
  by (auto simp: length_content less_u32_iff)

lemma drop_capped:
  assumes "gb_ok b"
  obtains b' where "buf_drop (if gb_len b < n then gb_len b else n) b = Some b'" "gb_ok b'"
    "content b' = drop (unat n) (content b)"
proof -
  let ?n = "if gb_len b < n then gb_len b else n"
  have n: "unat ?n = min (length (content b)) (unat n)" by (rule capped_len [OF assms])
  then obtain b' where b': "buf_drop ?n b = Some b'" "gb_ok b'"
      "content b' = drop (unat ?n) (content b)"
    using buf_drop_correct [OF assms, of ?n] by auto
  moreover have "drop (unat ?n) (content b) = drop (unat n) (content b)"
    unfolding n by (simp add: min_def)
  ultimately show thesis by (intro that [of b']) simp_all
qed

lemma take_capped:
  "gb_ok b \<Longrightarrow> take (unat (if gb_len b < n then gb_len b else n)) (gb_mem b) =
     take (unat n) (content b)"
  by (auto simp: content_def less_u32_iff min_def)

lemma remove_correct:
  assumes "gb_ok buf" "length (content buf) < 2 ^ 31"
  obtains b' where "evbuffer_remove buf n =
      Some (int (min (length (content buf)) (unat n)), take (unat n) (content buf), b')"
    "gb_ok b'" "content b' = drop (unat n) (content buf)"
proof -
  let ?n = "if gb_len buf < n then gb_len buf else n"
  obtain b' where b': "buf_drop ?n buf = Some b'" "gb_ok b'" "content b' = drop (unat n) (content buf)"
    by (rule drop_capped [OF assms(1)])
  have n: "unat ?n = min (length (content buf)) (unat n)" by (rule capped_len [OF assms(1)])
  then have "sint ?n = int (min (length (content buf)) (unat n))"
    using sint_small [of ?n] assms(2) by (simp only: n)
  with b' take_capped [OF assms(1), of n] show thesis
    by (intro that [of b']) (simp_all only: evbuffer_remove_def Let_def bind.bind_lunit)
qed

lemma drain_correct:
  assumes "gb_ok buf"
  obtains b' where "evbuffer_drain buf n = Some b'" "gb_ok b'" "content b' = drop (unat n) (content buf)"
  using drop_capped [OF assms, of n] by (metis evbuffer_drain_def)

lemma remove_buffer_correct:
  assumes ok: "gb_ok src" "gb_ok dst" and re: "realloc_spec realloc"
    and fits: "length (content dst) + length (content src) \<le> 2 ^ 31"
  obtains (moved) s' d' where "evbuffer_remove_buffer realloc src dst n =
        Some (if gb_len src < n then gb_len src else n, s', d')" "gb_ok s'" "gb_ok d'"
      "content s' = drop (unat n) (content src)"
      "content d' = content dst @ take (unat n) (content src)"
  | (failed) "evbuffer_remove_buffer realloc src dst n = Some (0, src, dst)" "n \<noteq> 0"
proof -
  let ?n = "if gb_len src < n then gb_len src else n"
  have n: "unat ?n = min (length (content src)) (unat n)" by (rule capped_len [OF ok(1)])
  show thesis
  proof (cases "?n = 0")
    case True
    then have "min (length (content src)) (unat n) = 0" using n by simp
    then have "n = 0 \<or> content src = []" by (auto simp: min_def unat_eq_zero split: if_splits)
    then have "take (unat n) (content src) = []" "drop (unat n) (content src) = content src" by auto
    then show thesis
      using True ok by (intro moved [of src dst]) (simp_all only: evbuffer_remove_buffer_def Let_def if_True, simp_all)
  next
    case False
    have room: "length (content dst) + length (take (unat n) (content src)) \<le> 2 ^ 31"
      using fits by simp
    show thesis
    proof (cases rule: add_correct [OF ok(2) re room])
      case (1 d')
      obtain s' where "buf_drop ?n src = Some s'" "gb_ok s'" "content s' = drop (unat n) (content src)"
        by (rule drop_capped [OF ok(1)])
      with 1 False take_capped [OF ok(1), of n] show thesis
        by (intro moved [of s' d']) (simp_all only: evbuffer_remove_buffer_def Let_def if_False
            bind.bind_lunit prod.case not_less, simp_all)
    next
      case 2
      with False take_capped [OF ok(1), of n] show thesis
        by (intro failed) (auto simp only: evbuffer_remove_buffer_def Let_def if_False bind.bind_lunit
            prod.case, auto split: if_splits)
    qed
  qed
qed

lemma prepend_correct:
  assumes ok: "gb_ok buf" and re: "realloc_spec realloc"
    and fits: "length (content buf) + length data \<le> 2 ^ 31"
  obtains (prepended) b' where "evbuffer_prepend realloc buf data = Some (0, b')" "gb_ok b'"
      "content b' = data @ content buf"
  | (failed) "evbuffer_prepend realloc buf data = Some (-1, buf)"
proof (cases "data = []")
  case True
  then show thesis using ok by (intro prepended [of buf]) (simp_all add: evbuffer_prepend_def)
next
  case ne: False
  show thesis
  proof (cases rule: reserve_correct [OF assms])
    case (1 b)
    let ?c = "content buf" and ?n = "length data"
    let ?rest = "drop (?n + length ?c) (gb_mem b)"
    have lm: "length (gb_mem b) = unat (gb_cap b)" using 1(2) by (simp add: gb_ok_def)
    have len: "unat (gb_len b + of_nat ?n) = ?n + length ?c"
      using 1(4) ok fits unat_len_plus [of "gb_len buf" ?n] by (simp add: length_content)
    let ?b = "b\<lparr>gb_mem := data @ ?c @ ?rest, gb_len := gb_len b + of_nat ?n\<rparr>"
    have "evbuffer_prepend realloc buf data = Some (0, ?b)"
      using ne 1 lm by (simp add: evbuffer_prepend_def blit_fits)
    moreover have "gb_ok ?b" using 1 lm len by (auto simp: gb_ok_def le_u32_iff)
    moreover have "content ?b = data @ ?c" unfolding content_def [of ?b] using len by simp
    ultimately show thesis by (rule prepended)
  next
    case 2
    then show thesis using ne by (intro failed) (simp add: evbuffer_prepend_def)
  qed
qed

lemma write_loop_conserves:
  "gb_ok buf \<Longrightarrow> evbuffer_write_loop rs buf tot out = Some (r, sent, b') \<Longrightarrow>
     gb_ok b' \<and> sent @ content b' = out @ content buf"
proof (induction rs arbitrary: buf tot out)
  case Nil
  then show ?case by (simp add: evbuffer_write_loop.simps [of "[]"] split: if_splits)
next
  case (Cons x rs)
  note unf = evbuffer_write_loop.simps [of "y # rs" for y]
  show ?case
  proof (cases "gb_len buf = 0")
    case True
    with Cons.prems show ?thesis by (simp add: unf)
  next
    case ne: False
    show ?thesis
    proof (cases x)
      case (Sent w)
      with Cons.prems(2) ne obtain c where c: "buf_drop w buf = Some c"
        by (auto simp: unf bind_eq_Some_conv)
      have "unat w \<le> length (content buf)"
        using c Cons.prems(1) by (auto simp: buf_drop_def length_content less_u32_iff split: if_splits)
      then obtain d where "buf_drop w buf = Some d" "gb_ok d" "content d = drop (unat w) (content buf)"
        by (rule buf_drop_correct [OF Cons.prems(1)])
      with c have c2: "gb_ok c" "content c = drop (unat w) (content buf)" by simp_all
      show ?thesis
      proof (cases "w = 0")
        case True
        with Cons.prems(2) ne Sent c c2 show ?thesis by (auto simp: unf)
      next
        case False
        with Cons.prems(2) ne Sent c have
          "evbuffer_write_loop rs c (tot + int (unat w)) (out @ take (unat w) (content buf)) =
             Some (r, sent, b')"
          by (simp add: unf)
        from Cons.IH [OF c2(1) this] c2(2) show ?thesis by simp
      qed
    qed (use Cons ne in \<open>auto simp: unf\<close>)
  qed
qed

lemma match_fits: "take (length w) (drop k d) = w \<Longrightarrow> length w \<le> length d - k"
  by (metis length_drop length_take min.cobounded1)

lemma search_from_sound:
  "search_from d what i = j \<Longrightarrow> 0 \<le> j \<Longrightarrow>
     i \<le> nat j \<and> nat j + length what \<le> length d \<and> take (length what) (drop (nat j) d) = what \<and>
     (\<forall>k. i \<le> k \<longrightarrow> k < nat j \<longrightarrow> take (length what) (drop k d) \<noteq> what)"
proof (induction d what i rule: search_from.induct)
  case (1 d what i)
  consider "length d < i + length what" | "i + length what \<le> length d" "take (length what) (drop i d) = what"
    | "i + length what \<le> length d" "take (length what) (drop i d) \<noteq> what" by linarith
  then show ?case
  proof cases
    case 3
    then have "search_from d what (Suc i) = j" using 1 by (simp add: search_from.simps [of d what i])
    with 1 3 show ?thesis by (auto simp: le_Suc_eq dest: Suc_leI) (metis Suc_leI le_neq_implies_less)
  qed (use 1 in \<open>auto simp: search_from.simps [of d what i]\<close>)
qed

lemma search_from_complete:
  "search_from d what i < 0 \<Longrightarrow> what \<noteq> [] \<Longrightarrow>
     search_from d what i = -1 \<and> (\<forall>k. i \<le> k \<longrightarrow> take (length what) (drop k d) \<noteq> what)"
proof (induction d what i rule: search_from.induct)
  case (1 d what i)
  show ?case
  proof (cases "length d < i + length what")
    case True
    have "take (length what) (drop k d) \<noteq> what" if "i \<le> k" for k
    proof
      assume "take (length what) (drop k d) = what"
      then have "length what \<le> length d - k" by (rule match_fits)
      then show False using True that 1 by (cases what) auto
    qed
    then show ?thesis using True by (simp add: search_from.simps [of d what i])
  next
    case False
    then have ne: "take (length what) (drop i d) \<noteq> what"
      using 1 by (auto simp: search_from.simps [of d what i])
    with 1 False have "search_from d what (Suc i) = -1 \<and>
        (\<forall>k. Suc i \<le> k \<longrightarrow> take (length what) (drop k d) \<noteq> what)"
      by (simp add: search_from.simps [of d what i])
    with ne False show ?thesis
      by (auto simp: search_from.simps [of d what i]) (metis Suc_leI le_neq_implies_less)
  qed
qed

section \<open>Properties of the buffer\<close>

text \<open>Moving bytes between two buffers loses, duplicates and reorders nothing: after
  \<open>evbuffer_remove_buffer\<close> the destination has received exactly the prefix that left the source,
  of the length returned, which is the length asked for capped by what is there, or zero when an
  allocation failed; both buffers stay well formed. The call always returns (below 2 GiB).\<close>

theorem transfer_conserves:
  assumes "gb_ok src" "gb_ok dst" "realloc_spec realloc"
    and "length (content dst) + length (content src) \<le> 2 ^ 31"
  shows "\<exists>r s' d'. evbuffer_remove_buffer realloc src dst n = Some (r, s', d') \<and>
    gb_ok s' \<and> gb_ok d' \<and> unat r \<in> {0, min (length (content src)) (unat n)} \<and>
    content d' = content dst @ take (unat r) (content src) \<and>
    content s' = drop (unat r) (content src)"
proof (cases rule: remove_buffer_correct [OF assms, of n])
  case (1 s' d')
  have "unat (if gb_len src < n then gb_len src else n) = min (length (content src)) (unat n)"
    by (rule capped_len [OF assms(1)])
  with 1 show ?thesis
    by (intro exI [of _ "if gb_len src < n then gb_len src else n"] exI [of _ s'] exI [of _ d'])
       (auto simp: min_def)
next
  case 2
  with assms show ?thesis by auto
qed

theorem transfer_conserves_witness:
  "\<exists>r s' d'. evbuffer_remove_buffer (\<lambda>old n. Some (take (unat n) (old @ replicate (unat n) 0)))
       \<lparr>gb_mem = [1, 2, 3, 4], gb_len = 3, gb_cap = 4\<rparr> evbuffer_new 2 = Some (r, s', d') \<and>
    gb_ok s' \<and> gb_ok d' \<and> unat r \<in> {0, 2} \<and>
    content d' = take (unat r) [1, 2, 3] \<and> content s' = drop (unat r) [1, 2, 3]"
proof -
  let ?re = "\<lambda>(old :: bytes) (n :: u32). Some (take (unat n) (old @ replicate (unat n) 0))"
  let ?src = "\<lparr>gb_mem = [1, 2, 3, 4], gb_len = 3, gb_cap = 4\<rparr> :: gbuf"
  have ok: "gb_ok ?src" "gb_ok evbuffer_new"
    by (auto simp: gb_ok_def evbuffer_new_def gb_empty_def intro!: exI [of _ 2])
  have re: "realloc_spec ?re" by (auto simp: realloc_spec_def min_def)
  show ?thesis
    using transfer_conserves [OF ok re, of 2]
    by (simp add: content_def evbuffer_new_def gb_empty_def flip: numeral_2_eq_2)
qed

text \<open>Putting bytes back in front is the inverse of taking them: unless the allocation fails,
  \<open>evbuffer_prepend\<close> followed by \<open>evbuffer_remove\<close> of as many bytes returns exactly these bytes
  and leaves the contents as they were.\<close>

theorem prepend_then_remove:
  assumes "gb_ok buf" "realloc_spec realloc" "length (content buf) + length data < 2 ^ 31"
    and "evbuffer_prepend realloc buf data = Some (0, b1)"
  shows "\<exists>b2. evbuffer_remove b1 (of_nat (length data)) = Some (int (length data), data, b2) \<and>
    gb_ok b2 \<and> content b2 = content buf"
proof -
  have n: "unat (of_nat (length data) :: u32) = length data"
    using assms(3) by (intro unat_of_nat_u32) simp
  have le: "length (content buf) + length data \<le> 2 ^ 31" using assms(3) by simp
  show ?thesis
  proof (cases rule: prepend_correct [OF assms(1,2) le])
    case (1 b)
    with assms(4) have b: "gb_ok b1" "content b1 = data @ content buf" by simp_all
    have "length (content b1) < 2 ^ 31" using b(2) assms(3) by simp
    then obtain b2 where "evbuffer_remove b1 (of_nat (length data)) =
        Some (int (min (length (content b1)) (unat (of_nat (length data) :: u32))),
          take (unat (of_nat (length data) :: u32)) (content b1), b2)" "gb_ok b2"
      "content b2 = drop (unat (of_nat (length data) :: u32)) (content b1)"
      by (rule remove_correct [OF b(1)])
    with b(2) n show ?thesis by simp
  qed (use assms(4) in simp)
qed

theorem prepend_then_remove_witness:
  "\<exists>b2. evbuffer_remove \<lparr>gb_mem = [7, 8, 1, 0], gb_len = 3, gb_cap = 4\<rparr> 2 = Some (2, [7, 8], b2) \<and>
    gb_ok b2 \<and> content b2 = [1]"
proof -
  let ?re = "\<lambda>(old :: bytes) (n :: u32). Some (take (unat n) (old @ replicate (unat n) 0))"
  let ?buf = "\<lparr>gb_mem = [1, 0, 0, 0], gb_len = 1, gb_cap = 4\<rparr> :: gbuf"
  have ok: "gb_ok ?buf" by (auto simp: gb_ok_def intro!: exI [of _ 2])
  have re: "realloc_spec ?re" by (auto simp: realloc_spec_def min_def)
  have p: "evbuffer_prepend ?re ?buf [7, 8] = Some (0, \<lparr>gb_mem = [7, 8, 1, 0], gb_len = 3, gb_cap = 4\<rparr>)"
    by (simp add: evbuffer_prepend_def evbuffer_reserve_def blit_def content_def)
  show ?thesis using prepend_then_remove [OF ok re _ p] by (simp add: content_def)
qed

text \<open>\<open>evbuffer_write\<close> hands the buffered bytes to the socket in order and keeps the rest:
  whatever the calls of \<open>send\<close> return, the bytes sent followed by the bytes still buffered are the
  original contents, so a short write, an interruption or an error loses and repeats nothing.\<close>

theorem write_conserves:
  assumes "gb_ok buf" "evbuffer_write rs buf = Some (r, sent, b')"
  shows "gb_ok b' \<and> sent @ content b' = content buf"
  using assms write_loop_conserves [of buf rs 0 "[]"]
  by (auto simp: evbuffer_write_def split: if_splits)

theorem write_conserves_witness:
  "\<exists>b'. evbuffer_write [Send_EINTR, Sent 1, Send_error] \<lparr>gb_mem = [7, 8, 0, 0], gb_len = 2, gb_cap = 4\<rparr> =
     Some (1, [7], b') \<and> gb_ok b' \<and> [7] @ content b' = [7, 8]"
proof -
  let ?buf = "\<lparr>gb_mem = [7, 8, 0, 0], gb_len = 2, gb_cap = 4\<rparr> :: gbuf"
  have ok: "gb_ok ?buf" by (auto simp: gb_ok_def intro!: exI [of _ 2])
  have w: "evbuffer_write [Send_EINTR, Sent 1, Send_error] ?buf =
      Some (1, [7], \<lparr>gb_mem = [8, 8, 0, 0], gb_len = 1, gb_cap = 4\<rparr>)"
    by (simp add: evbuffer_write_def evbuffer_write_loop.simps buf_drop_def blit_def content_def)
  show ?thesis using write_conserves [OF ok w] w by (simp add: content_def)
qed

text \<open>\<open>evbuffer_search\<close> finds the first occurrence: a non-negative result is a position at or
  after the offset where the pattern lies wholly inside the contents, no earlier position from the
  offset on matches, and -1 is returned only when there is no such position.\<close>

theorem search_first_occurrence:
  assumes "gb_ok buf" "what \<noteq> []"
  shows "let j = evbuffer_search buf what off in
    (if 0 \<le> j then off \<le> nat j \<and> take (length what) (drop (nat j) (content buf)) = what \<and>
       (\<forall>k. off \<le> k \<longrightarrow> k < nat j \<longrightarrow> take (length what) (drop k (content buf)) \<noteq> what)
     else j = -1 \<and> (\<forall>k. off \<le> k \<longrightarrow> take (length what) (drop k (content buf)) \<noteq> what))"
proof (cases "length what \<le> length (content buf) \<and> off \<le> length (content buf) - length what")
  case True
  then have eq: "evbuffer_search buf what off = search_from (content buf) what off"
    using assms by (simp add: evbuffer_search_def length_content)
  show ?thesis
  proof (cases "0 \<le> search_from (content buf) what off")
    case True
    with search_from_sound [OF refl True] show ?thesis by (simp add: eq)
  next
    case False
    with search_from_complete [of "content buf" what off] assms(2) show ?thesis by (simp add: eq)
  qed
next
  case False
  then have eq: "evbuffer_search buf what off = -1"
    using assms by (auto simp: evbuffer_search_def length_content)
  have "take (length what) (drop k (content buf)) \<noteq> what" if "off \<le> k" for k
  proof
    assume "take (length what) (drop k (content buf)) = what"
    then have "length what \<le> length (content buf) - k" by (rule match_fits)
    moreover have "0 < length what" using assms(2) by simp
    ultimately show False using False that by linarith
  qed
  then show ?thesis by (simp add: eq)
qed

theorem search_first_occurrence_witness:
  "evbuffer_search \<lparr>gb_mem = [1, 2, 1, 2], gb_len = 4, gb_cap = 4\<rparr> [1, 2] 1 = 2 \<and>
   take 2 (drop 2 [1, 2, 1, 2]) = [1, 2 :: u8] \<and>
   take 2 (drop 1 [1, 2, 1, 2]) \<noteq> [1, 2 :: u8]"
proof -
  let ?buf = "\<lparr>gb_mem = [1, 2, 1, 2], gb_len = 4, gb_cap = 4\<rparr> :: gbuf"
  have ok: "gb_ok ?buf" by (auto simp: gb_ok_def intro!: exI [of _ 2])
  have c: "content ?buf = [1, 2, 1, 2]" by (simp add: content_def)
  have r: "evbuffer_search ?buf [1, 2] 1 = 2"
    by (simp add: evbuffer_search_def c) (simp add: search_from.simps)
  show ?thesis
    using search_first_occurrence [OF ok, of "[1, 2]" 1] unfolding r c Let_def
    by (simp flip: numeral_2_eq_2)
qed

end
