(* ===== verification/Mini_Event.thy ===== *)
theory Mini_Event
  imports Intrusive_List Evbuffer
begin

text \<open>
  The event loop of \<open>port/mini_event.c\<close>: timers, bufferevents and the dispatch loop over \<open>select\<close>. The bytes of a
  bufferevent are lists, the view that \<open>Evbuffer\<close> justifies for \<open>struct evbuffer\<close>. The objects of a base hang on
  the lists of \<open>Intrusive_List\<close>; an address is used once, so an access to a freed object is \<open>None\<close>, as is any
  other undefined behaviour, and a callback that does not return.

  What comes from outside, the clock, memory, sockets, the transport backend behind \<open>struct mini_bev_ssl_ops\<close> and
  the callbacks that the program registered, are the fields of \<open>host\<close>; \<open>calls\<close> counts the requests to it, so that
  two of them may be answered differently. \<open>period_us\<close> and \<open>last_activity_us\<close> are written and never read and have
  no counterpart.
\<close>

section \<open>State\<close>

definition EV_READ :: u16 where "EV_READ = 2"
definition EV_WRITE :: u16 where "EV_WRITE = 4"
definition BEV_EVENT_READING :: u16 where "BEV_EVENT_READING = 0x01"
definition BEV_EVENT_WRITING :: u16 where "BEV_EVENT_WRITING = 0x02"
definition BEV_EVENT_EOF :: u16 where "BEV_EVENT_EOF = 0x10"
definition BEV_EVENT_ERROR :: u16 where "BEV_EVENT_ERROR = 0x20"
definition BEV_EVENT_TIMEOUT :: u16 where "BEV_EVENT_TIMEOUT = 0x40"
definition BEV_EVENT_CONNECTED :: u16 where "BEV_EVENT_CONNECTED = 0x80"

lemmas event_bits = EV_READ_def EV_WRITE_def BEV_EVENT_READING_def BEV_EVENT_WRITING_def BEV_EVENT_EOF_def
  BEV_EVENT_ERROR_def BEV_EVENT_TIMEOUT_def BEV_EVENT_CONNECTED_def

definition MINI_RECV_CHUNK :: nat where "MINI_RECV_CHUNK = 4096"
definition MINI_RECV_MAX_PER_LOOP :: nat where "MINI_RECV_MAX_PER_LOOP = 64 * 1024"
definition MINI_TLS_HANDSHAKE_TIMEOUT_S :: int where "MINI_TLS_HANDSHAKE_TIMEOUT_S = 10"

text \<open>A callback with its argument is a value of type \<open>'c\<close>.\<close>

record 'c event =
  ev_base :: bool
  ev_cb :: "'c option"
  ev_expire :: int
  ev_pending :: bool

record 'c bufferevent =
  b_fd :: int
  b_input :: bytes
  b_output :: bytes
  b_readcb :: "'c option"
  b_writecb :: "'c option"
  b_eventcb :: "'c option"
  b_enabled :: u16
  b_connecting :: bool
  b_connect_start :: int
  b_tv_read :: "int \<times> int"
  b_tv_write :: "int \<times> int"
  b_last_read :: int
  b_last_write :: int
  b_wm_read_low :: nat
  b_ssl :: bool
  b_hs_done :: bool
  b_hs_start :: int
  b_want_read :: bool
  b_want_write :: bool

record ('c, 'a) eb =
  events :: dlist
  ev_obj :: "nat \<rightharpoonup> 'c event"
  bevs :: dlist
  bev_obj :: "nat \<rightharpoonup> 'c bufferevent"
  break_flag :: bool
  stop_flag :: bool
  next_obj :: nat
  calls :: nat
  app :: 'a

datatype trigger = Timed_out | Readable nat | Written nat | Happened nat u16

datatype recv_result = Received bytes | Recv_EINTR | Recv_EAGAIN | Recv_error
datatype sent_result = Sent_bytes nat | Sent_EINTR | Sent_EAGAIN | Sent_error
datatype tls_result = Tls_data bytes | Tls_eof | Tls_error

record ('c, 'a) host =
  clock :: "nat \<Rightarrow> int"
  memory :: "nat \<Rightarrow> bool"
  recv_from :: "nat \<Rightarrow> int \<Rightarrow> recv_result"
  send_to :: "nat \<Rightarrow> int \<Rightarrow> bytes \<Rightarrow> sent_result"
  so_error :: "nat \<Rightarrow> int \<Rightarrow> int"
  socket_new :: "nat \<Rightarrow> int"
  connect_ok :: "nat \<Rightarrow> bool"
  ready :: "nat \<Rightarrow> int \<Rightarrow> (int \<Rightarrow> bool) \<times> (int \<Rightarrow> bool)"
  tls_handshake :: "nat \<Rightarrow> int \<times> bool \<times> bool"
  tls_read :: "nat \<Rightarrow> tls_result \<times> bool \<times> bool"
  tls_write :: "nat \<Rightarrow> bytes \<Rightarrow> int \<times> nat \<times> bool \<times> bool"
  tls_pending :: "nat \<Rightarrow> int"
  call :: "'c \<Rightarrow> trigger \<Rightarrow> ('c, 'a) eb \<Rightarrow> ('c, 'a) eb option"

text \<open>One request to the outside.\<close>

definition ask :: "(nat \<Rightarrow> 'r) \<Rightarrow> ('c, 'a) eb \<Rightarrow> 'r \<times> ('c, 'a) eb" where
  "ask f w = (f (calls w), w\<lparr>calls := Suc (calls w)\<rparr>)"

definition mini_now_us :: "('c, 'a) host \<Rightarrow> ('c, 'a) eb \<Rightarrow> int \<times> ('c, 'a) eb" where
  "mini_now_us h w = ask (clock h) w"

definition tv_to_us :: "int \<times> int \<Rightarrow> int" where
  "tv_to_us tv = fst tv * 1000000 + snd tv"

section \<open>Timers\<close>

definition event_base_new :: "'a \<Rightarrow> ('c, 'a) eb" where
  "event_base_new x = \<lparr>events = \<lparr>dl_head = None, dl_node = Map.empty\<rparr>, ev_obj = Map.empty, bevs = \<lparr>dl_head = None, dl_node = Map.empty\<rparr>,
     bev_obj = Map.empty, break_flag = False, stop_flag = False, next_obj = 0, calls = 0, app = x\<rparr>"

definition event_base_loopbreak :: "('c, 'a) eb \<Rightarrow> ('c, 'a) eb" where
  "event_base_loopbreak w = w\<lparr>break_flag := True\<rparr>"

definition mini_event_base_stop :: "('c, 'a) eb \<Rightarrow> ('c, 'a) eb" where
  "mini_event_base_stop w = w\<lparr>stop_flag := True\<rparr>"

definition event_new :: "('c, 'a) host \<Rightarrow> bool \<Rightarrow> 'c option \<Rightarrow> ('c, 'a) eb \<Rightarrow> nat option \<times> ('c, 'a) eb" where
  "event_new h base cb w =
     (let (ok, w) = ask (memory h) w; a = next_obj w in
      if \<not> ok then (None, w)
      else (Some a, w\<lparr>next_obj := Suc a, events := dl_alloc a (events w),
             ev_obj := (ev_obj w)(a \<mapsto> \<lparr>ev_base = base, ev_cb = cb, ev_expire = 0, ev_pending = False\<rparr>)\<rparr>))"

text \<open>The delay may be a null pointer.\<close>

definition event_add :: "('c, 'a) host \<Rightarrow> nat \<Rightarrow> (int \<times> int) option \<Rightarrow> ('c, 'a) eb \<Rightarrow> (int \<times> ('c, 'a) eb) option" where
  "event_add h a tv w = do {
     ev \<leftarrow> ev_obj w a;
     (case tv of
        None \<Rightarrow> Some (-1, w)
      | Some tv \<Rightarrow>
          if \<not> ev_base ev then Some (-1, w)
          else let (now, w) = mini_now_us h w;
                   w = w\<lparr>ev_obj := (ev_obj w)(a \<mapsto> ev\<lparr>ev_expire := now + tv_to_us tv, ev_pending := True\<rparr>)\<rparr> in do {
            L \<leftarrow> (if is_linked a (events w) then Some (events w) else link_front a (events w));
            Some (0, w\<lparr>events := L\<rparr>)
          })
   }"

definition event_del :: "nat \<Rightarrow> ('c, 'a) eb \<Rightarrow> (int \<times> ('c, 'a) eb) option" where
  "event_del a w = do {
     ev \<leftarrow> ev_obj w a;
     L \<leftarrow> unlink a (events w);
     Some (0, w\<lparr>ev_obj := (ev_obj w)(a \<mapsto> ev\<lparr>ev_pending := False\<rparr>), events := L\<rparr>)
   }"

definition event_free :: "nat \<Rightarrow> ('c, 'a) eb \<Rightarrow> ('c, 'a) eb option" where
  "event_free a w = do {
     (rc, w) \<leftarrow> event_del a w;
     Some (w\<lparr>ev_obj := (ev_obj w)(a := None), events := dl_release a (events w)\<rparr>)
   }"

text \<open>\<open>while (base->events) event_free(base->events)\<close>; \<open>None\<close> also when it would not end.\<close>

partial_function (option) free_events :: "('c, 'a) eb \<Rightarrow> ('c, 'a) eb option" where
  "free_events w = (case dl_head (events w) of None \<Rightarrow> Some w | Some a \<Rightarrow> do { w \<leftarrow> event_free a w; free_events w })"

section \<open>Bufferevents\<close>

definition upd_bev :: "nat \<Rightarrow> ('c bufferevent \<Rightarrow> 'c bufferevent) \<Rightarrow> ('c, 'a) eb \<Rightarrow> ('c, 'a) eb option" where
  "upd_bev a f w = do { b \<leftarrow> bev_obj w a; Some (w\<lparr>bev_obj := (bev_obj w)(a \<mapsto> f b)\<rparr>) }"

definition fresh_bev :: "int \<Rightarrow> int \<Rightarrow> 'c bufferevent" where
  "fresh_bev fd now = \<lparr>b_fd = fd, b_input = [], b_output = [], b_readcb = None, b_writecb = None, b_eventcb = None, b_enabled = 0,
     b_connecting = False, b_connect_start = 0, b_tv_read = (0, 0), b_tv_write = (0, 0), b_last_read = now, b_last_write = now,
     b_wm_read_low = 0, b_ssl = False, b_hs_done = False, b_hs_start = 0, b_want_read = False, b_want_write = False\<rparr>"

text \<open>Three allocations: the structure and its two buffers.\<close>

definition bev_new :: "('c, 'a) host \<Rightarrow> int \<Rightarrow> ('c, 'a) eb \<Rightarrow> (nat option \<times> ('c, 'a) eb) option" where
  "bev_new h fd w =
     (let (ok, w) = ask (memory h) w in
      if \<not> ok then Some (None, w)
      else let (ok1, w) = ask (memory h) w; (ok2, w) = ask (memory h) w in
      if \<not> ok1 \<or> \<not> ok2 then Some (None, w)
      else let (now, w) = mini_now_us h w; a = next_obj w in do {
        L \<leftarrow> link_front a (dl_alloc a (bevs w));
        Some (Some a, w\<lparr>next_obj := Suc a, bevs := L, bev_obj := (bev_obj w)(a \<mapsto> fresh_bev fd now)\<rparr>)
      })"

text \<open>Closing the socket has no effect on the base.\<close>

definition bufferevent_free :: "nat \<Rightarrow> ('c, 'a) eb \<Rightarrow> ('c, 'a) eb option" where
  "bufferevent_free a w = do {
     b \<leftarrow> bev_obj w a;
     L \<leftarrow> unlink a (bevs w);
     Some (w\<lparr>bevs := dl_release a L, bev_obj := (bev_obj w)(a := None)\<rparr>)
   }"

text \<open>Making a socket that was handed over non-blocking may fail.\<close>

definition bufferevent_socket_new :: "('c, 'a) host \<Rightarrow> int \<Rightarrow> ('c, 'a) eb \<Rightarrow> (nat option \<times> ('c, 'a) eb) option" where
  "bufferevent_socket_new h fd w = do {
     (p, w) \<leftarrow> bev_new h fd w;
     (case p of
        Some a \<Rightarrow>
          if fd \<ge> 0 then
            (let (ok, w) = ask (connect_ok h) w in if ok then Some (p, w) else do { w \<leftarrow> bufferevent_free a w; Some (None, w) })
          else Some (p, w)
      | None \<Rightarrow> Some (p, w))
   }"

definition bufferevent_setcb :: "nat \<Rightarrow> 'c option \<Rightarrow> 'c option \<Rightarrow> 'c option \<Rightarrow> ('c, 'a) eb \<Rightarrow> ('c, 'a) eb option" where
  "bufferevent_setcb a rcb wcb ecb w = upd_bev a (\<lambda>b. b\<lparr>b_readcb := rcb, b_writecb := wcb, b_eventcb := ecb\<rparr>) w"

definition bufferevent_enable :: "('c, 'a) host \<Rightarrow> nat \<Rightarrow> u16 \<Rightarrow> ('c, 'a) eb \<Rightarrow> ('c, 'a) eb option" where
  "bufferevent_enable h a evs w =
     (let (now, w) = mini_now_us h w in
      upd_bev a (\<lambda>b. b\<lparr>b_enabled := b_enabled b OR evs,
        b_last_read := (if evs AND EV_READ \<noteq> 0 then now else b_last_read b),
        b_last_write := (if evs AND EV_WRITE \<noteq> 0 then now else b_last_write b)\<rparr>) w)"

definition bufferevent_disable :: "nat \<Rightarrow> u16 \<Rightarrow> ('c, 'a) eb \<Rightarrow> ('c, 'a) eb option" where
  "bufferevent_disable a evs w = upd_bev a (\<lambda>b. b\<lparr>b_enabled := b_enabled b AND NOT evs\<rparr>) w"

definition bufferevent_write :: "('c, 'a) host \<Rightarrow> nat \<Rightarrow> bytes \<Rightarrow> ('c, 'a) eb \<Rightarrow> (int \<times> ('c, 'a) eb) option" where
  "bufferevent_write h a d w =
     (let (ok, w) = ask (memory h) w in
      if \<not> ok then Some (-1, w) else do { w \<leftarrow> upd_bev a (\<lambda>b. b\<lparr>b_output := b_output b @ d\<rparr>) w; Some (0, w) })"

definition bufferevent_read :: "nat \<Rightarrow> nat \<Rightarrow> ('c, 'a) eb \<Rightarrow> (bytes \<times> ('c, 'a) eb) option" where
  "bufferevent_read a n w = do {
     b \<leftarrow> bev_obj w a;
     w \<leftarrow> upd_bev a (\<lambda>b. b\<lparr>b_input := drop n (b_input b)\<rparr>) w;
     Some (take n (b_input b), w)
   }"

definition bufferevent_getfd :: "nat \<Rightarrow> ('c, 'a) eb \<Rightarrow> int option" where
  "bufferevent_getfd a w = do { b \<leftarrow> bev_obj w a; Some (if b_ssl b then -1 else b_fd b) }"

definition mini_bev_set_ssl :: "('c, 'a) host \<Rightarrow> nat \<Rightarrow> ('c, 'a) eb \<Rightarrow> ('c, 'a) eb option" where
  "mini_bev_set_ssl h a w =
     (let (now, w) = mini_now_us h w in
      upd_bev a (\<lambda>b. b\<lparr>b_ssl := True, b_hs_done := False, b_hs_start := now, b_want_read := False, b_want_write := False,
        b_enabled := b_enabled b OR (EV_READ OR EV_WRITE)\<rparr>) w)"

definition bufferevent_set_timeouts ::
  "('c, 'a) host \<Rightarrow> nat \<Rightarrow> (int \<times> int) option \<Rightarrow> (int \<times> int) option \<Rightarrow> ('c, 'a) eb \<Rightarrow> ('c, 'a) eb option" where
  "bufferevent_set_timeouts h a rd wr w =
     (let (now, w) = mini_now_us h w in
      upd_bev a (\<lambda>b. b\<lparr>b_tv_read := (case rd of None \<Rightarrow> (0, 0) | Some tv \<Rightarrow> tv), b_tv_write := (case wr of None \<Rightarrow> (0, 0) | Some tv \<Rightarrow> tv),
        b_last_read := now, b_last_write := now\<rparr>) w)"

definition bufferevent_setwatermark :: "nat \<Rightarrow> u16 \<Rightarrow> nat \<Rightarrow> ('c, 'a) eb \<Rightarrow> ('c, 'a) eb option" where
  "bufferevent_setwatermark a evs low w = upd_bev a (\<lambda>b. if evs AND EV_READ \<noteq> 0 then b\<lparr>b_wm_read_low := low\<rparr> else b) w"

text \<open>\<open>connect_ok\<close> answers for making the socket non-blocking together with starting the connection.\<close>

definition bufferevent_socket_connect :: "('c, 'a) host \<Rightarrow> nat \<Rightarrow> ('c, 'a) eb \<Rightarrow> (int \<times> ('c, 'a) eb) option" where
  "bufferevent_socket_connect h a w = do {
     b \<leftarrow> bev_obj w a;
     (let (fd, w) = (if b_fd b < 0 then ask (socket_new h) w else (b_fd b, w)) in
      if fd < 0 then Some (-1, w)
      else do {
        w \<leftarrow> upd_bev a (\<lambda>b. b\<lparr>b_fd := fd\<rparr>) w;
        (let (ok, w) = ask (connect_ok h) w in
         if \<not> ok then Some (-1, w)
         else let (now, w) = mini_now_us h w in do {
           w \<leftarrow> upd_bev a (\<lambda>b. b\<lparr>b_connecting := True, b_connect_start := now, b_enabled := EV_READ OR EV_WRITE\<rparr>) w;
           Some (0, w)
         })
      })
   }"

section \<open>Serving a bufferevent\<close>

definition bev_call_eventcb :: "('c, 'a) host \<Rightarrow> nat \<Rightarrow> u16 \<Rightarrow> ('c, 'a) eb \<Rightarrow> ('c, 'a) eb option" where
  "bev_call_eventcb h a what w = do {
     b \<leftarrow> bev_obj w a;
     (case b_eventcb b of None \<Rightarrow> Some w | Some c \<Rightarrow> call h c (Happened a what) w)
   }"

definition bev_ssl_handshake :: "('c, 'a) host \<Rightarrow> nat \<Rightarrow> ('c, 'a) eb \<Rightarrow> ('c, 'a) eb option" where
  "bev_ssl_handshake h a w =
     (let ((rc, want_read, want_write), w) = ask (tls_handshake h) w in do {
        w \<leftarrow> upd_bev a (\<lambda>b. b\<lparr>b_want_read := want_read, b_want_write := want_write\<rparr>) w;
        if rc = 0 then
          (let (t1, w) = mini_now_us h w; (t2, w) = mini_now_us h w in do {
             w \<leftarrow> upd_bev a (\<lambda>b. b\<lparr>b_hs_done := True, b_last_read := t1, b_last_write := t2\<rparr>) w;
             bev_call_eventcb h a BEV_EVENT_CONNECTED w
           })
        else if rc > 0 \<and> (want_read \<or> want_write) then Some w
        else bev_call_eventcb h a BEV_EVENT_ERROR w
      })"

definition bev_check_connect :: "('c, 'a) host \<Rightarrow> nat \<Rightarrow> ('c, 'a) eb \<Rightarrow> ('c, 'a) eb option" where
  "bev_check_connect h a w = do {
     b \<leftarrow> bev_obj w a;
     (let (err, w) = ask (\<lambda>n. so_error h n (b_fd b)) w; (now, w) = mini_now_us h w in do {
        w \<leftarrow> upd_bev a (\<lambda>b. b\<lparr>b_last_read := now, b_last_write := now, b_connecting := False\<rparr>) w;
        if err \<noteq> 0 then bev_call_eventcb h a BEV_EVENT_ERROR w
        else do {
          w \<leftarrow> upd_bev a (\<lambda>b. b\<lparr>b_enabled := EV_READ OR EV_WRITE\<rparr>) w;
          if b_ssl b then
            (let (now, w) = mini_now_us h w in do {
               w \<leftarrow> upd_bev a (\<lambda>b. b\<lparr>b_hs_start := now\<rparr>) w;
               bev_ssl_handshake h a w
             })
          else bev_call_eventcb h a BEV_EVENT_CONNECTED w
        }
      })
   }"

text \<open>\<open>bev_linked(bev->base, bev)\<close> reads the field \<open>base\<close> of a bufferevent that may be gone.\<close>

definition linked_via :: "nat \<Rightarrow> ('c, 'a) eb \<Rightarrow> bool option" where
  "linked_via a w = do { b \<leftarrow> bev_obj w a; xs \<leftarrow> objects (bevs w); Some (a \<in> set xs) }"

text \<open>\<open>bev_linked(base, bev)\<close> only compares addresses.\<close>

definition bev_linked :: "nat \<Rightarrow> ('c, 'a) eb \<Rightarrow> bool option" where
  "bev_linked a w = do { xs \<leftarrow> objects (bevs w); Some (a \<in> set xs) }"

fun drive_from :: "('c, 'a) host \<Rightarrow> nat \<Rightarrow> nat \<Rightarrow> ('c, 'a) eb \<Rightarrow> ('c, 'a) eb option" where
  "drive_from h a 0 w = Some w"
| "drive_from h a (Suc n) w = do {
     b \<leftarrow> bev_obj w a;
     if b_hs_done b then Some w
     else do {
       w \<leftarrow> bev_ssl_handshake h a w;
       l \<leftarrow> linked_via a w;
       if \<not> l then Some w
       else do {
         b' \<leftarrow> bev_obj w a;
         if b_hs_done b' \<or> (b_want_read b' = b_want_read b \<and> b_want_write b' = b_want_write b) then Some w
         else drive_from h a n w
       }
     }
   }"

definition bev_ssl_drive_handshake :: "('c, 'a) host \<Rightarrow> nat \<Rightarrow> ('c, 'a) eb \<Rightarrow> ('c, 'a) eb option" where
  "bev_ssl_drive_handshake h a w = drive_from h a 8 w"

text \<open>What a read pass over a bufferevent ends with.\<close>

datatype read_end = Read_paused | Read_event u16

text \<open>One read from the socket or from the transport.\<close>

definition read_piece :: "('c, 'a) host \<Rightarrow> nat \<Rightarrow> 'c bufferevent \<Rightarrow> ('c, 'a) eb \<Rightarrow> (recv_result \<times> ('c, 'a) eb) option" where
  "read_piece h a b w =
     (if b_ssl b then
        (let ((r, want_read, want_write), w) = ask (tls_read h) w in do {
           w \<leftarrow> upd_bev a (\<lambda>b. b\<lparr>b_want_read := want_read, b_want_write := want_write\<rparr>) w;
           Some (case r of Tls_eof \<Rightarrow> Received [] | Tls_error \<Rightarrow> Recv_error
                   | Tls_data d \<Rightarrow> if d = [] then Recv_EAGAIN else Received (take MINI_RECV_CHUNK d), w)
         })
      else let (r, w) = ask (\<lambda>n. recv_from h n (b_fd b)) w in
        Some (case r of Received d \<Rightarrow> Received (take MINI_RECV_CHUNK d) | _ \<Rightarrow> r, w))"

text \<open>The loop; an interrupted read is repeated. A piece that finds no memory is dropped, and counts as got.\<close>

partial_function (option) read_pieces ::
  "('c, 'a) host \<Rightarrow> nat \<Rightarrow> nat \<Rightarrow> ('c, 'a) eb \<Rightarrow> (read_end \<times> nat \<times> ('c, 'a) eb) option" where
  "read_pieces h a got w = do {
     b \<leftarrow> bev_obj w a;
     (r, w) \<leftarrow> read_piece h a b w;
     (case r of
        Recv_EINTR \<Rightarrow> read_pieces h a got w
      | Recv_EAGAIN \<Rightarrow> Some (Read_paused, got, w)
      | Recv_error \<Rightarrow> Some (Read_event BEV_EVENT_ERROR, got, w)
      | Received d \<Rightarrow>
          if d = [] then Some (Read_event BEV_EVENT_EOF, got, w)
          else let (ok, w) = ask (memory h) w; (now, w) = mini_now_us h w in do {
            w \<leftarrow> upd_bev a (\<lambda>b. b\<lparr>b_input := (if ok then b_input b @ d else b_input b), b_last_read := now\<rparr>) w;
            if got + length d \<ge> MINI_RECV_MAX_PER_LOOP then Some (Read_paused, got + length d, w)
            else read_pieces h a (got + length d) w
          })
   }"

definition bev_read_input :: "('c, 'a) host \<Rightarrow> nat \<Rightarrow> ('c, 'a) eb \<Rightarrow> ('c, 'a) eb option" where
  "bev_read_input h a w = do {
     (e, got, w) \<leftarrow> read_pieces h a 0 w;
     (case e of
        Read_event what \<Rightarrow> bev_call_eventcb h a what w
      | Read_paused \<Rightarrow> do {
          b \<leftarrow> bev_obj w a;
          (case b_readcb b of
             Some c \<Rightarrow> if got > 0 \<and> b_enabled b AND EV_READ \<noteq> 0 \<and> length (b_input b) \<ge> b_wm_read_low b
                        then call h c (Readable a) w else Some w
           | None \<Rightarrow> Some w)
        })
   }"

definition bev_ssl_apply_backlog :: "('c, 'a) host \<Rightarrow> nat \<Rightarrow> ('c, 'a) eb \<Rightarrow> ('c, 'a) eb option" where
  "bev_ssl_apply_backlog h a w = (if tls_pending h (calls w) \<le> 0 then Some w else bev_read_input h a w)"

datatype write_end = Write_paused | Write_failed

text \<open>One write: \<open>Sent_bytes 0\<close> is the lack of progress that ends the loop.\<close>

definition write_piece :: "('c, 'a) host \<Rightarrow> nat \<Rightarrow> 'c bufferevent \<Rightarrow> ('c, 'a) eb \<Rightarrow> (sent_result \<times> ('c, 'a) eb) option" where
  "write_piece h a b w =
     (if b_ssl b then
        (let ((rc, taken, want_read, want_write), w) = ask (\<lambda>n. tls_write h n (b_output b)) w;
             (now, w) = (if taken > 0 then mini_now_us h w else (b_last_write b, w)) in do {
           w \<leftarrow> upd_bev a (\<lambda>b. b\<lparr>b_want_read := want_read, b_want_write := want_write, b_last_write := now\<rparr>) w;
           Some (if rc \<noteq> 0 then if want_read \<or> want_write then Sent_EAGAIN else Sent_error
                 else Sent_bytes taken, w)
         })
      else let (r, w) = ask (\<lambda>n. send_to h n (b_fd b) (b_output b)) w in
        (case r of
           Sent_bytes k \<Rightarrow>
             if k > 0 then let (now, w) = mini_now_us h w in do {
               w \<leftarrow> upd_bev a (\<lambda>b. b\<lparr>b_last_write := now\<rparr>) w;
               Some (Sent_bytes k, w)
             }
             else Some (Sent_bytes 0, w)
         | _ \<Rightarrow> Some (r, w)))"

partial_function (option) write_pieces ::
  "('c, 'a) host \<Rightarrow> nat \<Rightarrow> ('c, 'a) eb \<Rightarrow> (write_end \<times> ('c, 'a) eb) option" where
  "write_pieces h a w = do {
     b \<leftarrow> bev_obj w a;
     if b_output b = [] then Some (Write_paused, w)
     else do {
       (r, w) \<leftarrow> write_piece h a b w;
       (case r of
          Sent_EINTR \<Rightarrow> write_pieces h a w
        | Sent_EAGAIN \<Rightarrow> Some (Write_paused, w)
        | Sent_error \<Rightarrow> Some (Write_failed, w)
        | Sent_bytes k \<Rightarrow>
            if k = 0 then Some (Write_paused, w)
            else do { w \<leftarrow> upd_bev a (\<lambda>b. b\<lparr>b_output := drop k (b_output b)\<rparr>) w; write_pieces h a w })
     }
   }"

definition bev_flush_output :: "('c, 'a) host \<Rightarrow> nat \<Rightarrow> ('c, 'a) eb \<Rightarrow> ('c, 'a) eb option" where
  "bev_flush_output h a w = do {
     (e, w) \<leftarrow> write_pieces h a w;
     (case e of
        Write_failed \<Rightarrow> bev_call_eventcb h a BEV_EVENT_ERROR w
      | Write_paused \<Rightarrow> do {
          b \<leftarrow> bev_obj w a;
          (case b_writecb b of
             Some c \<Rightarrow> if b_output b = [] \<and> b_enabled b AND EV_WRITE \<noteq> 0 then call h c (Written a) w else Some w
           | None \<Rightarrow> Some w)
        })
   }"

definition check_write_timeout :: "('c, 'a) host \<Rightarrow> int \<Rightarrow> nat \<Rightarrow> ('c, 'a) eb \<Rightarrow> ('c, 'a) eb option" where
  "check_write_timeout h now a w = do {
     b \<leftarrow> bev_obj w a;
     (let wr = tv_to_us (b_tv_write b) in
      if b_enabled b AND EV_WRITE \<noteq> 0 \<and> wr > 0 \<and> b_output b \<noteq> [] \<and> now - b_last_write b \<ge> wr then do {
        w \<leftarrow> upd_bev a (\<lambda>b. b\<lparr>b_last_write := now\<rparr>) w;
        bev_call_eventcb h a (BEV_EVENT_TIMEOUT OR BEV_EVENT_WRITING) w
      }
      else Some w)
   }"

definition bev_check_timeouts :: "('c, 'a) host \<Rightarrow> nat \<Rightarrow> ('c, 'a) eb \<Rightarrow> ('c, 'a) eb option" where
  "bev_check_timeouts h a w =
     (let (now, w) = mini_now_us h w in do {
        b \<leftarrow> bev_obj w a;
        (let rd = tv_to_us (b_tv_read b); wr = tv_to_us (b_tv_write b) in
         if b_connecting b then
           (if wr > 0 \<and> now - b_connect_start b \<ge> wr then do {
              w \<leftarrow> upd_bev a (\<lambda>b. b\<lparr>b_connecting := False\<rparr>) w;
              bev_call_eventcb h a (BEV_EVENT_TIMEOUT OR BEV_EVENT_WRITING) w
            }
            else Some w)
         else if b_ssl b \<and> \<not> b_hs_done b then
           (if now - b_hs_start b \<ge> MINI_TLS_HANDSHAKE_TIMEOUT_S * 1000000
            then bev_call_eventcb h a (BEV_EVENT_TIMEOUT OR BEV_EVENT_WRITING) w else Some w)
         else if b_enabled b AND EV_READ \<noteq> 0 \<and> rd > 0 \<and> now - b_last_read b \<ge> rd then do {
           w \<leftarrow> upd_bev a (\<lambda>b. b\<lparr>b_last_read := now\<rparr>) w;
           w \<leftarrow> bev_call_eventcb h a (BEV_EVENT_TIMEOUT OR BEV_EVENT_READING) w;
           l \<leftarrow> linked_via a w;
           if \<not> l then Some w else check_write_timeout h now a w
         }
         else check_write_timeout h now a w)
      })"

section \<open>The loop\<close>

text \<open>The descriptors that \<open>select\<close> is asked for.\<close>

definition wants :: "('c, 'a) host \<Rightarrow> nat \<Rightarrow> 'c bufferevent \<Rightarrow> bool \<times> bool" where
  "wants h n b =
     (if b_fd b < 0 then (False, False)
      else if b_connecting b then (False, True)
      else if b_ssl b \<and> \<not> b_hs_done b then (b_want_read b \<or> \<not> b_want_write b, b_want_write b \<or> \<not> b_want_read b)
      else (b_enabled b AND EV_READ \<noteq> 0 \<or> (b_ssl b \<and> (b_want_read b \<or> tls_pending h n > 0)),
            b_enabled b AND EV_WRITE \<noteq> 0 \<and> (b_output b \<noteq> [] \<or> b_want_write b)))"

fun select_sets :: "('c, 'a) host \<Rightarrow> nat list \<Rightarrow> ('c, 'a) eb \<Rightarrow> (int list \<times> int list) option" where
  "select_sets h [] w = Some ([], [])"
| "select_sets h (a # xs) w = do {
     b \<leftarrow> bev_obj w a;
     (rs, ws) \<leftarrow> select_sets h xs w;
     (let (r, v) = wants h (calls w) b in Some (if r then b_fd b # rs else rs, if v then b_fd b # ws else ws))
   }"

fun next_expire :: "nat list \<Rightarrow> int \<Rightarrow> ('c, 'a) eb \<Rightarrow> int option" where
  "next_expire [] e w = Some e"
| "next_expire (a # xs) e w = do {
     ev \<leftarrow> ev_obj w a;
     next_expire xs (if ev_pending ev \<and> (e < 0 \<or> ev_expire ev < e) then ev_expire ev else e) w
   }"

text \<open>How long \<open>select\<close> may wait.\<close>

definition wait_us :: "int \<Rightarrow> int \<Rightarrow> int" where
  "wait_us expire now =
     (let wait = 100 * 1000 in
      if expire \<ge> 0 then let until = (if expire - now < 0 then 0 else expire - now) in (if until < wait then until else wait)
      else wait)"

text \<open>The first linked timer that is due.\<close>

fun find_due :: "int \<Rightarrow> nat list \<Rightarrow> ('c, 'a) eb \<Rightarrow> nat option option" where
  "find_due now [] w = Some None"
| "find_due now (a # xs) w = do {
     ev \<leftarrow> ev_obj w a;
     if ev_pending ev \<and> ev_expire ev \<le> now then Some (Some a) else find_due now xs w
   }"

definition fire :: "('c, 'a) host \<Rightarrow> nat \<Rightarrow> ('c, 'a) eb \<Rightarrow> ('c, 'a) eb option" where
  "fire h a w = do {
     ev \<leftarrow> ev_obj w a;
     (let w = w\<lparr>ev_obj := (ev_obj w)(a \<mapsto> ev\<lparr>ev_pending := False\<rparr>)\<rparr> in
      case ev_cb ev of None \<Rightarrow> Some w | Some c \<Rightarrow> call h c Timed_out w)
   }"

text \<open>The scan starts again after every callback, until no timer is due.\<close>

partial_function (option) fire_timers :: "('c, 'a) host \<Rightarrow> int \<Rightarrow> ('c, 'a) eb \<Rightarrow> ('c, 'a) eb option" where
  "fire_timers h now w = do {
     xs \<leftarrow> objects (events w);
     d \<leftarrow> find_due now xs w;
     (case d of None \<Rightarrow> Some w | Some a \<Rightarrow> do { w \<leftarrow> fire h a w; fire_timers h now w })
   }"

definition continue_if_linked ::
  "nat \<Rightarrow> (('c, 'a) eb \<Rightarrow> ('c, 'a) eb option) \<Rightarrow> ('c, 'a) eb \<Rightarrow> ('c, 'a) eb option" where
  "continue_if_linked a f w = do { l \<leftarrow> bev_linked a w; if l then f w else Some w }"

definition serve_handshake :: "('c, 'a) host \<Rightarrow> nat \<Rightarrow> ('c, 'a) eb \<Rightarrow> ('c, 'a) eb option" where
  "serve_handshake h a w = do {
     w \<leftarrow> bev_ssl_drive_handshake h a w;
     continue_if_linked a (\<lambda>w. do {
       b \<leftarrow> bev_obj w a;
       if b_hs_done b then do {
         w \<leftarrow> bev_flush_output h a w;
         continue_if_linked a (\<lambda>w. do {
           w \<leftarrow> bev_ssl_apply_backlog h a w;
           continue_if_linked a (bev_check_timeouts h a) w
         }) w
       }
       else bev_check_timeouts h a w
     }) w
   }"

text \<open>\<open>rs\<close> and \<open>ws\<close> are the descriptors that \<open>select\<close> left in its sets. \<open>connecting\<close> is read again after every step.\<close>

definition serve_io :: "('c, 'a) host \<Rightarrow> int list \<Rightarrow> int list \<Rightarrow> nat \<Rightarrow> ('c, 'a) eb \<Rightarrow> ('c, 'a) eb option" where
  "serve_io h rs ws a w = do {
     b \<leftarrow> bev_obj w a;
     w \<leftarrow> (if \<not> b_connecting b \<and> b_fd b \<in> set rs then bev_read_input h a w else Some w);
     continue_if_linked a (\<lambda>w. do {
       b \<leftarrow> bev_obj w a;
       w \<leftarrow> (if \<not> b_connecting b \<and> b_fd b \<in> set ws then bev_flush_output h a w else Some w);
       continue_if_linked a (bev_check_timeouts h a) w
     }) w
   }"

definition serve :: "('c, 'a) host \<Rightarrow> int list \<Rightarrow> int list \<Rightarrow> nat \<Rightarrow> ('c, 'a) eb \<Rightarrow> ('c, 'a) eb option" where
  "serve h rs ws a w = do {
     b \<leftarrow> bev_obj w a;
     l \<leftarrow> bev_linked a w;
     if b_fd b < 0 \<or> \<not> l then Some w
     else if b_connecting b \<and> b_fd b \<in> set ws then bev_check_connect h a w
     else if \<not> b_connecting b \<and> b_ssl b \<and> \<not> b_hs_done b then serve_handshake h a w
     else serve_io h rs ws a w
   }"

text \<open>The pass over the bufferevents follows \<open>next\<close> pointers that were read before the callbacks ran.\<close>

partial_function (option) bev_pass ::
  "('c, 'a) host \<Rightarrow> int list \<Rightarrow> int list \<Rightarrow> nat option \<Rightarrow> ('c, 'a) eb \<Rightarrow> ('c, 'a) eb option" where
  "bev_pass h rs ws p w =
     (case p of
        None \<Rightarrow> Some w
      | Some a \<Rightarrow> do {
          n \<leftarrow> dl_node (bevs w) a;
          w \<leftarrow> serve h rs ws a w;
          bev_pass h rs ws (nd_next n) w
        })"

text \<open>One round; the first result is the return value of \<open>event_base_dispatch\<close> when it returns. Whether it was
  asked to stop is looked at before the round, after waiting and after the timers.\<close>

definition stopping :: "('c, 'a) eb \<Rightarrow> bool" where
  "stopping w \<longleftrightarrow> break_flag w \<or> stop_flag w"

definition serve_all :: "('c, 'a) host \<Rightarrow> int list \<Rightarrow> int list \<Rightarrow> ('c, 'a) eb \<Rightarrow> (int option \<times> ('c, 'a) eb) option" where
  "serve_all h rs ws w =
     (let (now, w) = mini_now_us h w in
      if stopping w then Some (Some 0, w)
      else do {
        w \<leftarrow> fire_timers h now w;
        if stopping w then Some (Some 0, w)
        else do { w \<leftarrow> bev_pass h rs ws (dl_head (bevs w)) w; Some (None, w) }
      })"

definition loop_round :: "('c, 'a) host \<Rightarrow> ('c, 'a) eb \<Rightarrow> (int option \<times> ('c, 'a) eb) option" where
  "loop_round h w =
     (if stopping w then Some (Some 0, w)
      else let (now, w) = mini_now_us h w in do {
        xs \<leftarrow> objects (bevs w);
        (rs, ws) \<leftarrow> select_sets h xs w;
        evs \<leftarrow> objects (events w);
        e \<leftarrow> next_expire evs (-1) w;
        if rs = [] \<and> ws = [] \<and> e < 0 then Some (Some 1, w)
        else let ((rready, wready), w) = ask (\<lambda>n. ready h n (wait_us e now)) w in serve_all h (filter rready rs) (filter wready ws) w
      })"

partial_function (option) dispatch_rounds :: "('c, 'a) host \<Rightarrow> ('c, 'a) eb \<Rightarrow> (int \<times> ('c, 'a) eb) option" where
  "dispatch_rounds h w = do {
     (r, w) \<leftarrow> loop_round h w;
     (case r of Some rc \<Rightarrow> Some (rc, w) | None \<Rightarrow> dispatch_rounds h w)
   }"

definition event_base_dispatch :: "('c, 'a) host \<Rightarrow> ('c, 'a) eb \<Rightarrow> (int \<times> ('c, 'a) eb) option" where
  "event_base_dispatch h w = dispatch_rounds h (w\<lparr>break_flag := False\<rparr>)"

section \<open>Well-formed bases\<close>

text \<open>The lists hold objects that exist, a pending timer is linked, and addresses are not used twice.\<close>

definition base_ok :: "('c, 'a) eb \<Rightarrow> bool" where
  "base_ok w \<longleftrightarrow> (\<exists>es. holds (events w) es \<and> (\<forall>a ev. ev_obj w a = Some ev \<longrightarrow> ev_pending ev \<longrightarrow> a \<in> set es)) \<and> (\<exists>bs. holds (bevs w) bs) \<and>
     allocated (events w) = dom (ev_obj w) \<and> allocated (bevs w) = dom (bev_obj w) \<and>
     (\<forall>a \<in> dom (ev_obj w) \<union> dom (bev_obj w). a < next_obj w)"

definition timers :: "('c, 'a) eb \<Rightarrow> nat list" where
  "timers w = the (objects (events w))"

definition connections :: "('c, 'a) eb \<Rightarrow> nat list" where
  "connections w = the (objects (bevs w))"

lemma timers_eq: "holds (events w) es \<Longrightarrow> timers w = es"
  by (simp add: timers_def il.objects)

lemma connections_eq: "holds (bevs w) bs \<Longrightarrow> connections w = bs"
  by (simp add: connections_def il.objects)

lemma base_ok_iff:
  "base_ok w \<longleftrightarrow> holds (events w) (timers w) \<and> (\<forall>a ev. ev_obj w a = Some ev \<longrightarrow> ev_pending ev \<longrightarrow> a \<in> set (timers w)) \<and>
     holds (bevs w) (connections w) \<and> allocated (events w) = dom (ev_obj w) \<and> allocated (bevs w) = dom (bev_obj w) \<and>
     (\<forall>a \<in> dom (ev_obj w) \<union> dom (bev_obj w). a < next_obj w)" (is "_ = ?r")
proof
  assume "base_ok w"
  then obtain es bs where "holds (events w) es" "holds (bevs w) bs" by (auto simp: base_ok_def)
  with \<open>base_ok w\<close> timers_eq [of w es] connections_eq [of w bs] holds_unique [of "events w"] show ?r by (auto simp: base_ok_def)
qed (auto simp: base_ok_def)

lemma ask_simps [simp]:
  "fst (ask f w) = f (calls w)" "snd (ask f w) = w\<lparr>calls := Suc (calls w)\<rparr>" "mini_now_us h w = (clock h (calls w), w\<lparr>calls := Suc (calls w)\<rparr>)"
  by (simp_all add: ask_def mini_now_us_def)

lemma same_lists [simp]:
  "timers (w\<lparr>calls := n\<rparr>) = timers w" "timers (w\<lparr>app := x\<rparr>) = timers w" "timers (w\<lparr>ev_obj := eo\<rparr>) = timers w"
  "timers (w\<lparr>bev_obj := bo\<rparr>) = timers w" "timers (w\<lparr>bevs := L\<rparr>) = timers w" "timers (w\<lparr>next_obj := n\<rparr>) = timers w"
  "timers (w\<lparr>break_flag := f\<rparr>) = timers w"
  "connections (w\<lparr>calls := n\<rparr>) = connections w" "connections (w\<lparr>app := x\<rparr>) = connections w" "connections (w\<lparr>ev_obj := eo\<rparr>) = connections w"
  "connections (w\<lparr>bev_obj := bo\<rparr>) = connections w" "connections (w\<lparr>events := L\<rparr>) = connections w"
  "connections (w\<lparr>next_obj := n\<rparr>) = connections w" "connections (w\<lparr>break_flag := f\<rparr>) = connections w"
  by (simp_all add: timers_def connections_def)

lemma base_ok_simps [simp]:
  "base_ok (w\<lparr>calls := n\<rparr>) = base_ok w" "base_ok (w\<lparr>app := x\<rparr>) = base_ok w" "base_ok (w\<lparr>break_flag := f\<rparr>) = base_ok w"
  by (simp_all add: base_ok_def)

lemma new_base_ok:
  assumes "w = event_base_new x"
  shows "base_ok w \<and> timers w = [] \<and> connections w = []"
proof -
  have l: "holds (events w) []" "holds (bevs w) []" using holds_empty assms by (simp_all add: event_base_new_def)
  then show ?thesis unfolding base_ok_iff timers_eq [OF l(1)] connections_eq [OF l(2)]
    using assms by (simp add: allocated_def event_base_new_def)
qed

text \<open>Timers.\<close>

lemma event_new_spec:
  assumes "base_ok w" "memory h (calls w)"
  shows "\<exists>w'. event_new h base cb w = (Some (next_obj w), w') \<and> base_ok w' \<and> timers w' = timers w \<and>
    connections w' = connections w \<and> bev_obj w' = bev_obj w \<and> app w' = app w \<and> calls w' = Suc (calls w) \<and>
    ev_obj w' = (ev_obj w)(next_obj w \<mapsto> \<lparr>ev_base = base, ev_cb = cb, ev_expire = 0, ev_pending = False\<rparr>)"
proof -
  let ?a = "next_obj w"
  have n: "?a \<notin> allocated (events w)" using assms(1) by (auto simp: base_ok_iff)
  then have L: "holds (dl_alloc ?a (events w)) (timers w)" "allocated (dl_alloc ?a (events w)) = insert ?a (dom (ev_obj w))"
    using il.alloc [of "events w" "timers w" ?a] assms(1) by (auto simp: base_ok_iff)
  let ?w = "w\<lparr>calls := Suc (calls w), next_obj := Suc ?a, events := dl_alloc ?a (events w),
    ev_obj := (ev_obj w)(?a \<mapsto> \<lparr>ev_base = base, ev_cb = cb, ev_expire = 0, ev_pending = False\<rparr>)\<rparr>"
  have e: "event_new h base cb w = (Some ?a, ?w)" using assms(2) by (simp add: event_new_def ask_def Let_def)
  have t: "timers ?w = timers w" by (rule timers_eq) (use L(1) in simp)
  have "base_ok ?w" unfolding base_ok_iff t using assms(1) L n by (auto simp: base_ok_iff less_SucI)
  with e t show ?thesis by auto
qed

lemma event_add_spec:
  assumes "base_ok w" "ev_obj w a = Some ev" "ev_base ev"
  shows "\<exists>w'. event_add h a (Some tv) w = Some (0, w') \<and> base_ok w' \<and>
    timers w' = (if a \<in> set (timers w) then timers w else a # timers w) \<and>
    connections w' = connections w \<and> bev_obj w' = bev_obj w \<and> app w' = app w \<and> calls w' = Suc (calls w) \<and> next_obj w' = next_obj w \<and>
    ev_obj w' = (ev_obj w)(a \<mapsto> ev\<lparr>ev_expire := clock h (calls w) + tv_to_us tv, ev_pending := True\<rparr>)"
proof -
  obtain L where L: "(if is_linked a (events w) then Some (events w) else link_front a (events w)) = Some L"
    "holds L (if a \<in> set (timers w) then timers w else a # timers w)" "allocated L = allocated (events w)"
    using il.ensure [of "events w" "timers w" a] assms by (auto simp: base_ok_iff)
  let ?w = "w\<lparr>calls := Suc (calls w), ev_obj := (ev_obj w)(a \<mapsto> ev\<lparr>ev_expire := clock h (calls w) + tv_to_us tv, ev_pending := True\<rparr>), events := L\<rparr>"
  have e: "event_add h a (Some tv) w = Some (0, ?w)" using assms L(1) by (cases "is_linked a (events w)") (auto simp: event_add_def Let_def)
  have t: "timers ?w = (if a \<in> set (timers w) then timers w else a # timers w)" by (rule timers_eq) (use L(2) in simp)
  have "base_ok ?w" unfolding base_ok_iff t using assms L by (auto simp: base_ok_iff)
  with e t show ?thesis by auto
qed

lemma event_del_spec:
  assumes "base_ok w" "ev_obj w a = Some ev"
  shows "\<exists>w'. event_del a w = Some (0, w') \<and> base_ok w' \<and> timers w' = remove1 a (timers w) \<and> connections w' = connections w \<and>
    bev_obj w' = bev_obj w \<and> app w' = app w \<and> calls w' = calls w \<and> next_obj w' = next_obj w \<and> ev_obj w' = (ev_obj w)(a \<mapsto> ev\<lparr>ev_pending := False\<rparr>)"
proof -
  obtain L where L: "unlink a (events w) = Some L" "holds L (remove1 a (timers w))" "allocated L = allocated (events w)"
    using il.remove [of "events w" "timers w" a] assms by (auto simp: base_ok_iff)
  let ?w = "w\<lparr>ev_obj := (ev_obj w)(a \<mapsto> ev\<lparr>ev_pending := False\<rparr>), events := L\<rparr>"
  have e: "event_del a w = Some (0, ?w)" using assms L(1) by (simp add: event_del_def)
  have t: "timers ?w = remove1 a (timers w)" by (rule timers_eq) (use L(2) in simp)
  have d: "distinct (timers w)" using assms(1) il.nodup by (auto simp: base_ok_iff)
  have "base_ok ?w" unfolding base_ok_iff t using assms L d by (auto simp: base_ok_iff)
  with e t show ?thesis by auto
qed

lemma event_free_spec:
  assumes "base_ok w" "ev_obj w a = Some ev"
  shows "\<exists>w'. event_free a w = Some w' \<and> base_ok w' \<and> timers w' = remove1 a (timers w) \<and> connections w' = connections w \<and>
    bev_obj w' = bev_obj w \<and> app w' = app w \<and> calls w' = calls w \<and> next_obj w' = next_obj w \<and> ev_obj w' = (ev_obj w)(a := None)"
proof -
  obtain w1 where w1: "event_del a w = Some (0, w1)" "base_ok w1" "timers w1 = remove1 a (timers w)" "connections w1 = connections w"
    "bev_obj w1 = bev_obj w" "app w1 = app w" "calls w1 = calls w" "next_obj w1 = next_obj w" "ev_obj w1 = (ev_obj w)(a \<mapsto> ev\<lparr>ev_pending := False\<rparr>)"
    using event_del_spec [OF assms] by blast
  let ?L = "dl_release a (events w1)"
  have d: "a \<notin> set (timers w1)" using assms(1) il.nodup w1(3) by (auto simp: base_ok_iff)
  have L: "holds ?L (timers w1)" "allocated ?L = allocated (events w1) - {a}"
    using il.release [of "events w1" "timers w1" a] d w1(2) by (auto simp: base_ok_iff)
  let ?w = "w1\<lparr>ev_obj := (ev_obj w1)(a := None), events := ?L\<rparr>"
  have t: "timers ?w = timers w1" by (rule timers_eq) (use L(1) in simp)
  have "base_ok ?w" unfolding base_ok_iff t using w1(2) L d by (auto simp: base_ok_iff)
  with w1 t show ?thesis by (auto simp: event_free_def)
qed

text \<open>Bufferevents.\<close>

lemma bufferevent_free_spec:
  assumes "base_ok w" "bev_obj w a = Some b"
  shows "\<exists>w'. bufferevent_free a w = Some w' \<and> base_ok w' \<and> connections w' = remove1 a (connections w) \<and> timers w' = timers w \<and>
    ev_obj w' = ev_obj w \<and> app w' = app w \<and> calls w' = calls w \<and> next_obj w' = next_obj w \<and> bev_obj w' = (bev_obj w)(a := None)"
proof -
  obtain L where L: "map_option (dl_release a) (unlink a (bevs w)) = Some L" "holds L (remove1 a (connections w))" "allocated L = allocated (bevs w) - {a}"
    using il.destroy [of "bevs w" "connections w" a] assms by (auto simp: base_ok_iff)
  let ?w = "w\<lparr>bevs := L, bev_obj := (bev_obj w)(a := None)\<rparr>"
  have e: "bufferevent_free a w = Some ?w" using assms L(1) by (auto simp: bufferevent_free_def)
  have t: "connections ?w = remove1 a (connections w)" by (rule connections_eq) (use L(2) in simp)
  have "base_ok ?w" unfolding base_ok_iff t using assms L by (auto simp: base_ok_iff)
  with e t show ?thesis by auto
qed

lemma bev_new_spec:
  assumes "base_ok w" "memory h (calls w)" "memory h (Suc (calls w))" "memory h (Suc (Suc (calls w)))"
  shows "\<exists>w'. bev_new h fd w = Some (Some (next_obj w), w') \<and> base_ok w' \<and> connections w' = next_obj w # connections w \<and>
    timers w' = timers w \<and> ev_obj w' = ev_obj w \<and> app w' = app w \<and> calls w' = calls w + 4 \<and>
    bev_obj w' = (bev_obj w)(next_obj w \<mapsto> fresh_bev fd (clock h (calls w + 3)))"
proof -
  let ?a = "next_obj w"
  have n: "?a \<notin> allocated (bevs w)" using assms(1) by (auto simp: base_ok_iff)
  obtain L where L: "link_front ?a (dl_alloc ?a (bevs w)) = Some L" "holds L (?a # connections w)" "allocated L = insert ?a (allocated (bevs w))"
    using il.create [of "bevs w" "connections w" ?a] n assms(1) by (auto simp: base_ok_iff)
  let ?w = "w\<lparr>calls := calls w + 4, next_obj := Suc ?a, bevs := L, bev_obj := (bev_obj w)(?a \<mapsto> fresh_bev fd (clock h (calls w + 3)))\<rparr>"
  have e: "bev_new h fd w = Some (Some ?a, ?w)" using assms L(1) by (simp add: bev_new_def ask_def Let_def numeral_Bit0 numeral_Bit1)
  have t: "connections ?w = ?a # connections w" by (rule connections_eq) (use L(2) in simp)
  have "base_ok ?w" unfolding base_ok_iff t using assms(1) L by (auto simp: base_ok_iff less_SucI)
  with e t show ?thesis by auto
qed

text \<open>Changing fields of a bufferevent.\<close>

lemma upd_bev_spec:
  assumes "base_ok w" "bev_obj w a = Some b"
  shows "upd_bev a f w = Some (w\<lparr>bev_obj := (bev_obj w)(a \<mapsto> f b)\<rparr>) \<and> base_ok (w\<lparr>bev_obj := (bev_obj w)(a \<mapsto> f b)\<rparr>)"
  using assms by (auto simp: upd_bev_def base_ok_iff)

lemma upd_bev_frame:
  "upd_bev a f w = Some w' \<Longrightarrow> timers w' = timers w \<and> connections w' = connections w \<and> ev_obj w' = ev_obj w \<and> app w' = app w \<and>
    calls w' = calls w \<and> events w' = events w \<and> bevs w' = bevs w"
  by (auto simp: upd_bev_def bind_eq_Some_conv)

section \<open>The timers of a round\<close>

definition due :: "int \<Rightarrow> ('c, 'a) eb \<Rightarrow> nat set" where
  "due now w = {a. \<exists>ev. ev_obj w a = Some ev \<and> ev_pending ev \<and> ev_expire ev \<le> now}"

definition disarmed :: "nat \<Rightarrow> ('c, 'a) eb \<Rightarrow> ('c, 'a) eb" where
  "disarmed a w = w\<lparr>ev_obj := (ev_obj w)(a := map_option (\<lambda>ev. ev\<lparr>ev_pending := False\<rparr>) (ev_obj w a))\<rparr>"

lemma due_finite: "base_ok w \<Longrightarrow> finite (due now w)"
  by (rule finite_subset [of _ "set (timers w)"]) (auto simp: due_def base_ok_iff)

lemma find_due_result:
  "set xs \<subseteq> dom (ev_obj w) \<Longrightarrow> find_due now xs w = Some (find (\<lambda>a. a \<in> due now w) xs)"
  by (induction xs) (auto simp: due_def)

lemma find_due_timers:
  assumes "base_ok w"
  shows "\<exists>d. objects (events w) = Some (timers w) \<and> find_due now (timers w) w = Some d \<and>
    (case d of None \<Rightarrow> due now w = {} | Some a \<Rightarrow> a \<in> due now w)"
proof -
  have "set (timers w) \<subseteq> allocated (events w)" using assms il.nodup [of "events w" "timers w"] by (simp add: base_ok_iff)
  then have "set (timers w) \<subseteq> dom (ev_obj w)" using assms by (simp add: base_ok_iff)
  moreover have "due now w \<subseteq> set (timers w)" using assms by (auto simp: due_def base_ok_iff)
  moreover have "objects (events w) = Some (timers w)" using assms il.objects by (simp add: base_ok_iff)
  ultimately show ?thesis using find_due_result [of "timers w" w now]
    by (cases "find (\<lambda>a. a \<in> due now w) (timers w)") (auto simp: find_None_iff find_Some_iff)
qed

lemma disarmed_ok: "base_ok w \<Longrightarrow> base_ok (disarmed a w) \<and> due now (disarmed a w) = due now w - {a}"
  by (auto simp: disarmed_def base_ok_iff due_def domIff split: if_splits)

text \<open>Callbacks of timers that keep an invariant and, like every callback of a one-shot timer, arm timers only for
  later than the moment the round looks at.\<close>

locale timer_callbacks =
  fixes h :: "('c, 'a) host" and inv :: "('c, 'a) eb \<Rightarrow> bool"
  assumes disarm: "inv w \<Longrightarrow> inv (disarmed a w)"
    and callback: "base_ok w \<Longrightarrow> inv w \<Longrightarrow> ev_obj w a = Some ev \<Longrightarrow> ev_cb ev = Some c \<Longrightarrow> now \<le> clock h (calls w) \<Longrightarrow>
      \<exists>w'. call h c Timed_out w = Some w' \<and> base_ok w' \<and> inv w' \<and> now \<le> clock h (calls w') \<and> due now w' \<subseteq> due now w"
begin

lemma fire_ok:
  assumes "base_ok w" "inv w" "a \<in> due now w" "now \<le> clock h (calls w)"
  shows "\<exists>w'. fire h a w = Some w' \<and> base_ok w' \<and> inv w' \<and> now \<le> clock h (calls w') \<and> due now w' \<subseteq> due now w - {a}"
proof -
  obtain ev where ev: "ev_obj w a = Some ev" using assms(3) by (auto simp: due_def)
  let ?w = "disarmed a w"
  have w: "base_ok ?w" "due now ?w = due now w - {a}" "inv ?w" "calls ?w = calls w" "ev_obj ?w a = Some (ev\<lparr>ev_pending := False\<rparr>)"
    using disarmed_ok [OF assms(1), of a now] disarm [OF assms(2), of a] ev by (simp_all, simp_all add: disarmed_def)
  have f: "fire h a w = (case ev_cb ev of None \<Rightarrow> Some ?w | Some c \<Rightarrow> call h c Timed_out ?w)"
    using ev by (cases "ev_cb ev") (simp_all add: fire_def disarmed_def)
  show ?thesis
  proof (cases "ev_cb ev")
    case (Some c)
    obtain w' where "call h c Timed_out ?w = Some w'" "base_ok w'" "inv w'" "now \<le> clock h (calls w')" "due now w' \<subseteq> due now ?w"
      using callback [OF w(1,3,5), of c now] assms(4) w(4) Some by auto
    then show ?thesis using f Some w(2) by auto
  next
    case None
    then show ?thesis using f w assms(4) by simp
  qed
qed

text \<open>The scan of the timers ends, and then no timer is due.\<close>

lemma timers_end:
  assumes "base_ok w" "inv w" "now \<le> clock h (calls w)"
  shows "\<exists>w'. fire_timers h now w = Some w' \<and> base_ok w' \<and> inv w' \<and> due now w' = {}"
  using assms
proof (induction "card (due now w)" arbitrary: w rule: less_induct)
  case less
  obtain d where d: "objects (events w) = Some (timers w)" "find_due now (timers w) w = Some d"
    "case d of None \<Rightarrow> due now w = {} | Some a \<Rightarrow> a \<in> due now w"
    using find_due_timers [OF less(2), of now] by blast
  show ?case
  proof (cases d)
    case None
    with d less show ?thesis by (simp add: fire_timers.simps [of h now w])
  next
    case (Some a)
    then have "a \<in> due now w" using d by simp
    then obtain w1 where w1: "fire h a w = Some w1" "base_ok w1" "inv w1" "now \<le> clock h (calls w1)" "due now w1 \<subseteq> due now w - {a}"
      using fire_ok [OF less(2,3)] less(4) by blast
    have "due now w1 \<subset> due now w" using w1(5) \<open>a \<in> due now w\<close> by auto
    then have "card (due now w1) < card (due now w)" by (rule psubset_card_mono [OF due_finite [OF less(2)]])
    then obtain w' where "fire_timers h now w1 = Some w'" "base_ok w'" "inv w'" "due now w' = {}"
      using less(1) w1(2,3,4) by blast
    then show ?thesis using d Some w1 by (auto simp: fire_timers.simps [of h now w])
  qed
qed

end

section \<open>Pointers refine lists\<close>

lemma free_events_ends:
  assumes "base_ok w"
  shows "\<exists>w'. free_events w = Some w' \<and> base_ok w' \<and> timers w' = [] \<and> connections w' = connections w"
  using assms
proof (induction "length (timers w)" arbitrary: w)
  case 0
  then have "dl_head (events w) = None" by (auto simp: base_ok_iff holds_def)
  with 0 show ?case by (simp add: free_events.simps)
next
  case (Suc n)
  then obtain a xs where t: "timers w = a # xs" by (cases "timers w") auto
  have l: "holds (events w) (a # xs)" "allocated (events w) = dom (ev_obj w)" using Suc.prems t by (simp_all add: base_ok_iff)
  then have "dl_head (events w) = Some a" by (auto simp: holds_def)
  moreover obtain ev where "ev_obj w a = Some ev" using il.nodup [OF l(1)] l(2) by auto
  moreover from this obtain w1 where "event_free a w = Some w1" "base_ok w1" "timers w1 = xs" "connections w1 = connections w"
    using event_free_spec [OF Suc.prems] t by force
  ultimately show ?case using Suc(1) [of w1] Suc(2) t by (simp add: free_events.simps [of w])
qed

text \<open>C9. The intrusive lists of an event base are lists: arming a timer puts it at the front unless it is linked
  already, freeing a timer or a bufferevent takes exactly that object out wherever it is, a new bufferevent
  comes to the front, and freeing the base ends with no timer left; no operation follows a dangling pointer, and
  the base stays well formed.\<close>

theorem event_base_refines_lists:
  assumes "base_ok w"
  shows "(\<forall>a ev tv. ev_obj w a = Some ev \<longrightarrow> ev_base ev \<longrightarrow>
      (\<exists>w'. event_add h a (Some tv) w = Some (0, w') \<and> base_ok w' \<and> timers w' = List.insert a (timers w) \<and> connections w' = connections w)) \<and>
    (\<forall>a ev. ev_obj w a = Some ev \<longrightarrow>
      (\<exists>w'. event_del a w = Some (0, w') \<and> base_ok w' \<and> timers w' = remove1 a (timers w) \<and> connections w' = connections w) \<and>
      (\<exists>w'. event_free a w = Some w' \<and> base_ok w' \<and> timers w' = remove1 a (timers w) \<and> connections w' = connections w)) \<and>
    (\<forall>a b. bev_obj w a = Some b \<longrightarrow>
      (\<exists>w'. bufferevent_free a w = Some w' \<and> base_ok w' \<and> connections w' = remove1 a (connections w) \<and> timers w' = timers w)) \<and>
    (\<exists>p w'. bev_new h fd w = Some (p, w') \<and> base_ok w' \<and> timers w' = timers w \<and>
      connections w' = (case p of None \<Rightarrow> connections w | Some a \<Rightarrow> a # connections w)) \<and>
    (\<exists>w'. free_events w = Some w' \<and> base_ok w' \<and> timers w' = [] \<and> connections w' = connections w)"
proof -
  have new: "\<exists>p w'. bev_new h fd w = Some (p, w') \<and> base_ok w' \<and> timers w' = timers w \<and>
      connections w' = (case p of None \<Rightarrow> connections w | Some a \<Rightarrow> a # connections w)"
  proof (cases "memory h (calls w) \<and> memory h (Suc (calls w)) \<and> memory h (Suc (Suc (calls w)))")
    case True
    then show ?thesis using bev_new_spec [OF assms, of h fd] by auto
  next
    case False
    then show ?thesis using assms by (cases "memory h (calls w)") (auto simp: bev_new_def ask_def)
  qed
  have add: "\<exists>w'. event_add h a (Some tv) w = Some (0, w') \<and> base_ok w' \<and> timers w' = List.insert a (timers w) \<and> connections w' = connections w"
    if "ev_obj w a = Some ev" "ev_base ev" for a ev tv
    using event_add_spec [OF assms that, of h tv] by (auto simp: List.insert_def)
  show ?thesis using add new event_del_spec [OF assms] event_free_spec [OF assms] bufferevent_free_spec [OF assms] free_events_ends [OF assms]
    by (intro conjI allI impI) blast+
qed

definition demo_eb :: "(nat, unit) eb" where
  "demo_eb = \<lparr>events = \<lparr>dl_head = Some 1, dl_node = [0 \<mapsto> \<lparr>nd_next = None, nd_prev = Some (Next 1)\<rparr>, 1 \<mapsto> \<lparr>nd_next = Some 0, nd_prev = Some Head\<rparr>]\<rparr>,
     ev_obj = [0 \<mapsto> \<lparr>ev_base = True, ev_cb = None, ev_expire = 30, ev_pending = True\<rparr>, 1 \<mapsto> \<lparr>ev_base = True, ev_cb = None, ev_expire = 5, ev_pending = True\<rparr>],
     bevs = \<lparr>dl_head = None, dl_node = Map.empty\<rparr>, bev_obj = Map.empty, break_flag = False, stop_flag = False, next_obj = 2, calls = 0, app = ()\<rparr>"

lemma demo_eb_ok: "base_ok demo_eb \<and> timers demo_eb = [1, 0]"
proof -
  have l: "holds (events demo_eb) [1, 0]" "holds (bevs demo_eb) []" by (auto simp: demo_eb_def holds_def)
  show ?thesis unfolding base_ok_iff timers_eq [OF l(1)] connections_eq [OF l(2)]
    using l by (auto simp: demo_eb_def allocated_def)
qed

theorem event_base_refines_lists_witness: "\<exists>w'. event_free 1 demo_eb = Some w' \<and> base_ok w' \<and> timers w' = [0]"
proof -
  have "ev_obj demo_eb 1 = Some \<lparr>ev_base = True, ev_cb = None, ev_expire = 5, ev_pending = True\<rparr>" by (simp add: demo_eb_def)
  then show ?thesis using event_base_refines_lists [OF conjunct1 [OF demo_eb_ok]] demo_eb_ok by force
qed

end
