(* ===== verification/Health_Check.thy ===== *)
theory Health_Check
  imports Mini_Event Msg
begin

text \<open>
  Health checks of local services, \<open>health_check.c\<close>, a client of the event base of \<open>Mini_Event\<close>: every checked
  service has a timer that starts a check and a bufferevent while one is under way. The entries live in a table
  in the order they were added. The function the results are reported to is given by the caller; its calls are recorded.
\<close>

section \<open>State\<close>

datatype hc_state = HC_IDLE | HC_CONNECTING | HC_SENDING | HC_READING

record hc_conf = proxy_conf +
  hf_type :: "string option"
  hf_url :: "string option"
  hf_interval :: int
  hf_timeout :: int
  hf_max_failed :: int

record hc_entry =
  he_name :: string
  he_ps :: hc_conf
  he_type :: "string option"
  he_url :: "string option"
  he_interval :: int
  he_timeout :: int
  he_max_failed :: int
  he_failed :: int
  he_healthy :: bool
  he_state :: hc_state
  he_timer :: "nat option"
  he_bev :: "nat option"

record hc =
  hc_entries :: "nat \<rightharpoonup> hc_entry"
  all_hc_entries :: "nat list"
  hc_next :: nat
  hc_reports :: "(nat \<times> bool) list"

datatype hc_cb = Hc_timer nat | Hc_tcp_event nat | Hc_http_event nat | Hc_http_read nat

type_synonym hc_base = "(hc_cb, hc) eb"
type_synonym hc_host = "(hc_cb, hc) host"

text \<open>The hour of the day, and whether a string is an address.\<close>

record hc_env =
  hc_hour :: "nat \<Rightarrow> int"
  hc_address :: "string \<Rightarrow> bool"

definition entry :: "nat \<Rightarrow> hc_base \<Rightarrow> hc_entry option" where
  "entry i w = hc_entries (app w) i"

definition upd_entry :: "nat \<Rightarrow> (hc_entry \<Rightarrow> hc_entry) \<Rightarrow> hc_base \<Rightarrow> hc_base option" where
  "upd_entry i f w = do {
     e \<leftarrow> entry i w;
     Some (w\<lparr>app := (app w)\<lparr>hc_entries := (hc_entries (app w))(i \<mapsto> f e)\<rparr>\<rparr>)
   }"

section \<open>The outcome of a check\<close>

definition hc_schedule_next :: "hc_host \<Rightarrow> nat \<Rightarrow> hc_base \<Rightarrow> hc_base option" where
  "hc_schedule_next h i w = do {
     e \<leftarrow> entry i w;
     (case he_timer e of
        None \<Rightarrow> Some w
      | Some t \<Rightarrow> do { (rc, w) \<leftarrow> event_add h t (Some (he_interval e, 0)) w; Some w })
   }"

definition drop_check :: "nat \<Rightarrow> hc_base \<Rightarrow> hc_base option" where
  "drop_check i w = do {
     e \<leftarrow> entry i w;
     (case he_bev e of
        None \<Rightarrow> Some w
      | Some a \<Rightarrow> do { w \<leftarrow> bufferevent_free a w; upd_entry i (\<lambda>e. e\<lparr>he_bev := None\<rparr>) w })
   }"

text \<open>The counter of failures is an \<open>int\<close> of 32 bits. Nothing bounds it while the checks go on failing; C leaves its overflow
  undefined, and the two's complement wrap-around is written out here.\<close>

definition int_incr :: "int \<Rightarrow> int" where
  "int_incr n = sint (word_of_int (n + 1) :: 32 word)"

lemma int_incr_small: "0 \<le> n \<Longrightarrow> n < 2 ^ 31 - 1 \<Longrightarrow> int_incr n = n + 1"
  unfolding int_incr_def sint_sbintrunc' by (rule signed_take_bit_int_eq_self) simp_all

definition judged :: "bool \<Rightarrow> hc_entry \<Rightarrow> hc_entry" where
  "judged healthy e =
     (if healthy then e\<lparr>he_failed := 0, he_healthy := True\<rparr>
      else let e = e\<lparr>he_failed := int_incr (he_failed e)\<rparr> in if he_failed e \<ge> he_max_failed e then e\<lparr>he_healthy := False\<rparr> else e)"

definition hc_finish_check :: "hc_host \<Rightarrow> nat \<Rightarrow> bool \<Rightarrow> hc_base \<Rightarrow> hc_base option" where
  "hc_finish_check h i healthy w = do {
     w \<leftarrow> drop_check i w;
     e \<leftarrow> entry i w;
     w \<leftarrow> upd_entry i (\<lambda>e. judged healthy (e\<lparr>he_state := HC_IDLE\<rparr>)) w;
     (let now_healthy = he_healthy (judged healthy e);
          w = (if he_healthy e \<noteq> now_healthy then w\<lparr>app := (app w)\<lparr>hc_reports := hc_reports (app w) @ [(i, now_healthy)]\<rparr>\<rparr> else w) in
      hc_schedule_next h i w)
   }"

section \<open>Checking\<close>

text \<open>\<open>strcmp\<close> on a check type that could not be copied is undefined.\<close>

definition hc_connect :: "hc_env \<Rightarrow> hc_host \<Rightarrow> nat \<Rightarrow> nat \<Rightarrow> hc_base \<Rightarrow> hc_base option" where
  "hc_connect env h i a w = do {
     e \<leftarrow> entry i w;
     kind \<leftarrow> he_type e;
     w \<leftarrow> upd_entry i (\<lambda>e. e\<lparr>he_state := HC_CONNECTING\<rparr>) w;
     w \<leftarrow> bufferevent_setcb a None None (Some (if kind = ''tcp'' then Hc_tcp_event i else Hc_http_event i)) w;
     w \<leftarrow> bufferevent_enable h a (EV_READ OR EV_WRITE) w;
     ip \<leftarrow> ps_local_ip (he_ps e);
     if \<not> hc_address env ip then hc_finish_check h i False w
     else do {
       (rc, w) \<leftarrow> bufferevent_socket_connect h a w;
       if rc < 0 then hc_finish_check h i False w else Some w
     }
   }"

definition hc_start_check :: "hc_env \<Rightarrow> hc_host \<Rightarrow> nat \<Rightarrow> hc_base \<Rightarrow> hc_base option" where
  "hc_start_check env h i w = do {
     w \<leftarrow> drop_check i w;
     (p, w) \<leftarrow> bufferevent_socket_new h (-1) w;
     w \<leftarrow> upd_entry i (\<lambda>e. e\<lparr>he_bev := p\<rparr>) w;
     (case p of
        None \<Rightarrow> hc_finish_check h i False w
      | Some a \<Rightarrow> do {
          e \<leftarrow> entry i w;
          w \<leftarrow> bufferevent_set_timeouts h a (Some (he_timeout e, 0)) (Some (he_timeout e, 0)) w;
          hc_connect env h i a w
        })
   }"

text \<open>Services are checked only while they are available.\<close>

definition in_window :: "hc_conf \<Rightarrow> int \<Rightarrow> bool" where
  "in_window ps hour =
     (if pf_start_time ps = 0 \<and> pf_end_time ps = 0 then True
      else if pf_start_time ps \<le> pf_end_time ps then \<not> (hour < pf_start_time ps \<or> hour \<ge> pf_end_time ps)
      else \<not> (hour < pf_start_time ps \<and> hour \<ge> pf_end_time ps))"

definition hc_timer_cb :: "hc_env \<Rightarrow> hc_host \<Rightarrow> nat \<Rightarrow> hc_base \<Rightarrow> hc_base option" where
  "hc_timer_cb env h i w = do {
     e \<leftarrow> entry i w;
     if in_window (he_ps e) (hc_hour env (calls w)) then hc_start_check env h i w else hc_schedule_next h i w
   }"

definition hc_tcp_event_cb :: "hc_host \<Rightarrow> nat \<Rightarrow> u16 \<Rightarrow> hc_base \<Rightarrow> hc_base option" where
  "hc_tcp_event_cb h i what w = hc_finish_check h i (what AND BEV_EVENT_CONNECTED \<noteq> 0) w"

definition crlf :: string where "crlf = [char_of (13 :: nat), char_of (10 :: nat)]"

definition hc_request :: "string \<Rightarrow> string \<Rightarrow> string" where
  "hc_request url host = ''GET '' @ url @ '' HTTP/1.0'' @ crlf @ ''Host: '' @ host @ crlf @ ''Connection: close'' @ crlf @ crlf"

text \<open>\<open>snprintf\<close> into 512 bytes returns the length of the whole text, and that many bytes are written to the
  bufferevent: beyond the array when the text has more than 512, and the terminator in the place of the last one
  when it has exactly 512.\<close>

definition request_bytes :: "string \<Rightarrow> bytes option" where
  "request_bytes s =
     (if length s > 512 then None
      else if length s = 512 then Some (map of_char (take 511 s) @ [0])
      else Some (map of_char s))"

definition hc_http_event_cb :: "hc_host \<Rightarrow> nat \<Rightarrow> nat \<Rightarrow> u16 \<Rightarrow> hc_base \<Rightarrow> hc_base option" where
  "hc_http_event_cb h i a what w =
     (if what AND BEV_EVENT_CONNECTED \<noteq> 0 then do {
        e \<leftarrow> entry i w;
        w \<leftarrow> upd_entry i (\<lambda>e. e\<lparr>he_state := HC_SENDING\<rparr>) w;
        ip \<leftarrow> ps_local_ip (he_ps e);
        req \<leftarrow> request_bytes (hc_request (case he_url e of None \<Rightarrow> ''/'' | Some u \<Rightarrow> u) ip);
        (rc, w) \<leftarrow> bufferevent_write h a req w;
        w \<leftarrow> upd_entry i (\<lambda>e. e\<lparr>he_state := HC_READING\<rparr>) w;
        bufferevent_setcb a (Some (Hc_http_read i)) None (Some (Hc_http_event i)) w
      }
      else hc_finish_check h i False w)"

section \<open>The status line\<close>

definition is_space :: "char \<Rightarrow> bool" where
  "is_space c \<longleftrightarrow> c = CHR '' '' \<or> (9 \<le> (of_char c :: nat) \<and> (of_char c :: nat) \<le> 13)"

definition is_digit :: "char \<Rightarrow> bool" where
  "is_digit c \<longleftrightarrow> 48 \<le> (of_char c :: nat) \<and> (of_char c :: nat) \<le> 57"

text \<open>\<open>%d\<close>: white space, a sign, digits; a number out of range becomes the nearest \<open>int\<close>.\<close>

definition scan_d :: "string \<Rightarrow> (int \<times> string) option" where
  "scan_d s =
     (let s = dropWhile is_space s; neg = (s \<noteq> [] \<and> hd s = CHR ''-'');
          s = (if s \<noteq> [] \<and> (hd s = CHR ''-'' \<or> hd s = CHR ''+'') then tl s else s);
          ds = takeWhile is_digit s; n = foldl (\<lambda>n c. 10 * n + (of_char c - 48 :: int)) 0 ds; n = (if neg then - n else n) in
      if ds = [] then None else Some (min (2 ^ 31 - 1) (max (- (2 ^ 31)) n), drop (length ds) s))"

definition skip_text :: "string \<Rightarrow> string \<Rightarrow> string option" where
  "skip_text t s = (if take (length t) s = t then Some (drop (length t) s) else None)"

text \<open>\<open>sscanf(data, "HTTP/%*d.%*d %d", &status_code) == 1\<close>.\<close>

definition status_code :: "string \<Rightarrow> int option" where
  "status_code s = do {
     s \<leftarrow> skip_text ''HTTP/'' s;
     (major, s) \<leftarrow> scan_d s;
     s \<leftarrow> skip_text ''.'' s;
     (minor, s) \<leftarrow> scan_d s;
     (code, s) \<leftarrow> scan_d s;
     Some code
   }"

definition line_text :: "bytes \<Rightarrow> string" where
  "line_text b = map (\<lambda>x. char_of (unat x)) (takeWhile (\<lambda>x. x \<noteq> 0) b)"

definition good_status :: "string \<Rightarrow> bool" where
  "good_status s = (case status_code s of None \<Rightarrow> False | Some c \<Rightarrow> c \<ge> 200 \<and> c < 400)"

definition hc_http_read_cb :: "hc_host \<Rightarrow> nat \<Rightarrow> nat \<Rightarrow> hc_base \<Rightarrow> hc_base option" where
  "hc_http_read_cb h i a w = do {
     b \<leftarrow> bev_obj w a;
     (let pos = search_from (b_input b) [13, 10] 0 in
      if pos < 0 then Some w
      else let (ok, w) = ask (memory h) w in
        if \<not> ok then hc_finish_check h i False w
        else do {
          (line, w) \<leftarrow> bufferevent_read a (nat pos + 2) w;
          hc_finish_check h i (good_status (line_text line)) w
        })
   }"

section \<open>Starting and stopping\<close>

definition checkable :: "hc_conf \<Rightarrow> bool" where
  "checkable ps \<longleftrightarrow> (hf_type ps = Some ''tcp'' \<or> hf_type ps = Some ''http'') \<and> ps_local_ip ps \<noteq> None \<and> ps_local_port ps > 0"

definition or_default :: "int \<Rightarrow> int \<Rightarrow> int" where
  "or_default d x = (if x > 0 then x else d)"

text \<open>One service: the entry, three copies of strings (undefined for a service without a name), the timer; without a copy of
  the name the table takes the length of a null pointer.\<close>

definition start_one :: "hc_host \<Rightarrow> hc_conf \<Rightarrow> hc_base \<Rightarrow> hc_base option" where
  "start_one h ps w =
     (let (ok, w) = ask (memory h) w in
      if \<not> ok then Some w
      else do {
      name \<leftarrow> pf_name ps;
      (let (name_ok, w) = ask (memory h) w; (type_ok, w) = ask (memory h) w; (url_ok, w) = ask (memory h) w; i = hc_next (app w);
               (t, w) = event_new h True (Some (Hc_timer i)) w in
      case t of
        None \<Rightarrow> Some w
      | Some t \<Rightarrow> do {
          (if name_ok then Some () else None);
          (let e = \<lparr>he_name = name, he_ps = ps, he_type = (if type_ok then hf_type ps else None),
                 he_url = (if url_ok then Some (case hf_url ps of None \<Rightarrow> ''/'' | Some u \<Rightarrow> u) else None),
                 he_interval = or_default 10 (hf_interval ps), he_timeout = or_default 3 (hf_timeout ps),
                 he_max_failed = or_default 1 (hf_max_failed ps), he_failed = 0, he_healthy = True, he_state = HC_IDLE,
                 he_timer = Some t, he_bev = None\<rparr>;
               w = w\<lparr>app := (app w)\<lparr>hc_entries := (hc_entries (app w))(i \<mapsto> e), all_hc_entries := all_hc_entries (app w) @ [i],
                 hc_next := Suc i\<rparr>\<rparr> in do {
            (rc, w) \<leftarrow> event_add h t (Some (0, 0)) w;
            Some w
          })
        })
      })"

fun health_check_start_all :: "hc_host \<Rightarrow> hc_conf list \<Rightarrow> hc_base \<Rightarrow> hc_base option" where
  "health_check_start_all h [] w = Some w"
| "health_check_start_all h (ps # rest) w =
     (if checkable ps then do { w \<leftarrow> start_one h ps w; health_check_start_all h rest w }
      else health_check_start_all h rest w)"

definition stop_one :: "nat \<Rightarrow> hc_base \<Rightarrow> hc_base option" where
  "stop_one i w = do {
     e \<leftarrow> entry i w;
     w \<leftarrow> (case he_timer e of None \<Rightarrow> Some w | Some t \<Rightarrow> do { (rc, w) \<leftarrow> event_del t w; event_free t w });
     w \<leftarrow> (case he_bev e of None \<Rightarrow> Some w | Some a \<Rightarrow> bufferevent_free a w);
     Some (w\<lparr>app := (app w)\<lparr>hc_entries := (hc_entries (app w))(i := None), all_hc_entries := remove1 i (all_hc_entries (app w))\<rparr>\<rparr>)
   }"

fun stop_each :: "nat list \<Rightarrow> hc_base \<Rightarrow> hc_base option" where
  "stop_each [] w = Some w"
| "stop_each (i # is) w = do { w \<leftarrow> stop_one i w; stop_each is w }"

definition health_check_stop_all :: "hc_base \<Rightarrow> hc_base option" where
  "health_check_stop_all w = do {
     w \<leftarrow> stop_each (all_hc_entries (app w)) w;
     Some (w\<lparr>app := (app w)\<lparr>all_hc_entries := []\<rparr>\<rparr>)
   }"

definition health_check_is_healthy :: "string option \<Rightarrow> hc_base \<Rightarrow> bool" where
  "health_check_is_healthy name w =
     (case name of
        None \<Rightarrow> True
      | Some s \<Rightarrow>
          (case find (\<lambda>i. map_option he_name (entry i w) = Some s) (all_hc_entries (app w)) of
             None \<Rightarrow> True
           | Some i \<Rightarrow> (case entry i w of None \<Rightarrow> True | Some e \<Rightarrow> he_healthy e)))"

definition health_check_count :: "hc_base \<Rightarrow> nat" where
  "health_check_count w = length (all_hc_entries (app w))"

section \<open>The callbacks of the event base\<close>

definition hc_call :: "hc_env \<Rightarrow> hc_host \<Rightarrow> hc_cb \<Rightarrow> trigger \<Rightarrow> hc_base \<Rightarrow> hc_base option" where
  "hc_call env h c t w =
     (case c of
        Hc_timer i \<Rightarrow> hc_timer_cb env h i w
      | Hc_tcp_event i \<Rightarrow> (case t of Happened a what \<Rightarrow> hc_tcp_event_cb h i what w | _ \<Rightarrow> Some w)
      | Hc_http_event i \<Rightarrow> (case t of Happened a what \<Rightarrow> hc_http_event_cb h i a what w | _ \<Rightarrow> Some w)
      | Hc_http_read i \<Rightarrow> (case t of Readable a \<Rightarrow> hc_http_read_cb h i a w | _ \<Rightarrow> Some w))"

definition hc_host :: "hc_env \<Rightarrow> hc_host \<Rightarrow> hc_host" where
  "hc_host env h = h\<lparr>call := hc_call env h\<rparr>"

section \<open>Invariant\<close>

text \<open>Every entry has its own timer and, during a check, its own bufferevent; every timer of the base belongs to an entry.\<close>

definition entry_ok :: "hc_base \<Rightarrow> nat \<Rightarrow> hc_entry \<Rightarrow> bool" where
  "entry_ok w i e \<longleftrightarrow> (\<exists>t ev. he_timer e = Some t \<and> ev_obj w t = Some ev \<and> ev_base ev \<and> ev_cb ev = Some (Hc_timer i)) \<and>
     he_interval e > 0 \<and> he_type e \<noteq> None \<and> ps_local_ip (he_ps e) \<noteq> None \<and> (\<forall>a. he_bev e = Some a \<longrightarrow> bev_obj w a \<noteq> None)"

definition checks :: "hc_base \<Rightarrow> nat \<Rightarrow> nat option" where
  "checks w i = Option.bind (entry i w) he_bev"

definition own_checks :: "hc_base \<Rightarrow> bool" where
  "own_checks w \<longleftrightarrow> (\<forall>i j a. checks w i = Some a \<longrightarrow> checks w j = Some a \<longrightarrow> i = j)"

definition known :: "hc_base \<Rightarrow> nat set" where
  "known w = {i. entry i w \<noteq> None}"

definition own_timers :: "hc_base \<Rightarrow> bool" where
  "own_timers w \<longleftrightarrow> (\<forall>t ev c. ev_obj w t = Some ev \<longrightarrow> ev_cb ev = Some c \<longrightarrow> c \<in> Hc_timer ` known w)"

definition hc_ok :: "hc_base \<Rightarrow> bool" where
  "hc_ok w \<longleftrightarrow> base_ok w \<and> (\<forall>i e. entry i w = Some e \<longrightarrow> entry_ok w i e) \<and> own_checks w \<and> own_timers w"

text \<open>Fields that a check leaves alone.\<close>

definition same_conf :: "hc_entry \<Rightarrow> hc_entry \<Rightarrow> bool" where
  "same_conf e e' \<longleftrightarrow> he_timer e' = he_timer e \<and> he_interval e' = he_interval e \<and> he_type e' = he_type e \<and> he_ps e' = he_ps e \<and>
     he_max_failed e' = he_max_failed e \<and> he_timeout e' = he_timeout e"

definition with_entry :: "nat \<Rightarrow> hc_entry \<Rightarrow> hc_base \<Rightarrow> hc_base" where
  "with_entry i e w = w\<lparr>app := (app w)\<lparr>hc_entries := (hc_entries (app w))(i \<mapsto> e)\<rparr>\<rparr>"

lemma upd_entry_eq: "entry i w = Some e \<Longrightarrow> upd_entry i f w = Some (with_entry i (f e) w)"
  by (simp add: upd_entry_def with_entry_def)

lemma with_entry_simps [simp]:
  "entry j (with_entry i e w) = (if j = i then Some e else entry j w)" "ev_obj (with_entry i e w) = ev_obj w"
  "bev_obj (with_entry i e w) = bev_obj w" "calls (with_entry i e w) = calls w" "base_ok (with_entry i e w) = base_ok w"
  "due now (with_entry i e w) = due now w" "hc_reports (app (with_entry i e w)) = hc_reports (app w)"
  "next_obj (with_entry i e w) = next_obj w" "connections (with_entry i e w) = connections w" "timers (with_entry i e w) = timers w"
  by (auto simp: with_entry_def entry_def due_def)

lemma entry_simps [simp]:
  "entry i (w\<lparr>calls := n\<rparr>) = entry i w" "entry i (w\<lparr>bev_obj := bo\<rparr>) = entry i w" "entry i (w\<lparr>ev_obj := eo\<rparr>) = entry i w"
  "entry i (w\<lparr>app := (app w)\<lparr>hc_reports := r\<rparr>\<rparr>) = entry i w"
  by (simp_all add: entry_def)

lemma due_simps [simp]: "due now (w\<lparr>calls := n\<rparr>) = due now w" "due now (w\<lparr>bev_obj := bo\<rparr>) = due now w" "due now (w\<lparr>app := x\<rparr>) = due now w"
  by (simp_all add: due_def)

lemma due_ev_obj: "ev_obj w' = ev_obj w \<Longrightarrow> due now w' = due now w"
  by (simp add: due_def)

lemma checks_simps [simp]:
  "checks (with_entry i e w) = (checks w)(i := he_bev e)" "checks (w\<lparr>calls := n\<rparr>) = checks w" "checks (w\<lparr>bev_obj := bo\<rparr>) = checks w"
  "checks (w\<lparr>app := (app w)\<lparr>hc_reports := r\<rparr>\<rparr>) = checks w"
  by (auto simp: checks_def)

lemma known_simps [simp]: "known (with_entry i e w) = insert i (known w)" "known (w\<lparr>calls := n\<rparr>) = known w"
  "known (w\<lparr>bev_obj := bo\<rparr>) = known w" "known (w\<lparr>ev_obj := eo\<rparr>) = known w" "known (w\<lparr>app := (app w)\<lparr>hc_reports := r\<rparr>\<rparr>) = known w"
  by (auto simp: known_def)

lemma entry_known: "entry i w = Some e \<Longrightarrow> i \<in> known w"
  by (simp add: known_def)

lemma own_timers_simps [simp]:
  "i \<in> known w \<Longrightarrow> own_timers (with_entry i e w) = own_timers w" "own_timers (w\<lparr>calls := n\<rparr>) = own_timers w"
  "own_timers (w\<lparr>bev_obj := bo\<rparr>) = own_timers w" "own_timers (w\<lparr>app := (app w)\<lparr>hc_reports := r\<rparr>\<rparr>) = own_timers w"
  by (simp_all add: own_timers_def insert_absorb)

lemma own_checks_less: "own_checks w \<Longrightarrow> (\<And>i a. checks w' i = Some a \<Longrightarrow> checks w i = Some a) \<Longrightarrow> own_checks w'"
  by (auto simp: own_checks_def)

lemma entry_checks: "entry i w = Some e \<Longrightarrow> checks w i = he_bev e"
  by (simp add: checks_def)

lemma hc_ok_checks: "hc_ok w \<Longrightarrow> checks w i = Some a \<Longrightarrow> \<exists>b. bev_obj w a = Some b"
  by (cases "entry i w") (auto simp: hc_ok_def entry_ok_def checks_def)

lemma hc_ok_entry:
  assumes "hc_ok w" "entry i w = Some e" "same_conf e e'" "he_bev e' = he_bev e \<or> he_bev e' = None"
  shows "hc_ok (with_entry i e' w)"
proof -
  have "entry_ok w i e" using assms by (simp add: hc_ok_def)
  then have "entry_ok (with_entry i e' w) i e'" using assms(3,4) by (auto simp: entry_ok_def same_conf_def)
  moreover have "entry_ok (with_entry i e' w) j f" if "entry j w = Some f" for j f
    using assms(1) that by (simp add: hc_ok_def entry_ok_def)
  moreover have "own_checks (with_entry i e' w)"
    by (rule own_checks_less [of w]) (use assms entry_checks [OF assms(2)] in \<open>auto simp: hc_ok_def split: if_splits\<close>)
  ultimately show ?thesis using assms(1) entry_known [OF assms(2)] by (simp add: hc_ok_def)
qed

lemma hc_okD: "hc_ok w \<Longrightarrow> entry i w = Some e \<Longrightarrow> entry_ok w i e"
  by (simp add: hc_ok_def)

text \<open>An entry stays well formed while its timer keeps its callback.\<close>

lemma entry_ok_mono:
  assumes "entry_ok w i e" "\<And>t. map_option (\<lambda>ev. (ev_base ev, ev_cb ev)) (ev_obj w' t) = map_option (\<lambda>ev. (ev_base ev, ev_cb ev)) (ev_obj w t)"
    "\<And>a. bev_obj w a \<noteq> None \<Longrightarrow> bev_obj w' a \<noteq> None"
  shows "entry_ok w' i e"
proof -
  obtain t ev where t: "he_timer e = Some t" "ev_obj w t = Some ev" "ev_base ev" "ev_cb ev = Some (Hc_timer i)"
    using assms(1) by (auto simp: entry_ok_def)
  then have "\<exists>ev'. ev_obj w' t = Some ev' \<and> ev_base ev' \<and> ev_cb ev' = Some (Hc_timer i)" using assms(2) [of t] by auto
  then show ?thesis using assms(1,3) t(1) by (simp add: entry_ok_def)
qed

lemma hc_ok_calls [simp]: "hc_ok (w\<lparr>calls := n\<rparr>) = hc_ok w" "hc_ok (w\<lparr>app := (app w)\<lparr>hc_reports := r\<rparr>\<rparr>) = hc_ok w"
  by (simp_all add: hc_ok_def entry_ok_def own_checks_def)

lemma hc_ok_bev:
  assumes "hc_ok w" "bev_obj w a = Some b"
  shows "hc_ok (w\<lparr>bev_obj := (bev_obj w)(a \<mapsto> b')\<rparr>)"
proof -
  have "base_ok (w\<lparr>bev_obj := (bev_obj w)(a \<mapsto> b')\<rparr>)" using assms upd_bev_spec [of w a b "\<lambda>b. b'"] by (simp add: hc_ok_def)
  moreover have "entry_ok (w\<lparr>bev_obj := (bev_obj w)(a \<mapsto> b')\<rparr>) i e" if "entry i w = Some e" for i e
    using assms(1) that by (simp add: hc_ok_def entry_ok_def)
  ultimately show ?thesis using assms(1) by (simp add: hc_ok_def own_checks_def)
qed

text \<open>What a step of a check leaves: the other entries, the timers that are due, the clock.\<close>

definition others :: "nat \<Rightarrow> hc_base \<Rightarrow> hc_base \<Rightarrow> bool" where
  "others i w w' \<longleftrightarrow> (\<forall>j. j \<noteq> i \<longrightarrow> entry j w' = entry j w)"

lemma drop_check_ok:
  assumes "hc_ok w" "entry i w = Some e"
  shows "returns (\<lambda>w'. hc_ok w' \<and> entry i w' = Some (e\<lparr>he_bev := None\<rparr>) \<and> others i w w' \<and>
    ev_obj w' = ev_obj w \<and> calls w' = calls w \<and> hc_reports (app w') = hc_reports (app w) \<and>
    (\<forall>a. he_bev e = Some a \<longrightarrow> bev_obj w' a = None)) (drop_check i w)"
proof (cases "he_bev e")
  case None
  then have "e\<lparr>he_bev := None\<rparr> = e" by simp
  then show ?thesis using assms None by (simp add: drop_check_def others_def)
next
  case (Some a)
  then obtain b where "bev_obj w a = Some b" using hc_ok_checks [OF assms(1)] entry_checks [OF assms(2)] by auto
  then obtain w1 where w1: "bufferevent_free a w = Some w1" "base_ok w1" "ev_obj w1 = ev_obj w" "app w1 = app w" "calls w1 = calls w"
    "bev_obj w1 = (bev_obj w)(a := None)"
    using bufferevent_free_spec [of w a b] assms(1) by (auto simp: hc_ok_def)
  have en: "entry j w1 = entry j w" for j using w1(4) by (simp add: entry_def)
  then have c: "checks w1 = checks w" by (auto simp: checks_def)
  let ?w = "with_entry i (e\<lparr>he_bev := None\<rparr>) w1"
  have "own_checks ?w" using assms(1) c by (auto simp: hc_ok_def own_checks_def)
  moreover have "known w1 = known w" using en by (simp add: known_def)
  then have "own_timers ?w" using assms(1) entry_known [OF assms(2)] w1(3) by (auto simp: hc_ok_def own_timers_def)
  moreover have "entry_ok ?w i (e\<lparr>he_bev := None\<rparr>)" using assms w1(3) by (auto simp: hc_ok_def entry_ok_def)
  moreover have "entry_ok ?w j f" if f: "entry j w = Some f" "j \<noteq> i" for j f
  proof -
    have "he_bev f \<noteq> Some a"
      using assms(1) f(2) entry_checks [OF f(1)] entry_checks [OF assms(2)] Some by (auto simp: hc_ok_def own_checks_def)
    moreover have "entry_ok w j f" using assms(1) f by (simp add: hc_ok_def)
    ultimately show ?thesis by (auto simp: entry_ok_def w1(3,6))
  qed
  ultimately have "hc_ok ?w" using w1(2) en by (auto simp: hc_ok_def)
  then show ?thesis using assms Some w1 en by (simp add: drop_check_def upd_entry_eq others_def)
qed

definition forward :: "('c, 'a) host \<Rightarrow> bool" where
  "forward h \<longleftrightarrow> (\<forall>m n. m \<le> n \<longrightarrow> clock h m \<le> clock h n)"

lemma forwardD: "forward h \<Longrightarrow> m \<le> n \<Longrightarrow> now \<le> clock h m \<Longrightarrow> now \<le> clock h n"
  by (fastforce simp: forward_def)

definition step_ok :: "int \<Rightarrow> nat \<Rightarrow> hc_base \<Rightarrow> hc_base \<Rightarrow> bool" where
  "step_ok now i w w' \<longleftrightarrow> hc_ok w' \<and> calls w \<le> calls w' \<and> due now w' \<subseteq> due now w \<and> others i w w' \<and> entry i w' \<noteq> None"

lemma step_ok_trans: "step_ok now i w w1 \<Longrightarrow> step_ok now i w1 w2 \<Longrightarrow> step_ok now i w w2"
  by (fastforce simp: step_ok_def others_def)

lemma step_ok_entry: "hc_ok w \<Longrightarrow> entry i w = Some e \<Longrightarrow> same_conf e e' \<Longrightarrow> he_bev e' = he_bev e \<or> he_bev e' = None \<Longrightarrow> step_ok now i w (with_entry i e' w)"
  using hc_ok_entry by (simp add: step_ok_def others_def)

lemma schedule_ok:
  assumes "hc_ok w" "entry i w = Some e" "now \<le> clock h (calls w)"
  shows "returns (\<lambda>w'. step_ok now i w w' \<and> app w' = app w \<and> bev_obj w' = bev_obj w) (hc_schedule_next h i w)"
proof -
  have "entry_ok w i e" using assms by (simp add: hc_ok_def)
  then obtain t ev where t: "he_timer e = Some t" "ev_obj w t = Some ev" "ev_base ev" "ev_cb ev = Some (Hc_timer i)" "he_interval e > 0"
    by (auto simp: entry_ok_def)
  let ?ev = "ev\<lparr>ev_expire := clock h (calls w) + tv_to_us (he_interval e, 0), ev_pending := True\<rparr>"
  obtain w' where w': "event_add h t (Some (he_interval e, 0)) w = Some (0, w')" "base_ok w'" "bev_obj w' = bev_obj w" "app w' = app w"
    "calls w' = Suc (calls w)" "ev_obj w' = (ev_obj w)(t \<mapsto> ?ev)"
    using event_add_spec [of w t ev h "(he_interval e, 0)"] assms(1) t by (auto simp: hc_ok_def)
  have en: "entry j w' = entry j w" for j using w'(4) by (simp add: entry_def)
  then have k: "known w' = known w" "checks w' = checks w" by (auto simp: known_def checks_def)
  have "entry_ok w' j f" if "entry j w = Some f" for j f
    by (rule entry_ok_mono [OF hc_okD [OF assms(1) that]]) (use t in \<open>simp_all add: w'(3,6)\<close>)
  moreover have "own_timers w'" using assms(1) t entry_known [OF assms(2)] by (auto simp: hc_ok_def own_timers_def k w'(6))
  moreover have "own_checks w'" using assms(1) by (simp add: hc_ok_def own_checks_def k)
  ultimately have "hc_ok w'" using w'(2) en by (simp add: hc_ok_def)
  moreover have "due now w' \<subseteq> due now w" using assms(3) t(5) by (auto simp: due_def w'(6) tv_to_us_def split: if_splits)
  ultimately show ?thesis using assms t w' en by (simp add: hc_schedule_next_def step_ok_def others_def)
qed

lemma judged_conf: "same_conf e (judged healthy (e\<lparr>he_bev := b, he_state := s\<rparr>))" "he_bev (judged healthy e) = he_bev e"
  by (simp_all add: judged_def same_conf_def Let_def)

lemma judged_state: "judged healthy (e\<lparr>he_state := s\<rparr>) = (judged healthy e)\<lparr>he_state := s\<rparr>" "judged healthy (e\<lparr>he_bev := b\<rparr>) = (judged healthy e)\<lparr>he_bev := b\<rparr>"
  by (simp_all add: judged_def Let_def)

text \<open>A check that is over: the bufferevent is gone, the result is counted, a change is reported, the next check is
  scheduled.\<close>

lemma finish_ok:
  assumes "hc_ok w" "entry i w = Some e" "now \<le> clock h (calls w)"
  shows "returns (\<lambda>w'. step_ok now i w w' \<and> entry i w' = Some ((judged healthy e)\<lparr>he_bev := None, he_state := HC_IDLE\<rparr>) \<and>
    hc_reports (app w') = hc_reports (app w) @ (if he_healthy (judged healthy e) = he_healthy e then [] else [(i, he_healthy (judged healthy e))]) \<and>
    (\<forall>a. he_bev e = Some a \<longrightarrow> bev_obj w' a = None))
    (hc_finish_check h i healthy w)"
proof -
  obtain w1 where w1: "drop_check i w = Some w1" "hc_ok w1" "entry i w1 = Some (e\<lparr>he_bev := None\<rparr>)" "others i w w1" "ev_obj w1 = ev_obj w"
    "calls w1 = calls w" "hc_reports (app w1) = hc_reports (app w)" "\<forall>a. he_bev e = Some a \<longrightarrow> bev_obj w1 a = None"
    using drop_check_ok [OF assms(1,2)] by (auto simp: returns_def)
  let ?e = "(judged healthy e)\<lparr>he_bev := None, he_state := HC_IDLE\<rparr>"
  let ?w2 = "with_entry i ?e w1"
  have s1: "step_ok now i w w1" using w1 due_ev_obj [OF w1(5)] by (simp add: step_ok_def)
  have s2: "step_ok now i w1 ?w2"
    by (rule step_ok_entry [OF w1(2,3)]) (simp_all add: judged_def same_conf_def Let_def)
  have u: "upd_entry i (\<lambda>e. judged healthy (e\<lparr>he_state := HC_IDLE\<rparr>)) w1 = Some ?w2"
    using upd_entry_eq [OF w1(3)] by (simp add: judged_state)
  let ?r = "if he_healthy (judged healthy e) = he_healthy e then [] else [(i, he_healthy (judged healthy e))]"
  let ?w3 = "if he_healthy e \<noteq> he_healthy (judged healthy e) then ?w2\<lparr>app := (app ?w2)\<lparr>hc_reports := hc_reports (app ?w2) @ [(i, he_healthy (judged healthy e))]\<rparr>\<rparr> else ?w2"
  have h3: "hc_ok ?w3" "entry i ?w3 = Some ?e" "calls ?w3 = calls w" "hc_reports (app ?w3) = hc_reports (app w) @ ?r"
    using s2 w1(6,7) by (auto simp: step_ok_def)
  have s3: "step_ok now i ?w2 ?w3" using h3 s2 by (auto simp: step_ok_def others_def)
  obtain w4 where w4: "hc_schedule_next h i ?w3 = Some w4" "step_ok now i ?w3 w4" "app w4 = app ?w3" "bev_obj w4 = bev_obj ?w3"
    using schedule_ok [OF h3(1,2), of now h] assms(3) h3(3) by (auto simp: returns_def)
  have "hc_finish_check h i healthy w = Some w4"
    using w1 u w4(1) by (simp add: hc_finish_check_def judged_state)
  moreover have "entry i w4 = Some ?e" using h3(2) w4(3) by (simp add: entry_def)
  ultimately show ?thesis
    using step_ok_trans [OF s1 step_ok_trans [OF s2 step_ok_trans [OF s3 w4(2)]]] h3(4) w4(3,4) w1(8) by (simp add: returns_def)
qed

lemma finish_step:
  assumes "step_ok now i w v" "now \<le> clock h (calls w)" "forward h"
  shows "returns (step_ok now i w) (hc_finish_check h i healthy v)"
proof -
  obtain e where "entry i v = Some e" "hc_ok v" "now \<le> clock h (calls v)"
    using assms forwardD [OF assms(3), of "calls w" "calls v" now] by (auto simp: step_ok_def)
  then have "returns (step_ok now i v) (hc_finish_check h i healthy v)" using finish_ok [of v i e now h healthy] by (auto simp: returns_def)
  then show ?thesis by (rule returns_mono) (rule step_ok_trans [OF assms(1)])
qed

text \<open>Operations on the bufferevent of a check.\<close>

definition touched :: "nat \<Rightarrow> hc_base \<Rightarrow> hc_base \<Rightarrow> bool" where
  "touched a w w' \<longleftrightarrow> hc_ok w' \<and> bev_obj w' a \<noteq> None \<and> calls w \<le> calls w' \<and> ev_obj w' = ev_obj w \<and> app w' = app w"

lemma touched_trans: "touched a w w1 \<Longrightarrow> touched a w1 w2 \<Longrightarrow> touched a w w2"
  by (auto simp: touched_def)

lemma touched_step: "touched a w w' \<Longrightarrow> entry i w \<noteq> None \<Longrightarrow> step_ok now i w w'"
  using due_ev_obj [of w' w now] by (auto simp: touched_def step_ok_def others_def entry_def)

lemma upd_bev_touched:
  "hc_ok w \<Longrightarrow> bev_obj w a \<noteq> None \<Longrightarrow> calls w0 \<le> calls w \<Longrightarrow> ev_obj w = ev_obj w0 \<Longrightarrow> app w = app w0 \<Longrightarrow> returns (touched a w0) (upd_bev a f w)"
  using hc_ok_bev [of w a _ "f _"] by (auto simp: upd_bev_def touched_def)

lemma bev_ops_touched:
  assumes "hc_ok w" "bev_obj w a \<noteq> None"
  shows "returns (touched a w) (bufferevent_setcb a r v ev w)" "returns (touched a w) (bufferevent_enable h a evs w)"
    "returns (touched a w) (bufferevent_set_timeouts h a rd wr w)"
  using assms by (auto simp: bufferevent_setcb_def bufferevent_enable_def bufferevent_set_timeouts_def intro!: upd_bev_touched)

lemma connect_touched:
  assumes "hc_ok w" "bev_obj w a \<noteq> None"
  shows "returns (\<lambda>(rc, w'). touched a w w') (bufferevent_socket_connect h a w)"
proof -
  obtain b where b: "bev_obj w a = Some b" using assms by auto
  define fd where "fd = (if b_fd b < 0 then socket_new h (calls w) else b_fd b)"
  define w1 where "w1 = (if b_fd b < 0 then w\<lparr>calls := Suc (calls w)\<rparr> else w)"
  have f: "(if b_fd b < 0 then ask (socket_new h) w else (b_fd b, w)) = (fd, w1)" by (simp add: fd_def w1_def ask_def)
  have t1: "touched a w w1" using assms by (simp add: touched_def w1_def)
  show ?thesis
  proof (cases "fd < 0")
    case True
    then show ?thesis using b f t1 by (simp add: bufferevent_socket_connect_def)
  next
    case False
    obtain w2 where w2: "upd_bev a (\<lambda>b. b\<lparr>b_fd := fd\<rparr>) w1 = Some w2" "touched a w1 w2"
      using upd_bev_touched [of w1 a w1 "\<lambda>b. b\<lparr>b_fd := fd\<rparr>"] t1 by (auto simp: touched_def returns_def)
    let ?w3 = "w2\<lparr>calls := Suc (calls w2)\<rparr>"
    let ?f = "\<lambda>b. b\<lparr>b_connecting := True, b_connect_start := clock h (calls ?w3), b_enabled := EV_READ OR EV_WRITE\<rparr>"
    have "returns (touched a w2) (upd_bev a ?f (?w3\<lparr>calls := Suc (calls ?w3)\<rparr>))"
      by (rule upd_bev_touched) (use w2(2) in \<open>simp_all add: touched_def\<close>)
    then obtain w4 where w4: "upd_bev a ?f (?w3\<lparr>calls := Suc (calls ?w3)\<rparr>) = Some w4" "touched a w2 w4" by (auto simp: returns_def)
    have "touched a w ?w3" "touched a w w4" using touched_trans [OF t1 w2(2)] touched_trans [OF touched_trans [OF t1 w2(2)] w4(2)]
      by (simp_all add: touched_def)
    with False b f w2 w4 show ?thesis by (auto simp: bufferevent_socket_connect_def ask_def Let_def)
  qed
qed

lemma socket_new_cases:
  assumes "base_ok w"
  obtains n where "calls w \<le> n" "bufferevent_socket_new h (-1) w = Some (None, w\<lparr>calls := n\<rparr>)"
  | w' b where "bufferevent_socket_new h (-1) w = Some (Some (next_obj w), w')" "base_ok w'" "ev_obj w' = ev_obj w" "app w' = app w"
      "calls w \<le> calls w'" "bev_obj w' = (bev_obj w)(next_obj w \<mapsto> b)"
proof (cases "memory h (calls w) \<and> memory h (Suc (calls w)) \<and> memory h (Suc (Suc (calls w)))")
  case True
  then show thesis using bev_new_spec [OF assms, of h "-1"] that(2) by (auto simp: bufferevent_socket_new_def)
next
  case False
  let ?n = "if memory h (calls w) then Suc (Suc (Suc (calls w))) else Suc (calls w)"
  have "bufferevent_socket_new h (-1) w = Some (None, w\<lparr>calls := ?n\<rparr>)"
    using False by (cases "memory h (calls w)") (simp_all add: bufferevent_socket_new_def bev_new_def ask_def)
  then show thesis by (rule that(1) [rotated]) simp
qed

lemma fresh_check:
  assumes "hc_ok w" "entry i w = Some e" "base_ok w'" "ev_obj w' = ev_obj w" "app w' = app w" "calls w \<le> calls w'"
    "bev_obj w' = (bev_obj w)(next_obj w \<mapsto> b)"
  shows "step_ok now i w (with_entry i (e\<lparr>he_bev := Some (next_obj w)\<rparr>) w')"
proof -
  let ?a = "next_obj w" and ?e = "e\<lparr>he_bev := Some (next_obj w)\<rparr>"
  let ?w = "with_entry i ?e w'"
  have en: "entry j w' = entry j w" for j using assms(5) by (simp add: entry_def)
  have k: "known w' = known w" "checks w' = checks w" using en by (auto simp: known_def checks_def)
  have n: "bev_obj w ?a = None" using assms(1) by (auto simp: hc_ok_def base_ok_iff)
  have "checks w j \<noteq> Some ?a" for j using hc_ok_checks [OF assms(1), of j ?a] n by auto
  then have "own_checks ?w" using assms(1) k by (auto simp: hc_ok_def own_checks_def)
  moreover have "own_timers ?w" using assms(1,4) entry_known [OF assms(2)] k by (auto simp: hc_ok_def own_timers_def)
  moreover have "entry_ok ?w j f" if "entry j w = Some f" for j f
    using assms(1) that by (auto simp: hc_ok_def entry_ok_def assms(4,7))
  moreover have "entry_ok ?w i ?e" using assms(1,2) by (auto simp: hc_ok_def entry_ok_def assms(4,7))
  ultimately have "hc_ok ?w" using assms(3) en by (auto simp: hc_ok_def)
  then show ?thesis using assms(6) en due_ev_obj [OF assms(4), of now] by (simp add: step_ok_def others_def)
qed

lemma hc_connect_ok:
  assumes "hc_ok w" "entry i w = Some e" "bev_obj w a \<noteq> None" "now \<le> clock h (calls w)" "forward h"
  shows "returns (step_ok now i w) (hc_connect env h i a w)"
proof -
  obtain kind ip where e: "he_type e = Some kind" "ps_local_ip (he_ps e) = Some ip"
    using hc_okD [OF assms(1,2)] by (auto simp: entry_ok_def)
  let ?e = "e\<lparr>he_state := HC_CONNECTING\<rparr>"
  let ?w1 = "with_entry i ?e w"
  have s1: "step_ok now i w ?w1" by (rule step_ok_entry [OF assms(1,2)]) (simp_all add: same_conf_def)
  have "returns (\<lambda>w'. touched a ?w1 w' \<and> entry i w' = Some ?e) (bufferevent_setcb a None None (Some (if kind = ''tcp'' then Hc_tcp_event i else Hc_http_event i)) ?w1)"
    by (rule returns_mono [OF bev_ops_touched(1)]) (use s1 assms(3) in \<open>auto simp: step_ok_def touched_def entry_def with_entry_def\<close>)
  then obtain w2 where w2: "bufferevent_setcb a None None (Some (if kind = ''tcp'' then Hc_tcp_event i else Hc_http_event i)) ?w1 = Some w2"
    "touched a ?w1 w2" "entry i w2 = Some ?e" by (auto simp: returns_def)
  obtain w3 where w3: "bufferevent_enable h a (EV_READ OR EV_WRITE) w2 = Some w3" "touched a w2 w3"
    using bev_ops_touched(2) [of w2 a h] w2 by (auto simp: touched_def returns_def)
  obtain rc w4 where w4: "bufferevent_socket_connect h a w3 = Some (rc, w4)" "touched a w3 w4"
    using connect_touched [of w3 a h] w3 by (auto simp: touched_def returns_def)
  have en: "entry i w3 = Some ?e" "entry i w4 = Some ?e" using w2 w3(2) w4(2) by (simp_all add: touched_def entry_def)
  have s3: "step_ok now i w w3" using step_ok_trans [OF s1 touched_step [OF touched_trans [OF w2(2) w3(2)]]] by simp
  have s4: "step_ok now i w w4" using step_ok_trans [OF s3 touched_step [OF w4(2)]] en by simp
  show ?thesis using e assms(2) w2(1) w3(1) w4(1) finish_step [OF s3 assms(4,5)] finish_step [OF s4 assms(4,5)] s4
    by (simp add: hc_connect_def upd_entry_eq)
qed

lemma start_check_ok:
  assumes "hc_ok w" "entry i w = Some e" "now \<le> clock h (calls w)" "forward h"
  shows "returns (step_ok now i w) (hc_start_check env h i w)"
proof -
  let ?e = "e\<lparr>he_bev := None\<rparr>"
  obtain w1 where w1: "drop_check i w = Some w1" "hc_ok w1" "entry i w1 = Some ?e" "others i w w1" "ev_obj w1 = ev_obj w" "calls w1 = calls w"
    using drop_check_ok [OF assms(1,2)] by (auto simp: returns_def)
  have s1: "step_ok now i w w1" using w1 due_ev_obj [OF w1(5)] by (simp add: step_ok_def)
  have "base_ok w1" using w1(2) by (simp add: hc_ok_def)
  then show ?thesis
  proof (rule socket_new_cases [where h = h])
    fix n assume n: "calls w1 \<le> n" "bufferevent_socket_new h (-1) w1 = Some (None, w1\<lparr>calls := n\<rparr>)"
    let ?w2 = "with_entry i ?e (w1\<lparr>calls := n\<rparr>)"
    have s2: "step_ok now i w1 ?w2"
      using step_ok_entry [of "w1\<lparr>calls := n\<rparr>" i ?e ?e now] w1 n(1) by (simp add: step_ok_def others_def same_conf_def)
    have "returns (step_ok now i w) (hc_finish_check h i False ?w2)" by (rule finish_step [OF step_ok_trans [OF s1 s2] assms(3,4)])
    then show ?thesis using w1(1,3) n(2) by (simp add: hc_start_check_def upd_entry_eq)
  next
    fix w2 b assume w2: "bufferevent_socket_new h (-1) w1 = Some (Some (next_obj w1), w2)" "base_ok w2" "ev_obj w2 = ev_obj w1" "app w2 = app w1"
      "calls w1 \<le> calls w2" "bev_obj w2 = (bev_obj w1)(next_obj w1 \<mapsto> b)"
    let ?a = "next_obj w1"
    let ?f = "?e\<lparr>he_bev := Some ?a\<rparr>"
    let ?w3 = "with_entry i ?f w2"
    have s3: "step_ok now i w1 ?w3" by (rule fresh_check [OF w1(2,3) w2(2-6)])
    then have ok: "hc_ok ?w3" by (simp add: step_ok_def)
    obtain w4 where w4: "bufferevent_set_timeouts h ?a (Some (he_timeout ?f, 0)) (Some (he_timeout ?f, 0)) ?w3 = Some w4" "touched ?a ?w3 w4"
      using bev_ops_touched(3) [OF ok, of ?a h "Some (he_timeout ?f, 0)" "Some (he_timeout ?f, 0)"] w2(6) by (auto simp: returns_def)
    have s4: "step_ok now i w w4" using step_ok_trans [OF s1 step_ok_trans [OF s3 touched_step [OF w4(2)]]] by simp
    have en: "entry i w4 = Some ?f" using w4(2) by (simp add: touched_def entry_def with_entry_def)
    have "returns (step_ok now i w4) (hc_connect env h i ?a w4)"
      by (rule hc_connect_ok [OF _ en]) (use w4(2) s4 assms forwardD [OF assms(4), of "calls w" "calls w4" now] in \<open>auto simp: touched_def step_ok_def\<close>)
    then have "returns (step_ok now i w) (hc_connect env h i ?a w4)" by (rule returns_mono) (rule step_ok_trans [OF s4])
    moreover have "entry i w2 = Some ?e" using w1(3) w2(4) by (simp add: entry_def)
    ultimately show ?thesis using w1(1) w2(1) w4(1) by (simp add: hc_start_check_def upd_entry_eq)
  qed
qed

lemma timer_cb_ok:
  assumes "hc_ok w" "entry i w = Some e" "now \<le> clock h (calls w)" "forward h"
  shows "returns (step_ok now i w) (hc_timer_cb env h i w)"
  using start_check_ok [OF assms] schedule_ok [OF assms(1-3)] assms(2)
  by (auto simp: hc_timer_cb_def returns_def)

text \<open>The callbacks of health checks meet the contract of timers.\<close>

lemma disarmed_hc_ok:
  assumes "hc_ok w"
  shows "hc_ok (disarmed a w)"
proof -
  have en: "entry i (disarmed a w) = entry i w" for i by (simp add: disarmed_def)
  then have k: "known (disarmed a w) = known w" "checks (disarmed a w) = checks w" by (auto simp: known_def checks_def)
  have "entry_ok (disarmed a w) i e" if "entry i w = Some e" for i e
    by (rule entry_ok_mono [OF hc_okD [OF assms that]]) (auto simp: disarmed_def option.map_comp comp_def)
  moreover have "own_timers (disarmed a w)"
    using assms unfolding own_timers_def k hc_ok_def by (auto simp: disarmed_def split: if_splits)
  ultimately show ?thesis using assms disarmed_ok [of w a] en k by (simp add: hc_ok_def own_checks_def)
qed

interpretation hcheck: timer_callbacks "hc_host env h" "\<lambda>w. hc_ok w \<and> forward h" for env h
proof (unfold_locales, goal_cases)
  case (1 w a)
  then show ?case using disarmed_hc_ok by blast
next
  case (2 w a ev c now)
  then have "c \<in> Hc_timer ` known w" by (auto simp: hc_ok_def own_timers_def)
  then obtain i e where c: "c = Hc_timer i" "entry i w = Some e" by (auto simp: known_def)
  have "clock (hc_host env h) = clock h" by (simp add: hc_host_def)
  with 2 timer_cb_ok [of w i e now h env] c forwardD [of h "calls w" _ now] show ?case
    by (auto simp: returns_def hc_host_def hc_call_def step_ok_def hc_ok_def)
qed

section \<open>Starting checks\<close>

definition no_checks :: hc where
  "no_checks = \<lparr>hc_entries = Map.empty, all_hc_entries = [], hc_next = 0, hc_reports = []\<rparr>"

lemma start_one_ok:
  assumes "hc_ok w" "\<And>n. memory h n" "checkable ps" "pf_name ps \<noteq> None" "entry (hc_next (app w)) w = None"
  shows "returns (\<lambda>w'. hc_ok w' \<and> hc_next (app w') = Suc (hc_next (app w)) \<and> known w' = insert (hc_next (app w)) (known w)) (start_one h ps w)"
proof -
  let ?i = "hc_next (app w)" and ?t = "next_obj w"
  let ?w0 = "w\<lparr>calls := Suc (Suc (Suc (Suc (calls w))))\<rparr>"
  obtain name where n: "pf_name ps = Some name" using assms(4) by auto
  obtain w1 where w1: "event_new h True (Some (Hc_timer ?i)) ?w0 = (Some ?t, w1)" "base_ok w1" "bev_obj w1 = bev_obj w" "app w1 = app w"
    "ev_obj w1 = (ev_obj w)(?t \<mapsto> \<lparr>ev_base = True, ev_cb = Some (Hc_timer ?i), ev_expire = 0, ev_pending = False\<rparr>)"
    using event_new_spec [of ?w0 h True "Some (Hc_timer ?i)"] assms(1,2) by (auto simp: hc_ok_def)
  let ?e = "\<lparr>he_name = name, he_ps = ps, he_type = hf_type ps, he_url = Some (case hf_url ps of None \<Rightarrow> ''/'' | Some u \<Rightarrow> u),
    he_interval = or_default 10 (hf_interval ps), he_timeout = or_default 3 (hf_timeout ps), he_max_failed = or_default 1 (hf_max_failed ps),
    he_failed = 0, he_healthy = True, he_state = HC_IDLE, he_timer = Some ?t, he_bev = None\<rparr>"
  let ?w2 = "w1\<lparr>app := (app w1)\<lparr>hc_entries := (hc_entries (app w1))(?i \<mapsto> ?e), all_hc_entries := all_hc_entries (app w1) @ [?i], hc_next := Suc ?i\<rparr>\<rparr>"
  have t2: "ev_obj ?w2 ?t = Some \<lparr>ev_base = True, ev_cb = Some (Hc_timer ?i), ev_expire = 0, ev_pending = False\<rparr>" by (simp add: w1(5))
  obtain w3 where w3: "event_add h ?t (Some (0, 0)) ?w2 = Some (0, w3)" "base_ok w3" "bev_obj w3 = bev_obj w" "app w3 = app ?w2"
    "ev_obj w3 = (ev_obj ?w2)(?t \<mapsto> \<lparr>ev_base = True, ev_cb = Some (Hc_timer ?i), ev_expire = clock h (calls ?w2), ev_pending = True\<rparr>)"
    using event_add_spec [of ?w2 ?t _ h "(0, 0)", OF _ t2] w1(2,3) by (auto simp: tv_to_us_def)
  have r: "start_one h ps w = Some w3"
    using assms(2) n w1(1,4) w3(1) by (simp add: start_one_def ask_def Let_def)
  have fresh: "ev_obj w ?t = None"
  proof (rule ccontr)
    assume "ev_obj w ?t \<noteq> None"
    then have "?t \<in> dom (ev_obj w) \<union> dom (bev_obj w)" by (simp add: domIff)
    then have "?t < ?t" using assms(1) unfolding hc_ok_def base_ok_def by blast
    then show False by simp
  qed
  have en: "entry j w3 = (if j = ?i then Some ?e else entry j w)" for j using w1(4) w3(4) by (simp add: entry_def)
  have k: "known w3 = insert ?i (known w)" using en by (auto simp: known_def)
  have "entry_ok w3 j f" if f: "entry j w = Some f" for j f
  proof -
    obtain s ev where "he_timer f = Some s" "ev_obj w s = Some ev" "ev_base ev" "ev_cb ev = Some (Hc_timer j)"
      using hc_okD [OF assms(1) f] by (auto simp: entry_ok_def)
    then have "\<exists>ev. ev_obj w3 s = Some ev \<and> ev_base ev \<and> ev_cb ev = Some (Hc_timer j)" using fresh by (auto simp: w3(5) w1(5))
    then show ?thesis using hc_okD [OF assms(1) f] \<open>he_timer f = Some s\<close> by (simp add: entry_ok_def w3(3))
  qed
  moreover have "entry_ok w3 ?i ?e" using assms(3) by (auto simp: entry_ok_def w3(5) checkable_def or_default_def)
  moreover have "checks w3 j = (if j = ?i then None else checks w j)" for j using en by (simp add: checks_def)
  then have "own_checks w3" by (intro own_checks_less [of w w3]) (use assms(1) in \<open>auto simp: hc_ok_def split: if_splits\<close>)
  moreover have "own_timers w3" using assms(1) by (auto simp: hc_ok_def own_timers_def k w3(5) w1(5) split: if_splits)
  ultimately have "hc_ok w3" using w3(2) en by (auto simp: hc_ok_def)
  then show ?thesis using r k w1(4) w3(4) by simp
qed

lemma start_all_ok:
  assumes "hc_ok w" "\<And>n. memory h n" "\<forall>ps \<in> set pss. pf_name ps \<noteq> None" "\<forall>i \<in> known w. i < hc_next (app w)"
  shows "returns hc_ok (health_check_start_all h pss w)"
  using assms
proof (induction pss arbitrary: w)
  case (Cons ps pss)
  show ?case
  proof (cases "checkable ps")
    case True
    have "entry (hc_next (app w)) w = None" using Cons.prems(4) by (force simp: known_def)
    then obtain w1 where w1: "start_one h ps w = Some w1" "hc_ok w1" "hc_next (app w1) = Suc (hc_next (app w))" "known w1 = insert (hc_next (app w)) (known w)"
      using start_one_ok [OF Cons.prems(1,2) True] Cons.prems(3) by (auto simp: returns_def)
    then have "\<forall>i \<in> known w1. i < hc_next (app w1)" using Cons.prems(4) by auto
    with Cons w1 True show ?thesis by simp
  qed (use Cons in simp)
qed simp

lemma no_checks_ok:
  assumes "w = event_base_new no_checks"
  shows "hc_ok w \<and> known w = {}"
  using new_base_ok [OF assms] assms
  by (simp add: hc_ok_def own_checks_def own_timers_def entry_def known_def checks_def event_base_new_def no_checks_def)

section \<open>Properties\<close>

text \<open>A host for examples: memory never runs out, a microsecond passes with every request, connections can be started.\<close>

definition demo_host :: hc_host where
  "demo_host = \<lparr>clock = int, memory = (\<lambda>n. True), recv_from = (\<lambda>n fd. Recv_EAGAIN), send_to = (\<lambda>n fd d. Sent_bytes (length d)),
     so_error = (\<lambda>n fd. 0), socket_new = (\<lambda>n. 5), connect_ok = (\<lambda>n. True), ready = (\<lambda>n t. (\<lambda>fd. True, \<lambda>fd. True)),
     tls_handshake = (\<lambda>n. (-1, False, False)), tls_read = (\<lambda>n. (Tls_error, False, False)), tls_write = (\<lambda>n d. (-1, 0, False, False)),
     tls_pending = (\<lambda>n. 0), call = (\<lambda>c t w. None)\<rparr>"

definition demo_hc_env :: hc_env where
  "demo_hc_env = \<lparr>hc_hour = (\<lambda>n. 12), hc_address = (\<lambda>s. True)\<rparr>"

definition demo_conf :: "string \<Rightarrow> hc_conf" where
  "demo_conf t = \<lparr>ps_proxy_type = Some ''tcp'', ps_service_type = NO_XDPI, ps_use_encryption = False, ps_use_compression = False,
     ps_local_ip = Some ''127.0.0.1'', ps_local_port = 80, ps_plugin = None, ps_plugin_unix_path = None, pf_name = Some ''web'',
     pf_remote_port = 0, pf_start_time = 0, pf_end_time = 0, pf_custom_domains = None, pf_subdomain = None, pf_locations = None,
     pf_host_header_rewrite = None, pf_http_user = None, pf_http_pwd = None, pf_request_headers = None, pf_response_headers = None,
     pf_group = None, pf_group_key = None, pf_multiplexer = None, pf_route_by_http_user = None, pf_sk = None, pf_allow_users = None,
     hf_type = Some t, hf_url = None, hf_interval = 10, hf_timeout = 3, hf_max_failed = 2\<rparr>"

lemma demo_forward: "forward demo_host"
  by (simp add: forward_def demo_host_def)

definition demo_entry :: "nat option \<Rightarrow> hc_entry" where
  "demo_entry b = \<lparr>he_name = ''web'', he_ps = demo_conf ''http'', he_type = Some ''http'', he_url = Some ''/'', he_interval = 10,
     he_timeout = 3, he_max_failed = 2, he_failed = 0, he_healthy = True, he_state = (if b = None then HC_IDLE else HC_READING),
     he_timer = Some 0, he_bev = b\<rparr>"

text \<open>One service with its timer, which is due or not, and perhaps a check that is waiting for an answer.\<close>

definition demo_base :: "bool \<Rightarrow> hc_cb bufferevent option \<Rightarrow> hc_base" where
  "demo_base armed b = \<lparr>events = \<lparr>dl_head = Some 0, dl_node = [0 \<mapsto> \<lparr>nd_next = None, nd_prev = Some Head\<rparr>]\<rparr>,
     ev_obj = [0 \<mapsto> \<lparr>ev_base = True, ev_cb = Some (Hc_timer 0), ev_expire = 0, ev_pending = armed\<rparr>],
     bevs = (case b of None \<Rightarrow> \<lparr>dl_head = None, dl_node = Map.empty\<rparr> | Some b \<Rightarrow> \<lparr>dl_head = Some 1, dl_node = [1 \<mapsto> \<lparr>nd_next = None, nd_prev = Some Head\<rparr>]\<rparr>),
     bev_obj = (case b of None \<Rightarrow> Map.empty | Some b \<Rightarrow> [1 \<mapsto> b]), break_flag = False, stop_flag = False, next_obj = 2, calls = 4000000,
     app = \<lparr>hc_entries = [0 \<mapsto> demo_entry (if b = None then None else Some 1)], all_hc_entries = [0], hc_next = 1, hc_reports = []\<rparr>\<rparr>"

lemma demo_base_ok: "hc_ok (demo_base armed b)"
proof -
  have "holds (events (demo_base armed b)) [0]" by (simp add: demo_base_def holds_def)
  moreover have "holds (bevs (demo_base armed b)) (case b of None \<Rightarrow> [] | Some b \<Rightarrow> [1])"
    by (simp add: demo_base_def holds_def split: option.split)
  ultimately have "base_ok (demo_base armed b)"
    unfolding base_ok_def by (auto simp: demo_base_def allocated_def split: option.splits)
  moreover have "own_checks (demo_base armed b)"
    by (simp add: own_checks_def checks_def entry_def demo_base_def)
  moreover have "own_timers (demo_base armed b)" by (simp add: own_timers_def known_def entry_def demo_base_def)
  ultimately show ?thesis
    by (auto simp: hc_ok_def entry_ok_def entry_def demo_base_def demo_entry_def demo_conf_def split: option.splits)
qed

text \<open>C20. The timer phase of the event loop always comes to an end with health checks: whatever allocations and connections
  fail, the callbacks of all timers that are due are run, every check is started or given up and scheduled again for later
  than the moment of the round, and then no timer is due.\<close>

theorem health_timers_end:
  assumes "hc_ok w" "forward h" "now \<le> clock h (calls w)"
  shows "\<exists>w'. fire_timers (hc_host env h) now w = Some w' \<and> hc_ok w' \<and> due now w' = {}"
  using hcheck.timers_end [of w h now env] assms by (auto simp: hc_ok_def hc_host_def)

theorem health_timers_end_witness:
  "0 \<in> due 5 (demo_base True None) \<and> (\<exists>w'. fire_timers (hc_host demo_hc_env demo_host) 5 (demo_base True None) = Some w' \<and> due 5 w' = {})"
  using health_timers_end [OF demo_base_ok demo_forward, of 5 True None demo_hc_env]
  by (auto simp: due_def demo_base_def demo_host_def)

text \<open>The specification of the verdict: a service is down exactly while the last \<open>m\<close> checks or more have failed.\<close>

definition healthy_after :: "int \<Rightarrow> bool list \<Rightarrow> bool" where
  "healthy_after m rs \<longleftrightarrow> int (length (takeWhile Not (rev rs))) < m"

definition changes :: "int \<Rightarrow> bool list \<Rightarrow> bool list" where
  "changes m rs = map (\<lambda>k. healthy_after m (take (Suc k) rs))
     (filter (\<lambda>k. healthy_after m (take (Suc k) rs) \<noteq> healthy_after m (take k rs)) [0..<length rs])"

fun finish_each :: "hc_host \<Rightarrow> nat \<Rightarrow> bool list \<Rightarrow> hc_base \<Rightarrow> hc_base option" where
  "finish_each h i [] w = Some w"
| "finish_each h i (r # rs) w = do { w \<leftarrow> hc_finish_check h i r w; finish_each h i rs w }"

lemma finish_each_append: "finish_each h i (rs @ ss) w = Option.bind (finish_each h i rs w) (finish_each h i ss)"
  by (induction rs arbitrary: w) (auto split: bind_splits)

lemma changes_snoc: "changes m (rs @ [r]) = changes m rs @ (if healthy_after m (rs @ [r]) = healthy_after m rs then [] else [healthy_after m (rs @ [r])])"
proof -
  let ?H = "healthy_after m"
  have t: "take (Suc k) (rs @ [r]) = take (Suc k) rs" "take k (rs @ [r]) = take k rs" if "k < length rs" for k using that by simp_all
  have "filter (\<lambda>k. ?H (take (Suc k) (rs @ [r])) \<noteq> ?H (take k (rs @ [r]))) [0..<length rs] =
      filter (\<lambda>k. ?H (take (Suc k) rs) \<noteq> ?H (take k rs)) [0..<length rs]"
    by (intro filter_cong) (simp_all add: t del: take_append)
  moreover have "map (\<lambda>k. ?H (take (Suc k) (rs @ [r]))) (filter P [0..<length rs]) = map (\<lambda>k. ?H (take (Suc k) rs)) (filter P [0..<length rs])" for P
    by (intro map_cong) (simp_all add: t del: take_append)
  ultimately show ?thesis by (simp add: changes_def del: take_append) simp
qed

lemma finish_each_result:
  assumes "hc_ok w" "entry i w = Some e" "he_failed e = 0" "he_healthy e" "he_max_failed e = m" "0 < m" "now \<le> clock h (calls w)" "forward h" "length rs < 2 ^ 31"
  shows "returns (\<lambda>w'. hc_ok w' \<and> now \<le> clock h (calls w') \<and> hc_reports (app w') = hc_reports (app w) @ map (Pair i) (changes m rs) \<and>
    (\<exists>e'. entry i w' = Some e' \<and> he_failed e' = int (length (takeWhile Not (rev rs))) \<and> he_healthy e' = healthy_after m rs \<and> he_max_failed e' = m))
    (finish_each h i rs w)"
  using assms(9)
proof (induction rs rule: rev_induct)
  case Nil
  with assms(1-8) show ?case by (simp add: changes_def healthy_after_def)
next
  case (snoc r rs)
  then obtain w1 e1 where w1: "finish_each h i rs w = Some w1" "hc_ok w1" "now \<le> clock h (calls w1)"
    "hc_reports (app w1) = hc_reports (app w) @ map (Pair i) (changes m rs)" and e1: "entry i w1 = Some e1"
    "he_failed e1 = int (length (takeWhile Not (rev rs)))" "he_healthy e1 = healthy_after m rs" "he_max_failed e1 = m"
    by (auto simp: returns_def)
  obtain w2 where w2: "hc_finish_check h i r w1 = Some w2" "step_ok now i w1 w2"
    "entry i w2 = Some ((judged r e1)\<lparr>he_bev := None, he_state := HC_IDLE\<rparr>)"
    "hc_reports (app w2) = hc_reports (app w1) @ (if he_healthy (judged r e1) = he_healthy e1 then [] else [(i, he_healthy (judged r e1))])"
    using finish_ok [OF w1(2) e1(1) w1(3), of r] by (auto simp: returns_def)
  have "length (takeWhile Not (rev rs)) \<le> length rs" using length_takeWhile_le [of Not "rev rs"] by simp
  then have c: "int_incr (he_failed e1) = int (length (takeWhile Not (rev rs))) + 1"
    using snoc.prems unfolding e1(2) by (intro int_incr_small) simp_all
  have j: "he_healthy (judged r e1) = healthy_after m (rs @ [r])" "he_failed (judged r e1) = int (length (takeWhile Not (rev (rs @ [r]))))"
    "he_max_failed (judged r e1) = m"
    using e1 assms(6) c by (auto simp: judged_def healthy_after_def Let_def)
  have "finish_each h i (rs @ [r]) w = Some w2" using w1(1) w2(1) by (simp add: finish_each_append)
  moreover have "hc_reports (app w2) = hc_reports (app w) @ map (Pair i) (changes m (rs @ [r]))"
    using w2(4) w1(4) j(1) e1(3) by (simp add: changes_snoc)
  ultimately show ?case using w2 j forwardD [OF assms(8), of "calls w1" "calls w2" now] w1(3) by (simp add: step_ok_def)
qed

text \<open>C21. After any sequence of fewer than 2^31 results of a service's checks (so that the counter of failures cannot overflow), the service counts as down exactly when at least the
  configured number of its last checks failed, and the calls of the result callback are exactly the changes of that
  verdict, in order: a check that ends without a change of the verdict calls nothing, as the comment on \<open>health_check_start_all\<close>
  says and the comment on the callback's type does not.\<close>

theorem health_follows_failures:
  assumes "hc_ok w" "entry i w = Some e" "he_failed e = 0" "he_healthy e" "0 < he_max_failed e" "forward h" "length rs < 2 ^ 31"
  shows "\<exists>w' e'. finish_each h i rs w = Some w' \<and> entry i w' = Some e' \<and> he_healthy e' = healthy_after (he_max_failed e) rs \<and>
    hc_reports (app w') = hc_reports (app w) @ map (Pair i) (changes (he_max_failed e) rs)"
  using finish_each_result [OF assms(1-4) refl assms(5) order_refl assms(6,7)] by (auto simp: returns_def)

theorem health_follows_failures_witness:
  "\<exists>w' e'. finish_each demo_host 0 [False, True, False, False, False, True] (demo_base False None) = Some w' \<and> entry 0 w' = Some e' \<and>
     he_healthy e' \<and> hc_reports (app w') = [(0, False), (0, True)]"
proof -
  have "entry 0 (demo_base False None) = Some (demo_entry None)" by (simp add: entry_def demo_base_def)
  from health_follows_failures [OF demo_base_ok this _ _ _ demo_forward, of "[False, True, False, False, False, True]"]
  show ?thesis by (simp add: demo_entry_def healthy_after_def changes_def demo_base_def upt_rec)
qed

text \<open>C39. When an HTTP check has been waiting for the answer for its time-out, the event loop reads freed memory: the
  time-out event makes the check free its bufferevent, and \<open>bev_check_timeouts\<close> then reads the base of that
  bufferevent to find out whether it is still linked.\<close>

theorem http_timeout_reads_freed:
  assumes "hc_ok w" "entry i w = Some e" "he_bev e = Some a" "bev_obj w a = Some b" "b_eventcb b = Some (Hc_http_event i)"
    "\<not> b_connecting b" "\<not> b_ssl b" "b_enabled b AND EV_READ \<noteq> 0" "0 < tv_to_us (b_tv_read b)"
    "tv_to_us (b_tv_read b) \<le> clock h (calls w) - b_last_read b"
  shows "bev_check_timeouts (hc_host env h) a w = None"
proof -
  let ?w = "w\<lparr>calls := Suc (calls w), bev_obj := (bev_obj w)(a \<mapsto> b\<lparr>b_last_read := clock h (calls w)\<rparr>)\<rparr>"
  have "hc_ok (w\<lparr>calls := Suc (calls w)\<rparr>)" using assms(1) by simp
  then have ok: "hc_ok ?w" using hc_ok_bev [of "w\<lparr>calls := Suc (calls w)\<rparr>" a b] assms(4) by simp
  obtain w' where "hc_finish_check h i False ?w = Some w'" "bev_obj w' a = None"
    using finish_ok [OF ok, of i e "clock h (calls ?w)" h False] assms(2,3) by (auto simp: returns_def)
  moreover have "(BEV_EVENT_TIMEOUT OR BEV_EVENT_READING) AND BEV_EVENT_CONNECTED = 0" by (simp add: event_bits)
  ultimately show ?thesis using assms
    by (simp add: bev_check_timeouts_def hc_host_def upd_bev_def bev_call_eventcb_def hc_call_def hc_http_event_cb_def linked_via_def Let_def)
qed

definition demo_bev :: "hc_cb bufferevent" where
  "demo_bev = (fresh_bev 5 0)\<lparr>b_eventcb := Some (Hc_http_event 0), b_enabled := 6, b_tv_read := (3, 0), b_tv_write := (3, 0)\<rparr>"

theorem http_timeout_reads_freed_witness:
  "bev_check_timeouts (hc_host demo_hc_env demo_host) 1 (demo_base False (Some demo_bev)) = None"
proof -
  have "entry 0 (demo_base False (Some demo_bev)) = Some (demo_entry (Some 1))" by (simp add: entry_def demo_base_def)
  from http_timeout_reads_freed [OF demo_base_ok this, of 1 demo_bev demo_host demo_hc_env] show ?thesis
    by (simp add: demo_entry_def demo_base_def demo_bev_def fresh_bev_def demo_host_def tv_to_us_def event_bits)
qed

end
