(* ===== verification/Ini.thy ===== *)
theory Ini
  imports Xfrpc_Prelude
begin

text \<open>
  The INI parser \<open>ini.c\<close> with the settings of \<open>ini.h\<close>: continuation lines, a byte order mark, inline comments after
  a semicolon, lines of at most 199 characters, no stop at the first error. Text is a string without NUL, a pointer
  into the line is the rest of the line from there on. The handler is a function on a state of type \<open>'u\<close>; \<open>None\<close> is a failed assertion
  in it.
\<close>

section \<open>Lines\<close>

definition INI_MAX_LINE :: nat where "INI_MAX_LINE = 200"
definition MAX_SECTION :: nat where "MAX_SECTION = 50"
definition MAX_NAME :: nat where "MAX_NAME = 50"

definition newline :: char where "newline = CHR 0x0A"

definition isspace :: "char \<Rightarrow> bool" where
  "isspace c \<longleftrightarrow> of_char c = (32 :: nat) \<or> (9 \<le> (of_char c :: nat) \<and> (of_char c :: nat) \<le> 13)"

definition rstrip :: "string \<Rightarrow> string" where
  "rstrip s = rev (dropWhile isspace (rev s))"

definition lskip :: "string \<Rightarrow> string" where
  "lskip s = dropWhile isspace s"

text \<open>What comes before the first of \<open>chars\<close> or an inline comment, and the rest from there on.\<close>

fun find_chars_or_comment :: "bool \<Rightarrow> string \<Rightarrow> string \<Rightarrow> string \<times> string" where
  "find_chars_or_comment was_space chars [] = ([], [])"
| "find_chars_or_comment was_space chars (c # s) =
     (if c \<in> set chars \<or> (was_space \<and> c = CHR '';'') then ([], c # s)
      else let (a, b) = find_chars_or_comment (isspace c) chars s in (c # a, b))"

definition strncpy0 :: "nat \<Rightarrow> string \<Rightarrow> string" where
  "strncpy0 n s = take (n - 1) s"

text \<open>\<open>ini_string_reader\<close>, and \<open>fgets\<close>: a line with its newline, cut when it does not fit.\<close>

definition ini_string_reader :: "nat \<Rightarrow> string \<Rightarrow> (string \<times> string) option" where
  "ini_string_reader num s =
     (if s = [] \<or> num \<le> 1 then None
      else let len = length (takeWhile (\<lambda>c. c \<noteq> newline) (take (num - 1) s));
               len = (if len < num - 1 \<and> len < length s \<and> s ! len = newline then Suc len else len) in
        Some (take len s, drop len s))"

definition byte_order_mark :: string where
  "byte_order_mark = [CHR 0xEF, CHR 0xBB, CHR 0xBF]"

section \<open>Parsing\<close>

type_synonym 'u ini_handler = "string \<Rightarrow> string \<Rightarrow> string \<Rightarrow> 'u \<Rightarrow> (bool \<times> 'u) option"

record 'u ini_state =
  i_section :: string
  i_prev_name :: string
  i_lineno :: nat
  i_error :: nat
  i_user :: 'u

text \<open>The first error is kept.\<close>

definition note_error :: "'u ini_state \<Rightarrow> 'u ini_state" where
  "note_error s = (if i_error s = 0 then s\<lparr>i_error := i_lineno s\<rparr> else s)"

definition call_handler :: "'u ini_handler \<Rightarrow> string \<Rightarrow> string \<Rightarrow> 'u ini_state \<Rightarrow> 'u ini_state option" where
  "call_handler handler name val s = do {
     (ok, u) \<leftarrow> handler (i_section s) name val (i_user s);
     (let s = s\<lparr>i_user := u\<rparr> in Some (if ok then s else note_error s))
   }"

definition ini_pair :: "'u ini_handler \<Rightarrow> string \<Rightarrow> 'u ini_state \<Rightarrow> 'u ini_state option" where
  "ini_pair handler start s =
     (case find_chars_or_comment False ''=:'' start of
        (name, []) \<Rightarrow> Some (note_error s)
      | (name, c # val) \<Rightarrow>
          if c = CHR ''='' \<or> c = CHR '':'' then
            (let name = rstrip name; val = rstrip (lskip (fst (find_chars_or_comment False [] val))) in
             call_handler handler name val (s\<lparr>i_prev_name := strncpy0 MAX_NAME name\<rparr>))
          else Some (note_error s))"

definition ini_section :: "string \<Rightarrow> 'u ini_state \<Rightarrow> 'u ini_state" where
  "ini_section start s =
     (case find_chars_or_comment False '']'' start of
        (name, c # rest) \<Rightarrow> if c = CHR '']'' then s\<lparr>i_section := strncpy0 MAX_SECTION name, i_prev_name := []\<rparr> else note_error s
      | (name, []) \<Rightarrow> note_error s)"

definition ini_line :: "'u ini_handler \<Rightarrow> string \<Rightarrow> 'u ini_state \<Rightarrow> 'u ini_state option" where
  "ini_line handler line s =
     (let s = s\<lparr>i_lineno := Suc (i_lineno s)\<rparr>;
          bom = (i_lineno s = 1 \<and> take 3 line = byte_order_mark);
          body = rstrip (if bom then drop 3 line else line);
          start = lskip body in
      if start \<noteq> [] \<and> (hd start = CHR '';'' \<or> hd start = CHR ''#'') then Some s
      else if i_prev_name s \<noteq> [] \<and> start \<noteq> [] \<and> (bom \<or> start \<noteq> body) then call_handler handler (i_prev_name s) start s
      else if start \<noteq> [] \<and> hd start = CHR ''['' then Some (ini_section (tl start) s)
      else if start \<noteq> [] then ini_pair handler start s
      else Some s)"

lemma reader_shrinks: "ini_string_reader num s = Some (line, rest) \<Longrightarrow> length rest < length s \<and> s = line @ rest"
proof -
  assume r: "ini_string_reader num s = Some (line, rest)"
  let ?n = "length (takeWhile (\<lambda>c. c \<noteq> newline) (take (num - 1) s))"
  let ?len = "if ?n < num - 1 \<and> ?n < length s \<and> s ! ?n = newline then Suc ?n else ?n"
  have s: "s \<noteq> []" "num > 1" "line = take ?len s" "rest = drop ?len s"
    using r by (auto simp: ini_string_reader_def Let_def split: if_splits)
  have "?len > 0"
  proof (cases "hd s = newline")
    case True
    with s(1,2) show ?thesis by (cases s; cases "num - 1") auto
  next
    case False
    then have "takeWhile (\<lambda>c. c \<noteq> newline) (take (num - 1) s) \<noteq> []" using s(1,2) by (cases s; cases "num - 1") auto
    then show ?thesis by auto
  qed
  then show ?thesis using s by auto
qed

function ini_lines :: "'u ini_handler \<Rightarrow> string \<Rightarrow> 'u ini_state \<Rightarrow> 'u ini_state option" where
  "ini_lines handler text s =
     (case ini_string_reader INI_MAX_LINE text of
        None \<Rightarrow> Some s
      | Some (line, rest) \<Rightarrow> Option.bind (ini_line handler line s) (ini_lines handler rest))"
  by pat_completeness auto
termination
  by (relation "measure (\<lambda>(handler, text, s). length text)") (auto dest: reader_shrinks)

declare ini_lines.simps [simp del]

definition ini_parse_stream :: "'u ini_handler \<Rightarrow> string \<Rightarrow> 'u \<Rightarrow> (nat \<times> 'u) option" where
  "ini_parse_stream handler text u = do {
     s \<leftarrow> ini_lines handler text \<lparr>i_section = [], i_prev_name = [], i_lineno = 0, i_error = 0, i_user = u\<rparr>;
     Some (i_error s, i_user s)
   }"

definition ini_parse_string :: "'u ini_handler \<Rightarrow> string option \<Rightarrow> 'u \<Rightarrow> (int \<times> 'u) option" where
  "ini_parse_string handler text u =
     (case text of None \<Rightarrow> Some (-1, u) | Some t \<Rightarrow> do { (e, u) \<leftarrow> ini_parse_stream handler t u; Some (int e, u) })"

text \<open>A file is what it contains, \<open>None\<close> when it cannot be opened.\<close>

definition ini_parse :: "'u ini_handler \<Rightarrow> string option \<Rightarrow> 'u \<Rightarrow> (int \<times> 'u) option" where
  "ini_parse handler contents u = ini_parse_string handler contents u"

section \<open>Handlers that always answer\<close>

text \<open>What the parser needs of a handler: it returns, and keeps an invariant of the state it works on. Then the parser
  returns for every text, and keeps the invariant.\<close>

locale ini_client =
  fixes handler :: "'u ini_handler" and inv :: "'u \<Rightarrow> bool"
  assumes handler_keeps: "inv u \<Longrightarrow> returns (\<lambda>(ok, u'). inv u') (handler sec n v u)"
begin

lemma call_keeps: "inv (i_user s) \<Longrightarrow> returns (\<lambda>s. inv (i_user s)) (call_handler handler n v s)"
  unfolding call_handler_def by (rule returns_bind [OF handler_keeps]) (auto simp: note_error_def Let_def)

lemma pair_keeps: "inv (i_user s) \<Longrightarrow> returns (\<lambda>s. inv (i_user s)) (ini_pair handler start s)"
  by (auto simp: ini_pair_def note_error_def Let_def intro!: call_keeps split: list.split prod.split)

lemma section_keeps: "i_user (ini_section start s) = i_user s"
  by (simp add: ini_section_def note_error_def split: list.split prod.split)

lemma line_keeps: "inv (i_user s) \<Longrightarrow> returns (\<lambda>s. inv (i_user s)) (ini_line handler line s)"
  unfolding ini_line_def Let_def by (intro returns_if call_keeps pair_keeps) (simp_all add: section_keeps)

lemma lines_keep: "inv (i_user s) \<Longrightarrow> returns (\<lambda>s. inv (i_user s)) (ini_lines handler t s)"
proof (induction "length t" arbitrary: t s rule: less_induct)
  case less
  show ?case
  proof (cases "ini_string_reader INI_MAX_LINE t")
    case None
    with less.prems show ?thesis by (simp add: ini_lines.simps [of handler t])
  next
    case (Some lr)
    obtain line rest where lr: "lr = (line, rest)" by force
    have "length rest < length t" using reader_shrinks Some lr by blast
    then have "returns (\<lambda>s. inv (i_user s)) (Option.bind (ini_line handler line s) (ini_lines handler rest))"
      by (intro returns_bind [OF line_keeps [OF less.prems]] less.hyps)
    then show ?thesis using Some lr by (simp add: ini_lines.simps [of handler t])
  qed
qed

lemma parse_keeps: "inv u \<Longrightarrow> returns (\<lambda>(rc, u). inv u) (ini_parse_string handler contents u)"
  unfolding ini_parse_string_def ini_parse_stream_def
  by (cases contents) (auto intro!: returns_bind [OF lines_keep])

end

section \<open>Texts that are read as they are meant\<close>

text \<open>The canonical text of a list of sections with their settings.\<close>

type_synonym settings = "(string \<times> (string \<times> string) list) list"

definition print_pair :: "string \<times> string \<Rightarrow> string" where
  "print_pair nv = fst nv @ '' = '' @ snd nv @ [newline]"

definition print_ini :: "settings \<Rightarrow> string" where
  "print_ini secs = concat (map (\<lambda>(sec, nvs). CHR ''['' # sec @ [CHR '']'', newline] @ concat (map print_pair nvs)) secs)"

definition settings_of :: "settings \<Rightarrow> (string \<times> string \<times> string) list" where
  "settings_of secs = concat (map (\<lambda>(sec, nvs). map (\<lambda>(n, v). (sec, n, v)) nvs) secs)"

text \<open>What can be written that way.\<close>

definition trimmed :: "string \<Rightarrow> bool" where
  "trimmed s \<longleftrightarrow> (s \<noteq> [] \<longrightarrow> \<not> isspace (hd s) \<and> \<not> isspace (last s)) \<and> CHR '';'' \<notin> set s \<and> newline \<notin> set s"

definition pair_ok :: "string \<times> string \<Rightarrow> bool" where
  "pair_ok nv \<longleftrightarrow> trimmed (fst nv) \<and> trimmed (snd nv) \<and> fst nv \<noteq> [] \<and> set ''=:'' \<inter> set (fst nv) = {} \<and> hd (fst nv) \<noteq> CHR ''['' \<and> hd (fst nv) \<noteq> CHR ''#'' \<and>
     length (print_pair nv) < INI_MAX_LINE"

definition section_ok :: "string \<times> (string \<times> string) list \<Rightarrow> bool" where
  "section_ok sn \<longleftrightarrow> CHR '']'' \<notin> set (fst sn) \<and> CHR '';'' \<notin> set (fst sn) \<and> newline \<notin> set (fst sn) \<and> length (fst sn) < MAX_SECTION \<and> (\<forall>nv \<in> set (snd sn). pair_ok nv)"

text \<open>The calls of the handler, and whether all of them succeeded.\<close>

fun feed :: "'u ini_handler \<Rightarrow> (string \<times> string \<times> string) list \<Rightarrow> 'u \<Rightarrow> (bool \<times> 'u) option" where
  "feed handler [] u = Some (True, u)"
| "feed handler ((sec, n, v) # cs) u = do {
     (ok, u) \<leftarrow> handler sec n v u;
     (oks, u) \<leftarrow> feed handler cs u;
     Some (ok \<and> oks, u)
   }"

lemma read_full_line:
  assumes "newline \<notin> set line" "length line < INI_MAX_LINE - 1"
  shows "ini_string_reader INI_MAX_LINE (line @ newline # rest) = Some (line @ [newline], rest)"
proof -
  have "takeWhile (\<lambda>c. c \<noteq> newline) (take (INI_MAX_LINE - 1) (line @ newline # rest)) = line"
  proof -
    obtain k where "INI_MAX_LINE - 1 - length line = Suc k" using assms(2) by (metis Suc_diff_Suc)
    moreover have "take (INI_MAX_LINE - 1) line = line" using assms(2) by simp
    ultimately show ?thesis using assms(1) by (simp add: takeWhile_append)
  qed
  then show ?thesis using assms by (simp add: ini_string_reader_def INI_MAX_LINE_def Let_def nth_append)
qed

lemma lines_line:
  assumes "newline \<notin> set line" "length line < INI_MAX_LINE - 1"
  shows "ini_lines handler (line @ newline # rest) s = Option.bind (ini_line handler (line @ [newline]) s) (ini_lines handler rest)"
  by (simp add: ini_lines.simps [of handler "line @ newline # rest"] read_full_line [OF assms])

lemma isspace_consts [simp]: "isspace newline" "isspace (CHR '' '')" "\<not> isspace (CHR ''['')" "\<not> isspace (CHR '']'')"
  by (simp_all add: isspace_def newline_def)

lemma find_none: "set chars \<inter> set s = {} \<Longrightarrow> CHR '';'' \<notin> set s \<Longrightarrow> find_chars_or_comment b chars s = (s, [])"
  by (induction b chars s rule: find_chars_or_comment.induct) auto

lemma find_first: "set chars \<inter> set s = {} \<Longrightarrow> CHR '';'' \<notin> set s \<Longrightarrow> c \<in> set chars \<Longrightarrow> find_chars_or_comment b chars (s @ c # r) = (s, c # r)"
  by (induction b chars s rule: find_chars_or_comment.induct) auto

lemma lskip_trimmed: "s \<noteq> [] \<Longrightarrow> \<not> isspace (hd s) \<Longrightarrow> lskip s = s"
  by (cases s) (simp_all add: lskip_def)

lemma rstrip_trimmed: "s \<noteq> [] \<Longrightarrow> \<not> isspace (last s) \<Longrightarrow> rstrip s = s"
  by (cases s rule: rev_cases) (simp_all add: rstrip_def)

lemma rstrip_space: "isspace c \<Longrightarrow> rstrip (s @ [c]) = rstrip s"
  by (simp add: rstrip_def)

lemma trimmed_value: "trimmed v \<Longrightarrow> rstrip (lskip (CHR '' '' # v)) = v"
  by (cases "v = []") (simp_all add: trimmed_def lskip_def rstrip_def lskip_trimmed [unfolded lskip_def] rstrip_trimmed [unfolded rstrip_def])

lemma bom_first: "take 3 line = byte_order_mark \<Longrightarrow> hd line = CHR 0xEF"
  by (cases line) (auto simp: byte_order_mark_def)

lemma section_line:
  assumes "section_ok (sec, nvs)"
  shows "ini_line handler (CHR ''['' # sec @ [CHR '']'', newline]) s = Some (s\<lparr>i_lineno := Suc (i_lineno s), i_section := sec, i_prev_name := []\<rparr>)"
proof -
  let ?line = "CHR ''['' # sec @ [CHR '']'', newline]"
  have "hd ?line \<noteq> CHR 0xEF" by simp
  then have b: "take 3 ?line \<noteq> byte_order_mark" using bom_first by blast
  have "rstrip ((CHR ''['' # sec @ [CHR '']'']) @ [newline]) = CHR ''['' # sec @ [CHR '']'']"
    by (subst rstrip_space) (simp_all add: rstrip_trimmed)
  then have r: "rstrip ?line = CHR ''['' # sec @ [CHR '']'']" by simp
  have f: "find_chars_or_comment False '']'' (sec @ CHR '']'' # []) = (sec, [CHR '']''])"
    by (rule find_first) (use assms in \<open>auto simp: section_ok_def\<close>)
  have "strncpy0 MAX_SECTION sec = sec" using assms by (simp add: strncpy0_def section_ok_def MAX_SECTION_def)
  then show ?thesis using b r f by (simp add: ini_line_def lskip_trimmed ini_section_def Let_def)
qed

lemma pair_line:
  assumes "pair_ok (n, v)" "i_lineno s \<noteq> 0"
  shows "ini_line handler (print_pair (n, v)) s =
    call_handler handler n v (s\<lparr>i_lineno := Suc (i_lineno s), i_prev_name := strncpy0 MAX_NAME n\<rparr>)"
proof -
  have n: "n \<noteq> []" "\<not> isspace (hd n)" "hd n \<noteq> CHR ''[''" "hd n \<noteq> CHR ''#''" "hd n \<noteq> CHR '';''" "set ''=:'' \<inter> set n = {}" "CHR '';'' \<notin> set n"
    "\<not> isspace (last n)"
    using assms(1) list.set_sel(1) [of n] by (auto simp: pair_ok_def trimmed_def dest: sym [of "hd n"])
  define body where "body = (if v = [] then n @ '' ='' else n @ '' = '' @ v)"
  have "rstrip (print_pair (n, v)) = body"
  proof (cases "v = []")
    case True
    have "rstrip (((n @ '' ='') @ [CHR '' '']) @ [newline]) = n @ '' =''"
      by (simp only: rstrip_space isspace_consts) (rule rstrip_trimmed, simp_all add: isspace_def)
    with True show ?thesis by (simp add: print_pair_def body_def)
  next
    case False
    then have "rstrip ((n @ '' = '' @ v) @ [newline]) = n @ '' = '' @ v"
      by (simp only: rstrip_space isspace_consts) (rule rstrip_trimmed, use False assms(1) in \<open>simp_all add: pair_ok_def trimmed_def\<close>)
    with False show ?thesis by (simp add: print_pair_def body_def)
  qed
  moreover have "body \<noteq> []" "hd body = hd n" using n(1) by (simp_all add: body_def)
  moreover from this have "lskip body = body" using n(2) by (simp add: lskip_trimmed)
  ultimately have l: "ini_line handler (print_pair (n, v)) s = ini_pair handler body (s\<lparr>i_lineno := Suc (i_lineno s)\<rparr>)"
    using n(3-5) assms(2) by (simp add: ini_line_def Let_def)
  define w where "w = (if v = [] then [] else CHR '' '' # v)"
  have b: "body = (n @ '' '') @ CHR ''='' # w" by (simp add: body_def w_def)
  have f: "find_chars_or_comment False ''=:'' body = (n @ '' '', CHR ''='' # w)"
    unfolding b by (rule find_first) (use n(6,7) in auto)
  have "rstrip (n @ '' '') = n" using n(1,8) by (simp add: rstrip_space [of "CHR '' ''" n, simplified] rstrip_trimmed)
  moreover have "CHR '';'' \<notin> set w" using assms(1) by (simp add: w_def pair_ok_def trimmed_def)
  then have "find_chars_or_comment False [] w = (w, [])" by (simp add: find_none)
  moreover have "rstrip (lskip w) = v"
    using assms(1) trimmed_value [of v] by (cases "v = []") (simp_all add: w_def pair_ok_def lskip_def rstrip_def)
  ultimately show ?thesis using l f by (simp add: ini_pair_def Let_def)
qed

definition outcome :: "'u ini_state option \<Rightarrow> (bool \<times> 'u) option" where
  "outcome x = map_option (\<lambda>s. (i_error s = 0, i_user s)) x"

definition expected :: "'u ini_handler \<Rightarrow> (string \<times> string \<times> string) list \<Rightarrow> 'u ini_state \<Rightarrow> (bool \<times> 'u) option" where
  "expected handler cs s = map_option (\<lambda>(ok, u). (i_error s = 0 \<and> ok, u)) (feed handler cs (i_user s))"

lemma pairs_lines:
  assumes "\<forall>nv \<in> set nvs. pair_ok nv" "i_section s = sec" "i_lineno s \<noteq> 0"
    "\<And>s'. i_lineno s' \<noteq> 0 \<Longrightarrow> outcome (ini_lines handler rest s') = expected handler cs s'"
  shows "outcome (ini_lines handler (concat (map print_pair nvs) @ rest) s) = expected handler (map (\<lambda>(n, v). (sec, n, v)) nvs @ cs) s"
  using assms(1-3)
proof (induction nvs arbitrary: s)
  case Nil
  with assms(4) show ?case by simp
next
  case (Cons nv nvs)
  obtain n v where nv: "nv = (n, v)" by force
  let ?more = "concat (map print_pair nvs) @ rest"
  let ?s = "s\<lparr>i_lineno := Suc (i_lineno s), i_prev_name := strncpy0 MAX_NAME n\<rparr>"
  have len: "newline \<notin> set (n @ '' = '' @ v)" "length (n @ '' = '' @ v) < INI_MAX_LINE - 1"
    using Cons.prems(1) nv by (auto simp: pair_ok_def trimmed_def print_pair_def newline_def)
  have "ini_lines handler ((n @ '' = '' @ v) @ newline # ?more) s = Option.bind (ini_line handler ((n @ '' = '' @ v) @ [newline]) s) (ini_lines handler ?more)"
    by (rule lines_line [OF len])
  then have l: "ini_lines handler (concat (map print_pair (nv # nvs)) @ rest) s = Option.bind (call_handler handler n v ?s) (ini_lines handler ?more)"
    using pair_line [of n v s handler] Cons.prems nv by (simp add: print_pair_def)
  show ?case
  proof (cases "handler sec n v (i_user s)")
    case None
    then show ?thesis using l nv Cons.prems(2) by (simp add: call_handler_def outcome_def expected_def)
  next
    case (Some r)
    obtain ok u where r: "r = (ok, u)" by force
    let ?t = "if ok then ?s\<lparr>i_user := u\<rparr> else note_error (?s\<lparr>i_user := u\<rparr>)"
    have t: "i_section ?t = sec" "i_lineno ?t \<noteq> 0" "i_user ?t = u" "i_error ?t = 0 \<longleftrightarrow> i_error s = 0 \<and> ok"
      using Cons.prems(2) by (auto simp: note_error_def)
    have "call_handler handler n v ?s = Some ?t" using Some r Cons.prems(2) by (simp add: call_handler_def Let_def)
    then have "outcome (ini_lines handler (concat (map print_pair (nv # nvs)) @ rest) s) = expected handler (map (\<lambda>(n, v). (sec, n, v)) nvs @ cs) ?t"
      using l Cons.IH [of ?t] Cons.prems(1) t by simp
    also have "\<dots> = expected handler (map (\<lambda>(n, v). (sec, n, v)) (nv # nvs) @ cs) s"
      unfolding expected_def t(3,4) using Some r nv by (auto simp: map_option_case split: option.splits)
    finally show ?thesis .
  qed
qed

lemma sections_lines:
  assumes "\<forall>sn \<in> set secs. section_ok sn"
  shows "outcome (ini_lines handler (print_ini secs) s) = expected handler (settings_of secs) s"
  using assms
proof (induction secs arbitrary: s)
  case Nil
  then show ?case by (simp add: print_ini_def settings_of_def ini_lines.simps ini_string_reader_def outcome_def expected_def)
next
  case (Cons sn secs)
  obtain sec nvs where sn: "sn = (sec, nvs)" by force
  let ?s = "s\<lparr>i_lineno := Suc (i_lineno s), i_section := sec, i_prev_name := []\<rparr>"
  let ?more = "concat (map print_pair nvs) @ print_ini secs"
  have ok: "section_ok (sec, nvs)" using Cons.prems sn by simp
  have "ini_lines handler ((CHR ''['' # sec @ '']'') @ newline # ?more) s =
      Option.bind (ini_line handler ((CHR ''['' # sec @ '']'') @ [newline]) s) (ini_lines handler ?more)"
    by (rule lines_line) (use ok in \<open>auto simp: section_ok_def newline_def INI_MAX_LINE_def MAX_SECTION_def\<close>)
  then have "ini_lines handler (print_ini (sn # secs)) s = ini_lines handler ?more ?s"
    using section_line [OF ok, of handler s] sn by (simp add: print_ini_def)
  also have "outcome \<dots> = expected handler (map (\<lambda>(n, v). (sec, n, v)) nvs @ settings_of secs) ?s"
    by (rule pairs_lines) (use ok Cons in \<open>auto simp: section_ok_def\<close>)
  finally show ?case using sn by (simp add: settings_of_def expected_def)
qed

lemma sections_feed:
  assumes "\<forall>sn \<in> set secs. section_ok sn"
  shows "map_option (\<lambda>(e, u). (e = 0, u)) (ini_parse_string handler (Some (print_ini secs)) u) = feed handler (settings_of secs) u"
proof -
  let ?s = "\<lparr>i_section = [], i_prev_name = [], i_lineno = 0, i_error = 0, i_user = u\<rparr>"
  have "expected handler (settings_of secs) ?s = feed handler (settings_of secs) u"
    by (simp add: expected_def option.map_ident case_prod_unfold)
  moreover have "map_option (\<lambda>(e, u). (e = 0, u)) (ini_parse_string handler (Some (print_ini secs)) u) = outcome (ini_lines handler (print_ini secs) ?s)"
    by (cases "ini_lines handler (print_ini secs) ?s") (simp_all add: ini_parse_string_def ini_parse_stream_def outcome_def)
  ultimately show ?thesis using sections_lines [OF assms, of handler ?s] by simp
qed

section \<open>Properties\<close>

text \<open>C28. A configuration that is printed in the canonical form, section by section with one setting per line, is
  read back as it was: the handler is called with exactly the sections, names and values that were printed, in
  order, and the parser reports an error exactly when the handler refused one of them.\<close>

theorem ini_print_parse:
  assumes "\<forall>sn \<in> set secs. section_ok sn"
  shows "map_option (\<lambda>(e, u). (e = 0, u)) (ini_parse_string handler (Some (print_ini secs)) u) = feed handler (settings_of secs) u"
  by (rule sections_feed [OF assms])

definition demo_settings :: settings where
  "demo_settings = [(''common'', [(''server_addr'', ''frps.example.com''), (''server_port'', ''7000'')]), (''web'', [(''type'', ''tcp'')])]"

theorem ini_print_parse_witness:
  "map_option (\<lambda>(e, u). (e = 0, u)) (ini_parse_string (\<lambda>sec n v u. Some (True, u @ [(sec, n, v)])) (Some (print_ini demo_settings)) []) =
     Some (True, [(''common'', ''server_addr'', ''frps.example.com''), (''common'', ''server_port'', ''7000''), (''web'', ''type'', ''tcp'')])"
  by (subst ini_print_parse)
     (simp_all add: demo_settings_def section_ok_def pair_ok_def trimmed_def print_pair_def MAX_SECTION_def INI_MAX_LINE_def newline_def isspace_def settings_of_def)

text \<open>A line that is longer than 199 characters is cut, and the rest is read as a line of its own: a value that
  does not fit is stored without its end, and what follows is taken for another setting or reported as an error.\<close>

theorem ini_long_line_cut:
  assumes "length line = INI_MAX_LINE - 1" "newline \<notin> set line"
  shows "ini_lines handler (line @ rest) s = Option.bind (ini_line handler line s) (ini_lines handler rest)"
proof -
  have t: "takeWhile (\<lambda>c. c \<noteq> newline) (take (INI_MAX_LINE - 1) (line @ rest)) = line"
    unfolding assms(1) [symmetric] using assms(2) by (auto simp: takeWhile_eq_all_conv)
  have "line \<noteq> []" using assms(1) by (auto simp: INI_MAX_LINE_def)
  then have "ini_string_reader INI_MAX_LINE (line @ rest) = Some (line, rest)"
    unfolding ini_string_reader_def t Let_def using assms(1) by (simp add: INI_MAX_LINE_def)
  then show ?thesis by (simp add: ini_lines.simps [of handler "line @ rest"])
qed

definition long_token :: string where
  "long_token = ''token = '' @ replicate 191 (CHR ''a'')"

theorem ini_long_line_cut_witness:
  "ini_lines (\<lambda>sec n v u. Some (True, u @ [(n, length v)])) (long_token @ ''bc'' @ [newline]) \<lparr>i_section = ''common'', i_prev_name = [], i_lineno = 0, i_error = 0, i_user = []\<rparr> =
   Option.bind (ini_line (\<lambda>sec n v u. Some (True, u @ [(n, length v)])) long_token \<lparr>i_section = ''common'', i_prev_name = [], i_lineno = 0, i_error = 0, i_user = []\<rparr>)
     (ini_lines (\<lambda>sec n v u. Some (True, u @ [(n, length v)])) (''bc'' @ [newline]))"
  by (rule ini_long_line_cut) (simp_all add: long_token_def INI_MAX_LINE_def newline_def)

end
