(* ===== verification/Toml_Parser.thy ===== *)
theory Toml_Parser
  imports Msg
begin

text \<open>
  The TOML side of the configuration: documents as \<open>tomlc17.h\<close> has them, \<open>toml_get\<close> and \<open>toml_seek\<close> of
  \<open>tomlc17.c\<close>, and the wrapper \<open>toml_parser.c\<close>, which returns every value as text. A number or an array is written
  to one static buffer of 1024 bytes that all calls share, so a text is either owned by the document or is that
  buffer, and the contents of the buffer are part of the state. A string is a C string; a floating point number is
  the text that \<open>%g\<close> gives.
\<close>

section \<open>Documents\<close>

datatype toml = TOML_UNKNOWN | TOML_STRING string | TOML_INT64 int | TOML_FP64 string | TOML_BOOLEAN bool | TOML_DATETIME
  | TOML_ARRAY "toml list" | TOML_TABLE "(string \<times> toml) list"

definition toml_get :: "toml \<Rightarrow> string \<Rightarrow> toml" where
  "toml_get datum key =
     (case datum of TOML_TABLE kvs \<Rightarrow> (case map_of kvs key of Some v \<Rightarrow> v | None \<Rightarrow> TOML_UNKNOWN) | _ \<Rightarrow> TOML_UNKNOWN)"

text \<open>The parts of a name between its dots.\<close>

fun split_dots :: "string \<Rightarrow> string \<times> string list" where
  "split_dots [] = ([], [])"
| "split_dots (c # s) = (let (p, ps) = split_dots s in if c = CHR ''.'' then ([], p # ps) else (c # p, ps))"

fun seek_parts :: "toml \<Rightarrow> string \<Rightarrow> string list \<Rightarrow> toml" where
  "seek_parts datum p [] = toml_get datum p"
| "seek_parts datum p (q # qs) =
     (case toml_get datum p of TOML_TABLE kvs \<Rightarrow> seek_parts (TOML_TABLE kvs) q qs | _ \<Rightarrow> TOML_UNKNOWN)"

definition toml_seek :: "toml \<Rightarrow> string \<Rightarrow> toml" where
  "toml_seek table multipart_key =
     (case table of
        TOML_TABLE kvs \<Rightarrow>
          if length multipart_key \<ge> 256 then TOML_UNKNOWN
          else let (p, ps) = split_dots multipart_key in seek_parts table p ps
      | _ \<Rightarrow> TOML_UNKNOWN)"

section \<open>Sections\<close>

definition xfrpc_toml_find_array_section :: "toml option \<Rightarrow> string \<Rightarrow> int \<Rightarrow> toml option" where
  "xfrpc_toml_find_array_section doc prefix index =
     (case doc of
        None \<Rightarrow> None
      | Some root \<Rightarrow>
          if index < 0 then Some root
          else case (if prefix \<noteq> [] then toml_get root prefix else root) of
            TOML_ARRAY es \<Rightarrow> if nat index < length es then Some (es ! nat index) else None
          | _ \<Rightarrow> None)"

definition xfrpc_toml_count_array_sections :: "toml option \<Rightarrow> string \<Rightarrow> nat" where
  "xfrpc_toml_count_array_sections doc prefix =
     (case doc of None \<Rightarrow> 0 | Some root \<Rightarrow> (case toml_get root prefix of TOML_ARRAY es \<Rightarrow> length es | _ \<Rightarrow> 0))"

section \<open>Values as text\<close>

text \<open>\<open>snprintf\<close> at an offset of a buffer of \<open>len\<close> bytes: the text is cut, the offset grows by its whole length.\<close>

definition snprintf_at :: "nat \<Rightarrow> string \<Rightarrow> string \<times> nat \<Rightarrow> string \<times> nat" where
  "snprintf_at len text bp = (take (len - 1) (take (snd bp) (fst bp) @ text), snd bp + length text)"

fun array_text :: "nat \<Rightarrow> toml list \<Rightarrow> string \<times> nat \<Rightarrow> string \<times> nat" where
  "array_text i [] bp = bp"
| "array_text i (elem # es) bp =
     (if snd bp < 1024 - 4 then
        (let bp = (if i > 0 then snprintf_at 1024 '', '' bp else bp) in
         array_text (Suc i) es
           (case elem of
              TOML_STRING s \<Rightarrow> snprintf_at 1024 s bp
            | TOML_INT64 n \<Rightarrow> snprintf_at 1024 (print_jd n) bp
            | _ \<Rightarrow> bp))
      else bp)"

text \<open>A pointer to text of the document, or to the static buffer.\<close>

datatype text_ptr = Owned string | Tls_buf

definition text_at :: "string \<Rightarrow> text_ptr \<Rightarrow> string" where
  "text_at tls_buf p = (case p of Owned s \<Rightarrow> s | Tls_buf \<Rightarrow> tls_buf)"

definition xfrpc_toml_get :: "toml \<Rightarrow> string \<Rightarrow> string \<Rightarrow> text_ptr option \<times> string" where
  "xfrpc_toml_get sec key tls_buf =
     (case toml_seek sec key of
        TOML_STRING s \<Rightarrow> (Some (Owned s), tls_buf)
      | TOML_INT64 n \<Rightarrow> (Some Tls_buf, fst (snprintf_at 1024 (print_jd n) (tls_buf, 0)))
      | TOML_BOOLEAN b \<Rightarrow> (Some (Owned (if b then ''1'' else ''0'')), tls_buf)
      | TOML_FP64 t \<Rightarrow> (Some Tls_buf, fst (snprintf_at 1024 t (tls_buf, 0)))
      | TOML_ARRAY es \<Rightarrow> (Some Tls_buf, fst (array_text 0 es (tls_buf, 0)))
      | _ \<Rightarrow> (None, tls_buf))"

text \<open>The pairs of a table whose values are strings, for the headers. Its own static buffer is only returned when it
  was written from the start.\<close>

fun pairs_text :: "(string \<times> toml) list \<Rightarrow> string \<times> nat \<Rightarrow> string \<times> nat" where
  "pairs_text [] bp = bp"
| "pairs_text ((k, v) # kvs) bp =
     (if snd bp < 2048 - 4 then
        pairs_text kvs
          (case v of
             TOML_STRING s \<Rightarrow> snprintf_at 2048 (k @ ''='' @ s) (if snd bp > 0 then snprintf_at 2048 '','' bp else bp)
           | _ \<Rightarrow> bp)
      else bp)"

definition xfrpc_toml_get_table_pairs :: "toml \<Rightarrow> string \<Rightarrow> string option" where
  "xfrpc_toml_get_table_pairs sec path =
     (case toml_seek sec path of
        TOML_TABLE kvs \<Rightarrow> (let bp = pairs_text kvs ([], 0) in if snd bp > 0 then Some (fst bp) else None)
      | _ \<Rightarrow> None)"

section \<open>Bounds\<close>

lemma snprintf_at_length: "len > 0 \<Longrightarrow> length (fst (snprintf_at len text bp)) < len"
  by (simp add: snprintf_at_def)

lemma array_text_length: "length (fst bp) < 1024 \<Longrightarrow> length (fst (array_text i es bp)) < 1024"
  by (induction i es bp rule: array_text.induct) (simp_all add: Let_def snprintf_at_length split: toml.split)

lemma toml_get_buffer: "length buf < 1024 \<Longrightarrow> length (snd (xfrpc_toml_get sec key buf)) < 1024"
  by (simp add: xfrpc_toml_get_def snprintf_at_length array_text_length split: toml.split)

lemma pairs_text_length: "length (fst bp) < 2048 \<Longrightarrow> length (fst (pairs_text kvs bp)) < 2048"
  by (induction kvs bp rule: pairs_text.induct) (simp_all add: snprintf_at_length split: toml.split)

text \<open>An empty array, or one with a single element that is neither text nor an integer, leaves the buffer as it was.\<close>

lemma empty_array_stale: "toml_seek sec key = TOML_ARRAY [] \<Longrightarrow> xfrpc_toml_get sec key buf = (Some Tls_buf, buf)"
  by (simp add: xfrpc_toml_get_def)

text \<open>Text, numbers and truth values do not depend on what the buffer held.\<close>

definition scalar :: "toml \<Rightarrow> bool" where
  "scalar v = (case v of TOML_ARRAY es \<Rightarrow> False | _ \<Rightarrow> True)"

definition scalar_text :: "toml \<Rightarrow> string option" where
  "scalar_text v =
     (case v of
        TOML_STRING s \<Rightarrow> Some s
      | TOML_INT64 n \<Rightarrow> Some (take 1023 (print_jd n))
      | TOML_BOOLEAN b \<Rightarrow> Some (if b then ''1'' else ''0'')
      | TOML_FP64 t \<Rightarrow> Some (take 1023 t)
      | _ \<Rightarrow> None)"

lemma toml_get_scalar:
  "scalar (toml_seek sec key) \<Longrightarrow> map_option (text_at (snd (xfrpc_toml_get sec key buf))) (fst (xfrpc_toml_get sec key buf)) = scalar_text (toml_seek sec key)"
  by (cases "toml_seek sec key") (simp_all add: scalar_def scalar_text_def xfrpc_toml_get_def text_at_def snprintf_at_def)

end
