(* ===== verification/Config.thy ===== *)
theory Config
  imports Health_Check Ini Toml_Parser
begin

text \<open>
  The configuration \<open>config.c\<close>: the common settings, the table of proxy services, the handlers of the two formats,
  the checks and the two loaders. The table is the list of its entries in the order of insertion, the order of
  \<open>HASH_ITER\<close>. Memory is available: without it the code fails an assertion. \<open>None\<close> is another failed assertion or a
  read past the text that was passed in. The TOML parser proper is a parameter, from text to a document.
\<close>

section \<open>Settings\<close>

record common_conf =
  cc_server_addr :: "string option"
  cc_server_port :: int
  cc_auth_token :: "string option"
  cc_auth_method :: "string option"
  cc_oidc_client_id :: "string option"
  cc_oidc_client_secret :: "string option"
  cc_oidc_audience :: "string option"
  cc_oidc_scope :: "string option"
  cc_oidc_token_endpoint_url :: "string option"
  cc_oidc_trusted_ca_file :: "string option"
  cc_oidc_insecure_skip_verify :: bool
  cc_oidc_proxy_url :: "string option"
  cc_heartbeat_interval :: int
  cc_heartbeat_timeout :: int
  cc_tcp_mux :: bool
  cc_protocol :: "string option"
  cc_wire_protocol :: "string option"
  cc_quic_bind_port :: int
  cc_tls_enable :: bool
  cc_tls_cert_file :: "string option"
  cc_tls_key_file :: "string option"
  cc_tls_trusted_ca_file :: "string option"
  cc_tls_server_name :: "string option"
  cc_tls_trusted_ca_pem :: "string option"
  cc_tls_cert_pem :: "string option"
  cc_tls_key_pem :: "string option"
  cc_user :: "string option"
  cc_is_router :: bool

text \<open>The rest of \<open>struct proxy_service\<close>.\<close>

record svc = hc_conf +
  sv_bind_addr :: "string option"
  sv_root_dir :: "string option"
  sv_plugin_user :: "string option"
  sv_plugin_pwd :: "string option"

text \<open>The build: which optional parts are compiled in, and the PEM texts of the build configuration.\<close>

record kconfig =
  k_tls :: bool
  k_compression :: bool
  k_ca_pem :: string
  k_cert_pem :: string
  k_key_pem :: string

text \<open>\<open>c_conf\<close>, \<open>all_ps\<close>, the buffer of the TOML wrapper, and whether \<open>xfrpc_fatal\<close> was called.\<close>

record cfg =
  g_conf :: "common_conf option"
  g_ps :: "svc list"
  g_tls_buf :: string
  g_fatal :: bool

definition valid_types :: "string list" where
  "valid_types = [''tcp'', ''udp'', ''socks5'', ''http'', ''https'', ''tcpmux'', ''stcp'', ''xtcp'', ''sudp'']"

definition DEFAULT_SOCKS5_PORT :: int where "DEFAULT_SOCKS5_PORT = 1980"

definition free_conf :: "common_conf \<Rightarrow> common_conf" where
  "free_conf c = c\<lparr>cc_server_addr := None, cc_auth_token := None, cc_auth_method := None, cc_oidc_client_id := None,
     cc_oidc_client_secret := None, cc_oidc_audience := None, cc_oidc_scope := None, cc_oidc_token_endpoint_url := None,
     cc_oidc_trusted_ca_file := None, cc_oidc_proxy_url := None, cc_tls_cert_file := None, cc_tls_key_file := None,
     cc_tls_trusted_ca_file := None, cc_tls_server_name := None, cc_tls_trusted_ca_pem := None, cc_tls_cert_pem := None,
     cc_tls_key_pem := None, cc_user := None, cc_protocol := None, cc_wire_protocol := None\<rparr>"

definition free_common_config :: "cfg \<Rightarrow> cfg" where
  "free_common_config st = st\<lparr>g_conf := map_option free_conf (g_conf st)\<rparr>"

definition tolower :: "char \<Rightarrow> char" where
  "tolower c = (if 65 \<le> (of_char c :: nat) \<and> (of_char c :: nat) \<le> 90 then char_of ((of_char c :: nat) + 32) else c)"

definition strcasecmp_eq :: "string \<Rightarrow> string \<Rightarrow> bool" where
  "strcasecmp_eq a b \<longleftrightarrow> map tolower a = map tolower b"

definition is_true :: "string \<Rightarrow> bool" where
  "is_true v \<longleftrightarrow> strcasecmp_eq v ''true'' \<or> strcasecmp_eq v ''yes'' \<or> strcasecmp_eq v ''on'' \<or> v = ''1''"

definition get_valid_type :: "string option \<Rightarrow> string option" where
  "get_valid_type val = (case val of None \<Rightarrow> None | Some v \<Rightarrow> if v \<in> set valid_types then Some v else None)"

section \<open>Services\<close>

definition new_proxy_service :: "string \<Rightarrow> cfg \<Rightarrow> svc option" where
  "new_proxy_service name st =
     (if g_conf st = None then None
      else Some \<lparr>ps_proxy_type = None, ps_service_type = NO_XDPI, ps_use_encryption = False, ps_use_compression = False,
        ps_local_ip = None, ps_local_port = 0, ps_plugin = None, ps_plugin_unix_path = None,
        pf_name = Some name, pf_remote_port = 0, pf_start_time = 0, pf_end_time = 0, pf_custom_domains = None,
        pf_subdomain = None, pf_locations = None, pf_host_header_rewrite = None, pf_http_user = None, pf_http_pwd = None,
        pf_request_headers = None, pf_response_headers = None, pf_group = None, pf_group_key = None, pf_multiplexer = None,
        pf_route_by_http_user = None, pf_sk = None, pf_allow_users = None,
        hf_type = None, hf_url = None, hf_interval = 10, hf_timeout = 3, hf_max_failed = 1,
        sv_bind_addr = None, sv_root_dir = None, sv_plugin_user = None, sv_plugin_pwd = None\<rparr>)"

definition validate_proxy :: "svc \<Rightarrow> bool" where
  "validate_proxy ps =
     (case (pf_name ps, ps_proxy_type ps) of
        (Some name, Some type) \<Rightarrow>
          if type \<in> {''tcp'', ''udp'', ''http'', ''https'', ''tcpmux'', ''stcp'', ''xtcp'', ''sudp''}
             \<and> (ps_local_port ps = 0 \<or> ps_local_ip ps = None) then False
          else if type = ''socks5'' then pf_remote_port ps \<noteq> 0
          else if type = ''http'' \<or> type = ''https'' then
            \<not> (pf_custom_domains ps \<noteq> None \<and> pf_subdomain ps \<noteq> None) \<and> \<not> (pf_custom_domains ps = None \<and> pf_subdomain ps = None)
          else if type = ''tcpmux'' then
            \<not> (pf_custom_domains ps \<noteq> None \<and> pf_subdomain ps \<noteq> None) \<and> \<not> (pf_custom_domains ps = None \<and> pf_subdomain ps = None)
          else if type = ''stcp'' \<or> type = ''xtcp'' \<or> type = ''sudp'' then pf_sk ps \<noteq> None
          else type = ''tcp'' \<or> type = ''udp''
      | _ \<Rightarrow> False)"

definition get_proxy_service :: "string \<Rightarrow> cfg \<Rightarrow> svc option" where
  "get_proxy_service name st = find (\<lambda>ps. pf_name ps = Some name) (g_ps st)"

definition hash_add :: "svc \<Rightarrow> cfg \<Rightarrow> cfg" where
  "hash_add ps st = st\<lparr>g_ps := g_ps st @ [ps]\<rparr>"

definition hash_del :: "string \<Rightarrow> cfg \<Rightarrow> cfg" where
  "hash_del name st = st\<lparr>g_ps := remove1 (the (get_proxy_service name st)) (g_ps st)\<rparr>"

text \<open>A change to the service that a pointer from the table designates.\<close>

definition hash_update :: "string \<Rightarrow> (svc \<Rightarrow> svc) \<Rightarrow> cfg \<Rightarrow> cfg" where
  "hash_update name f st = st\<lparr>g_ps := map (\<lambda>ps. if pf_name ps = Some name then f ps else ps) (g_ps st)\<rparr>"

definition get_or_create_proxy_service :: "string \<Rightarrow> cfg \<Rightarrow> cfg option" where
  "get_or_create_proxy_service name st =
     (if get_proxy_service name st \<noteq> None then Some st
      else do { ps \<leftarrow> new_proxy_service name st; Some (hash_add ps st) })"

definition add_or_replace_proxy_service :: "svc \<Rightarrow> cfg \<Rightarrow> cfg" where
  "add_or_replace_proxy_service ps st =
     (let name = the (pf_name ps);
          st = (if get_proxy_service name st \<noteq> None then hash_del name st else st) in
      hash_add ps st)"

definition free_all_proxy_services :: "cfg \<Rightarrow> cfg" where
  "free_all_proxy_services st = st\<lparr>g_ps := []\<rparr>"

definition convert_service_type :: "string \<Rightarrow> xdpi_service_type" where
  "convert_service_type value =
     (if value = ''ssh'' then SERVICE_SSH else if value = ''rdp'' then SERVICE_RDP else if value = ''vnc'' then SERVICE_VNC
      else if value = ''telnet'' then SERVICE_TELNET else if value = ''http'' then SERVICE_HTTP
      else if value = ''https'' then SERVICE_HTTPS else if value = ''mstsc'' then SERVICE_MSTSC else NO_XDPI)"

section \<open>Defaults\<close>

definition zero_conf :: common_conf where
  "zero_conf = \<lparr>cc_server_addr = None, cc_server_port = 0, cc_auth_token = None, cc_auth_method = None, cc_oidc_client_id = None,
     cc_oidc_client_secret = None, cc_oidc_audience = None, cc_oidc_scope = None, cc_oidc_token_endpoint_url = None,
     cc_oidc_trusted_ca_file = None, cc_oidc_insecure_skip_verify = False, cc_oidc_proxy_url = None,
     cc_heartbeat_interval = 0, cc_heartbeat_timeout = 0, cc_tcp_mux = False, cc_protocol = None, cc_wire_protocol = None,
     cc_quic_bind_port = 0, cc_tls_enable = False, cc_tls_cert_file = None, cc_tls_key_file = None,
     cc_tls_trusted_ca_file = None, cc_tls_server_name = None, cc_tls_trusted_ca_pem = None, cc_tls_cert_pem = None,
     cc_tls_key_pem = None, cc_user = None, cc_is_router = False\<rparr>"

definition init_common_conf :: "kconfig \<Rightarrow> common_conf \<Rightarrow> common_conf" where
  "init_common_conf k config =
     (let config = config\<lparr>cc_server_addr := Some ''127.0.0.1'', cc_server_port := 7000, cc_heartbeat_interval := 30,
            cc_heartbeat_timeout := 90, cc_tcp_mux := True, cc_tls_enable := False, cc_protocol := Some ''tcp'',
            cc_wire_protocol := Some ''v1'', cc_quic_bind_port := 0, cc_tls_cert_file := None, cc_tls_key_file := None,
            cc_tls_trusted_ca_file := None, cc_tls_server_name := None, cc_tls_trusted_ca_pem := None, cc_tls_cert_pem := None,
            cc_tls_key_pem := None, cc_is_router := False\<rparr>;
          config = (if k_tls k \<and> k_ca_pem k \<noteq> [] then config\<lparr>cc_tls_trusted_ca_pem := Some (k_ca_pem k), cc_tls_enable := True\<rparr> else config);
          config = (if k_tls k \<and> k_cert_pem k \<noteq> [] then config\<lparr>cc_tls_cert_pem := Some (k_cert_pem k), cc_tls_enable := True\<rparr> else config) in
      if k_tls k \<and> k_key_pem k \<noteq> [] then config\<lparr>cc_tls_key_pem := Some (k_key_pem k), cc_tls_enable := True\<rparr> else config)"

text \<open>The settings of a previous load are released and the structure is cleared; a first load allocates it cleared.\<close>

definition init_common_config :: "kconfig \<Rightarrow> cfg \<Rightarrow> cfg" where
  "init_common_config k st =
     (let st = (if g_conf st \<noteq> None then (free_common_config st)\<lparr>g_conf := Some zero_conf\<rparr> else st\<lparr>g_conf := Some zero_conf\<rparr>) in
      st\<lparr>g_conf := map_option (init_common_conf k) (g_conf st)\<rparr>)"

definition validate_heartbeat_config :: "cfg \<Rightarrow> bool" where
  "validate_heartbeat_config st =
     (case g_conf st of
        None \<Rightarrow> False
      | Some c \<Rightarrow> \<not> cc_heartbeat_interval c \<le> 0 \<and> \<not> cc_heartbeat_timeout c < cc_heartbeat_interval c)"


section \<open>Formats\<close>

datatype cfg_format = XFRPC_CFG_FORMAT_AUTO | XFRPC_CFG_FORMAT_INI | XFRPC_CFG_FORMAT_TOML

text \<open>\<open>strrchr\<close> and \<open>strstr\<close>.\<close>

definition from_last :: "char \<Rightarrow> string \<Rightarrow> string option" where
  "from_last c s = (if c \<in> set s then Some (c # rev (takeWhile (\<lambda>d. d \<noteq> c) (rev s))) else None)"

fun strstr :: "string \<Rightarrow> string \<Rightarrow> bool" where
  "strstr [] w \<longleftrightarrow> w = []"
| "strstr (c # s) w \<longleftrightarrow> take (length w) (c # s) = w \<or> strstr s w"

definition has_toml_extension :: "string \<Rightarrow> bool" where
  "has_toml_extension path = (case from_last (CHR ''.'') path of None \<Rightarrow> False | Some ext \<Rightarrow> strcasecmp_eq ext ''.toml'')"

definition detect_config_format :: "string option \<Rightarrow> string option \<Rightarrow> nat \<Rightarrow> cfg_format \<Rightarrow> cfg_format" where
  "detect_config_format path text len requested =
     (if requested = XFRPC_CFG_FORMAT_INI \<or> requested = XFRPC_CFG_FORMAT_TOML then requested
      else case path of
        Some p \<Rightarrow> if has_toml_extension p then XFRPC_CFG_FORMAT_TOML else XFRPC_CFG_FORMAT_INI
      | None \<Rightarrow>
          (case text of
             None \<Rightarrow> XFRPC_CFG_FORMAT_INI
           | Some t \<Rightarrow>
               if len = 0 then XFRPC_CFG_FORMAT_INI
               else let p = lskip (if len \<ge> 3 \<and> take 3 t = byte_order_mark then drop 3 t else t) in
                 if take 2 p = ''[['' \<or> strstr t ''serverAddr'' \<or> strstr t ''serverPort'' \<or> strstr t ''auth.token'' \<or> strstr t ''transport.''
                 then XFRPC_CFG_FORMAT_TOML else XFRPC_CFG_FORMAT_INI))"

section \<open>Handlers\<close>

text \<open>The three ways a value is stored; \<open>ps_set_string\<close> replaces the old text.\<close>

definition ps_set_string :: "((string option \<Rightarrow> string option) \<Rightarrow> 'a \<Rightarrow> 'a) \<Rightarrow> string \<Rightarrow> 'a \<Rightarrow> 'a" where
  "ps_set_string field value = field (\<lambda>_. Some value)"

definition set_int :: "((int \<Rightarrow> int) \<Rightarrow> 'a \<Rightarrow> 'a) \<Rightarrow> string \<Rightarrow> 'a \<Rightarrow> 'a" where
  "set_int field value = field (\<lambda>_. atoi value)"

definition set_flag :: "((bool \<Rightarrow> bool) \<Rightarrow> 'a \<Rightarrow> 'a) \<Rightarrow> string \<Rightarrow> 'a \<Rightarrow> 'a" where
  "set_flag field value = field (\<lambda>_. is_true value \<or> atoi value \<noteq> 0)"

text \<open>The branches of \<open>common_handler\<close>: the names and what each does with the value.\<close>

definition common_options :: "(string \<times> (string \<Rightarrow> common_conf \<Rightarrow> common_conf)) list" where
  "common_options = [
     (''server_addr'', ps_set_string cc_server_addr_update),
     (''server_port'', set_int cc_server_port_update),
     (''heartbeat_interval'', set_int cc_heartbeat_interval_update),
     (''heartbeat_timeout'', set_int cc_heartbeat_timeout_update),
     (''token'', ps_set_string cc_auth_token_update),
     (''tcp_mux'', set_flag cc_tcp_mux_update),
     (''protocol'', ps_set_string cc_protocol_update),
     (''wire_protocol'', ps_set_string cc_wire_protocol_update),
     (''quic_bind_port'', set_int cc_quic_bind_port_update),
     (''tls_enable'', set_flag cc_tls_enable_update),
     (''disable_custom_tls_first_byte'', \<lambda>value config. config),
     (''tls_cert_file'', ps_set_string cc_tls_cert_file_update),
     (''tls_key_file'', ps_set_string cc_tls_key_file_update),
     (''tls_trusted_ca_file'', ps_set_string cc_tls_trusted_ca_file_update),
     (''tls_server_name'', ps_set_string cc_tls_server_name_update),
     (''user'', ps_set_string cc_user_update),
     (''auth_method'', ps_set_string cc_auth_method_update),
     (''oidc_client_id'', ps_set_string cc_oidc_client_id_update),
     (''oidc_client_secret'', ps_set_string cc_oidc_client_secret_update),
     (''oidc_audience'', ps_set_string cc_oidc_audience_update),
     (''oidc_scope'', ps_set_string cc_oidc_scope_update),
     (''oidc_token_endpoint_url'', ps_set_string cc_oidc_token_endpoint_url_update),
     (''oidc_trusted_ca_file'', ps_set_string cc_oidc_trusted_ca_file_update),
     (''oidc_proxy_url'', ps_set_string cc_oidc_proxy_url_update),
     (''oidc_insecure_skip_verify'', set_flag cc_oidc_insecure_skip_verify_update)]"

definition common_handler :: "string \<Rightarrow> string \<Rightarrow> string \<Rightarrow> cfg \<Rightarrow> (bool \<times> cfg) option" where
  "common_handler section name value st =
     (if g_conf st = None \<or> section \<noteq> ''common'' then Some (True, st)
      else case map_of common_options name of
        Some put \<Rightarrow> Some (True, st\<lparr>g_conf := map_option (put value) (g_conf st)\<rparr>)
      | None \<Rightarrow> Some (True, st))"

text \<open>The branches of \<open>proxy_service_handler\<close> that always succeed.\<close>

definition proxy_options :: "(string \<times> (string \<Rightarrow> svc \<Rightarrow> svc)) list" where
  "proxy_options = [
     (''local_ip'', ps_set_string ps_local_ip_update),
     (''bind_addr'', ps_set_string sv_bind_addr_update),
     (''local_port'', set_int ps_local_port_update),
     (''remote_port'', set_int pf_remote_port_update),
     (''use_encryption'', set_flag ps_use_encryption_update),
     (''use_compression'', set_flag ps_use_compression_update),
     (''http_user'', ps_set_string pf_http_user_update),
     (''http_pwd'', ps_set_string pf_http_pwd_update),
     (''request_headers'', ps_set_string pf_request_headers_update),
     (''response_headers'', ps_set_string pf_response_headers_update),
     (''subdomain'', ps_set_string pf_subdomain_update),
     (''custom_domains'', ps_set_string pf_custom_domains_update),
     (''locations'', ps_set_string pf_locations_update),
     (''host_header_rewrite'', ps_set_string pf_host_header_rewrite_update),
     (''group'', ps_set_string pf_group_update),
     (''group_key'', ps_set_string pf_group_key_update),
     (''plugin'', ps_set_string ps_plugin_update),
     (''plugin_user'', ps_set_string sv_plugin_user_update),
     (''plugin_pwd'', ps_set_string sv_plugin_pwd_update),
     (''plugin_unix_path'', ps_set_string ps_plugin_unix_path_update),
     (''root_dir'', ps_set_string sv_root_dir_update),
     (''multiplexer'', ps_set_string pf_multiplexer_update),
     (''route_by_http_user'', ps_set_string pf_route_by_http_user_update),
     (''sk'', ps_set_string pf_sk_update),
     (''allow_users'', ps_set_string pf_allow_users_update),
     (''service_type'', \<lambda>value. ps_service_type_update (\<lambda>_. convert_service_type value)),
     (''health_check_type'', ps_set_string hf_type_update),
     (''health_check_url'', ps_set_string hf_url_update),
     (''health_check_interval'', set_int hf_interval_update),
     (''health_check_timeout'', set_int hf_timeout_update),
     (''health_check_max_failed'', set_int hf_max_failed_update)]"

text \<open>What a setting does to its service, \<open>None\<close> when it is refused.\<close>

definition proxy_setting :: "string \<Rightarrow> string \<Rightarrow> svc \<Rightarrow> svc option" where
  "proxy_setting nm value ps =
     (if nm = ''type'' then (if get_valid_type (Some value) = None then None else Some (ps_set_string ps_proxy_type_update value ps))
      else if nm = ''start_time'' then
        (let hour = atoi value in if hour < 0 \<or> hour > 23 then None else Some (ps\<lparr>pf_start_time := hour\<rparr>))
      else if nm = ''end_time'' then
        (let hour = atoi value in if hour < 0 \<or> hour > 23 then None else Some (ps\<lparr>pf_end_time := hour\<rparr>))
      else case map_of proxy_options nm of Some put \<Rightarrow> Some (put value ps) | None \<Rightarrow> Some ps)"

definition socks5_default :: "svc \<Rightarrow> svc" where
  "socks5_default ps =
     (if ps_proxy_type ps = Some ''socks5'' \<and> pf_remote_port ps = 0 then ps\<lparr>pf_remote_port := DEFAULT_SOCKS5_PORT\<rparr> else ps)"

definition proxy_service_handler :: "string \<Rightarrow> string \<Rightarrow> string \<Rightarrow> cfg \<Rightarrow> (bool \<times> cfg) option" where
  "proxy_service_handler sect nm value st =
     (if sect = ''common'' then Some (True, st)
      else if strstr sect ''visitor'' then Some (True, st)
      else if take 6 sect = ''proxy:'' \<and> drop 6 sect = [] then Some (False, st)
      else let proxy_name = (if take 6 sect = ''proxy:'' then drop 6 sect else sect) in do {
        st \<leftarrow> get_or_create_proxy_service proxy_name st;
        ps \<leftarrow> get_proxy_service proxy_name st;
        case proxy_setting nm value ps of
          None \<Rightarrow> Some (False, st)
        | Some ps' \<Rightarrow> Some (True, hash_update proxy_name (\<lambda>_. socks5_default ps') st)
      })"


section \<open>TOML\<close>

text \<open>\<open>if ((v = toml_get(sec, key))) ...\<close>, key by key, each with what is done with the text.\<close>

fun toml_keys :: "toml \<Rightarrow> (string \<times> (string \<Rightarrow> 'a \<Rightarrow> 'a)) list \<Rightarrow> 'a \<times> string \<Rightarrow> 'a \<times> string" where
  "toml_keys sec [] xb = xb"
| "toml_keys sec ((key, put) # kps) (x, buf) =
     (case xfrpc_toml_get sec key buf of
        (None, buf) \<Rightarrow> toml_keys sec kps (x, buf)
      | (Some v, buf) \<Rightarrow> toml_keys sec kps (put (text_at buf v) x, buf))"

definition toml_common_keys :: "(string \<times> (string \<Rightarrow> common_conf \<Rightarrow> common_conf)) list" where
  "toml_common_keys = [
     (''serverAddr'', ps_set_string cc_server_addr_update),
     (''serverPort'', set_int cc_server_port_update),
     (''user'', ps_set_string cc_user_update),
     (''auth.token'', ps_set_string cc_auth_token_update),
     (''auth.method'', ps_set_string cc_auth_method_update),
     (''auth.oidc.clientID'', ps_set_string cc_oidc_client_id_update),
     (''auth.oidc.clientSecret'', ps_set_string cc_oidc_client_secret_update),
     (''auth.oidc.audience'', ps_set_string cc_oidc_audience_update),
     (''auth.oidc.scope'', ps_set_string cc_oidc_scope_update),
     (''auth.oidc.tokenEndpointURL'', ps_set_string cc_oidc_token_endpoint_url_update),
     (''auth.oidc.trustedCaFile'', ps_set_string cc_oidc_trusted_ca_file_update),
     (''auth.oidc.proxyURL'', ps_set_string cc_oidc_proxy_url_update),
     (''auth.oidc.insecureSkipVerify'', set_flag cc_oidc_insecure_skip_verify_update),
     (''transport.protocol'', ps_set_string cc_protocol_update),
     (''transport.wireProtocol'', ps_set_string cc_wire_protocol_update),
     (''transport.tcpMux'', set_flag cc_tcp_mux_update),
     (''transport.heartbeatInterval'', set_int cc_heartbeat_interval_update),
     (''transport.heartbeatTimeout'', set_int cc_heartbeat_timeout_update),
     (''transport.tls.enable'', set_flag cc_tls_enable_update),
     (''transport.tls.certFile'', ps_set_string cc_tls_cert_file_update),
     (''transport.tls.keyFile'', ps_set_string cc_tls_key_file_update),
     (''transport.tls.trustedCaFile'', ps_set_string cc_tls_trusted_ca_file_update),
     (''transport.tls.serverName'', ps_set_string cc_tls_server_name_update),
     (''quicBindPort'', set_int cc_quic_bind_port_update)]"

text \<open>\<open>c_conf\<close> is dereferenced without a check.\<close>

definition load_toml_common :: "toml option \<Rightarrow> cfg \<Rightarrow> cfg option" where
  "load_toml_common doc st =
     (case xfrpc_toml_find_array_section doc [] (-1) of
        None \<Rightarrow> Some st
      | Some root \<Rightarrow> do {
          c \<leftarrow> g_conf st;
          (let (c, buf) = toml_keys root toml_common_keys (c, g_tls_buf st) in Some (st\<lparr>g_conf := Some c, g_tls_buf := buf\<rparr>))
        })"

text \<open>The settings of a service, before and after the two tables of headers.\<close>

definition toml_proxy_keys1 :: "(string \<times> (string \<Rightarrow> svc \<Rightarrow> svc)) list" where
  "toml_proxy_keys1 = [
     (''localIP'', ps_set_string ps_local_ip_update),
     (''bindAddr'', ps_set_string sv_bind_addr_update),
     (''localPort'', set_int ps_local_port_update),
     (''remotePort'', set_int pf_remote_port_update),
     (''serviceType'', \<lambda>value. ps_service_type_update (\<lambda>_. convert_service_type value)),
     (''startTime'', set_int pf_start_time_update),
     (''endTime'', set_int pf_end_time_update),
     (''transport.useEncryption'', set_flag ps_use_encryption_update),
     (''transport.useCompression'', set_flag ps_use_compression_update),
     (''customDomains'', ps_set_string pf_custom_domains_update),
     (''subdomain'', ps_set_string pf_subdomain_update),
     (''locations'', ps_set_string pf_locations_update),
     (''hostHeaderRewrite'', ps_set_string pf_host_header_rewrite_update),
     (''httpUser'', ps_set_string pf_http_user_update),
     (''httpPassword'', ps_set_string pf_http_pwd_update)]"

definition toml_proxy_keys2 :: "(string \<times> (string \<Rightarrow> svc \<Rightarrow> svc)) list" where
  "toml_proxy_keys2 = [
     (''loadBalancer.group'', ps_set_string pf_group_update),
     (''loadBalancer.groupKey'', ps_set_string pf_group_key_update),
     (''plugin.type'', ps_set_string ps_plugin_update),
     (''plugin.httpUser'', ps_set_string sv_plugin_user_update),
     (''plugin.httpPassword'', ps_set_string sv_plugin_pwd_update),
     (''plugin.unixPath'', ps_set_string ps_plugin_unix_path_update),
     (''plugin.localPath'', ps_set_string sv_root_dir_update),
     (''multiplexer'', ps_set_string pf_multiplexer_update),
     (''routeByHTTPUser'', ps_set_string pf_route_by_http_user_update),
     (''secretKey'', ps_set_string pf_sk_update),
     (''allowUsers'', ps_set_string pf_allow_users_update),
     (''healthCheck.type'', ps_set_string hf_type_update),
     (''healthCheck.path'', ps_set_string hf_url_update),
     (''healthCheck.intervalSeconds'', set_int hf_interval_update),
     (''healthCheck.timeoutSeconds'', set_int hf_timeout_update),
     (''healthCheck.maxFailed'', set_int hf_max_failed_update)]"

definition set_pairs :: "toml \<Rightarrow> string \<Rightarrow> (string \<Rightarrow> 'a \<Rightarrow> 'a) \<Rightarrow> 'a \<Rightarrow> 'a" where
  "set_pairs sec path put x = (case xfrpc_toml_get_table_pairs sec path of None \<Rightarrow> x | Some v \<Rightarrow> put v x)"

text \<open>One entry of \<open>proxies\<close>: the code that decides whether to go on, and the state. The name is read before the
  other keys and used after some of them, so a name in the static buffer is what the buffer holds then.\<close>

definition load_toml_proxy :: "toml \<Rightarrow> cfg \<Rightarrow> (int \<times> cfg) option" where
  "load_toml_proxy sec st =
     (let (name, buf) = xfrpc_toml_get sec ''name'' (g_tls_buf st); st = st\<lparr>g_tls_buf := buf\<rparr> in
      case name of
        None \<Rightarrow> Some (-1, st)
      | Some name \<Rightarrow>
          let (v, buf) = xfrpc_toml_get sec ''enabled'' buf; st = st\<lparr>g_tls_buf := buf\<rparr> in
          if v \<noteq> None \<and> \<not> (is_true (text_at buf (the v)) \<or> atoi (text_at buf (the v)) \<noteq> 0) then Some (0, st)
          else do {
            ps \<leftarrow> new_proxy_service (text_at buf name) st;
            (let (ps, buf) = toml_keys sec [(''type'', ps_set_string ps_proxy_type_update)] (ps, buf); st = st\<lparr>g_tls_buf := buf\<rparr> in
             if get_valid_type (ps_proxy_type ps) = None then Some (-1, st)
             else
               let (ps, buf) = toml_keys sec toml_proxy_keys1 (ps, buf);
                   ps = set_pairs sec ''requestHeaders.set'' (ps_set_string pf_request_headers_update) ps;
                   ps = set_pairs sec ''responseHeaders.set'' (ps_set_string pf_response_headers_update) ps;
                   (ps, buf) = toml_keys sec toml_proxy_keys2 (ps, buf) in
               Some (0, add_or_replace_proxy_service ps (st\<lparr>g_tls_buf := buf\<rparr>)))
          })"

fun load_toml_sections :: "toml option \<Rightarrow> nat list \<Rightarrow> cfg \<Rightarrow> (int \<times> cfg) option" where
  "load_toml_sections doc [] st = Some (0, st)"
| "load_toml_sections doc (i # is) st =
     (case xfrpc_toml_find_array_section doc ''proxies'' (int i) of
        None \<Rightarrow> load_toml_sections doc is st
      | Some sec \<Rightarrow> do {
          (rc, st) \<leftarrow> load_toml_proxy sec st;
          if rc \<noteq> 0 then Some (-1, st) else load_toml_sections doc is st
        })"

definition load_toml_proxies :: "toml option \<Rightarrow> cfg \<Rightarrow> (int \<times> cfg) option" where
  "load_toml_proxies doc st = load_toml_sections doc [0..<xfrpc_toml_count_array_sections doc ''proxies''] st"

definition load_toml_config_text :: "toml option \<Rightarrow> cfg \<Rightarrow> (int \<times> cfg) option" where
  "load_toml_config_text doc st = do { st \<leftarrow> load_toml_common doc st; load_toml_proxies doc st }"

section \<open>Loading\<close>

definition dump_proxy_service :: "svc \<Rightarrow> svc \<times> bool" where
  "dump_proxy_service ps =
     (let ps = (if ps_proxy_type ps = None then ps\<lparr>ps_proxy_type := Some ''tcp''\<rparr> else ps) in
      (ps, \<not> validate_proxy ps))"

definition dump_all_ps :: "cfg \<Rightarrow> cfg" where
  "dump_all_ps st = st\<lparr>g_ps := map (fst \<circ> dump_proxy_service) (g_ps st), g_fatal := g_fatal st \<or> (\<exists>ps \<in> set (g_ps st). snd (dump_proxy_service ps))\<rparr>"

definition validate_loaded_config :: "cfg \<Rightarrow> int \<times> cfg" where
  "validate_loaded_config st =
     (case g_conf st of
        None \<Rightarrow> (-1, st)
      | Some c \<Rightarrow>
          if cc_server_addr c = None \<or> cc_server_addr c = Some [] then (-1, st)
          else if cc_wire_protocol c \<noteq> None \<and> cc_wire_protocol c \<noteq> Some ''v1'' \<and> cc_wire_protocol c \<noteq> Some ''v2'' then (-1, st)
          else if \<not> validate_heartbeat_config st then (-1, st)
          else
            let st = (if cc_protocol c = Some ''quic'' \<and> cc_tcp_mux c then st\<lparr>g_conf := Some (c\<lparr>cc_tcp_mux := False\<rparr>)\<rparr> else st) in
            if \<not> (\<forall>ps \<in> set (g_ps st). validate_proxy ps) then (-1, st)
            else (0, dump_all_ps st))"

text \<open>The common end of the two loaders.\<close>

definition finish_load :: "int \<times> cfg \<Rightarrow> int \<times> cfg" where
  "finish_load r =
     (let (rc, st) = r;
          (rc, st) = (if rc = 0 then validate_loaded_config st else (rc, st)) in
      if rc \<noteq> 0 then (rc, free_common_config (free_all_proxy_services st)) else (rc, st))"

text \<open>The text in the detected format: \<open>contents\<close> is \<open>None\<close> when the file cannot be read. The second pass of the INI
  parser runs when the first reported no error.\<close>

definition load_contents :: "(string \<Rightarrow> toml option) \<Rightarrow> cfg_format \<Rightarrow> string option \<Rightarrow> cfg \<Rightarrow> (int \<times> cfg) option" where
  "load_contents toml_parse detected contents st =
     (if detected = XFRPC_CFG_FORMAT_TOML then
        (case Option.bind contents toml_parse of
           None \<Rightarrow> Some (-1, st)
         | Some doc \<Rightarrow> do {
             (rc, st) \<leftarrow> load_toml_config_text (Some doc) st;
             Some (if rc \<noteq> 0 then -1 else 0, st)
           })
      else do {
        (rc, st) \<leftarrow> ini_parse_string common_handler contents st;
        (rc, st) \<leftarrow> (if rc = 0 then ini_parse_string proxy_service_handler contents st else Some (rc, st));
        Some (if rc \<noteq> 0 then -1 else rc, st)
      })"

definition load_config_file :: "kconfig \<Rightarrow> (string \<Rightarrow> toml option) \<Rightarrow> (string \<Rightarrow> string option) \<Rightarrow> string option \<Rightarrow> cfg_format \<Rightarrow> cfg \<Rightarrow> (int \<times> cfg) option" where
  "load_config_file k toml_parse files confile format st =
     (case confile of
        None \<Rightarrow> Some (-1, st)
      | Some path \<Rightarrow>
          if path = [] then Some (-1, st)
          else let detected = detect_config_format (Some path) None 0 format;
                   st = init_common_config k (free_all_proxy_services st) in
            map_option finish_load (load_contents toml_parse detected (files path) st))"

definition load_config_string :: "kconfig \<Rightarrow> (string \<Rightarrow> toml option) \<Rightarrow> string option \<Rightarrow> nat \<Rightarrow> cfg_format \<Rightarrow> cfg \<Rightarrow> (int \<times> cfg) option" where
  "load_config_string k toml_parse text len format st =
     (case text of
        None \<Rightarrow> Some (-1, st)
      | Some t \<Rightarrow>
          let len = (if len = 0 then length t else len) in
          if len \<ge> 2 ^ 31 then Some (-1, st)
          else if len > length t then None
          else let copy = take len t;
                   detected = detect_config_format None (Some copy) len format;
                   st = init_common_config k (free_all_proxy_services st) in
            map_option finish_load (load_contents toml_parse detected (Some copy) st))"

definition load_config :: "kconfig \<Rightarrow> (string \<Rightarrow> toml option) \<Rightarrow> (string \<Rightarrow> string option) \<Rightarrow> string option \<Rightarrow> cfg \<Rightarrow> cfg option" where
  "load_config k toml_parse files confile st = map_option snd (load_config_file k toml_parse files confile XFRPC_CFG_FORMAT_AUTO st)"

definition config_add_proxy_service ::
  "kconfig \<Rightarrow> string option \<Rightarrow> string option \<Rightarrow> string option \<Rightarrow> int \<Rightarrow> int \<Rightarrow> int \<Rightarrow> int \<Rightarrow> cfg \<Rightarrow> (bool \<times> cfg) option" where
  "config_add_proxy_service k name proxy_type local_ip local_port remote_port use_encryption use_compression st =
     (case (name, local_ip, get_valid_type proxy_type) of
        (Some name, Some ip, Some type) \<Rightarrow>
          let st = (if get_proxy_service name st \<noteq> None then hash_del name st else st) in do {
            ps \<leftarrow> new_proxy_service name st;
            (let ps = ps\<lparr>ps_proxy_type := Some type, ps_local_ip := Some ip, ps_local_port := local_port, pf_remote_port := remote_port,
                   ps_use_encryption := use_encryption \<noteq> 0, ps_use_compression := use_compression \<noteq> 0\<rparr>;
                 ps = (if \<not> k_compression k then ps\<lparr>ps_use_compression := False\<rparr> else ps) in
             Some (True, hash_add ps st))
          }
      | _ \<Rightarrow> Some (False, st))"


section \<open>What the loaders keep\<close>

text \<open>There are common settings, every service has a name, no two have the same.\<close>

definition names_ok :: "string option list \<Rightarrow> bool" where
  "names_ok ns \<longleftrightarrow> distinct ns \<and> None \<notin> set ns"

definition table_ok :: "cfg \<Rightarrow> bool" where
  "table_ok st \<longleftrightarrow> g_conf st \<noteq> None \<and> names_ok (map pf_name (g_ps st))"

lemmas setter_defs = ps_set_string_def set_int_def set_flag_def

lemma options_keep_name:
  assumes "map_of proxy_options nm = Some put"
  shows "pf_name (put v ps) = pf_name ps"
proof -
  have "\<forall>(n, f) \<in> set proxy_options. \<forall>v ps. pf_name (f v ps) = pf_name ps"
    by (simp add: proxy_options_def setter_defs)
  with map_of_SomeD [OF assms] show ?thesis by auto
qed

lemma setting_keeps_name: "proxy_setting nm v ps = Some ps' \<Longrightarrow> pf_name ps' = pf_name ps"
  by (auto simp: proxy_setting_def setter_defs Let_def split: if_splits option.splits dest: options_keep_name)

lemma new_service_name: "new_proxy_service name st = Some ps \<Longrightarrow> pf_name ps = Some name"
  by (auto simp: new_proxy_service_def split: if_splits)

lemma get_service_none: "get_proxy_service name st = None \<longleftrightarrow> (\<forall>ps \<in> set (g_ps st). pf_name ps \<noteq> Some name)"
  by (auto simp: get_proxy_service_def find_None_iff)

lemma get_service_some: "get_proxy_service name st = Some ps \<Longrightarrow> ps \<in> set (g_ps st) \<and> pf_name ps = Some name"
  by (auto simp: get_proxy_service_def find_Some_iff)

lemma add_table_ok:
  assumes "table_ok st" "pf_name ps = Some name" "get_proxy_service name st = None"
  shows "table_ok (hash_add ps st)"
  using assms by (auto simp: table_ok_def names_ok_def hash_add_def get_service_none)

lemma del_table_ok:
  assumes "table_ok st" "get_proxy_service name st \<noteq> None"
  shows "table_ok (hash_del name st)" "get_proxy_service name (hash_del name st) = None" "g_conf (hash_del name st) = g_conf st"
proof -
  obtain ps where g: "get_proxy_service name st = Some ps" using assms(2) by blast
  have ps: "ps \<in> set (g_ps st)" "pf_name ps = Some name" using get_service_some [OF g] by auto
  have d: "distinct (map pf_name (g_ps st))" using assms(1) by (simp add: table_ok_def names_ok_def)
  then have s: "set (remove1 ps (g_ps st)) = set (g_ps st) - {ps}" by (simp add: distinct_map set_remove1_eq)
  have "distinct (map pf_name (remove1 ps (g_ps st)))"
    using d s by (simp add: distinct_map distinct_remove1 inj_on_diff)
  then show "table_ok (hash_del name st)" using assms(1) g s by (auto simp: table_ok_def names_ok_def hash_del_def)
  have "\<forall>q \<in> set (g_ps st) - {ps}. pf_name q \<noteq> Some name" using d ps by (auto simp: distinct_map inj_on_def)
  then show "get_proxy_service name (hash_del name st) = None" using s g by (simp add: get_service_none hash_del_def)
  show "g_conf (hash_del name st) = g_conf st" by (simp add: hash_del_def)
qed

lemma update_table_ok:
  assumes "table_ok st" "\<And>ps. pf_name ps = Some name \<Longrightarrow> pf_name (f ps) = Some name"
  shows "table_ok (hash_update name f st)"
proof -
  have "map pf_name (g_ps (hash_update name f st)) = map pf_name (g_ps st)" using assms(2) by (simp add: hash_update_def)
  moreover have "g_conf (hash_update name f st) = g_conf st" by (simp add: hash_update_def)
  ultimately show ?thesis using assms(1) unfolding table_ok_def by (simp only: simp_thms)
qed

lemma get_or_create_ok:
  assumes "table_ok st"
  shows "\<exists>st'. get_or_create_proxy_service name st = Some st' \<and> table_ok st' \<and> get_proxy_service name st' \<noteq> None"
proof (cases "get_proxy_service name st = None")
  case True
  obtain ps where ps: "new_proxy_service name st = Some ps" using assms by (auto simp: table_ok_def new_proxy_service_def)
  have "get_proxy_service name (hash_add ps st) \<noteq> None"
    unfolding get_service_none using new_service_name [OF ps] by (simp add: hash_add_def)
  then show ?thesis using True ps add_table_ok [OF assms new_service_name [OF ps] True] by (simp add: get_or_create_proxy_service_def)
next
  case False
  then show ?thesis using assms by (simp add: get_or_create_proxy_service_def)
qed

lemma add_or_replace_ok:
  assumes "table_ok st" "pf_name ps \<noteq> None"
  shows "table_ok (add_or_replace_proxy_service ps st)"
proof -
  obtain name where n: "pf_name ps = Some name" using assms(2) by blast
  then show ?thesis
    using add_table_ok [OF _ n] del_table_ok [OF assms(1), of name] assms
    by (cases "get_proxy_service name st = None") (auto simp: add_or_replace_proxy_service_def Let_def)
qed

interpretation common: ini_client common_handler table_ok
proof
  fix u sec n v
  assume "table_ok u"
  then show "returns (\<lambda>(ok, u'). table_ok u') (common_handler sec n v u)"
    by (auto simp: common_handler_def table_ok_def split: option.split)
qed

interpretation proxies: ini_client proxy_service_handler table_ok
proof
  fix st sect nm v
  assume ok: "table_ok st"
  define name where "name = (if take 6 sect = ''proxy:'' then drop 6 sect else sect)"
  obtain st' where st': "get_or_create_proxy_service name st = Some st'" "table_ok st'" "get_proxy_service name st' \<noteq> None"
    using get_or_create_ok [OF ok] by blast
  obtain ps where ps: "get_proxy_service name st' = Some ps" using st'(3) by blast
  have n: "pf_name (socks5_default q) = pf_name q" for q by (simp add: socks5_default_def)
  have "table_ok (hash_update name (\<lambda>_. socks5_default ps') st')" if "proxy_setting nm v ps = Some ps'" for ps'
    by (rule update_table_ok [OF st'(2)]) (use setting_keeps_name [OF that] get_service_some [OF ps] n in simp)
  then show "returns (\<lambda>(ok, u'). table_ok u') (proxy_service_handler sect nm v st)"
    unfolding proxy_service_handler_def Let_def name_def [symmetric]
    by (intro returns_if) (use ok st' ps in \<open>simp_all split: option.split\<close>)
qed


lemma toml_keys_keep:
  assumes "\<forall>(k, put) \<in> set kps. \<forall>v x. h (put v x) = h x"
  shows "h (fst (toml_keys sec kps xb)) = h (fst xb)"
  using assms by (induction sec kps xb rule: toml_keys.induct) (auto split: prod.split option.split)

lemma set_pairs_name: "(\<And>v x. h (put v x) = h x) \<Longrightarrow> h (set_pairs sec path put x) = h x"
  by (simp add: set_pairs_def split: option.split)

lemma load_toml_common_ok: "table_ok st \<Longrightarrow> returns table_ok (load_toml_common doc st)"
  by (auto simp: load_toml_common_def table_ok_def split: option.split prod.split)

lemma load_toml_proxy_ok:
  assumes ok: "table_ok st"
  shows "returns (\<lambda>(rc, st'). table_ok st') (load_toml_proxy sec st)"
proof -
  have b: "table_ok (st\<lparr>g_tls_buf := buf\<rparr>)" for buf using ok by (simp add: table_ok_def)
  have new: "returns (\<lambda>ps. pf_name ps = Some n) (new_proxy_service n (st\<lparr>g_tls_buf := buf\<rparr>))" for n buf
    using ok by (auto simp: table_ok_def new_proxy_service_def)
  have t: "pf_name (fst (toml_keys sec [(''type'', ps_set_string ps_proxy_type_update)] xb)) = pf_name (fst xb :: svc)" for xb
    by (rule toml_keys_keep) (simp add: setter_defs)
  have k1: "pf_name (fst (toml_keys sec toml_proxy_keys1 xb)) = pf_name (fst xb)" for xb
    by (rule toml_keys_keep) (simp add: toml_proxy_keys1_def setter_defs)
  have k2: "pf_name (fst (toml_keys sec toml_proxy_keys2 xb)) = pf_name (fst xb)" for xb
    by (rule toml_keys_keep) (simp add: toml_proxy_keys2_def setter_defs)
  have p: "pf_name (set_pairs sec path (ps_set_string pf_request_headers_update) ps) = pf_name (ps :: svc)"
     "pf_name (set_pairs sec path (ps_set_string pf_response_headers_update) ps) = pf_name ps" for path ps
    by (rule set_pairs_name, simp add: setter_defs)+
  show ?thesis
    unfolding load_toml_proxy_def
    by (auto simp: Let_def case_prod_unfold t k1 k2 p b simp del: toml_keys.simps split: option.split intro!: returns_bind [OF new] add_or_replace_ok)
qed

lemma load_toml_sections_ok: "table_ok st \<Longrightarrow> returns (\<lambda>(rc, st'). table_ok st') (load_toml_sections doc is st)"
proof (induction "is" arbitrary: st)
  case (Cons i "is")
  then show ?case by (auto intro!: returns_bind [OF load_toml_proxy_ok] split: option.split)
qed simp

lemma load_toml_ok: "table_ok st \<Longrightarrow> returns (\<lambda>(rc, st'). table_ok st') (load_toml_config_text doc st)"
  unfolding load_toml_config_text_def load_toml_proxies_def
  by (rule returns_bind [OF load_toml_common_ok load_toml_sections_ok])

lemma load_ini_ok:
  "table_ok st \<Longrightarrow> returns (\<lambda>(rc, st'). table_ok st')
     (do { (rc, st) \<leftarrow> ini_parse_string common_handler contents st;
           (if rc = 0 then ini_parse_string proxy_service_handler contents st else Some (rc, st)) })"
  by (rule returns_bind [OF common.parse_keeps]) (auto intro: proxies.parse_keeps)

lemma load_contents_ok:
  assumes "table_ok st"
  shows "returns (\<lambda>(rc, st'). (rc = 0 \<or> rc = -1) \<and> table_ok st') (load_contents toml_parse detected contents st)"
proof (cases "detected = XFRPC_CFG_FORMAT_TOML")
  case True
  then show ?thesis using assms
    by (auto simp: load_contents_def split: option.split intro!: returns_bind [OF load_toml_ok])
next
  case False
  have "load_contents toml_parse detected contents st = do {
      (rc, st) \<leftarrow> (do { (rc, st) \<leftarrow> ini_parse_string common_handler contents st;
           (if rc = 0 then ini_parse_string proxy_service_handler contents st else Some (rc, st)) });
      Some (if rc \<noteq> 0 then -1 else rc, st) }"
    using False by (simp add: load_contents_def case_prod_unfold)
  also have "returns (\<lambda>(rc, st'). (rc = 0 \<or> rc = -1) \<and> table_ok st') \<dots>"
    by (rule returns_bind [OF load_ini_ok [OF assms]]) auto
  finally show ?thesis .
qed

section \<open>Accepted configurations\<close>

text \<open>What a service needs, by its type.\<close>

definition service_ok :: "svc \<Rightarrow> bool" where
  "service_ok ps \<longleftrightarrow> (\<exists>name type. pf_name ps = Some name \<and> ps_proxy_type ps = Some type \<and> type \<in> set valid_types \<and>
     (type \<noteq> ''socks5'' \<longrightarrow> ps_local_port ps \<noteq> 0 \<and> ps_local_ip ps \<noteq> None) \<and>
     (type = ''socks5'' \<longrightarrow> pf_remote_port ps \<noteq> 0) \<and>
     (type \<in> {''http'', ''https'', ''tcpmux''} \<longrightarrow> (pf_custom_domains ps = None) \<noteq> (pf_subdomain ps = None)) \<and>
     (type \<in> {''stcp'', ''xtcp'', ''sudp''} \<longrightarrow> pf_sk ps \<noteq> None))"

lemma validate_proxy_iff: "validate_proxy ps \<longleftrightarrow> service_ok ps"
proof (cases "\<exists>name type. pf_name ps = Some name \<and> ps_proxy_type ps = Some type")
  case True
  then obtain name type where n: "pf_name ps = Some name" and t: "ps_proxy_type ps = Some type" by blast
  show ?thesis
  proof (cases "type \<in> set valid_types")
    case True
    then show ?thesis unfolding valid_types_def list.set insert_iff empty_iff
      by (elim disjE FalseE; cases "pf_custom_domains ps"; cases "pf_subdomain ps")
         (simp_all add: validate_proxy_def service_ok_def n t valid_types_def)
  next
    case False
    then have "type \<noteq> ''tcp''" "type \<noteq> ''udp''" "type \<noteq> ''socks5''" "type \<noteq> ''http''" "type \<noteq> ''https''" "type \<noteq> ''tcpmux''"
      "type \<noteq> ''stcp''" "type \<noteq> ''xtcp''" "type \<noteq> ''sudp''"
      by (auto simp: valid_types_def)
    then have "\<not> validate_proxy ps" by (simp add: validate_proxy_def n t)
    then show ?thesis using False t by (simp add: service_ok_def)
  qed
next
  case False
  then have "pf_name ps = None \<or> ps_proxy_type ps = None" by auto
  then show ?thesis by (elim disjE) (simp_all add: validate_proxy_def service_ok_def split: option.split)
qed

text \<open>What the client can be started with.\<close>

definition valid_config :: "cfg \<Rightarrow> bool" where
  "valid_config st \<longleftrightarrow> (\<exists>c addr. g_conf st = Some c \<and> cc_server_addr c = Some addr \<and> addr \<noteq> [] \<and>
     cc_wire_protocol c \<in> {None, Some ''v1'', Some ''v2''} \<and>
     0 < cc_heartbeat_interval c \<and> cc_heartbeat_interval c \<le> cc_heartbeat_timeout c \<and>
     (cc_protocol c = Some ''quic'' \<longrightarrow> \<not> cc_tcp_mux c)) \<and>
   names_ok (map pf_name (g_ps st)) \<and> (\<forall>ps \<in> set (g_ps st). service_ok ps)"

text \<open>Nothing configured: no service, and all texts of the common settings released.\<close>

definition cleared :: "cfg \<Rightarrow> bool" where
  "cleared st \<longleftrightarrow> g_ps st = [] \<and> (\<exists>c. g_conf st = Some (free_conf c))"

lemma dump_valid: "\<forall>ps \<in> set (g_ps st). validate_proxy ps \<Longrightarrow> dump_all_ps st = st"
proof -
  assume v: "\<forall>ps \<in> set (g_ps st). validate_proxy ps"
  then have "\<forall>ps \<in> set (g_ps st). dump_proxy_service ps = (ps, False)"
    by (auto simp: dump_proxy_service_def validate_proxy_def Let_def split: option.splits)
  then have "map (fst \<circ> dump_proxy_service) (g_ps st) = g_ps st" "\<not> (\<exists>ps \<in> set (g_ps st). snd (dump_proxy_service ps))"
    by (auto simp: map_idI)
  then show ?thesis by (simp add: dump_all_ps_def)
qed

lemma validate_loaded:
  assumes "table_ok st" "validate_loaded_config st = (rc, st')"
  shows "rc = 0 \<and> valid_config st' \<and> g_fatal st' = g_fatal st \<or> rc = -1 \<and> table_ok st' \<and> g_fatal st' = g_fatal st"
proof -
  obtain c where c: "g_conf st = Some c" using assms(1) by (auto simp: table_ok_def)
  let ?st = "if cc_protocol c = Some ''quic'' \<and> cc_tcp_mux c then st\<lparr>g_conf := Some (c\<lparr>cc_tcp_mux := False\<rparr>)\<rparr> else st"
  show ?thesis
  proof (cases "\<forall>ps \<in> set (g_ps st). validate_proxy ps")
    case True
    then have d: "dump_all_ps ?st = ?st" by (simp add: dump_valid)
    have "\<forall>ps \<in> set (g_ps st). service_ok ps" using True by (simp add: validate_proxy_iff)
    then show ?thesis using assms c True d
      by (auto simp: validate_loaded_config_def validate_heartbeat_config_def valid_config_def table_ok_def Let_def split: if_splits)
  next
    case False
    then show ?thesis using assms c by (auto simp: validate_loaded_config_def table_ok_def Let_def split: if_splits)
  qed
qed

lemma finish_load_outcome:
  assumes "table_ok st" "rc = 0 \<or> rc = -1" "finish_load (rc, st) = (rc', st')"
  shows "(rc' = 0 \<and> valid_config st' \<or> rc' = -1 \<and> cleared st') \<and> g_fatal st' = g_fatal st"
proof -
  have clear: "cleared (free_common_config (free_all_proxy_services s)) \<and> g_fatal (free_common_config (free_all_proxy_services s)) = g_fatal s"
    if "table_ok s" for s
    using that by (auto simp: table_ok_def cleared_def free_common_config_def free_all_proxy_services_def)
  show ?thesis
  proof (cases "rc = 0")
    case True
    obtain rc1 st1 where v: "validate_loaded_config st = (rc1, st1)" by force
    from validate_loaded [OF assms(1) v] show ?thesis
      using True assms(3) v clear [of st1] by (auto simp: finish_load_def)
  next
    case False
    then show ?thesis using assms clear [OF assms(1)] by (auto simp: finish_load_def)
  qed
qed

lemma start_table_ok: "table_ok (init_common_config k (free_all_proxy_services st))"
  by (simp add: table_ok_def names_ok_def init_common_config_def free_all_proxy_services_def free_common_config_def)

lemma start_fatal: "g_fatal (init_common_config k (free_all_proxy_services st)) = g_fatal st"
  by (simp add: init_common_config_def free_all_proxy_services_def free_common_config_def)

lemma load_outcome:
  "returns (\<lambda>(rc, st'). rc = 0 \<and> valid_config st' \<or> rc = -1 \<and> cleared st')
     (map_option finish_load (load_contents toml_parse detected contents (init_common_config k (free_all_proxy_services st))))"
proof -
  obtain rc st' where l: "load_contents toml_parse detected contents (init_common_config k (free_all_proxy_services st)) = Some (rc, st')"
    and ok: "rc = 0 \<or> rc = -1" "table_ok st'"
    using load_contents_ok [OF start_table_ok] unfolding returns_def by blast
  obtain rc2 st2 where f: "finish_load (rc, st') = (rc2, st2)" by force
  from finish_load_outcome [OF ok(2,1) f] show ?thesis unfolding l by (simp add: f)
qed


lemma file_outcome:
  "path \<noteq> [] \<Longrightarrow> returns (\<lambda>(rc, st'). rc = 0 \<and> valid_config st' \<or> rc = -1 \<and> cleared st') (load_config_file k toml_parse files (Some path) format st)"
  using load_outcome by (simp add: load_config_file_def Let_def)

lemma string_outcome:
  assumes "len \<le> length t"
  shows "returns (\<lambda>(rc, st'). rc = 0 \<and> valid_config st' \<or> rc = -1 \<and> (length t < 2 ^ 31 \<longrightarrow> cleared st')) (load_config_string k toml_parse (Some t) len format st)"
proof -
  have "returns (\<lambda>(rc, st'). rc = 0 \<and> valid_config st' \<or> rc = -1 \<and> (length t < 2 ^ 31 \<longrightarrow> cleared st'))
     (map_option finish_load (load_contents toml_parse detected contents (init_common_config k (free_all_proxy_services st))))" for detected contents
    by (rule returns_mono [OF load_outcome]) auto
  then show ?thesis using assms by (auto simp: load_config_string_def Let_def)
qed

section \<open>The two formats\<close>

text \<open>The name of a common setting in an INI file, by its TOML key.\<close>

definition ini_names :: "(string \<times> string) list" where
  "ini_names = [
     (''serverAddr'', ''server_addr''), (''serverPort'', ''server_port''), (''user'', ''user''), (''auth.token'', ''token''),
     (''auth.method'', ''auth_method''), (''auth.oidc.clientID'', ''oidc_client_id''),
     (''auth.oidc.clientSecret'', ''oidc_client_secret''), (''auth.oidc.audience'', ''oidc_audience''),
     (''auth.oidc.scope'', ''oidc_scope''), (''auth.oidc.tokenEndpointURL'', ''oidc_token_endpoint_url''),
     (''auth.oidc.trustedCaFile'', ''oidc_trusted_ca_file''), (''auth.oidc.proxyURL'', ''oidc_proxy_url''),
     (''auth.oidc.insecureSkipVerify'', ''oidc_insecure_skip_verify''), (''transport.protocol'', ''protocol''),
     (''transport.wireProtocol'', ''wire_protocol''), (''transport.tcpMux'', ''tcp_mux''),
     (''transport.heartbeatInterval'', ''heartbeat_interval''), (''transport.heartbeatTimeout'', ''heartbeat_timeout''),
     (''transport.tls.enable'', ''tls_enable''), (''transport.tls.certFile'', ''tls_cert_file''),
     (''transport.tls.keyFile'', ''tls_key_file''), (''transport.tls.trustedCaFile'', ''tls_trusted_ca_file''),
     (''transport.tls.serverName'', ''tls_server_name''), (''quicBindPort'', ''quic_bind_port'')]"

text \<open>The common settings of a TOML document as a section of an INI file.\<close>

definition toml_as_ini :: "toml \<Rightarrow> (string \<times> string) list" where
  "toml_as_ini root = concat (map (\<lambda>(k, n). case scalar_text (toml_seek root k) of None \<Rightarrow> [] | Some v \<Rightarrow> [(n, v)]) ini_names)"

lemma keys_named: "list_all2 (\<lambda>(k, put) (k', n). k = k' \<and> map_of common_options n = Some put) toml_common_keys ini_names"
  by (simp add: toml_common_keys_def ini_names_def common_options_def)

lemma keys_as_feed:
  assumes "list_all2 (\<lambda>(k, put) (k', n). k = k' \<and> map_of common_options n = Some put) kps kns"
    "\<forall>(k, n) \<in> set kns. scalar (toml_seek root k)" "g_conf st = Some c"
  shows "feed common_handler (map (\<lambda>(n, v). (''common'', n, v))
      (concat (map (\<lambda>(k, n). case scalar_text (toml_seek root k) of None \<Rightarrow> [] | Some v \<Rightarrow> [(n, v)]) kns))) st =
    Some (True, st\<lparr>g_conf := Some (fst (toml_keys root kps (c, buf)))\<rparr>)"
  using assms
proof (induction arbitrary: st c buf rule: list_all2_induct)
  case Nil
  then show ?case by simp
next
  case (Cons kp kps kn kns)
  obtain k put n where kp: "kp = (k, put)" "kn = (k, n)" "map_of common_options n = Some put" using Cons.hyps(1) by auto
  obtain p buf' where g: "xfrpc_toml_get root k buf = (p, buf')" by force
  have sc: "map_option (text_at buf') p = scalar_text (toml_seek root k)"
    using toml_get_scalar [of root k buf] Cons.prems(1) kp g by simp
  show ?case
  proof (cases p)
    case None
    then show ?thesis using Cons.IH [of st c buf'] Cons.prems sc kp g by (simp flip: sc)
  next
    case (Some q)
    have h: "common_handler ''common'' n (text_at buf' q) st = Some (True, st\<lparr>g_conf := Some (put (text_at buf' q) c)\<rparr>)"
      using Cons.prems(2) kp(3) by (simp add: common_handler_def)
    from Some show ?thesis
      using Cons.IH [of "st\<lparr>g_conf := Some (put (text_at buf' q) c)\<rparr>" "put (text_at buf' q) c" buf'] Cons.prems kp g h by (simp flip: sc)
  qed
qed

lemma load_contents_ini:
  assumes "detected \<noteq> XFRPC_CFG_FORMAT_TOML" "\<forall>sn \<in> set secs. section_ok sn"
    "feed common_handler (settings_of secs) st = Some (True, st1)" "feed proxy_service_handler (settings_of secs) st1 = Some (True, st2)"
  shows "load_contents toml_parse detected (Some (print_ini secs)) st = Some (0, st2)"
proof -
  have p: "ini_parse_string h (Some (print_ini secs)) u = Some (0, u')" if "feed h (settings_of secs) u = Some (True, u')" for h and u u' :: cfg
    using sections_feed [OF assms(2), of h u] that by auto
  show ?thesis using assms(1) p [OF assms(3)] p [OF assms(4)] by (simp add: load_contents_def)
qed

lemma feed_common_section: "feed proxy_service_handler (map (\<lambda>(n, v). (''common'', n, v)) nvs) st = Some (True, st)"
  by (induction nvs) (auto simp: proxy_service_handler_def)

section \<open>Properties\<close>

text \<open>C10. Loading a configuration always ends, for every text and every file, in both formats: either the result is
  0 and the configuration is one the client can run with (an address, a known wire protocol, a positive heartbeat
  interval not above the timeout, no multiplexing over QUIC, services with distinct names that have all their type needs), or it is -1
  and nothing is configured, with every text released.\<close>

theorem config_load_outcome:
  assumes "path \<noteq> []" "len \<le> length t" "length t < 2 ^ 31"
  shows "returns (\<lambda>(rc, st'). rc = 0 \<and> valid_config st' \<or> rc = -1 \<and> cleared st') (load_config_string k toml_parse (Some t) len format st)
    \<and> returns (\<lambda>(rc, st'). rc = 0 \<and> valid_config st' \<or> rc = -1 \<and> cleared st') (load_config_file k toml_parse files (Some path) format st)"
  using file_outcome [OF assms(1)] string_outcome [OF assms(2)] assms(3) by simp

definition plain_build :: kconfig where
  "plain_build = \<lparr>k_tls = False, k_compression = False, k_ca_pem = [], k_cert_pem = [], k_key_pem = []\<rparr>"

definition unconfigured :: cfg where
  "unconfigured = \<lparr>g_conf = None, g_ps = [], g_tls_buf = [], g_fatal = False\<rparr>"

definition web_settings :: settings where
  "web_settings = [(''common'', [(''server_addr'', ''frps.example.com''), (''heartbeat_interval'', ''20'')]),
     (''web'', [(''type'', ''tcp''), (''local_ip'', ''127.0.0.1''), (''local_port'', ''8080'')])]"

lemma web_settings_load:
  "\<exists>st'. load_config_string plain_build (\<lambda>_. None) (Some (print_ini web_settings)) 0 XFRPC_CFG_FORMAT_INI unconfigured = Some (0, st')"
proof -
  let ?st = "init_common_config plain_build (free_all_proxy_services unconfigured)"
  have ok: "\<forall>sn \<in> set web_settings. section_ok sn"
    by (simp add: web_settings_def section_ok_def pair_ok_def trimmed_def print_pair_def MAX_SECTION_def INI_MAX_LINE_def newline_def isspace_def)
  define c where "c = (init_common_conf plain_build zero_conf)\<lparr>cc_server_addr := Some ''frps.example.com'', cc_heartbeat_interval := 20\<rparr>"
  have a: "atoi ''20'' = 20" "atoi ''8080'' = 8080" by (simp_all add: atoi_def Let_def)
  have f1: "feed common_handler (settings_of web_settings) ?st = Some (True, ?st\<lparr>g_conf := Some c\<rparr>)"
    by (simp add: web_settings_def settings_of_def common_handler_def common_options_def setter_defs a c_def init_common_config_def
      free_all_proxy_services_def unconfigured_def init_common_conf_def zero_conf_def plain_build_def)
  obtain ps where ps: "new_proxy_service ''web'' (?st\<lparr>g_conf := Some c\<rparr>) = Some ps" by (simp add: new_proxy_service_def)
  define ps' where "ps' = ps\<lparr>ps_proxy_type := Some ''tcp'', ps_local_ip := Some ''127.0.0.1'', ps_local_port := 8080\<rparr>"
  have g: "g_ps ?st = []" "pf_name ps = Some ''web''" using new_service_name [OF ps] by (simp_all add: init_common_config_def free_all_proxy_services_def unconfigured_def)
  have f2: "feed proxy_service_handler (settings_of web_settings) (?st\<lparr>g_conf := Some c\<rparr>) = Some (True, ?st\<lparr>g_conf := Some c, g_ps := [ps']\<rparr>)"
    using ps g by (simp add: web_settings_def settings_of_def proxy_service_handler_def get_or_create_proxy_service_def get_proxy_service_def hash_add_def
      hash_update_def proxy_setting_def get_valid_type_def valid_types_def proxy_options_def socks5_default_def setter_defs a ps'_def)
  have "load_contents (\<lambda>_. None) XFRPC_CFG_FORMAT_INI (Some (print_ini web_settings)) ?st = Some (0, ?st\<lparr>g_conf := Some c, g_ps := [ps']\<rparr>)"
    by (rule load_contents_ini [OF _ ok f1 f2]) simp
  moreover have "\<exists>st'. finish_load (0, ?st\<lparr>g_conf := Some c, g_ps := [ps']\<rparr>) = (0, st')"
    using g by (simp add: finish_load_def validate_loaded_config_def validate_heartbeat_config_def validate_proxy_def c_def ps'_def init_common_conf_def plain_build_def)
  moreover have "length (print_ini web_settings) < 2 ^ 31" by (simp add: web_settings_def print_ini_def print_pair_def)
  ultimately show ?thesis by (simp add: load_config_string_def detect_config_format_def)
qed

theorem config_load_outcome_witness:
  "\<exists>st'. load_config_string plain_build (\<lambda>_. None) (Some (print_ini web_settings)) 0 XFRPC_CFG_FORMAT_INI unconfigured = Some (0, st') \<and> valid_config st'"
proof -
  obtain st' where l: "load_config_string plain_build (\<lambda>_. None) (Some (print_ini web_settings)) 0 XFRPC_CFG_FORMAT_INI unconfigured = Some (0, st')"
    using web_settings_load by blast
  have "length (print_ini web_settings) < 2 ^ 31" by (simp add: web_settings_def print_ini_def print_pair_def)
  then have "valid_config st'"
    using config_load_outcome [of "''f''" 0 "print_ini web_settings" plain_build "\<lambda>_. None" XFRPC_CFG_FORMAT_INI unconfigured] l by simp
  with l show ?thesis by blast
qed

text \<open>C23. The common settings mean the same in both formats: a TOML document whose values are no arrays, rewritten as
  the \<open>common\<close> section of an INI file, gives the same common settings when it is loaded, and no service.\<close>

theorem toml_ini_agree:
  assumes "\<forall>(k, n) \<in> set ini_names. scalar (toml_seek root k)" "section_ok (''common'', toml_as_ini root)" "g_conf st \<noteq> None"
  shows "\<exists>st'. load_toml_common (Some root) st = Some st' \<and>
    load_contents toml_parse XFRPC_CFG_FORMAT_INI (Some (print_ini [(''common'', toml_as_ini root)])) st = Some (0, st\<lparr>g_conf := g_conf st'\<rparr>)"
proof -
  obtain c where c: "g_conf st = Some c" using assms(3) by blast
  obtain c' buf where k: "toml_keys root toml_common_keys (c, g_tls_buf st) = (c', buf)" by force
  have "feed common_handler (settings_of [(''common'', toml_as_ini root)]) st = Some (True, st\<lparr>g_conf := Some c'\<rparr>)"
    using keys_as_feed [OF keys_named assms(1) c, of "g_tls_buf st"] k by (simp add: settings_of_def toml_as_ini_def)
  moreover have "feed proxy_service_handler (settings_of [(''common'', toml_as_ini root)]) (st\<lparr>g_conf := Some c'\<rparr>) = Some (True, st\<lparr>g_conf := Some c'\<rparr>)"
    using feed_common_section by (simp add: settings_of_def)
  ultimately have "load_contents toml_parse XFRPC_CFG_FORMAT_INI (Some (print_ini [(''common'', toml_as_ini root)])) st = Some (0, st\<lparr>g_conf := Some c'\<rparr>)"
    using assms(2) by (intro load_contents_ini) simp_all
  moreover have "load_toml_common (Some root) st = Some (st\<lparr>g_conf := Some c', g_tls_buf := buf\<rparr>)"
    using c k by (simp add: load_toml_common_def xfrpc_toml_find_array_section_def)
  ultimately show ?thesis by simp
qed


definition demo_root :: toml where
  "demo_root = TOML_TABLE [(''serverAddr'', TOML_STRING ''frps.example.com''), (''auth'', TOML_TABLE [(''token'', TOML_STRING ''secret'')]),
     (''transport'', TOML_TABLE [(''tcpMux'', TOML_BOOLEAN False)])]"

theorem toml_ini_agree_witness:
  "\<exists>st'. load_toml_common (Some demo_root) (init_common_config plain_build unconfigured) = Some st' \<and>
    load_contents (\<lambda>_. None) XFRPC_CFG_FORMAT_INI
      (Some (print_ini [(''common'', [(''server_addr'', ''frps.example.com''), (''token'', ''secret''), (''tcp_mux'', ''0'')])])) (init_common_config plain_build unconfigured) =
    Some (0, (init_common_config plain_build unconfigured)\<lparr>g_conf := g_conf st'\<rparr>)"
proof -
  have i: "toml_as_ini demo_root = [(''server_addr'', ''frps.example.com''), (''token'', ''secret''), (''tcp_mux'', ''0'')]"
    by (simp add: toml_as_ini_def ini_names_def demo_root_def scalar_text_def toml_seek_def toml_get_def)
  show ?thesis
    using toml_ini_agree [of demo_root "init_common_config plain_build unconfigured" "\<lambda>_. None"]
    by (simp add: i) (simp add: ini_names_def demo_root_def scalar_def toml_seek_def toml_get_def section_ok_def pair_ok_def trimmed_def
      print_pair_def MAX_SECTION_def INI_MAX_LINE_def newline_def isspace_def init_common_config_def unconfigured_def)
qed

text \<open>C40. An empty array of domains is not no domain: the TOML wrapper returns the text that the last number or array
  left in its buffer. A web service with \<open>customDomains = []\<close> gets its own local port as its domain, and is accepted
  although the service has no domain at all.\<close>

theorem empty_domains_stale:
  assumes "g_conf st \<noteq> None"
  shows "\<exists>st' ps. load_toml_proxy (TOML_TABLE [(''name'', TOML_STRING name), (''type'', TOML_STRING ''http''), (''localIP'', TOML_STRING ip),
        (''localPort'', TOML_INT64 port), (''customDomains'', TOML_ARRAY [])]) st = Some (0, st') \<and>
      ps \<in> set (g_ps st') \<and> pf_name ps = Some name \<and> pf_custom_domains ps = Some (take 1023 (print_jd port)) \<and>
      (ps_local_port ps \<noteq> 0 \<longrightarrow> validate_proxy ps)"
proof -
  let ?sec = "TOML_TABLE [(''name'', TOML_STRING name), (''type'', TOML_STRING ''http''), (''localIP'', TOML_STRING ip),
        (''localPort'', TOML_INT64 port), (''customDomains'', TOML_ARRAY [])]"
  have new: "new_proxy_service name (st\<lparr>g_tls_buf := buf\<rparr>) = new_proxy_service name st" for buf by (simp add: new_proxy_service_def)
  obtain ps where ps: "new_proxy_service name st = Some ps" using assms by (auto simp: new_proxy_service_def)
  have n: "pf_subdomain ps = None" "pf_name ps = Some name" using ps by (auto simp: new_proxy_service_def split: if_splits)
  define d where "d = take 1023 (print_jd port)"
  let ?ps = "ps\<lparr>ps_proxy_type := Some ''http'', ps_local_ip := Some ip, ps_local_port := atoi d, pf_custom_domains := Some d\<rparr>"
  have k1: "toml_keys ?sec toml_proxy_keys1 (ps\<lparr>ps_proxy_type := Some ''http''\<rparr>, buf) = (?ps, d)" for buf
    by (simp add: toml_proxy_keys1_def setter_defs xfrpc_toml_get_def toml_seek_def toml_get_def text_at_def snprintf_at_def d_def)
  have k2: "toml_keys ?sec toml_proxy_keys2 (?ps, d) = (?ps, d)"
    by (simp add: toml_proxy_keys2_def xfrpc_toml_get_def toml_seek_def toml_get_def)
  have "load_toml_proxy ?sec st = Some (0, add_or_replace_proxy_service ?ps (st\<lparr>g_tls_buf := d\<rparr>))"
    using k1 k2 by (simp add: load_toml_proxy_def xfrpc_toml_get_def toml_seek_def toml_get_def text_at_def new ps setter_defs
      get_valid_type_def valid_types_def set_pairs_def xfrpc_toml_get_table_pairs_def)
  moreover have "?ps \<in> set (g_ps (add_or_replace_proxy_service ?ps (st\<lparr>g_tls_buf := d\<rparr>)))"
    by (simp add: add_or_replace_proxy_service_def hash_add_def Let_def)
  moreover have "atoi d \<noteq> 0 \<longrightarrow> validate_proxy ?ps" using n by (simp add: validate_proxy_def)
  ultimately show ?thesis using n d_def by (intro exI [of _ "add_or_replace_proxy_service ?ps (st\<lparr>g_tls_buf := d\<rparr>)"] exI [of _ ?ps]) simp
qed

theorem empty_domains_stale_witness:
  "\<exists>st' ps. load_toml_proxy (TOML_TABLE [(''name'', TOML_STRING ''web''), (''type'', TOML_STRING ''http''), (''localIP'', TOML_STRING ''127.0.0.1''),
        (''localPort'', TOML_INT64 8080), (''customDomains'', TOML_ARRAY [])]) (init_common_config plain_build unconfigured) = Some (0, st') \<and>
      ps \<in> set (g_ps st') \<and> pf_name ps = Some ''web'' \<and> pf_custom_domains ps = Some (take 1023 (print_jd 8080))"
proof -
  have "g_conf (init_common_config plain_build unconfigured) \<noteq> None" by (simp add: init_common_config_def unconfigured_def)
  from empty_domains_stale [OF this, of "''web''" "''127.0.0.1''" 8080] show ?thesis by blast
qed

end
