(* ===== verification/Api.thy ===== *)
theory Api
  imports Config Control_Send
begin

text \<open>
  The public interface \<open>xfrpc_api.c\<close>: starting the client from the structures of \<open>xfrpc.h\<close>, from a file or from text.
  \<open>task_ok\<close> is whether the task can be created. \<open>None\<close> is a read past the array of proxies or past the text. The event
  loop that the task runs is a parameter: it returns whether it ended with a fatal error.
\<close>

record client_config =
  x_server_addr :: "string option"
  x_server_port :: u16
  x_auth_token :: "string option"
  x_user :: "string option"
  x_heartbeat_interval :: int
  x_heartbeat_timeout :: int
  x_tcp_mux :: int
  x_tls_enable :: int
  x_tls_ca_pem :: "string option"
  x_tls_cert_pem :: "string option"
  x_tls_key_pem :: "string option"
  x_tls_server_name :: "string option"

record tcp_proxy =
  x_name :: "string option"
  x_local_ip :: "string option"
  x_local_port :: u16
  x_remote_port :: u16
  x_use_encryption :: int
  x_use_compression :: int

text \<open>\<open>g_api\<close>, the configuration, and the calls of the callback.\<close>

record api =
  a_task :: bool
  a_running :: bool
  a_cb :: "nat option"
  a_user :: nat
  a_reports :: "(nat \<times> nat \<times> xfrpc_state) list"
  a_cfg :: cfg

definition xfrpc_report_state :: "xfrpc_state \<Rightarrow> api \<Rightarrow> api" where
  "xfrpc_report_state state a =
     (case a_cb a of None \<Rightarrow> a | Some cb \<Rightarrow> a\<lparr>a_reports := a_reports a @ [(cb, a_user a, state)]\<rparr>)"

definition xfrpc_task :: "(api \<Rightarrow> bool \<times> api) \<Rightarrow> api \<Rightarrow> api" where
  "xfrpc_task xfrpc_loop a =
     (let a = xfrpc_report_state XFRPC_STATE_CONNECTING a;
          (fatal, a) = xfrpc_loop a;
          a = xfrpc_report_state (if fatal then XFRPC_STATE_FATAL else XFRPC_STATE_STOPPED) a in
      a\<lparr>a_running := False, a_task := False\<rparr>)"

definition set_str :: "((string option \<Rightarrow> string option) \<Rightarrow> common_conf \<Rightarrow> common_conf) \<Rightarrow> string option \<Rightarrow> common_conf \<Rightarrow> common_conf" where
  "set_str field value c = (case value of None \<Rightarrow> c | Some v \<Rightarrow> field (\<lambda>_. Some v) c)"

definition xfrpc_launch :: "bool \<Rightarrow> nat option \<Rightarrow> nat \<Rightarrow> api \<Rightarrow> int \<times> api" where
  "xfrpc_launch task_ok cb user a =
     (let a = a\<lparr>a_cb := cb, a_user := user, a_running := True\<rparr> in
      if \<not> task_ok then (-1, a\<lparr>a_running := False\<rparr>) else (0, a\<lparr>a_task := True\<rparr>))"

definition api_validate_loaded_config :: "kconfig \<Rightarrow> cfg \<Rightarrow> int" where
  "api_validate_loaded_config k st =
     (case g_conf st of
        None \<Rightarrow> -1
      | Some cc \<Rightarrow>
          if cc_server_addr cc = None \<or> cc_server_addr cc = Some [] then -1
          else if \<not> validate_heartbeat_config st then -1
          else if \<not> k_tls k \<and> cc_tls_enable cc then -1
          else if \<not> (\<forall>ps \<in> set (g_ps st). validate_proxy ps) then -1
          else 0)"

text \<open>The common settings from the caller's structure.\<close>

definition start_conf :: "client_config \<Rightarrow> common_conf \<Rightarrow> common_conf" where
  "start_conf cfg cc =
     (let cc = set_str cc_server_addr_update (x_server_addr cfg) cc;
          cc = (if x_server_port cfg \<noteq> 0 then cc\<lparr>cc_server_port := uint (x_server_port cfg)\<rparr> else cc);
          cc = set_str cc_auth_token_update (x_auth_token cfg) cc;
          cc = set_str cc_user_update (x_user cfg) cc;
          cc = (if x_heartbeat_interval cfg > 0 then cc\<lparr>cc_heartbeat_interval := x_heartbeat_interval cfg\<rparr> else cc);
          cc = (if x_heartbeat_timeout cfg > 0 then cc\<lparr>cc_heartbeat_timeout := x_heartbeat_timeout cfg\<rparr> else cc);
          cc = (if x_tcp_mux cfg = 0 \<or> x_tcp_mux cfg = 1 then cc\<lparr>cc_tcp_mux := (x_tcp_mux cfg = 1)\<rparr> else cc);
          cc = set_str cc_tls_trusted_ca_pem_update (x_tls_ca_pem cfg) cc;
          cc = set_str cc_tls_cert_pem_update (x_tls_cert_pem cfg) cc;
          cc = set_str cc_tls_key_pem_update (x_tls_key_pem cfg) cc;
          cc = set_str cc_tls_server_name_update (x_tls_server_name cfg) cc;
          cc = (if x_tls_enable cfg = 1 then cc\<lparr>cc_tls_enable := True\<rparr> else cc) in
      if cc_tls_trusted_ca_pem cc \<noteq> None \<or> cc_tls_cert_pem cc \<noteq> None \<or> cc_tls_key_pem cc \<noteq> None then cc\<lparr>cc_tls_enable := True\<rparr> else cc)"

text \<open>The loop over the proxies: the result of the first that fails, otherwise 0.\<close>

fun start_proxies :: "kconfig \<Rightarrow> tcp_proxy list \<Rightarrow> nat \<Rightarrow> cfg \<Rightarrow> (int \<times> cfg) option" where
  "start_proxies k ps 0 st = Some (0, st)"
| "start_proxies k [] (Suc n) st = None"
| "start_proxies k (p # ps) (Suc n) st =
     (if x_name p = None \<or> x_local_ip p = None \<or> x_local_port p = 0 then Some (-1, st)
      else do {
        (ok, st) \<leftarrow> config_add_proxy_service k (x_name p) (Some ''tcp'') (x_local_ip p) (uint (x_local_port p)) (uint (x_remote_port p))
          (x_use_encryption p) (x_use_compression p) st;
        if \<not> ok then Some (-1, st) else start_proxies k ps n st
      })"

definition xfrpc_start ::
  "kconfig \<Rightarrow> bool \<Rightarrow> client_config option \<Rightarrow> tcp_proxy list option \<Rightarrow> int \<Rightarrow> nat option \<Rightarrow> nat \<Rightarrow> api \<Rightarrow> (int \<times> api) option" where
  "xfrpc_start k task_ok cfg proxies proxy_count cb user a =
     (case cfg of
        None \<Rightarrow> Some (-1, a)
      | Some cfg \<Rightarrow>
          if x_server_addr cfg = None \<or> x_server_addr cfg = Some [] then Some (-1, a)
          else if proxy_count < 0 \<or> (proxy_count > 0 \<and> proxies = None) then Some (-1, a)
          else if a_running a then Some (1, a)
          else let st = init_common_config k (free_all_proxy_services (a_cfg a)) in do {
            cc \<leftarrow> g_conf st;
            (let cc = start_conf cfg cc; st = st\<lparr>g_conf := Some cc\<rparr> in
             if \<not> k_tls k \<and> cc_tls_enable cc then Some (-1, a\<lparr>a_cfg := st\<rparr>)
             else if \<not> validate_heartbeat_config st then Some (-1, a\<lparr>a_cfg := st\<rparr>)
             else do {
               (rc, st) \<leftarrow> start_proxies k (case proxies of None \<Rightarrow> [] | Some ps \<Rightarrow> ps) (nat proxy_count) st;
               if rc \<noteq> 0 then Some (-1, a\<lparr>a_cfg := st\<rparr>) else Some (xfrpc_launch task_ok cb user (a\<lparr>a_cfg := st\<rparr>))
             })
          })"

text \<open>What follows a load in the other two entry points.\<close>

definition start_loaded :: "kconfig \<Rightarrow> bool \<Rightarrow> nat option \<Rightarrow> nat \<Rightarrow> api \<Rightarrow> int \<times> cfg \<Rightarrow> int \<times> api" where
  "start_loaded k task_ok cb user a r =
     (let (rc, st) = r; a = a\<lparr>a_cfg := st\<rparr> in
      if rc \<noteq> 0 then (-1, a) else if api_validate_loaded_config k st \<noteq> 0 then (-1, a) else xfrpc_launch task_ok cb user a)"

definition xfrpc_start_from_file ::
  "kconfig \<Rightarrow> bool \<Rightarrow> (string \<Rightarrow> toml option) \<Rightarrow> (string \<Rightarrow> string option) \<Rightarrow> string option \<Rightarrow> cfg_format \<Rightarrow> nat option \<Rightarrow> nat \<Rightarrow> api \<Rightarrow> (int \<times> api) option" where
  "xfrpc_start_from_file k task_ok toml_parse files path format cb user a =
     (if a_running a then Some (1, a)
      else if path = None \<or> path = Some [] then Some (-1, a)
      else map_option (start_loaded k task_ok cb user a) (load_config_file k toml_parse files path format (a_cfg a)))"

definition xfrpc_start_from_string ::
  "kconfig \<Rightarrow> bool \<Rightarrow> (string \<Rightarrow> toml option) \<Rightarrow> string option \<Rightarrow> nat \<Rightarrow> cfg_format \<Rightarrow> nat option \<Rightarrow> nat \<Rightarrow> api \<Rightarrow> (int \<times> api) option" where
  "xfrpc_start_from_string k task_ok toml_parse config len format cb user a =
     (if a_running a then Some (1, a)
      else if config = None then Some (-1, a)
      else map_option (start_loaded k task_ok cb user a) (load_config_string k toml_parse config len format (a_cfg a)))"

section \<open>Starting\<close>

text \<open>The result of a start: a client that was running is not touched; one that is started was not running, has its
  task, and has a configuration it can run with, with TLS only when the build has it.\<close>

definition started :: "kconfig \<Rightarrow> api \<Rightarrow> int \<times> api \<Rightarrow> bool" where
  "started k a r \<longleftrightarrow> (let (rc, a') = r in
     (a_running a \<longrightarrow> rc \<noteq> 0 \<and> a' = a) \<and> (rc = 1 \<longrightarrow> a_running a) \<and> (\<not> a_running a \<longrightarrow> (a_running a' \<longleftrightarrow> rc = 0)) \<and>
     (rc = 0 \<longrightarrow> a_task a' \<and> valid_config (a_cfg a') \<and> (\<exists>cc. g_conf (a_cfg a') = Some cc \<and> (cc_tls_enable cc \<longrightarrow> k_tls k))))"

lemma launch_started:
  assumes "\<not> a_running a" "valid_config st" "g_conf st = Some cc" "cc_tls_enable cc \<longrightarrow> k_tls k"
  shows "started k a (xfrpc_launch task_ok cb user (a\<lparr>a_cfg := st\<rparr>))"
  using assms by (auto simp: started_def xfrpc_launch_def Let_def)

lemma refused_started: "\<not> a_running a \<Longrightarrow> started k a (-1, a\<lparr>a_cfg := st\<rparr>)"
  by (simp add: started_def)

lemma not_touched: "rc \<noteq> 0 \<Longrightarrow> (rc = 1 \<longrightarrow> a_running a) \<Longrightarrow> started k a (rc, a)"
  by (simp add: started_def)

lemma loaded_started:
  assumes "\<not> a_running a" "rc = 0 \<longrightarrow> valid_config st"
  shows "started k a (start_loaded k task_ok cb user a (rc, st))"
proof (cases "rc = 0 \<and> api_validate_loaded_config k st = 0")
  case True
  then have v: "valid_config st" using assms(2) by auto
  then obtain cc where cc: "g_conf st = Some cc" by (auto simp: valid_config_def)
  moreover have "cc_tls_enable cc \<longrightarrow> k_tls k" using True cc by (auto simp: api_validate_loaded_config_def split: if_splits)
  ultimately show ?thesis using True launch_started [OF assms(1) v] by (simp add: start_loaded_def)
next
  case False
  then show ?thesis using refused_started [OF assms(1)] by (auto simp: start_loaded_def Let_def)
qed

text \<open>The table while services are added by the interface.\<close>

definition services_ok :: "common_conf \<Rightarrow> cfg \<Rightarrow> bool" where
  "services_ok cc st \<longleftrightarrow> g_conf st = Some cc \<and> names_ok (map pf_name (g_ps st)) \<and> (\<forall>ps \<in> set (g_ps st). service_ok ps)"

lemma add_service_ok:
  assumes "services_ok cc st" "port \<noteq> 0"
  shows "returns (\<lambda>(ok, st'). ok \<and> services_ok cc st') (config_add_proxy_service k (Some name) (Some ''tcp'') (Some ip) port remote enc snap st)"
proof -
  define st1 where "st1 = (if get_proxy_service name st \<noteq> None then hash_del name st else st)"
  have t: "table_ok st" using assms(1) by (simp add: services_ok_def table_ok_def)
  have s1: "table_ok st1" "get_proxy_service name st1 = None" "g_conf st1 = Some cc" "\<forall>ps \<in> set (g_ps st1). service_ok ps"
    using t del_table_ok [OF t, of name] assms(1) notin_set_remove1
    by (auto simp: st1_def services_ok_def hash_del_def split: if_splits) 
  obtain ps where ps: "new_proxy_service name st1 = Some ps" using s1(3) by (simp add: new_proxy_service_def)
  define ps' where "ps' = ps\<lparr>ps_proxy_type := Some ''tcp'', ps_local_ip := Some ip, ps_local_port := port, pf_remote_port := remote,
                   ps_use_encryption := enc \<noteq> 0, ps_use_compression := k_compression k \<and> snap \<noteq> 0\<rparr>"
  have n: "pf_name ps' = Some name" using new_service_name [OF ps] by (simp add: ps'_def)
  then have "service_ok ps'" using assms(2) by (simp add: service_ok_def ps'_def valid_types_def)
  moreover have "table_ok (hash_add ps' st1)" by (rule add_table_ok [OF s1(1) n s1(2)])
  ultimately have "services_ok cc (hash_add ps' st1)" using s1(3,4) by (auto simp: services_ok_def table_ok_def hash_add_def)
  moreover have "config_add_proxy_service k (Some name) (Some ''tcp'') (Some ip) port remote enc snap st = Some (True, hash_add ps' st1)"
    using ps by (cases "get_proxy_service name st = None"; cases "k_compression k")
      (simp_all add: config_add_proxy_service_def get_valid_type_def valid_types_def st1_def ps'_def)
  ultimately show ?thesis by simp
qed

lemma start_proxies_ok:
  "services_ok cc st \<Longrightarrow> n \<le> length ps \<Longrightarrow> returns (\<lambda>(rc, st'). rc = 0 \<longrightarrow> services_ok cc st') (start_proxies k ps n st)"
proof (induction k ps n st rule: start_proxies.induct)
  case (3 k p ps n st)
  show ?case
  proof (cases "x_name p = None \<or> x_local_ip p = None \<or> x_local_port p = 0")
    case False
    then obtain name ip where p: "x_name p = Some name" "x_local_ip p = Some ip" "uint (x_local_port p) \<noteq> 0" by (auto simp: uint_0_iff)
    obtain st' where a: "config_add_proxy_service k (Some name) (Some ''tcp'') (Some ip) (uint (x_local_port p)) (uint (x_remote_port p))
        (x_use_encryption p) (x_use_compression p) st = Some (True, st')" "services_ok cc st'"
      using add_service_ok [OF "3.prems"(1) p(3), of k name ip "uint (x_remote_port p)" "x_use_encryption p" "x_use_compression p"]
      by (auto simp: returns_def)
    with False p "3.IH" [of "(True, st')" True st'] "3.prems"(2) show ?thesis by simp
  qed simp
qed simp_all


lemma start_conf_valid:
  assumes "g_conf st = Some (start_conf cfg (init_common_conf k zero_conf))" "x_server_addr cfg = Some addr" "addr \<noteq> []"
    "validate_heartbeat_config st" "services_ok (start_conf cfg (init_common_conf k zero_conf)) st'"
  shows "valid_config st'"
proof -
  let ?cc = "start_conf cfg (init_common_conf k zero_conf)"
  have keep: "cc_wire_protocol (set_str f v c) = cc_wire_protocol c \<and> cc_protocol (set_str f v c) = cc_protocol c"
    if "f \<in> {cc_server_addr_update, cc_auth_token_update, cc_user_update, cc_tls_trusted_ca_pem_update, cc_tls_cert_pem_update,
      cc_tls_key_pem_update, cc_tls_server_name_update}" for f v c
    using that by (auto simp: set_str_def split: option.split)
  have addr: "cc_server_addr (set_str f v c) = cc_server_addr c"
    if "f \<in> {cc_auth_token_update, cc_user_update, cc_tls_trusted_ca_pem_update, cc_tls_cert_pem_update,
      cc_tls_key_pem_update, cc_tls_server_name_update}" for f v c
    using that by (auto simp: set_str_def split: option.split)
  have i: "cc_wire_protocol (init_common_conf k zero_conf) = Some ''v1''" "cc_protocol (init_common_conf k zero_conf) = Some ''tcp''"
    by (simp_all add: init_common_conf_def Let_def)
  have w: "cc_wire_protocol ?cc = Some ''v1''" "cc_protocol ?cc = Some ''tcp''" using i by (simp_all add: start_conf_def Let_def keep)
  have "cc_server_addr (set_str cc_server_addr_update (x_server_addr cfg) c) = Some addr" for c using assms(2) by (simp add: set_str_def)
  then have a: "cc_server_addr ?cc = Some addr" by (simp add: start_conf_def Let_def addr)
  show ?thesis using assms(1,3-5) w a by (auto simp: valid_config_def validate_heartbeat_config_def services_ok_def)
qed

lemma start_ok:
  assumes "\<And>ps. proxies = Some ps \<Longrightarrow> nat proxy_count \<le> length ps"
  shows "returns (started k a) (xfrpc_start k task_ok cfg proxies proxy_count cb user a)"
proof (cases "cfg = None \<or> (x_server_addr (the cfg) = None \<or> x_server_addr (the cfg) = Some []) \<or> proxy_count < 0 \<or> (proxy_count > 0 \<and> proxies = None) \<or> a_running a")
  case True
  then show ?thesis by (auto simp: xfrpc_start_def not_touched split: option.split)
next
  case False
  then obtain c addr where c: "cfg = Some c" "x_server_addr c = Some addr" "addr \<noteq> []" "\<not> proxy_count < 0" "\<not> (proxy_count > 0 \<and> proxies = None)" "\<not> a_running a"
    by auto
  define st where "st = init_common_config k (free_all_proxy_services (a_cfg a))"
  define cc where "cc = start_conf c (init_common_conf k zero_conf)"
  have g: "g_conf st = Some (init_common_conf k zero_conf)" "g_ps st = []" by (simp_all add: st_def init_common_config_def free_all_proxy_services_def free_common_config_def)
  have s: "services_ok cc (st\<lparr>g_conf := Some cc\<rparr>)" using g(2) by (simp add: services_ok_def names_ok_def)
  have n: "nat proxy_count \<le> length (case proxies of None \<Rightarrow> [] | Some ps \<Rightarrow> ps)" using assms c(4,5) by (cases proxies) auto
  have "returns (started k a) (do {
               (rc, st) \<leftarrow> start_proxies k (case proxies of None \<Rightarrow> [] | Some ps \<Rightarrow> ps) (nat proxy_count) (st\<lparr>g_conf := Some cc\<rparr>);
               if rc \<noteq> 0 then Some (-1, a\<lparr>a_cfg := st\<rparr>) else Some (xfrpc_launch task_ok cb user (a\<lparr>a_cfg := st\<rparr>))})"
    if "\<not> (\<not> k_tls k \<and> cc_tls_enable cc)" "validate_heartbeat_config (st\<lparr>g_conf := Some cc\<rparr>)"
  proof (rule returns_bind [OF start_proxies_ok [OF s n]], clarify)
    fix rc st' assume st': "rc = 0 \<longrightarrow> services_ok cc st'"
    show "returns (started k a) (if rc \<noteq> 0 then Some (-1, a\<lparr>a_cfg := st'\<rparr>) else Some (xfrpc_launch task_ok cb user (a\<lparr>a_cfg := st'\<rparr>)))"
    proof (cases "rc = 0")
      case True
      then have ok: "services_ok cc st'" using st' by simp
      have "valid_config st'" by (rule start_conf_valid [OF _ c(2,3) that(2)]) (use ok cc_def in simp_all)
      then show ?thesis using True launch_started [OF c(6), of st' cc] ok that(1) by (auto simp: services_ok_def)
    qed (simp add: refused_started c(6))
  qed
  then show ?thesis unfolding xfrpc_start_def Let_def st_def [symmetric] using c g(1) refused_started [OF c(6)] by (simp add: Let_def not_touched flip: cc_def)
qed

lemma from_file_ok: "returns (started k a) (xfrpc_start_from_file k task_ok toml_parse files path format cb user a)"
proof (cases "a_running a \<or> path = None \<or> path = Some []")
  case True
  then show ?thesis by (auto simp: xfrpc_start_from_file_def not_touched)
next
  case False
  then obtain p where p: "path = Some p" "p \<noteq> []" "\<not> a_running a" by auto
  obtain rc st where "load_config_file k toml_parse files path format (a_cfg a) = Some (rc, st)" "rc = 0 \<longrightarrow> valid_config st"
    using file_outcome [OF p(2), of k toml_parse files format "a_cfg a"] p(1) by (auto simp: returns_def)
  then show ?thesis using p loaded_started [OF p(3)] by (simp add: xfrpc_start_from_file_def)
qed

lemma from_string_ok:
  assumes "\<And>t. config = Some t \<Longrightarrow> len \<le> length t"
  shows "returns (started k a) (xfrpc_start_from_string k task_ok toml_parse config len format cb user a)"
proof (cases "a_running a \<or> config = None")
  case True
  then show ?thesis by (auto simp: xfrpc_start_from_string_def not_touched)
next
  case False
  then obtain t where t: "config = Some t" "len \<le> length t" "\<not> a_running a" using assms by auto
  obtain rc st where "load_config_string k toml_parse config len format (a_cfg a) = Some (rc, st)" "rc = 0 \<longrightarrow> valid_config st"
    using string_outcome [OF t(2), of k toml_parse format "a_cfg a"] t(1) by (auto simp: returns_def)
  then show ?thesis using t loaded_started [OF t(3)] by (simp add: xfrpc_start_from_string_def)
qed

section \<open>Properties\<close>

text \<open>C22. Starting the client, through any of the three entry points, always ends. A client that is running is not
  touched. A client that is started was not running before, has its task, and has a configuration it can run with, in
  which TLS is enabled only if the build has it; every other result leaves it stopped.\<close>

theorem start_is_safe:
  assumes "\<forall>ps. proxies = Some ps \<longrightarrow> nat proxy_count \<le> length ps" "\<forall>t. config = Some t \<longrightarrow> len \<le> length t"
  shows "returns (started k a) (xfrpc_start k task_ok cfg proxies proxy_count cb user a)
    \<and> returns (started k a) (xfrpc_start_from_file k task_ok toml_parse files path format cb user a)
    \<and> returns (started k a) (xfrpc_start_from_string k task_ok toml_parse config len format cb user a)"
  using assms by (intro conjI start_ok from_file_ok from_string_ok) auto

definition demo_client :: client_config where
  "demo_client = \<lparr>x_server_addr = Some ''frps.example.com'', x_server_port = 7000, x_auth_token = None, x_user = None, x_heartbeat_interval = 0,
     x_heartbeat_timeout = 0, x_tcp_mux = -1, x_tls_enable = 0, x_tls_ca_pem = None, x_tls_cert_pem = None, x_tls_key_pem = None, x_tls_server_name = None\<rparr>"

definition demo_proxy :: tcp_proxy where
  "demo_proxy = \<lparr>x_name = Some ''web'', x_local_ip = Some ''127.0.0.1'', x_local_port = 8080, x_remote_port = 6000, x_use_encryption = 0, x_use_compression = 1\<rparr>"

definition stopped :: api where
  "stopped = \<lparr>a_task = False, a_running = False, a_cb = None, a_user = 0, a_reports = [], a_cfg = unconfigured\<rparr>"

theorem start_is_safe_witness:
  "\<exists>a'. xfrpc_start plain_build True (Some demo_client) (Some [demo_proxy]) 1 None 0 stopped = Some (0, a') \<and> started plain_build stopped (0, a')"
proof -
  have "\<exists>a'. xfrpc_start plain_build True (Some demo_client) (Some [demo_proxy]) 1 None 0 stopped = Some (0, a')"
    by (simp add: xfrpc_start_def stopped_def demo_client_def demo_proxy_def init_common_config_def free_all_proxy_services_def unconfigured_def
      init_common_conf_def zero_conf_def plain_build_def start_conf_def set_str_def validate_heartbeat_config_def config_add_proxy_service_def
      get_valid_type_def valid_types_def get_proxy_service_def new_proxy_service_def xfrpc_launch_def)
  then obtain a' where a': "xfrpc_start plain_build True (Some demo_client) (Some [demo_proxy]) 1 None 0 stopped = Some (0, a')" by blast
  then have "started plain_build stopped (0, a')"
    using start_is_safe [of "Some [demo_proxy]" 1 None 0 plain_build stopped True "Some demo_client" None 0] by simp
  with a' show ?thesis by blast
qed

end
