(* ===== verification/Spec2Isabelle.thy ===== *)
theory Spec2Isabelle
  imports Mux_Framing System Session_V2 Api
begin

text \<open>
  \<^bold>\<open>Verification of xfrpc for the ESP32\<close>, a client of the frp reverse proxy. The client keeps one control connection to
  the server (frps), registers the configured proxies over it, and on request opens work connections, streams of
  the same multiplexed connection, whose bytes it forwards to local services and back.

  \<^bold>\<open>Conventions.\<close> A C function that can reach undefined behaviour returns an \<open>option\<close> and \<open>None\<close> is that
  behaviour: access to freed or unallocated memory, a failed assertion, a loop without end. Error codes of the
  source are values under \<open>Some\<close>. Objects that are shared or freed live in maps from addresses; an address is used once. Memory, randomness, the clock, sockets and
  the libraries mbedtls, cJSON and snappy are arguments (\<open>cenv\<close>, \<open>env\<close>, \<open>host\<close>, allocators), answered by a
  counter of requests so that any of them may fail at any moment. Integers whose wrap-around matters are words of their width.
  The default build is modelled: wire protocol v1, modules QUIC, UDP, visitors and plugins replaced by the stubs of \<open>port/module_stubs.c\<close>.

  \<^bold>\<open>The parts and their theories.\<close>
  \<^item> \<open>Xfrpc_Prelude\<close>: machine integers, byte strings, partial operations (\<open>returns\<close>, \<open>yields\<close>). \<open>Byte_Order\<close>: \<open>common.c\<close>.
  \<^item> \<open>Grow_Buffer\<close>, \<open>Evbuffer\<close>: growable buffers of \<open>aead_stream.c\<close> and \<open>struct evbuffer\<close> of \<open>port/mini_event.c\<close>,
    shown to be byte lists; the other theories use lists for them.
  \<^item> \<open>Intrusive_List\<close>, \<open>Mini_Event\<close>: the event base of \<open>port/mini_event.c\<close>: pointer lists of timers and
    bufferevents, their operations, the dispatch loop. The lists refine lists of objects; the timer phase ends for callbacks that arm
    timers only for later (locale \<open>timer_callbacks\<close>).
  \<^item> \<open>Health_Check\<close>: \<open>health_check.c\<close> on top of it, the interpretation of \<open>timer_callbacks\<close>.
  \<^item> \<open>Json_Compat\<close>, \<open>Evp_Compat\<close>: the shims \<open>port/json_compat.c\<close> and \<open>port/openssl_compat.c\<close>.
  \<^item> \<open>Wire_V2\<close>, \<open>Aead_Stream\<close>: framing and authenticated encryption of protocol v2. \<open>Session_V2\<close>: the v2 session of
    \<open>control.c\<close> on top of them, with the handlers of messages as arguments.
  \<^item> \<open>Crypto_Stream\<close>, \<open>Main_Coder\<close>: \<open>crypto_stream.c\<close> and \<open>crypto.c\<close>, encryption of proxy data and of the control channel.
  \<^item> \<open>Mux_State\<close>, \<open>Tcpmux\<close>, \<open>Mux_Receive\<close>, \<open>Mux_Framing\<close>: the multiplexer, \<open>tcpmux.c\<close> and \<open>handle_tcp_mux\<close> of \<open>control.c\<close>: streams and
    clients in tables, sending within the window, the frame loop with its static variables.
  \<^item> \<open>Proxy_Base\<close>, \<open>Socks5\<close>, \<open>Xdpi\<close>, \<open>Proxy_Tcp\<close>, \<open>Client\<close>, \<open>Client_Safety\<close>: \<open>client.c\<close> and \<open>proxy_tcp.c\<close>: the handlers of a
    work connection and the life of a client.
  \<^item> \<open>Safety\<close>, \<open>Receive_Safety\<close>, \<open>Receive_Partial\<close>: every handler of a client is defined in every well-formed state and keeps it
    (locales \<open>stream_handler\<close>, \<open>message_handler\<close>), whatever arrives and whatever fails.
  \<^item> \<open>Msg\<close>, \<open>Msg_Roundtrip\<close>: the messages of \<open>msg.c\<close>, built and parsed.
  \<^item> \<open>Control_Send\<close>, \<open>Control\<close>, \<open>Control_Safety\<close>, \<open>Connection\<close>: \<open>control.c\<close> and \<open>login.c\<close>: login, registration, heartbeat,
    control messages, connecting and reconnecting.
  \<^item> \<open>Ini\<close>, \<open>Toml_Parser\<close>, \<open>Config\<close>: \<open>ini.c\<close>, \<open>toml_parser.c\<close> and \<open>config.c\<close>: the two formats, the settings, the table of services, the
    checks and the loaders (locale \<open>ini_client\<close>: what the INI parser needs of a handler). \<open>Api\<close>: \<open>port/xfrpc_api.c\<close>, starting the client.
  \<^item> \<open>System\<close>: all callbacks as one transition system with the reachable states and their invariant.

  \<^bold>\<open>What the properties show.\<close> Delivery: bytes are delivered in order and exactly once through the v2 framing, the AEAD stream, the v2 session,
  the control coder, the encryption of proxy data, the multiplexer and the SOCKS5 handler, for every way they are cut into pieces, up to two exceptions that the statements name (a first piece of
  encrypted proxy data shorter than the IV, a piece of a v2 session that starts with the magic bytes). Safety: tables
  stay well formed in every reachable state, every callback but the one reading from the server is defined, closing frees a client once,
  no two frames carry the same nonce, the protocol check lets nothing through before its decision. Functional behaviour of the operations with their error
  branches, the reconnection from scratch and that a lost connection is replaced if the server's connection opens, the verdict of health checks, the configurations that are accepted. Several theorems state faults of the code
  exactly: where a read goes beyond a buffer, a freed object is used, bytes are lost or the receiver stops.

  \<^bold>\<open>Bounds and fuel.\<close> The frame loop \<open>mux_loop\<close> terminates because every turn that goes on
  has consumed input. Loops that may run for ever, the dispatch loop and retries after EINTR, are \<open>partial_function\<close>s; the other
  recursive functions terminate by their proofs.

  \<^bold>\<open>Not modelled\<close>: the effect of protocol v2 on the control connection as a whole (its session is); the TOML
  parser proper, a parameter; the QUIC transport, compiled only with ngtcp2; the mbedtls glue \<open>port/tls.c\<close> and
  \<open>port/mini_event_ssl.c\<close>, behind the vtable of \<open>Mini_Event\<close>; messages for hole punching, whose users are not compiled in;
  platform glue, logging and vendored code (mongoose, snappy, tomlc17, uthash).
\<close>

end
